(* ===== verification/Prelude.thy ===== *)
theory Prelude
  imports Main "HOL-Library.Char_ord" "HOL-Library.List_Lexorder" "HOL-Library.Multiset"
begin

text \<open>
  Shared material of the development: the result type of fallible Go code, Go's map reads,
  fixed-width integers with their wrap-around, a model of \<^verbatim>\<open>sort.Slice\<close>, and generic
  lemmas on lists and options that the component theories use.
\<close>

named_theorems defs_of_loops "unfolding rules of the loop functions"
named_theorems frame_simps "what an operation leaves unchanged"
named_theorems trace_intros "an operation only appends to the trace"

section \<open>Errors and results\<close>

text \<open>
  An \<^verbatim>\<open>error\<close> value. The operator distinguishes the Kubernetes API errors it tests with
  \<^verbatim>\<open>IsNotFound\<close> and \<^verbatim>\<open>IsAlreadyExists\<close>; every other error is its text.
\<close>

datatype err = Err string | NotFound string | AlreadyExists string

fun errmsg :: "err \<Rightarrow> string" where
  "errmsg (Err m) = m"
| "errmsg (NotFound m) = m"
| "errmsg (AlreadyExists m) = m"

text \<open>
  \<^verbatim>\<open>fmt.Errorf("prefix: %w", err)\<close>: the text grows, the wrapped error keeps its kind
  (\<^verbatim>\<open>errors.Is\<close> looks through \<^verbatim>\<open>%w\<close>).
\<close>

fun wrapf :: "string \<Rightarrow> err \<Rightarrow> err" where
  "wrapf p (Err m) = Err (p @ m)"
| "wrapf p (NotFound m) = NotFound (p @ m)"
| "wrapf p (AlreadyExists m) = AlreadyExists (p @ m)"

text \<open>
  The outcome of a Go call: a value, a returned error, or a run-time panic (nil dereference,
  negative slice capacity, an explicit \<^verbatim>\<open>panic\<close>), which no error handler of the operator catches.
\<close>

datatype 'a res = Ok 'a | Fail err | Panic string

fun is_ok :: "'a res \<Rightarrow> bool" where
  "is_ok (Ok _) = True"
| "is_ok _ = False"

fun map_res :: "('a \<Rightarrow> 'b) \<Rightarrow> 'a res \<Rightarrow> 'b res" where
  "map_res f (Ok x) = Ok (f x)"
| "map_res f (Fail e) = Fail e"
| "map_res f (Panic m) = Panic m"

text \<open>Rewrap the error of a call (\<^verbatim>\<open>if err != nil { return fmt.Errorf(...) }\<close>).\<close>

fun wrap_res :: "string \<Rightarrow> 'a res \<Rightarrow> 'a res" where
  "wrap_res p (Ok x) = Ok x"
| "wrap_res p (Fail e) = Fail (wrapf p e)"
| "wrap_res p (Panic m) = Panic m"

lemma is_ok_iff: "is_ok r \<longleftrightarrow> (\<exists>x. r = Ok x)"
  by (cases r) auto

lemma map_res_Ok_iff: "map_res f r = Ok y \<longleftrightarrow> (\<exists>x. r = Ok x \<and> y = f x)"
  by (cases r) auto

lemma wrap_res_Ok_iff [simp]: "wrap_res p r = Ok y \<longleftrightarrow> r = Ok y"
  by (cases r) auto

section \<open>String-keyed maps\<close>

type_synonym strmap = "string \<rightharpoonup> string"

text \<open>\<^verbatim>\<open>m[k]\<close> on a \<^verbatim>\<open>map[string]string\<close>: the zero value for a missing key, also on a nil map.\<close>

definition mget :: "strmap \<Rightarrow> string \<Rightarrow> string" where
  "mget m k = (case m k of None \<Rightarrow> '''' | Some v \<Rightarrow> v)"

lemma mget_Some [simp]: "m k = Some v \<Longrightarrow> mget m k = v"
  by (simp add: mget_def)

lemma mget_None [simp]: "m k = None \<Longrightarrow> mget m k = ''''"
  by (simp add: mget_def)

lemma mget_nonempty: "mget m k = v \<Longrightarrow> v \<noteq> '''' \<Longrightarrow> m k = Some v"
  by (auto simp: mget_def split: option.splits)

section \<open>Fixed-width integers\<close>

text \<open>
  \<^verbatim>\<open>int32\<close> and \<^verbatim>\<open>int\<close> (64 bits) are mathematical integers here, with the wrap-around of
  two's complement written out at every addition and subtraction the code performs.
\<close>

definition wrap32 :: "int \<Rightarrow> int" where
  "wrap32 x = (x + 2 ^ 31) mod 2 ^ 32 - 2 ^ 31"

definition wrap64 :: "int \<Rightarrow> int" where
  "wrap64 x = (x + 2 ^ 63) mod 2 ^ 64 - 2 ^ 63"

definition is_int32 :: "int \<Rightarrow> bool" where
  "is_int32 x \<longleftrightarrow> - (2 ^ 31) \<le> x \<and> x < 2 ^ 31"

definition is_int64 :: "int \<Rightarrow> bool" where
  "is_int64 x \<longleftrightarrow> - (2 ^ 63) \<le> x \<and> x < 2 ^ 63"

lemma wrap32_id: "is_int32 x \<Longrightarrow> wrap32 x = x"
  by (simp add: is_int32_def wrap32_def)

lemma wrap64_id: "is_int64 x \<Longrightarrow> wrap64 x = x"
  by (simp add: is_int64_def wrap64_def)

lemma is_int32_wrap32: "is_int32 (wrap32 x)"
proof -
  have "0 \<le> (x + 2 ^ 31) mod 2 ^ 32" and "(x + 2 ^ 31) mod 2 ^ 32 < (2 ^ 32 :: int)"
    by (simp_all del: power_numeral)
  then show ?thesis by (simp add: is_int32_def wrap32_def)
qed

lemma is_int32_imp_is_int64: "is_int32 x \<Longrightarrow> is_int64 x"
  by (simp add: is_int32_def is_int64_def)

text \<open>The difference of two non-negative \<^verbatim>\<open>int32\<close> values never wraps.\<close>

lemma wrap32_diff_nonneg:
  assumes "is_int32 a" and "is_int32 b" and "0 \<le> a" and "0 \<le> b"
  shows "wrap32 (a - b) = a - b"
  using assms by (intro wrap32_id) (simp add: is_int32_def)

section \<open>Sorting with a comparison function\<close>

text \<open>
  \<^verbatim>\<open>sort.Slice(xs, less)\<close>. The insertion sort below is what the Go runtime runs on slices of at
  most twelve elements: each element moves left while it is \<^verbatim>\<open>less\<close> than its predecessor. On
  longer slices the runtime uses pattern-defeating quicksort; wherever \<^verbatim>\<open>less\<close> is a strict total
  order on the elements the result is the same list (\<open>go_sort_unique\<close>).
\<close>

fun ins_back :: "('a \<Rightarrow> 'a \<Rightarrow> bool) \<Rightarrow> 'a \<Rightarrow> 'a list \<Rightarrow> 'a list" where
  "ins_back lt x [] = [x]"
| "ins_back lt x (y # ys) = (if lt x y then y # ins_back lt x ys else x # y # ys)"

fun ins_all :: "('a \<Rightarrow> 'a \<Rightarrow> bool) \<Rightarrow> 'a list \<Rightarrow> 'a list \<Rightarrow> 'a list" where
  "ins_all lt acc [] = acc"
| "ins_all lt acc (x # xs) = ins_all lt (ins_back lt x acc) xs"

definition go_sort :: "('a \<Rightarrow> 'a \<Rightarrow> bool) \<Rightarrow> 'a list \<Rightarrow> 'a list" where
  "go_sort lt xs = rev (ins_all lt [] xs)"

lemma mset_ins_back [simp]: "mset (ins_back lt x ys) = add_mset x (mset ys)"
  by (induction ys) auto

lemma mset_ins_all [simp]: "mset (ins_all lt acc xs) = mset acc + mset xs"
  by (induction xs arbitrary: acc) auto

lemma mset_go_sort [simp]: "mset (go_sort lt xs) = mset xs"
  by (simp add: go_sort_def)

lemma set_go_sort [simp]: "set (go_sort lt xs) = set xs"
  by (metis mset_go_sort set_mset_mset)

lemma length_go_sort [simp]: "length (go_sort lt xs) = length xs"
  by (metis mset_go_sort size_mset)

lemma go_sort_Nil_iff [simp]: "go_sort lt xs = [] \<longleftrightarrow> xs = []"
  by (metis length_0_conv length_go_sort)

lemma distinct_go_sort [simp]: "distinct (go_sort lt xs) = distinct xs"
  by (metis mset_eq_imp_distinct_iff mset_go_sort)

lemma distinct_map_go_sort [simp]: "distinct (map f (go_sort lt xs)) = distinct (map f xs)"
  by (metis mset_eq_imp_distinct_iff mset_go_sort mset_map)

definition strict_total_on :: "('a \<Rightarrow> 'a \<Rightarrow> bool) \<Rightarrow> 'a set \<Rightarrow> bool" where
  "strict_total_on lt A \<longleftrightarrow>
     (\<forall>x\<in>A. \<not> lt x x) \<and>
     (\<forall>x\<in>A. \<forall>y\<in>A. \<forall>z\<in>A. lt x y \<longrightarrow> lt y z \<longrightarrow> lt x z) \<and>
     (\<forall>x\<in>A. \<forall>y\<in>A. x \<noteq> y \<longrightarrow> lt x y \<or> lt y x)"

lemma strict_total_on_subset: "strict_total_on lt A \<Longrightarrow> B \<subseteq> A \<Longrightarrow> strict_total_on lt B"
  unfolding strict_total_on_def by (meson subsetD)

lemma strict_total_on_irrefl: "strict_total_on lt A \<Longrightarrow> x \<in> A \<Longrightarrow> \<not> lt x x"
  unfolding strict_total_on_def by blast

lemma strict_total_on_trans:
  "strict_total_on lt A \<Longrightarrow> x \<in> A \<Longrightarrow> y \<in> A \<Longrightarrow> z \<in> A \<Longrightarrow> lt x y \<Longrightarrow> lt y z \<Longrightarrow> lt x z"
  unfolding strict_total_on_def by blast

lemma strict_total_on_total:
  "strict_total_on lt A \<Longrightarrow> x \<in> A \<Longrightarrow> y \<in> A \<Longrightarrow> x \<noteq> y \<Longrightarrow> lt x y \<or> lt y x"
  unfolding strict_total_on_def by blast

lemma set_ins_back [simp]: "set (ins_back lt x ys) = insert x (set ys)"
  by (induction ys) auto

lemma sorted_ins_back:
  assumes "strict_total_on lt (insert x (set ys))" and "x \<notin> set ys"
    and "sorted_wrt (\<lambda>a b. lt b a) ys"
  shows "sorted_wrt (\<lambda>a b. lt b a) (ins_back lt x ys)"
  using assms
proof (induction ys)
  case (Cons y ys)
  have sub: "strict_total_on lt (insert x (set ys))"
    using Cons.prems(1) by (rule strict_total_on_subset) auto
  show ?case
  proof (cases "lt x y")
    case True
    with Cons sub show ?thesis by auto
  next
    case False
    with Cons.prems have "lt y x" using strict_total_on_total [OF Cons.prems(1), of x y] by simp
    moreover have "\<forall>z\<in>set ys. lt z y" using Cons.prems by simp
    ultimately have "\<forall>z\<in>set ys. lt z x"
      using strict_total_on_trans [OF Cons.prems(1), of _ y x] by simp
    with False Cons.prems \<open>lt y x\<close> show ?thesis by auto
  qed
qed simp

lemma sorted_ins_all:
  assumes "strict_total_on lt (set acc \<union> set xs)" and "distinct xs" and "set acc \<inter> set xs = {}"
    and "sorted_wrt (\<lambda>a b. lt b a) acc"
  shows "sorted_wrt (\<lambda>a b. lt b a) (ins_all lt acc xs)"
  using assms
proof (induction xs arbitrary: acc)
  case (Cons x xs)
  have "strict_total_on lt (insert x (set acc))"
    using Cons.prems(1) by (rule strict_total_on_subset) auto
  then have "sorted_wrt (\<lambda>a b. lt b a) (ins_back lt x acc)"
    using Cons.prems by (intro sorted_ins_back) auto
  moreover have "strict_total_on lt (set (ins_back lt x acc) \<union> set xs)"
    using Cons.prems(1) by (rule strict_total_on_subset) auto
  ultimately have "sorted_wrt (\<lambda>a b. lt b a) (ins_all lt (ins_back lt x acc) xs)"
    using Cons.prems by (intro Cons.IH) auto
  then show ?case by simp
qed simp

lemma go_sort_sorted:
  assumes "strict_total_on lt (set xs)" and "distinct xs"
  shows "sorted_wrt lt (go_sort lt xs)"
  using assms by (simp add: go_sort_def sorted_wrt_rev sorted_ins_all)

lemma sorted_wrt_unique:
  assumes "strict_total_on lt (set xs)" and "sorted_wrt lt xs" and "sorted_wrt lt ys"
    and "mset xs = mset ys"
  shows "xs = ys"
  using assms
proof (induction xs arbitrary: ys)
  case (Cons x xs)
  then obtain y ys' where ys: "ys = y # ys'"
    by (metis list.exhaust mset.simps(1) mset_zero_iff_right list.distinct(1))
  have seteq: "set ys = set (x # xs)" using Cons.prems(4) by (metis set_mset_mset)
  have "x = y"
  proof (rule ccontr)
    assume "x \<noteq> y"
    with seteq ys have "x \<in> set ys'" and "y \<in> set xs" by auto
    with Cons.prems(2,3) ys have "lt x y" and "lt y x" by auto
    with \<open>y \<in> set xs\<close> have "lt x x"
      using strict_total_on_trans [OF Cons.prems(1), of x y x] by simp
    then show False using strict_total_on_irrefl [OF Cons.prems(1), of x] by simp
  qed
  moreover have "strict_total_on lt (set xs)"
    using Cons.prems(1) by (rule strict_total_on_subset) auto
  ultimately show ?case using Cons ys by auto
qed simp

text \<open>Any sorted permutation is the one \<^const>\<open>go_sort\<close> computes: the algorithm does not matter.\<close>

lemma go_sort_unique:
  assumes "strict_total_on lt (set xs)" and "distinct xs"
    and "mset ys = mset xs" and "sorted_wrt lt ys"
  shows "ys = go_sort lt xs"
  using assms go_sort_sorted [of lt xs]
  by (metis mset_go_sort set_go_sort sorted_wrt_unique)

end
