(* ===== verification/GoStd.thy ===== *)
theory GoStd
  imports Prelude Complex_Main
begin

text \<open>
  What the operator uses of Go's standard library: \<^verbatim>\<open>strconv\<close> (Atoi, ParseInt, ParseBool, Itoa),
  \<^verbatim>\<open>strings\<close> (TrimSpace, HasSuffix, HasPrefix), \<^verbatim>\<open>time\<close> (instants, durations, ParseDuration,
  RFC 3339), and the \<^verbatim>\<open>float64\<close> arithmetic of percentages. Strings are byte strings.
\<close>

section \<open>Decimal numbers\<close>

definition is_digit :: "char \<Rightarrow> bool" where
  "is_digit c \<longleftrightarrow> 48 \<le> (of_char c :: int) \<and> (of_char c :: int) \<le> 57"

definition digit_val :: "char \<Rightarrow> int" where
  "digit_val c = of_char c - 48"

definition digit_char :: "int \<Rightarrow> char" where
  "digit_char n = char_of (48 + n)"

fun dec_val :: "int \<Rightarrow> string \<Rightarrow> int" where
  "dec_val acc [] = acc"
| "dec_val acc (c # cs) = dec_val (10 * acc + digit_val c) cs"

text \<open>An unsigned decimal literal: at least one digit and nothing else.\<close>

definition parse_dec :: "string \<Rightarrow> int option" where
  "parse_dec s = (if s \<noteq> [] \<and> list_all is_digit s then Some (dec_val 0 s) else None)"

text \<open>An optional sign followed by decimal digits, as \<^verbatim>\<open>strconv.ParseInt(s, 10, _)\<close> accepts.\<close>

fun parse_signed :: "string \<Rightarrow> int option" where
  "parse_signed [] = None"
| "parse_signed (c # cs) =
     (if c = CHR ''-'' then map_option uminus (parse_dec cs)
      else if c = CHR ''+'' then parse_dec cs
      else parse_dec (c # cs))"

text \<open>\<^verbatim>\<open>strconv.Atoi\<close>: out-of-range and malformed inputs are errors (\<^const>\<open>None\<close>).\<close>

definition Atoi :: "string \<Rightarrow> int option" where
  "Atoi s = (case parse_signed s of None \<Rightarrow> None | Some v \<Rightarrow> if is_int64 v then Some v else None)"

text \<open>\<^verbatim>\<open>strconv.ParseInt(s, 10, 32)\<close>.\<close>

definition ParseInt32 :: "string \<Rightarrow> int option" where
  "ParseInt32 s = (case parse_signed s of None \<Rightarrow> None | Some v \<Rightarrow> if is_int32 v then Some v else None)"

definition ParseBool :: "string \<Rightarrow> bool option" where
  "ParseBool s =
     (if s \<in> {''1'', ''t'', ''T'', ''TRUE'', ''true'', ''True''} then Some True
      else if s \<in> {''0'', ''f'', ''F'', ''FALSE'', ''false'', ''False''} then Some False
      else None)"

text \<open>The decimal digits of a non-negative integer.\<close>

function dec_str :: "int \<Rightarrow> string" where
  "dec_str n = (if n < 10 then [digit_char n] else dec_str (n div 10) @ [digit_char (n mod 10)])"
  by pat_completeness auto
termination
  by (relation "measure nat") auto

declare dec_str.simps [simp del]

text \<open>\<^verbatim>\<open>strconv.Itoa\<close>, \<^verbatim>\<open>%d\<close> and \<^verbatim>\<open>%v\<close> of an integer.\<close>

definition Itoa :: "int \<Rightarrow> string" where
  "Itoa x = (if x < 0 then CHR ''-'' # dec_str (- x) else dec_str x)"

lemma digit_char_props [simp]:
  assumes "0 \<le> n" and "n < 10"
  shows "is_digit (digit_char n)" and "digit_val (digit_char n) = n"
  using assms by (simp_all add: is_digit_def digit_val_def digit_char_def)

lemma digit_val_range: "is_digit c \<Longrightarrow> 0 \<le> digit_val c \<and> digit_val c < 10"
  by (simp add: is_digit_def digit_val_def)

lemma dec_val_append: "dec_val acc (xs @ ys) = dec_val (dec_val acc xs) ys"
  by (induction xs arbitrary: acc) auto

lemma dec_val_nonneg: "0 \<le> acc \<Longrightarrow> list_all is_digit s \<Longrightarrow> 0 \<le> dec_val acc s"
  by (induction s arbitrary: acc) (auto simp: digit_val_range)

lemma parse_dec_nonneg: "parse_dec s = Some v \<Longrightarrow> 0 \<le> v"
  by (auto simp: parse_dec_def dec_val_nonneg split: if_splits)

lemma dec_str_nonempty [simp]: "dec_str n \<noteq> []"
  by (subst dec_str.simps) simp

lemma dec_str_digits: "0 \<le> n \<Longrightarrow> list_all is_digit (dec_str n)"
proof (induction n rule: dec_str.induct)
  case (1 n)
  then show ?case by (subst dec_str.simps) (auto simp: list_all_append)
qed

lemma dec_val_dec_str: "0 \<le> n \<Longrightarrow> dec_val 0 (dec_str n) = n"
proof (induction n rule: dec_str.induct)
  case (1 n)
  show ?case
  proof (cases "n < 10")
    case True
    with 1 show ?thesis by (subst dec_str.simps) simp
  next
    case False
    with 1 have "dec_val 0 (dec_str (n div 10)) = n div 10" by simp
    with False show ?thesis by (subst dec_str.simps) (simp add: dec_val_append)
  qed
qed

lemma parse_dec_dec_str [simp]: "0 \<le> n \<Longrightarrow> parse_dec (dec_str n) = Some n"
  by (simp add: parse_dec_def dec_str_digits dec_val_dec_str)

lemma dec_str_inj: "0 \<le> m \<Longrightarrow> 0 \<le> n \<Longrightarrow> dec_str m = dec_str n \<Longrightarrow> m = n"
  by (metis dec_val_dec_str)

lemma is_digit_not_sign: "is_digit c \<Longrightarrow> c \<noteq> CHR ''-'' \<and> c \<noteq> CHR ''+''"
  by (auto simp: is_digit_def)

lemma parse_signed_Itoa: "parse_signed (Itoa x) = Some x"
proof (cases "x < 0")
  case True
  then show ?thesis by (simp add: Itoa_def)
next
  case False
  obtain c cs where eq: "dec_str x = c # cs" by (metis list.exhaust dec_str_nonempty)
  then have "is_digit c" using dec_str_digits [of x] False by simp
  then have "c \<noteq> CHR ''-''" and "c \<noteq> CHR ''+''" using is_digit_not_sign by auto
  moreover have "parse_dec (c # cs) = Some x" using False eq parse_dec_dec_str [of x] by simp
  ultimately show ?thesis using False eq by (simp add: Itoa_def)
qed

lemma Atoi_Itoa: "is_int64 x \<Longrightarrow> Atoi (Itoa x) = Some x"
  by (simp add: Atoi_def parse_signed_Itoa)

lemma Atoi_dec_str: "0 \<le> n \<Longrightarrow> n < 2 ^ 63 \<Longrightarrow> Atoi (dec_str n) = Some n"
  using Atoi_Itoa [of n] by (simp add: Itoa_def is_int64_def)

lemma ParseInt32_range: "ParseInt32 s = Some v \<Longrightarrow> is_int32 v"
  by (auto simp: ParseInt32_def split: option.splits if_splits)

section \<open>Strings\<close>

text \<open>\<^verbatim>\<open>%q\<close>, for strings that hold no character it escapes.\<close>

definition quoted :: "string \<Rightarrow> string" where
  "quoted s = CHR 0x22 # s @ [CHR 0x22]"

definition TrimPrefix :: "string \<Rightarrow> string \<Rightarrow> string" where
  "TrimPrefix s p = (if take (length p) s = p then drop (length p) s else s)"

text \<open>\<^verbatim>\<open>strings.SplitN(s, sep, n)\<close> with a separator of one byte: at most \<open>n\<close> parts, the last one unsplit.\<close>

fun SplitN :: "string \<Rightarrow> char \<Rightarrow> nat \<Rightarrow> string list" where
  "SplitN s sep 0 = []"
| "SplitN s sep (Suc 0) = [s]"
| "SplitN s sep (Suc (Suc n)) =
     (if sep \<in> set s then takeWhile (\<lambda>c. c \<noteq> sep) s # SplitN (tl (dropWhile (\<lambda>c. c \<noteq> sep) s)) sep (Suc n) else [s])"


definition HasPrefix :: "string \<Rightarrow> string \<Rightarrow> bool" where
  "HasPrefix s p \<longleftrightarrow> take (length p) s = p"

definition HasSuffix :: "string \<Rightarrow> string \<Rightarrow> bool" where
  "HasSuffix s p \<longleftrightarrow> HasPrefix (rev s) (rev p)"

text \<open>The UTF-8 encodings of the runes \<^verbatim>\<open>unicode.IsSpace\<close> accepts.\<close>

definition space_encodings :: "string list" where
  "space_encodings =
     [[CHR 0x09], [CHR 0x0A], [CHR 0x0B], [CHR 0x0C], [CHR 0x0D], [CHR 0x20],
      [CHR 0xC2, CHR 0x85], [CHR 0xC2, CHR 0xA0], [CHR 0xE1, CHR 0x9A, CHR 0x80]]
     @ map (\<lambda>c. [CHR 0xE2, CHR 0x80, c])
         [CHR 0x80, CHR 0x81, CHR 0x82, CHR 0x83, CHR 0x84, CHR 0x85,
          CHR 0x86, CHR 0x87, CHR 0x88, CHR 0x89, CHR 0x8A]
     @ [[CHR 0xE2, CHR 0x80, CHR 0xA8], [CHR 0xE2, CHR 0x80, CHR 0xA9],
        [CHR 0xE2, CHR 0x80, CHR 0xAF], [CHR 0xE2, CHR 0x81, CHR 0x9F],
        [CHR 0xE3, CHR 0x80, CHR 0x80]]"

lemma HasPrefix_length: "HasPrefix s w \<Longrightarrow> length w \<le> length s"
  unfolding HasPrefix_def by (metis length_take min.cobounded1)

function strip_front :: "string list \<Rightarrow> string \<Rightarrow> string" where
  "strip_front ws s =
     (case find (\<lambda>w. w \<noteq> [] \<and> HasPrefix s w) ws of
        None \<Rightarrow> s
      | Some w \<Rightarrow> strip_front ws (drop (length w) s))"
  by pat_completeness auto
termination
  by (relation "measure (\<lambda>(ws, s). length s)")
     (auto simp: find_Some_iff dest!: HasPrefix_length intro!: diff_less)

declare strip_front.simps [simp del]

definition TrimSpace :: "string \<Rightarrow> string" where
  "TrimSpace s = rev (strip_front (map rev space_encodings) (rev (strip_front space_encodings s)))"

text \<open>A string that starts and ends with a visible ASCII character is left alone.\<close>

definition visible :: "char \<Rightarrow> bool" where
  "visible c \<longleftrightarrow> 33 \<le> (of_char c :: int) \<and> (of_char c :: int) \<le> 126"

lemma space_encodings_ends:
  "list_all (\<lambda>w. w \<noteq> [] \<and> \<not> visible (hd w) \<and> \<not> visible (last w)) space_encodings"
  by (simp add: space_encodings_def visible_def)

lemma strip_front_id:
  assumes "s \<noteq> []" and "visible (hd s)" and "\<forall>w\<in>set ws. w = [] \<or> \<not> visible (hd w)"
  shows "strip_front ws s = s"
proof -
  have "\<not> (w \<noteq> [] \<and> HasPrefix s w)" if "w \<in> set ws" for w
    using assms that by (cases s; cases w) (auto simp: HasPrefix_def)
  then have "find (\<lambda>w. w \<noteq> [] \<and> HasPrefix s w) ws = None" by (simp add: find_None_iff)
  then show ?thesis by (subst strip_front.simps) simp
qed

lemma TrimSpace_id:
  assumes "s \<noteq> []" and "visible (hd s)" and "visible (last s)"
  shows "TrimSpace s = s"
proof -
  have "\<forall>w\<in>set space_encodings. w = [] \<or> \<not> visible (hd w)"
    and "\<forall>w\<in>set (map rev space_encodings). w = [] \<or> \<not> visible (hd w)"
    using space_encodings_ends by (auto simp: list_all_iff hd_rev)
  then show ?thesis
    using assms by (simp add: TrimSpace_def strip_front_id hd_rev)
qed

lemma is_digit_visible: "is_digit c \<Longrightarrow> visible c"
  by (simp add: is_digit_def visible_def)

lemma dec_str_ends: "0 \<le> n \<Longrightarrow> is_digit (hd (dec_str n)) \<and> is_digit (last (dec_str n))"
  using dec_str_digits [of n] by (simp add: list_all_iff)

section \<open>Instants and durations\<close>

text \<open>
  A \<^verbatim>\<open>time.Time\<close> is the number of nanoseconds since January 1 of year 1, UTC, so that the zero
  \<^verbatim>\<open>time.Time\<close> is 0; a \<^verbatim>\<open>time.Duration\<close> is a signed 64-bit number of nanoseconds.
\<close>

type_synonym instant = int
type_synonym duration = int

definition second :: duration where "second = 1000000000"
definition minute :: duration where "minute = 60 * second"
definition hour :: duration where "hour = 60 * minute"

text \<open>\<^verbatim>\<open>t.Sub(u)\<close> saturates at the smallest and largest duration.\<close>

definition time_sub :: "instant \<Rightarrow> instant \<Rightarrow> duration" where
  "time_sub t u = max (- (2 ^ 63)) (min (2 ^ 63 - 1) (t - u))"

lemma time_sub_range: "is_int64 (time_sub t u)"
  by (auto simp: time_sub_def is_int64_def)

lemma time_sub_mono: "t \<le> t' \<Longrightarrow> time_sub t u \<le> time_sub t' u"
  by (auto simp: time_sub_def)

lemma time_sub_less_iff: "is_int64 d \<Longrightarrow> 0 \<le> d \<Longrightarrow> time_sub t u < d \<longleftrightarrow> t - u < d"
  by (auto simp: time_sub_def is_int64_def)

lemma less_time_sub_iff: "is_int64 d \<Longrightarrow> d < 2 ^ 63 - 1 \<Longrightarrow> d < time_sub t u \<longleftrightarrow> d < t - u"
  by (auto simp: time_sub_def is_int64_def)


section \<open>Double-precision arithmetic\<close>

text \<open>
  \<open>fl64 q\<close> is the IEEE-754 double nearest to the rational \<open>q\<close>, ties to even, for magnitudes
  between the smallest normal and the largest finite double (all the operator computes with).
\<close>

fun ilog2 :: "nat \<Rightarrow> nat" where
  "ilog2 n = (if n < 2 then 0 else Suc (ilog2 (n div 2)))"

declare ilog2.simps [simp del]

definition float_exp :: "rat \<Rightarrow> int" where
  "float_exp q =
     (let (a, b) = quotient_of \<bar>q\<bar>;
          e = int (ilog2 (nat a)) - int (ilog2 (nat b))
      in if (2 :: rat) powi e \<le> \<bar>q\<bar> then e else e - 1)"

definition round_half_even :: "rat \<Rightarrow> int" where
  "round_half_even q =
     (let f = \<lfloor>q\<rfloor>; d = q - of_int f
      in if d < 1 / 2 then f else if d > 1 / 2 then f + 1 else if even f then f else f + 1)"

definition fl64 :: "rat \<Rightarrow> rat" where
  "fl64 q =
     (if q = 0 then 0
      else let ulp = (2 :: rat) powi (float_exp q - 52)
           in of_int (round_half_even (q / ulp)) * ulp)"

text \<open>\<^verbatim>\<open>int(math.Floor(float64(n) / 100))\<close>.\<close>

definition floor_hundredth :: "int \<Rightarrow> int" where
  "floor_hundredth n = \<lfloor>fl64 (fl64 (of_int n) / 100)\<rfloor>"

lemma ilog2_bounds: "0 < n \<Longrightarrow> 2 ^ ilog2 n \<le> n \<and> n < 2 ^ Suc (ilog2 n)"
proof (induction n rule: ilog2.induct)
  case (1 n)
  show ?case
  proof (cases "n < 2")
    case True
    with 1 show ?thesis by (subst (1 2) ilog2.simps) simp
  next
    case False
    with 1 have IH: "2 ^ ilog2 (n div 2) \<le> n div 2" "n div 2 < 2 ^ Suc (ilog2 (n div 2))" by simp_all
    from False have "ilog2 n = Suc (ilog2 (n div 2))" by (subst ilog2.simps) simp
    with IH show ?thesis by (simp, linarith)
  qed
qed

lemma float_exp_lower:
  assumes "q \<noteq> 0"
  shows "(2 :: rat) powi float_exp q \<le> \<bar>q\<bar>"
proof -
  obtain a b where ab: "quotient_of \<bar>q\<bar> = (a, b)" by fastforce
  have b: "0 < b" and q: "\<bar>q\<bar> = of_int a / of_int b"
    using ab quotient_of_denom_pos quotient_of_div by blast+
  have "0 < \<bar>q\<bar>" using assms by simp
  then have a: "0 < a" using q b by (simp add: zero_less_divide_iff)
  let ?e = "int (ilog2 (nat a)) - int (ilog2 (nat b))"
  have "(2 :: rat) ^ ilog2 (nat a) \<le> of_int a"
  proof -
    have "(2 :: nat) ^ ilog2 (nat a) \<le> nat a" using ilog2_bounds [of "nat a"] a by simp
    then have "of_nat (2 ^ ilog2 (nat a)) \<le> (of_nat (nat a) :: rat)" by (simp only: of_nat_le_iff)
    then show ?thesis using a by simp
  qed
  moreover have "of_int b \<le> (2 :: rat) * 2 ^ ilog2 (nat b)"
  proof -
    have "nat b < (2 :: nat) ^ Suc (ilog2 (nat b))" using ilog2_bounds [of "nat b"] b by simp
    then have "of_nat (nat b) \<le> (of_nat (2 ^ Suc (ilog2 (nat b))) :: rat)"
      by (simp only: of_nat_le_iff less_imp_le)
    then show ?thesis using b by simp
  qed
  ultimately have "(2 :: rat) ^ ilog2 (nat a) / (2 * 2 ^ ilog2 (nat b)) \<le> of_int a / of_int b"
    using a b by (intro frac_le) simp_all
  moreover have "(2 :: rat) ^ ilog2 (nat a) / (2 * 2 ^ ilog2 (nat b)) = 2 powi (?e - 1)"
    by (simp add: power_int_diff)
  ultimately show ?thesis
    using q ab by (simp add: float_exp_def Let_def)
qed

lemma round_half_even_error: "\<bar>of_int (round_half_even q) - q\<bar> \<le> 1 / 2"
proof -
  have "of_int \<lfloor>q\<rfloor> \<le> q" "q < of_int \<lfloor>q\<rfloor> + 1" by linarith+
  then show ?thesis by (auto simp: round_half_even_def Let_def abs_le_iff)
qed

lemma round_half_even_of_int: "round_half_even (of_int k) = k"
  by (simp add: round_half_even_def)

lemma fl64_error: "\<bar>fl64 q - q\<bar> \<le> \<bar>q\<bar> / 2 ^ 53"
proof (cases "q = 0")
  case False
  define ulp where "ulp = (2 :: rat) powi (float_exp q - 52)"
  have pos: "0 < ulp" by (simp add: ulp_def)
  have eq: "fl64 q - q = (of_int (round_half_even (q / ulp)) - q / ulp) * ulp"
    using False pos by (simp add: fl64_def ulp_def [symmetric] Let_def left_diff_distrib)
  have "\<bar>fl64 q - q\<bar> = \<bar>of_int (round_half_even (q / ulp)) - q / ulp\<bar> * ulp"
    unfolding eq abs_mult using pos by simp
  also have "\<dots> \<le> 1 / 2 * ulp"
    using round_half_even_error [of "q / ulp"] pos by (intro mult_right_mono) simp_all
  also have "ulp = 2 powi float_exp q / 2 ^ 52"
    by (simp add: ulp_def power_int_diff)
  also have "1 / 2 * (2 powi float_exp q / 2 ^ 52) \<le> 1 / 2 * (\<bar>q\<bar> / 2 ^ 52)"
    using float_exp_lower [OF False] by (simp add: divide_right_mono)
  also have "\<dots> = \<bar>q\<bar> / 2 ^ 53" by simp
  finally show ?thesis .
qed (simp add: fl64_def)

lemma fl64_of_int:
  assumes "\<bar>n\<bar> < 2 ^ 53"
  shows "fl64 (of_int n) = of_int n"
proof (cases "n = 0")
  case False
  have "(2 :: rat) powi float_exp (of_int n) \<le> \<bar>of_int n\<bar>"
    using False by (intro float_exp_lower) simp
  also have "\<dots> = of_int \<bar>n\<bar>" by simp
  also have "\<dots> < of_int (2 ^ 53)" using assms by (simp only: of_int_less_iff)
  also have "\<dots> = (2 :: rat) powi 53" by simp
  finally have "(2 :: rat) powi float_exp (of_int n) < 2 powi 53" .
  then have "float_exp (of_int n) < 53"
    using power_int_increasing [of 53 "float_exp (of_int n)" "2 :: rat"] by linarith
  then have k: "52 - float_exp (of_int n) = int (nat (52 - float_exp (of_int n)))" by simp
  define k where "k = nat (52 - float_exp (of_int n))"
  from k have ulp: "(2 :: rat) powi (float_exp (of_int n) - 52) = 1 / 2 ^ k"
    unfolding k_def by (metis minus_diff_eq power_int_minus_divide power_int_of_nat)
  have "(of_int n :: rat) / (1 / 2 ^ k) = of_int (n * 2 ^ k)" by simp
  then have "fl64 (of_int n) = of_int (n * 2 ^ k) * (1 / 2 ^ k)"
    using False by (simp only: fl64_def ulp Let_def round_half_even_of_int) simp
  then show ?thesis by simp
qed (simp add: fl64_def)

text \<open>
  The percentage computations are exact integer divisions: for products below \<open>2 ^ 45\<close> the rounding
  of the quotient never reaches the next integer.
\<close>

lemma floor_hundredth_eq:
  assumes "\<bar>n\<bar> < 2 ^ 45"
  shows "floor_hundredth n = n div 100"
proof -
  define k where "k = n div 100"
  define r where "r = n mod 100"
  have n: "n = 100 * k + r" and r: "0 \<le> r" "r < 100" by (simp_all add: k_def r_def)
  have exact: "fl64 (of_int n) = of_int n" using assms by (intro fl64_of_int) simp
  define q where "q = (of_int n :: rat) / 100"
  have q: "q = of_int k + of_int r / 100" by (simp add: q_def n)
  have "\<lfloor>fl64 q\<rfloor> = k"
  proof (cases "r = 0")
    case True
    have "\<bar>k\<bar> < 2 ^ 53" using assms n r by simp
    then show ?thesis using True q by (simp add: fl64_of_int)
  next
    case False
    then have lo: "of_int k + 1 / 100 \<le> q" and hi: "q \<le> of_int k + 99 / 100"
      using r by (auto simp: q)
    have "\<bar>q\<bar> = of_int \<bar>n\<bar> / 100" by (simp add: q_def)
    also have "\<dots> < 2 ^ 45 / 100"
    proof -
      have "(of_int \<bar>n\<bar> :: rat) < of_int (2 ^ 45)" using assms by (simp only: of_int_less_iff)
      then show ?thesis by simp
    qed
    finally have "\<bar>q\<bar> / 2 ^ 53 < 1 / 100" by simp
    then have "\<bar>fl64 q - q\<bar> < 1 / 100" using fl64_error [of q] by simp
    then have "of_int k \<le> fl64 q" and "fl64 q < of_int k + 1" using lo hi by linarith+
    then show ?thesis by (simp add: floor_eq_iff)
  qed
  then show ?thesis by (simp add: floor_hundredth_def exact q_def k_def)
qed

end
