(* ===== verification/GoTime.thy ===== *)
theory GoTime
  imports GoStd "HOL-Library.Monad_Syntax"
begin

text \<open>
  \<^verbatim>\<open>time.ParseDuration\<close> and \<^verbatim>\<open>time.Parse(time.RFC3339, _)\<close>, with the printer
  \<^verbatim>\<open>t.UTC().Format(time.RFC3339)\<close> the webhooks write timestamps with.
\<close>

section \<open>Durations\<close>

definition is_unit_char :: "char \<Rightarrow> bool" where
  "is_unit_char c \<longleftrightarrow> \<not> (c = CHR ''.'' \<or> is_digit c)"

text \<open>The unit table; the micro sign is accepted as U+00B5 and as U+03BC.\<close>

definition unit_ns :: "string \<Rightarrow> int option" where
  "unit_ns = map_of
     [(''ns'', 1), (''us'', 1000), ([CHR 0xC2, CHR 0xB5, CHR ''s''], 1000),
      ([CHR 0xCE, CHR 0xBC, CHR ''s''], 1000), (''ms'', 1000000), (''s'', 1000000000),
      (''m'', 60000000000), (''h'', 3600000000000)]"

fun leadingInt :: "int \<Rightarrow> string \<Rightarrow> (int \<times> string) option" where
  "leadingInt x [] = Some (x, [])"
| "leadingInt x (c # cs) =
     (if \<not> is_digit c then Some (x, c # cs)
      else if x > 2 ^ 63 div 10 then None
      else let y = x * 10 + digit_val c in if y > 2 ^ 63 then None else leadingInt y cs)"

text \<open>Digits after the period; once the value would overflow the remaining digits are skipped.\<close>

fun leadingFraction :: "int \<Rightarrow> int \<Rightarrow> bool \<Rightarrow> string \<Rightarrow> int \<times> int \<times> string" where
  "leadingFraction x scale overflow [] = (x, scale, [])"
| "leadingFraction x scale overflow (c # cs) =
     (if \<not> is_digit c then (x, scale, c # cs)
      else if overflow then leadingFraction x scale True cs
      else if x > (2 ^ 63 - 1) div 10 then leadingFraction x scale True cs
      else let y = x * 10 + digit_val c
           in if y > 2 ^ 63 then leadingFraction x scale True cs
              else leadingFraction y (scale * 10) False cs)"

lemma leadingInt_length: "leadingInt x s = Some (y, t) \<Longrightarrow> length t \<le> length s"
  by (induction x s arbitrary: y t rule: leadingInt.induct)
     (auto simp: Let_def le_SucI split: if_splits)

lemma leadingFraction_length: "length (snd (snd (leadingFraction x sc ov s))) \<le> length s"
  by (induction s arbitrary: x sc ov) (auto simp: Let_def le_SucI)

text \<open>\<^verbatim>\<open>(\.[0-9]*)?\<close>: value, scale, rest, and whether digits followed the period.\<close>

fun fraction_part :: "string \<Rightarrow> int \<times> int \<times> string \<times> bool" where
  "fraction_part [] = (0, 1, [], False)"
| "fraction_part (c # cs) =
     (if c = CHR ''.'' then
        (let (f, scale, r) = leadingFraction 0 1 False cs in (f, scale, r, length r \<noteq> length cs))
      else (0, 1, c # cs, False))"

lemma fraction_part_length: "fraction_part s = (f, sc, r, p) \<Longrightarrow> length r \<le> length s"
proof (induction s rule: fraction_part.induct)
  case (2 c cs)
  then show ?case
    using leadingFraction_length [of 0 1 False cs] by (auto split: if_splits prod.splits)
qed simp

text \<open>One number with its unit: its nanoseconds and the rest of the input.\<close>

definition duration_term :: "string \<Rightarrow> (int \<times> string) option" where
  "duration_term s =
     (if \<not> (hd s = CHR ''.'' \<or> is_digit (hd s)) then None
      else case leadingInt 0 s of
        None \<Rightarrow> None
      | Some (v, s1) \<Rightarrow>
          (case fraction_part s1 of (f, scale, s2, post) \<Rightarrow>
             let pre = (length s1 \<noteq> length s);
                 u = takeWhile is_unit_char s2
             in if (\<not> pre \<and> \<not> post) \<or> u = [] then None
                else case unit_ns u of
                  None \<Rightarrow> None
                | Some ns \<Rightarrow>
                    if v > 2 ^ 63 div ns then None
                    else let w = v * ns
                           + (if f > 0 then \<lfloor>fl64 (fl64 (of_int f) * fl64 (of_int ns / of_int scale))\<rfloor>
                              else 0)
                         in if w > 2 ^ 63 then None else Some (w, dropWhile is_unit_char s2)))"

lemma dropWhile_shorter: "takeWhile P s \<noteq> [] \<Longrightarrow> length (dropWhile P s) < length s"
  by (cases s) (auto simp: length_dropWhile_le le_imp_less_Suc split: if_splits)

lemma duration_term_length: "duration_term s = Some (w, r) \<Longrightarrow> length r < length s"
proof -
  assume "duration_term s = Some (w, r)"
  then obtain v s1 f scale s2 post where
    1: "leadingInt 0 s = Some (v, s1)" and 2: "fraction_part s1 = (f, scale, s2, post)"
    and 3: "takeWhile is_unit_char s2 \<noteq> []" and 4: "r = dropWhile is_unit_char s2"
    by (auto simp: duration_term_def Let_def split: if_splits option.splits prod.splits)
  have "length r < length s2" using 3 4 dropWhile_shorter by simp
  also have "\<dots> \<le> length s1" using 2 by (rule fraction_part_length)
  also have "\<dots> \<le> length s" using 1 by (rule leadingInt_length)
  finally show ?thesis .
qed

function duration_terms :: "int \<Rightarrow> string \<Rightarrow> int option" where
  "duration_terms d s =
     (if s = [] then Some d
      else case duration_term s of
        None \<Rightarrow> None
      | Some (w, r) \<Rightarrow>
          let d' = (d + w) mod 2 ^ 64 in if d' > 2 ^ 63 then None else duration_terms d' r)"
  by pat_completeness auto
termination
  by (relation "measure (\<lambda>(d, s). length s)") (auto dest: duration_term_length)

declare duration_terms.simps [simp del]

definition ParseDuration :: "string \<Rightarrow> duration option" where
  "ParseDuration s =
     (let (neg, r) = (case s of [] \<Rightarrow> (False, [])
                      | c # cs \<Rightarrow> if c = CHR ''-'' \<or> c = CHR ''+'' then (c = CHR ''-'', cs) else (False, s))
      in if r = ''0'' then Some 0
         else if r = [] then None
         else case duration_terms 0 r of
           None \<Rightarrow> None
         | Some d \<Rightarrow> if neg then Some (- d) else if d > 2 ^ 63 - 1 then None else Some d)"

lemma leadingInt_nonneg: "leadingInt x s = Some (y, t) \<Longrightarrow> 0 \<le> x \<Longrightarrow> 0 \<le> y"
  by (induction x s arbitrary: y t rule: leadingInt.induct)
     (auto simp: Let_def digit_val_range split: if_splits)

lemma duration_terms_bound:
  "duration_terms d s = Some e \<Longrightarrow> 0 \<le> d \<Longrightarrow> d \<le> 2 ^ 63 \<Longrightarrow> 0 \<le> e \<and> e \<le> 2 ^ 63"
proof (induction d s rule: duration_terms.induct)
  case (1 d s)
  show ?case
  proof (cases "s = []")
    case True
    with 1 show ?thesis by (simp add: duration_terms.simps)
  next
    case False
    with 1(2) obtain w r where "duration_term s = Some (w, r)"
      and "\<not> (d + w) mod 2 ^ 64 > 2 ^ 63" and "duration_terms ((d + w) mod 2 ^ 64) r = Some e"
      by (subst (asm) duration_terms.simps) (auto simp: Let_def split: option.splits if_splits)
    with False show ?thesis by (intro 1(1)) auto
  qed
qed

lemma ParseDuration_range: "ParseDuration s = Some d \<Longrightarrow> is_int64 d"
  by (auto simp: ParseDuration_def is_int64_def Let_def split: if_splits option.splits prod.splits
      dest!: duration_terms_bound)

section \<open>The calendar\<close>

definition is_leap :: "int \<Rightarrow> bool" where
  "is_leap y \<longleftrightarrow> y mod 4 = 0 \<and> (y mod 100 \<noteq> 0 \<or> y mod 400 = 0)"

definition month_lengths :: "int \<Rightarrow> nat list" where
  "month_lengths y = [31, if is_leap y then 29 else 28, 31, 30, 31, 30, 31, 31, 30, 31, 30, 31]"

definition days_in_month :: "nat \<Rightarrow> int \<Rightarrow> nat" where
  "days_in_month m y = month_lengths y ! (m - 1)"

definition days_before_month :: "nat \<Rightarrow> int \<Rightarrow> nat" where
  "days_before_month m y = sum_list (take (m - 1) (month_lengths y))"

definition days_before_year :: "int \<Rightarrow> int" where
  "days_before_year y = (let p = y - 1 in 365 * p + p div 4 - p div 100 + p div 400)"

text \<open>Days from January 1 of year 1 to the given date.\<close>

definition days_of_date :: "int \<Rightarrow> nat \<Rightarrow> nat \<Rightarrow> int" where
  "days_of_date y m d = days_before_year y + int (days_before_month m y) + int d - 1"

text \<open>The inverse: 400-, 100-, 4- and 1-year cycles, then the month.\<close>

definition year_of_days :: "int \<Rightarrow> int \<times> int" where
  "year_of_days n =
     (let q = n div 146097; r = n mod 146097;
          c = min 3 (r div 36524); r2 = r - 36524 * c;
          b = r2 div 1461; r3 = r2 mod 1461;
          a = min 3 (r3 div 365)
      in (400 * q + 100 * c + 4 * b + a + 1, r3 - 365 * a))"

fun month_of_yday :: "nat \<Rightarrow> nat list \<Rightarrow> nat \<Rightarrow> nat \<times> nat" where
  "month_of_yday m [] k = (m, k + 1)"
| "month_of_yday m (l # ls) k = (if k < l then (m, k + 1) else month_of_yday (m + 1) ls (k - l))"

definition date_of_days :: "int \<Rightarrow> int \<times> nat \<times> nat" where
  "date_of_days n = (let (y, k) = year_of_days n in (y, month_of_yday 1 (month_lengths y) (nat k)))"

section \<open>RFC 3339 timestamps\<close>

definition expect :: "char \<Rightarrow> string \<Rightarrow> string option" where
  "expect c s = (case s of [] \<Rightarrow> None | x # xs \<Rightarrow> if x = c then Some xs else None)"

text \<open>\<^verbatim>\<open>getnum\<close>: two digits, or one where the layout does not fix the width.\<close>

definition getnum :: "bool \<Rightarrow> string \<Rightarrow> (int \<times> string) option" where
  "getnum fixed s =
     (case s of
        [] \<Rightarrow> None
      | a # r \<Rightarrow>
          if \<not> is_digit a then None
          else case r of
            [] \<Rightarrow> if fixed then None else Some (digit_val a, r)
          | b # r' \<Rightarrow>
              if is_digit b then Some (10 * digit_val a + digit_val b, r')
              else if fixed then None else Some (digit_val a, r))"

definition getyear :: "string \<Rightarrow> (int \<times> string) option" where
  "getyear s =
     (if 4 \<le> length s \<and> list_all is_digit (take 4 s) then Some (dec_val 0 (take 4 s), drop 4 s)
      else None)"

text \<open>An optional fractional second: at most nine digits count.\<close>

definition getfrac :: "string \<Rightarrow> int \<times> string" where
  "getfrac s =
     (if 2 \<le> length s \<and> (hd s = CHR ''.'' \<or> hd s = CHR '','') \<and> is_digit (s ! 1) then
        (let ds = takeWhile is_digit (tl s); k = min 9 (length ds)
         in (dec_val 0 (take 9 ds) * 10 ^ (9 - k), dropWhile is_digit (tl s)))
      else (0, s))"

text \<open>The zone offset in seconds.\<close>

definition getzone :: "string \<Rightarrow> (int \<times> string) option" where
  "getzone s =
     (if s \<noteq> [] \<and> hd s = CHR ''Z'' then Some (0, tl s)
      else if 6 \<le> length s \<and> s ! 3 = CHR '':'' \<and> (s ! 0 = CHR ''+'' \<or> s ! 0 = CHR ''-'') then
        do {
          (hr, _) \<leftarrow> getnum True (take 2 (drop 1 s));
          (mm, _) \<leftarrow> getnum True (take 2 (drop 4 s));
          if hr > 24 \<or> mm > 60 then None
          else Some ((if s ! 0 = CHR ''-'' then -1 else 1) * ((hr * 60 + mm) * 60), drop 6 s)
        }
      else None)"

definition ParseRFC3339 :: "string \<Rightarrow> instant option" where
  "ParseRFC3339 s = do {
     (year, s) \<leftarrow> getyear s;
     s \<leftarrow> expect CHR ''-'' s;
     (month, s) \<leftarrow> getnum True s;
     s \<leftarrow> expect CHR ''-'' s;
     (day, s) \<leftarrow> getnum True s;
     s \<leftarrow> expect CHR ''T'' s;
     (hh, s) \<leftarrow> getnum False s;
     s \<leftarrow> expect CHR '':'' s;
     (mi, s) \<leftarrow> getnum True s;
     s \<leftarrow> expect CHR '':'' s;
     (sec, s) \<leftarrow> getnum True s;
     let (nsec, s) = getfrac s;
     (off, s) \<leftarrow> getzone s;
     if s \<noteq> [] \<or> month < 1 \<or> 12 < month \<or> 24 \<le> hh \<or> 60 \<le> mi \<or> 60 \<le> sec
        \<or> day < 1 \<or> int (days_in_month (nat month) year) < day then None
     else Some ((days_of_date year (nat month) (nat day) * 86400 + (hh * 3600 + mi * 60 + sec) - off)
                * 1000000000 + nsec)
   }"

definition two_digits :: "int \<Rightarrow> string" where
  "two_digits n = [digit_char (n div 10 mod 10), digit_char (n mod 10)]"

definition four_digits :: "int \<Rightarrow> string" where
  "four_digits n = two_digits (n div 100) @ two_digits (n mod 100)"

text \<open>\<^verbatim>\<open>t.UTC().Format(time.RFC3339)\<close> for years 0 to 9999.\<close>

definition FormatRFC3339 :: "instant \<Rightarrow> string" where
  "FormatRFC3339 t =
     (let secs = t div 1000000000;
          (y, m, d) = date_of_days (secs div 86400);
          r = secs mod 86400
      in four_digits y @ ''-'' @ two_digits (int m) @ ''-'' @ two_digits (int d) @ ''T'' @
         two_digits (r div 3600) @ '':'' @ two_digits (r div 60 mod 60) @ '':'' @ two_digits (r mod 60) @ ''Z'')"

text \<open>Instants of the years 0 to 9999, the ones RFC 3339 can write.\<close>

definition writable_time :: "instant \<Rightarrow> bool" where
  "writable_time t \<longleftrightarrow>
     0 \<le> fst (year_of_days (t div 1000000000 div 86400)) \<and>
     fst (year_of_days (t div 1000000000 div 86400)) < 10000"

section \<open>Reading back a written timestamp\<close>

lemma year_of_days_spec:
  assumes "year_of_days n = (y, k)"
  shows "days_before_year y + k = n" and "0 \<le> k" and "k < (if is_leap y then 366 else 365)"
proof -
  define q where "q = n div 146097"
  define r where "r = n mod 146097"
  define c where "c = min 3 (r div 36524)"
  define r2 where "r2 = r - 36524 * c"
  define b where "b = r2 div 1461"
  define r3 where "r3 = r2 mod 1461"
  define a where "a = min 3 (r3 div 365)"
  have n: "n = 146097 * q + r" and r: "0 \<le> r" "r < 146097" by (simp_all add: q_def r_def)
  have c: "0 \<le> c" "c \<le> 3" using r by (simp_all add: c_def)
  have r2: "0 \<le> r2" "r2 \<le> 36524" "c < 3 \<Longrightarrow> r2 < 36524"
    using r unfolding r2_def c_def by (auto simp: min_def not_le split: if_splits)
  have r2eq: "r2 = 1461 * b + r3" and r3: "0 \<le> r3" "r3 < 1461" by (simp_all add: b_def r3_def)
  have b: "0 \<le> b" "b \<le> 24" using r2 r2eq r3 by linarith+
  have a: "0 \<le> a" "a \<le> 3" using r3 by (simp_all add: a_def)
  have k3: "0 \<le> r3 - 365 * a" "r3 - 365 * a \<le> 365" "a < 3 \<Longrightarrow> r3 - 365 * a < 365"
    using r3 unfolding a_def by (auto simp: min_def not_le split: if_splits)
  have yk: "y = 400 * q + 100 * c + 4 * b + a + 1" "k = r3 - 365 * a"
    using assms unfolding year_of_days_def Let_def
    unfolding q_def [symmetric] r_def [symmetric] unfolding c_def [symmetric] unfolding r2_def [symmetric]
    unfolding b_def [symmetric] r3_def [symmetric] unfolding a_def [symmetric] by simp_all
  have d4: "(y - 1) div 4 = 100 * q + 25 * c + b" using yk a by simp
  have d100: "(y - 1) div 100 = 4 * q + c" using yk a b by simp
  have d400: "(y - 1) div 400 = q" using yk a b c by simp
  show "days_before_year y + k = n"
    unfolding days_before_year_def Let_def d4 d100 d400 using yk n r2eq r2_def by simp
  show "0 \<le> k" using k3 yk by simp
  show "k < (if is_leap y then 366 else 365)"
  proof (cases "a = 3 \<and> r3 = 1460")
    case True
    have "is_leap y"
    proof (cases "b = 24")
      case b24: True
      then have "\<not> c < 3" using r2 r2eq True by linarith
      with c have "y = 400 * (q + 1)" using yk b24 True by simp
      then show ?thesis by (simp add: is_leap_def)
    next
      case False
      with b have b': "b < 24" by simp
      have y': "y = 4 * (100 * q + 25 * c + b + 1)" using yk True by simp
      then have "y mod 4 = 0" by simp
      moreover have "y mod 100 \<noteq> 0"
      proof -
        obtain j where "y = 100 * j + 4 * (b + 1)" using y' by (intro that [of "4 * q + c"]) simp
        then show ?thesis using b b' by presburger
      qed
      ultimately show ?thesis by (simp add: is_leap_def)
    qed
    with k3 yk show ?thesis by simp
  next
    case False
    then have "k < 365" using k3 yk a r3 by (cases "a = 3") auto
    then show ?thesis by simp
  qed
qed

lemma month_of_yday_spec:
  assumes "k < sum_list ls"
  shows "\<exists>i < length ls. \<exists>d. month_of_yday m ls k = (m + i, d) \<and> d + sum_list (take i ls) = k + 1
           \<and> 1 \<le> d \<and> d \<le> ls ! i"
  using assms
proof (induction ls arbitrary: m k)
  case (Cons l ls)
  show ?case
  proof (cases "k < l")
    case True
    then show ?thesis by (intro exI [of _ 0]) auto
  next
    case False
    with Cons.prems have "k - l < sum_list ls" by simp
    from Cons.IH [OF this, of "m + 1"] obtain i d where
      "i < length ls" "month_of_yday (m + 1) ls (k - l) = (m + 1 + i, d)"
      "d + sum_list (take i ls) = k - l + 1" "1 \<le> d" "d \<le> ls ! i" by blast
    with False show ?thesis by (intro exI [of _ "Suc i"]) auto
  qed
qed simp

lemma date_of_days_spec:
  assumes "date_of_days n = (y, m, d)"
  shows "days_of_date y m d = n" and "1 \<le> m" "m \<le> 12" and "1 \<le> d" "d \<le> days_in_month m y"
    and "y = fst (year_of_days n)"
proof -
  obtain y' k where yk: "year_of_days n = (y', k)" by fastforce
  note spec = year_of_days_spec [OF yk]
  have "nat k < sum_list (month_lengths y')"
    using spec(2,3) by (auto simp: month_lengths_def nat_less_iff split: if_splits)
  from month_of_yday_spec [OF this, of 1] obtain i e where
    i: "i < length (month_lengths y')" "month_of_yday 1 (month_lengths y') (nat k) = (1 + i, e)"
    "e + sum_list (take i (month_lengths y')) = nat k + 1" "1 \<le> e" "e \<le> month_lengths y' ! i" by blast
  with assms yk have ymd: "y = y'" "m = 1 + i" "d = e" by (auto simp: date_of_days_def)
  show "days_of_date y m d = n"
    using spec(1,2) i(3) ymd by (simp add: days_of_date_def days_before_month_def)
  show "1 \<le> m" "m \<le> 12" "1 \<le> d" "d \<le> days_in_month m y" "y = fst (year_of_days n)"
    using i ymd yk by (simp_all add: days_in_month_def month_lengths_def)
qed

lemma two_digits_getnum:
  assumes "0 \<le> n" "n < 100"
  shows "getnum f (two_digits n @ r) = Some (n, r)"
proof -
  have "0 \<le> n div 10 mod 10" "n div 10 mod 10 < 10" "0 \<le> n mod 10" "n mod 10 < 10"
    by simp_all
  moreover have "n div 10 mod 10 = n div 10" using assms by simp
  ultimately show ?thesis by (simp add: getnum_def two_digits_def)
qed

lemma getyear_four_digits:
  assumes "0 \<le> y" "y < 10000"
  shows "getyear (four_digits y @ r) = Some (y, r)"
proof -
  define a where "a = y div 100"
  define b where "b = y mod 100"
  have "a div 10 mod 10 = a div 10" "b div 10 mod 10 = b div 10" "y = 100 * a + b"
    using assms by (simp_all add: a_def b_def)
  moreover have "0 \<le> a div 10" "a div 10 < 10" "0 \<le> b div 10" "b div 10 < 10"
    using assms by (simp_all add: a_def b_def)
  moreover have "0 \<le> a mod 10" "a mod 10 < 10" "0 \<le> b mod 10" "b mod 10 < 10" by simp_all
  ultimately show ?thesis
    by (simp add: getyear_def four_digits_def two_digits_def numeral_eq_Suc a_def [symmetric] b_def [symmetric])
qed

lemma ParseRFC3339_FormatRFC3339:
  assumes "writable_time t"
  shows "ParseRFC3339 (FormatRFC3339 t) = Some (t - t mod 1000000000)"
proof -
  define secs where "secs = t div 1000000000"
  define r where "r = secs mod 86400"
  obtain y m d where ymd: "date_of_days (secs div 86400) = (y, m, d)" by (metis prod_cases3)
  note spec = date_of_days_spec [OF ymd]
  have y: "0 \<le> y" "y < 10000" using assms spec(6) by (simp_all add: secs_def writable_time_def)
  have r: "0 \<le> r" "r < 86400" by (simp_all add: r_def)
  have "days_in_month m y \<le> 31"
    using spec(2,3) by (auto simp: days_in_month_def month_lengths_def nth_Cons' split: if_splits)
  then have d: "d < 100" using spec(5) by simp
  define hh where "hh = r div 3600"
  define mi where "mi = r div 60 mod 60"
  define ss where "ss = r mod 60"
  have hms: "0 \<le> hh" "hh < 24" "0 \<le> mi" "mi < 60" "0 \<le> ss" "ss < 60"
    using r by (simp_all add: hh_def mi_def ss_def)
  have sum: "hh * 3600 + mi * 60 + ss = r"
  proof -
    have "r div 60 = 60 * (r div 60 div 60) + r div 60 mod 60" by simp
    moreover have "r div 60 div 60 = r div 3600" by (simp add: zdiv_zmult2_eq [symmetric])
    moreover have "r = 60 * (r div 60) + r mod 60" by simp
    ultimately show ?thesis unfolding hh_def mi_def ss_def by linarith
  qed
  have fmt: "FormatRFC3339 t = four_digits y @ CHR ''-'' # two_digits (int m) @ CHR ''-'' # two_digits (int d)
      @ CHR ''T'' # two_digits hh @ CHR '':'' # two_digits mi @ CHR '':'' # two_digits ss @ ''Z''"
    by (simp add: FormatRFC3339_def ymd secs_def [symmetric] r_def [symmetric] hh_def mi_def ss_def)
  have "ParseRFC3339 (FormatRFC3339 t) = Some ((secs div 86400 * 86400 + r) * 1000000000)"
    unfolding fmt using y spec d hms sum
    by (simp add: ParseRFC3339_def getyear_four_digits two_digits_getnum expect_def getfrac_def getzone_def)
  also have "(secs div 86400 * 86400 + r) * 1000000000 = t - t mod 1000000000"
    by (simp add: r_def secs_def minus_mod_eq_mult_div)
  finally show ?thesis .
qed

text \<open>Facts to evaluate the two parsers on literals.\<close>

lemmas duration_eval = ParseDuration_def duration_terms.simps duration_term_def unit_ns_def
  is_digit_def digit_val_def is_unit_char_def Let_def

lemmas rfc3339_eval = ParseRFC3339_def getyear_def getnum_def expect_def getfrac_def getzone_def
  is_digit_def digit_val_def days_of_date_def days_before_year_def days_before_month_def
  days_in_month_def month_lengths_def is_leap_def Let_def

end
