(* ===== verification/Kube.thy ===== *)
theory Kube
  imports GoTime
begin

text \<open>
  The Kubernetes side of the model: the fields of the API objects the operator reads, label
  selectors, and the environment (API server, informer caches, pod HTTP endpoints, clock).

  The environment is a record of reply functions. Every call the operator makes is appended to a
  \<open>trace\<close>, and a reply may depend on the whole trace so far. A theorem that holds for every
  environment therefore holds whatever else changes the cluster between two calls.
\<close>

section \<open>API objects\<close>

text \<open>A container status: \<^verbatim>\<open>Ready\<close>, \<^verbatim>\<open>State.Running != nil\<close>, and the reason of \<^verbatim>\<open>State.Waiting\<close>.\<close>

record container_status =
  cs_ready :: bool
  cs_running :: bool
  cs_waiting :: "string option"

record pod_condition =
  cond_type :: string
  cond_status :: string
  cond_last_transition :: instant

record owner_reference =
  or_kind :: string
  or_name :: string
  or_controller :: "bool option"

record pod =
  pod_name :: string
  pod_namespace :: string
  pod_uid :: string
  pod_generation :: int
  pod_labels :: strmap
  pod_deletion_timestamp :: "instant option"
  pod_owners :: "owner_reference list"
  pod_phase :: string
  pod_conditions :: "pod_condition list"
  pod_init_statuses :: "container_status list"
  pod_statuses :: "container_status list"

text \<open>
  A StatefulSet. \<open>sts_ptr\<close> is the identity of the Go object (its address): the code compares
  \<^verbatim>\<open>*v1.StatefulSet\<close> pointers. \<open>sts_replicas\<close> is the optional \<^verbatim>\<open>Spec.Replicas\<close>.
\<close>

record statefulset =
  sts_ptr :: nat
  sts_name :: string
  sts_namespace :: string
  sts_uid :: string
  sts_generation :: int
  sts_labels :: strmap
  sts_annotations :: strmap
  sts_replicas :: "int option"
  sts_template_labels :: strmap
  sts_service_name :: string
  sts_update_strategy :: string
  sts_status_replicas :: int
  sts_ready_replicas :: int
  sts_updated_replicas :: int
  sts_current_revision :: string
  sts_update_revision :: string

definition OnDelete :: string where "OnDelete = ''OnDelete''"
definition PodRunning :: string where "PodRunning = ''Running''"
definition PodPending :: string where "PodPending = ''Pending''"
definition PodSucceeded :: string where "PodSucceeded = ''Succeeded''"
definition PodFailed :: string where "PodFailed = ''Failed''"
definition ControllerRevisionHashLabelKey :: string where
  "ControllerRevisionHashLabelKey = ''controller-revision-hash''"

text \<open>\<^verbatim>\<open>metav1.GetControllerOf\<close>: the first owner reference marked as controller.\<close>

definition GetControllerOf :: "pod \<Rightarrow> owner_reference option" where
  "GetControllerOf p = find (\<lambda>r. or_controller r = Some True) (pod_owners p)"

section \<open>Label selectors\<close>

datatype sel_op = Exists | Equals | NotEquals

datatype requirement = Requirement (req_key: string) (req_op: sel_op) (req_values: "string list")

definition is_lower :: "char \<Rightarrow> bool" where
  "is_lower c \<longleftrightarrow> 97 \<le> (of_char c :: int) \<and> (of_char c :: int) \<le> 122"

definition is_upper :: "char \<Rightarrow> bool" where
  "is_upper c \<longleftrightarrow> 65 \<le> (of_char c :: int) \<and> (of_char c :: int) \<le> 90"

definition is_alnum :: "char \<Rightarrow> bool" where
  "is_alnum c \<longleftrightarrow> is_lower c \<or> is_upper c \<or> is_digit c"

definition is_label_ext :: "char \<Rightarrow> bool" where
  "is_label_ext c \<longleftrightarrow> is_alnum c \<or> c = CHR ''-'' \<or> c = CHR ''_'' \<or> c = CHR ''.''"

definition matches_label_fmt :: "string \<Rightarrow> bool" where
  "matches_label_fmt s \<longleftrightarrow> s \<noteq> [] \<and> is_alnum (hd s) \<and> is_alnum (last s) \<and> list_all is_label_ext s"

definition matches_dns_label :: "string \<Rightarrow> bool" where
  "matches_dns_label s \<longleftrightarrow>
     s \<noteq> [] \<and> (is_lower (hd s) \<or> is_digit (hd s)) \<and> (is_lower (last s) \<or> is_digit (last s)) \<and>
     list_all (\<lambda>c. is_lower c \<or> is_digit c \<or> c = CHR ''-'') s"

text \<open>\<^verbatim>\<open>strings.Split(s, sep)\<close> for a one-byte separator.\<close>

fun split_on :: "char \<Rightarrow> string \<Rightarrow> string list" where
  "split_on sep [] = [[]]"
| "split_on sep (c # cs) =
     (if c = sep then [] # split_on sep cs
      else case split_on sep cs of [] \<Rightarrow> [[c]] | w # ws \<Rightarrow> (c # w) # ws)"

definition IsDNS1123Subdomain :: "string \<Rightarrow> bool" where
  "IsDNS1123Subdomain s \<longleftrightarrow> length s \<le> 253 \<and> list_all matches_dns_label (split_on CHR ''.'' s)"

definition IsLabelKey :: "string \<Rightarrow> bool" where
  "IsLabelKey s =
     (case split_on CHR ''/'' s of
        [name] \<Rightarrow> length name \<le> 63 \<and> matches_label_fmt name
      | [prefix, name] \<Rightarrow>
          prefix \<noteq> [] \<and> IsDNS1123Subdomain prefix \<and> length name \<le> 63 \<and> matches_label_fmt name
      | _ \<Rightarrow> False)"

definition IsLabelValue :: "string \<Rightarrow> bool" where
  "IsLabelValue s \<longleftrightarrow> length s \<le> 63 \<and> (s = [] \<or> matches_label_fmt s)"

text \<open>\<^verbatim>\<open>labels.NewRequirement\<close>, restricted to the three operators the operator uses.\<close>

definition NewRequirement :: "string \<Rightarrow> sel_op \<Rightarrow> string list \<Rightarrow> requirement res" where
  "NewRequirement key oper vals =
     (if IsLabelKey key
         \<and> (case oper of Exists \<Rightarrow> vals = [] | Equals \<Rightarrow> length vals = 1 | NotEquals \<Rightarrow> length vals = 1)
         \<and> list_all IsLabelValue vals
      then Ok (Requirement key oper vals)
      else Fail (Err ''invalid label requirement''))"

fun req_matches :: "requirement \<Rightarrow> strmap \<Rightarrow> bool" where
  "req_matches (Requirement key Exists vals) ls = (ls key \<noteq> None)"
| "req_matches (Requirement key Equals vals) ls =
     (case ls key of None \<Rightarrow> False | Some v \<Rightarrow> v \<in> set vals)"
| "req_matches (Requirement key NotEquals vals) ls =
     (case ls key of None \<Rightarrow> True | Some v \<Rightarrow> v \<notin> set vals)"

type_synonym selector = "requirement list"

definition sel_matches :: "selector \<Rightarrow> strmap \<Rightarrow> bool" where
  "sel_matches sel ls \<longleftrightarrow> list_all (\<lambda>r. req_matches r ls) sel"

section \<open>Other resources\<close>

text \<open>The environment answers a call with a value or an error; it never panics the operator.\<close>

datatype 'a reply = Reply 'a | Error err

text \<open>A group, version and resource, and the scale subresource of the reference resource.\<close>

record gvr =
  gvr_group :: string
  gvr_version :: string
  gvr_resource :: string

record scale =
  scale_spec_replicas :: int
  scale_status_replicas :: int

text \<open>A parsed URL: what \<^verbatim>\<open>*url.URL\<close> keeps beside \<^verbatim>\<open>Host\<close> is opaque here.\<close>

record url =
  url_scheme :: string
  url_host :: string
  url_path :: string

datatype http_method = POST | DELETE

text \<open>
  A reply of a pod endpoint: the status code, whether the body could be read, and the
  \<^verbatim>\<open>timestamp\<close> that \<^verbatim>\<open>json.Unmarshal\<close> finds in it (0 when the field is absent).
\<close>

record http_response =
  resp_status :: int
  resp_body_err :: "err option"
  resp_timestamp :: "int reply"

section \<open>The trace and the environment\<close>

datatype event =
    EvNow
  | EvListStatefulSets
  | EvListPods
  | EvDeletePod string string
  | EvUpdateStatus string string string
  | EvPatchReplicas string string int
  | EvRESTMappings string string
  | EvGetScale string gvr string
  | EvPatchStatusReplicas gvr string string int
  | EvMarkPod string string
  | EvHttp http_method url
  | EvGetPod string string
  | EvGetStatefulSet string string
  | EvListStatefulSetsAPI string
  | EvListPodsAPI string
  | EvGetDeployment string string
  | EvGetReplicaSet string string
  | EvPatchAnnotation string string string string
  | EvGetConfigMap string string
  | EvCreateConfigMap string string "(string \<times> string) list"
  | EvUpdateConfigMap string string "(string \<times> string) list"

type_synonym trace = "event list"

text \<open>
  The data of a ConfigMap is an association list in the order in which Go's \<^verbatim>\<open>range\<close> happens to
  visit the map. Of a Deployment and a ReplicaSet the operator reads the labels only.
\<close>

type_synonym config_data = "(string \<times> string) list"

record env =
  e_now :: "trace \<Rightarrow> instant"
  e_sts_lister :: "trace \<Rightarrow> statefulset list reply"
  e_pod_lister :: "trace \<Rightarrow> pod list reply"
  e_delete_pod :: "trace \<Rightarrow> string \<Rightarrow> string \<Rightarrow> unit reply"
  e_update_status :: "trace \<Rightarrow> statefulset \<Rightarrow> unit reply"
  e_patch_replicas :: "trace \<Rightarrow> string \<Rightarrow> string \<Rightarrow> int \<Rightarrow> unit reply"
  e_rest_mappings :: "trace \<Rightarrow> string \<Rightarrow> string \<Rightarrow> gvr list reply"
  e_get_scale :: "trace \<Rightarrow> string \<Rightarrow> gvr \<Rightarrow> string \<Rightarrow> scale reply"
  e_patch_status_replicas :: "trace \<Rightarrow> gvr \<Rightarrow> string \<Rightarrow> string \<Rightarrow> int \<Rightarrow> unit reply"
  e_http :: "trace \<Rightarrow> http_method \<Rightarrow> url \<Rightarrow> http_response reply"
  e_url_parse :: "string \<Rightarrow> url reply"
  e_get_pod :: "trace \<Rightarrow> string \<Rightarrow> string \<Rightarrow> pod reply"
  e_get_sts :: "trace \<Rightarrow> string \<Rightarrow> string \<Rightarrow> statefulset reply"
  e_list_sts :: "trace \<Rightarrow> string \<Rightarrow> statefulset list reply"
  e_list_pods :: "trace \<Rightarrow> string \<Rightarrow> pod list reply"
  e_get_deployment :: "trace \<Rightarrow> string \<Rightarrow> string \<Rightarrow> strmap reply"
  e_get_replicaset :: "trace \<Rightarrow> string \<Rightarrow> string \<Rightarrow> strmap reply"
  e_patch_annotation :: "trace \<Rightarrow> string \<Rightarrow> string \<Rightarrow> string \<Rightarrow> string \<Rightarrow> unit reply"
  e_get_config_map :: "trace \<Rightarrow> string \<Rightarrow> string \<Rightarrow> config_data reply"
  e_create_config_map :: "trace \<Rightarrow> string \<Rightarrow> string \<Rightarrow> config_data \<Rightarrow> config_data reply"
  e_update_config_map :: "trace \<Rightarrow> string \<Rightarrow> string \<Rightarrow> config_data \<Rightarrow> unit reply"

text \<open>A trace grows by appending: \<open>tr'\<close> extends \<open>tr\<close>.\<close>

definition extends :: "trace \<Rightarrow> trace \<Rightarrow> bool" where
  "extends tr tr' \<longleftrightarrow> (\<exists>evs. tr' = tr @ evs)"

lemma extends_refl [simp, trace_intros]: "extends tr tr"
  by (simp add: extends_def)

lemma extends_append [simp, trace_intros]: "extends tr (tr @ evs)"
  by (simp add: extends_def)

lemma extends_trans: "extends a b \<Longrightarrow> extends b c \<Longrightarrow> extends a c"
  by (auto simp: extends_def)

lemma extends_snoc [trace_intros]: "extends a b \<Longrightarrow> extends a (b @ evs)"
  by (auto simp: extends_def)

lemma extends_length: "extends a b \<Longrightarrow> length a \<le> length b"
  by (auto simp: extends_def)

text \<open>The pods an operation deletes and the replica counts it patches, read off the trace.\<close>

fun deleted_pod :: "event \<Rightarrow> (string \<times> string) option" where
  "deleted_pod (EvDeletePod ns n) = Some (ns, n)"
| "deleted_pod _ = None"

definition deletions :: "trace \<Rightarrow> (string \<times> string) list" where
  "deletions tr = List.map_filter deleted_pod tr"

fun replica_patch :: "event \<Rightarrow> (string \<times> int) option" where
  "replica_patch (EvPatchReplicas ns n r) = Some (n, r)"
| "replica_patch _ = None"

definition replica_patches :: "trace \<Rightarrow> (string \<times> int) list" where
  "replica_patches tr = List.map_filter replica_patch tr"

lemma deletions_Nil [simp]: "deletions [] = []"
  by (simp add: deletions_def map_filter_def)

lemma deletions_append [simp]: "deletions (a @ b) = deletions a @ deletions b"
  by (simp add: deletions_def map_filter_def)

lemma deletions_Cons [simp]:
  "deletions (e # es) = (case deleted_pod e of None \<Rightarrow> [] | Some x \<Rightarrow> [x]) @ deletions es"
  by (cases "deleted_pod e") (simp_all add: deletions_def map_filter_def)

lemma replica_patches_Nil [simp]: "replica_patches [] = []"
  by (simp add: replica_patches_def map_filter_def)

lemma replica_patches_append [simp]: "replica_patches (a @ b) = replica_patches a @ replica_patches b"
  by (simp add: replica_patches_def map_filter_def)

lemma replica_patches_Cons [simp]:
  "replica_patches (e # es) = (case replica_patch e of None \<Rightarrow> [] | Some x \<Rightarrow> [x]) @ replica_patches es"
  by (cases "replica_patch e") (simp_all add: replica_patches_def map_filter_def)

text \<open>A stretch of the trace in which no pod is deleted and no \<^verbatim>\<open>spec.replicas\<close> is patched.\<close>

definition quiet :: "trace \<Rightarrow> trace \<Rightarrow> bool" where
  "quiet tr tr' \<longleftrightarrow>
     extends tr tr' \<and> deletions tr' = deletions tr \<and> replica_patches tr' = replica_patches tr"

lemma quiet_refl [simp]: "quiet tr tr"
  by (simp add: quiet_def)

lemma quiet_trans: "quiet a b \<Longrightarrow> quiet b c \<Longrightarrow> quiet a c"
  by (auto simp: quiet_def intro: extends_trans)

lemma quiet_snoc [simp]:
  "deleted_pod e = None \<Longrightarrow> replica_patch e = None \<Longrightarrow> quiet tr (tr @ [e])"
  by (simp add: quiet_def)

lemma quiet_extends: "quiet a b \<Longrightarrow> extends a b"
  by (simp add: quiet_def)

lemma quiet_snocI: "quiet a b \<Longrightarrow> deleted_pod e = None \<Longrightarrow> replica_patch e = None \<Longrightarrow> quiet a (b @ [e])"
  by (rule quiet_trans [OF _ quiet_snoc])

text \<open>
  A concrete environment for witnesses: a clock that stands still, fixed informer caches, an API
  server and pod endpoints that accept every request.
\<close>

definition steady_env :: "instant \<Rightarrow> statefulset list \<Rightarrow> pod list \<Rightarrow> env" where
  "steady_env now sets pods =
     \<lparr>e_now = (\<lambda>_. now), e_sts_lister = (\<lambda>_. Reply sets), e_pod_lister = (\<lambda>_. Reply pods),
      e_delete_pod = (\<lambda>_ _ _. Reply ()), e_update_status = (\<lambda>_ _. Reply ()), e_patch_replicas = (\<lambda>_ _ _ _. Reply ()),
      e_rest_mappings = (\<lambda>_ _ _. Reply []), e_get_scale = (\<lambda>_ _ _ _. Error (NotFound ''scale'')),
      e_patch_status_replicas = (\<lambda>_ _ _ _ _. Reply ()),
      e_http = (\<lambda>_ _ _. Reply \<lparr>resp_status = 200, resp_body_err = None, resp_timestamp = Reply 1\<rparr>),
      e_url_parse = (\<lambda>s. Reply \<lparr>url_scheme = ''http'', url_host = s, url_path = ''/''\<rparr>),
      e_get_pod = (\<lambda>_ ns n. case find (\<lambda>p. pod_namespace p = ns \<and> pod_name p = n) pods of
                                 Some p \<Rightarrow> Reply p | None \<Rightarrow> Error (NotFound n)),
      e_get_sts = (\<lambda>_ ns n. case find (\<lambda>s. sts_namespace s = ns \<and> sts_name s = n) sets of
                                 Some s \<Rightarrow> Reply s | None \<Rightarrow> Error (NotFound n)),
      e_list_sts = (\<lambda>_ ns. Reply (filter (\<lambda>s. sts_namespace s = ns) sets)),
      e_list_pods = (\<lambda>_ ns. Reply (filter (\<lambda>p. pod_namespace p = ns) pods)),
      e_get_deployment = (\<lambda>_ ns n. Error (NotFound n)), e_get_replicaset = (\<lambda>_ ns n. Error (NotFound n)),
      e_patch_annotation = (\<lambda>_ _ _ _ _. Reply ()),
      e_get_config_map = (\<lambda>_ ns n. Error (NotFound n)), e_create_config_map = (\<lambda>_ _ _ data. Reply data),
      e_update_config_map = (\<lambda>_ _ _ _. Reply ())\<rparr>"

lemma steady_env_simps [simp]:
  "e_now (steady_env t sets pods) tr = t"
  "e_sts_lister (steady_env t sets pods) tr = Reply sets"
  "e_pod_lister (steady_env t sets pods) tr = Reply pods"
  "e_delete_pod (steady_env t sets pods) tr ns n = Reply ()"
  "e_update_status (steady_env t sets pods) tr s = Reply ()"
  "e_patch_replicas (steady_env t sets pods) tr ns n r = Reply ()"
  "e_http (steady_env t sets pods) tr m u = Reply \<lparr>resp_status = 200, resp_body_err = None, resp_timestamp = Reply 1\<rparr>"
  "e_get_pod (steady_env t sets pods) tr ns n =
     (case find (\<lambda>p. pod_namespace p = ns \<and> pod_name p = n) pods of Some p \<Rightarrow> Reply p | None \<Rightarrow> Error (NotFound n))"
  "e_get_sts (steady_env t sets pods) tr ns n =
     (case find (\<lambda>s. sts_namespace s = ns \<and> sts_name s = n) sets of Some s \<Rightarrow> Reply s | None \<Rightarrow> Error (NotFound n))"
  "e_list_sts (steady_env t sets pods) tr ns = Reply (filter (\<lambda>s. sts_namespace s = ns) sets)"
  "e_list_pods (steady_env t sets pods) tr ns = Reply (filter (\<lambda>p. pod_namespace p = ns) pods)"
  "e_url_parse (steady_env t sets pods) str = Reply \<lparr>url_scheme = ''http'', url_host = str, url_path = ''/''\<rparr>"
  "e_get_deployment (steady_env t sets pods) tr ns n = Error (NotFound n)"
  "e_get_replicaset (steady_env t sets pods) tr ns n = Error (NotFound n)"
  "e_patch_annotation (steady_env t sets pods) tr ns n k v = Reply ()"
  "e_get_config_map (steady_env t sets pods) tr ns n = Error (NotFound n)"
  "e_create_config_map (steady_env t sets pods) tr ns n data = Reply data"
  "e_update_config_map (steady_env t sets pods) tr ns n data = Reply ()"
  by (simp_all add: steady_env_def)

text \<open>The HTTP requests of a trace.\<close>

fun http_request :: "event \<Rightarrow> (http_method \<times> url) option" where
  "http_request (EvHttp m u) = Some (m, u)"
| "http_request _ = None"

definition http_requests :: "trace \<Rightarrow> (http_method \<times> url) list" where
  "http_requests tr = List.map_filter http_request tr"

lemma http_requests_Nil [simp]: "http_requests [] = []"
  by (simp add: http_requests_def map_filter_def)

lemma http_requests_append [simp]: "http_requests (a @ b) = http_requests a @ http_requests b"
  by (simp add: http_requests_def map_filter_def)

lemma http_requests_Cons [simp]:
  "http_requests (e # es) = (case http_request e of None \<Rightarrow> [] | Some x \<Rightarrow> [x]) @ http_requests es"
  by (cases "http_request e") (simp_all add: http_requests_def map_filter_def)

end
