(* ===== verification/OperatorConfig.thy ===== *)
theory OperatorConfig
  imports Kube
begin

text \<open>
  \<^verbatim>\<open>pkg/config\<close>: the label and annotation keys the operator reads, and the lookup of the minimum
  time between zone downscales.
\<close>

definition NoDownscaleLabelKey :: string where "NoDownscaleLabelKey = ''grafana.com/no-downscale''"
definition NoDownscaleLabelValue :: string where "NoDownscaleLabelValue = ''true''"

definition LastDownscaleAnnotationKey :: string where
  "LastDownscaleAnnotationKey = ''grafana.com/last-downscale''"
definition MinTimeBetweenZonesDownscaleAnnotationKey :: string where
  "MinTimeBetweenZonesDownscaleAnnotationKey = ''grafana.com/min-time-between-zones-downscale''"
definition MinTimeBetweenZonesDownscaleLabelKey :: string where
  "MinTimeBetweenZonesDownscaleLabelKey = MinTimeBetweenZonesDownscaleAnnotationKey"
definition PrepareDownscalePathAnnotationKey :: string where
  "PrepareDownscalePathAnnotationKey = ''grafana.com/prepare-downscale-http-path''"
definition PrepareDownscalePortAnnotationKey :: string where
  "PrepareDownscalePortAnnotationKey = ''grafana.com/prepare-downscale-http-port''"
definition PrepareDownscaleLabelKey :: string where
  "PrepareDownscaleLabelKey = ''grafana.com/prepare-downscale''"
definition PrepareDownscaleLabelValue :: string where "PrepareDownscaleLabelValue = ''true''"

definition RolloutGroupLabelKey :: string where "RolloutGroupLabelKey = ''rollout-group''"
definition RolloutMaxUnavailableAnnotationKey :: string where
  "RolloutMaxUnavailableAnnotationKey = ''rollout-max-unavailable''"
definition RolloutDownscaleLeaderAnnotationKey :: string where
  "RolloutDownscaleLeaderAnnotationKey = ''grafana.com/rollout-downscale-leader''"
definition RolloutLeaderReadyAnnotationKey :: string where
  "RolloutLeaderReadyAnnotationKey = ''grafana.com/rollout-upscale-only-when-leader-ready''"
definition RolloutLeaderReadyAnnotationValue :: string where
  "RolloutLeaderReadyAnnotationValue = ''true''"

definition rolloutMirrorReplicasFromResourceAnnotationKeyPrefix :: string where
  "rolloutMirrorReplicasFromResourceAnnotationKeyPrefix =
     ''grafana.com/rollout-mirror-replicas-from-resource''"
definition RolloutMirrorReplicasFromResourceNameAnnotationKey :: string where
  "RolloutMirrorReplicasFromResourceNameAnnotationKey =
     rolloutMirrorReplicasFromResourceAnnotationKeyPrefix @ ''-name''"
definition RolloutMirrorReplicasFromResourceKindAnnotationKey :: string where
  "RolloutMirrorReplicasFromResourceKindAnnotationKey =
     rolloutMirrorReplicasFromResourceAnnotationKeyPrefix @ ''-kind''"
definition RolloutMirrorReplicasFromResourceAPIVersionAnnotationKey :: string where
  "RolloutMirrorReplicasFromResourceAPIVersionAnnotationKey =
     rolloutMirrorReplicasFromResourceAnnotationKeyPrefix @ ''-api-version''"
definition RolloutMirrorReplicasFromResourceWriteBackStatusReplicas :: string where
  "RolloutMirrorReplicasFromResourceWriteBackStatusReplicas =
     rolloutMirrorReplicasFromResourceAnnotationKeyPrefix @ ''-write-back''"

definition RolloutDelayedDownscaleAnnotationKey :: string where
  "RolloutDelayedDownscaleAnnotationKey = ''grafana.com/rollout-delayed-downscale''"
definition RolloutDelayedDownscalePrepareUrlAnnotationKey :: string where
  "RolloutDelayedDownscalePrepareUrlAnnotationKey =
     ''grafana.com/rollout-prepare-delayed-downscale-url''"
definition RolloutDelayedDownscaleExcludeFromStatusReplicasAnnotationKey :: string where
  "RolloutDelayedDownscaleExcludeFromStatusReplicasAnnotationKey =
     ''grafana.com/rollout-delayed-downscale-exclude-from-status-replicas''"
definition RolloutForceReplicasAnnotationKey :: string where
  "RolloutForceReplicasAnnotationKey = ''grafana.com/rollout-force-replicas''"
definition RolloutPausedAnnotationKey :: string where
  "RolloutPausedAnnotationKey = ''grafana.com/rollout-paused''"
definition RolloutPausedAnnotationValue :: string where "RolloutPausedAnnotationValue = ''true''"

lemmas config_keys =
  NoDownscaleLabelKey_def NoDownscaleLabelValue_def LastDownscaleAnnotationKey_def
  MinTimeBetweenZonesDownscaleAnnotationKey_def MinTimeBetweenZonesDownscaleLabelKey_def
  PrepareDownscalePathAnnotationKey_def PrepareDownscalePortAnnotationKey_def
  PrepareDownscaleLabelKey_def PrepareDownscaleLabelValue_def RolloutGroupLabelKey_def
  RolloutMaxUnavailableAnnotationKey_def RolloutDownscaleLeaderAnnotationKey_def
  RolloutLeaderReadyAnnotationKey_def RolloutLeaderReadyAnnotationValue_def
  rolloutMirrorReplicasFromResourceAnnotationKeyPrefix_def
  RolloutMirrorReplicasFromResourceNameAnnotationKey_def
  RolloutMirrorReplicasFromResourceKindAnnotationKey_def
  RolloutMirrorReplicasFromResourceAPIVersionAnnotationKey_def
  RolloutMirrorReplicasFromResourceWriteBackStatusReplicas_def
  RolloutDelayedDownscaleAnnotationKey_def RolloutDelayedDownscalePrepareUrlAnnotationKey_def
  RolloutDelayedDownscaleExcludeFromStatusReplicasAnnotationKey_def
  RolloutForceReplicasAnnotationKey_def RolloutPausedAnnotationKey_def
  RolloutPausedAnnotationValue_def

text \<open>
  The annotation is preferred over the label; an empty value counts as unset. The object is given
  by its annotations and labels (both the controller and the admission webhook call it on a
  StatefulSet).
\<close>

definition GetMinTimeBetweenZonesDownscale :: "strmap \<Rightarrow> strmap \<Rightarrow> string option" where
  "GetMinTimeBetweenZonesDownscale annotations labels =
     (case annotations MinTimeBetweenZonesDownscaleAnnotationKey of
        Some v \<Rightarrow>
          if v \<noteq> '''' then Some v
          else (case labels MinTimeBetweenZonesDownscaleLabelKey of
                  Some w \<Rightarrow> if w \<noteq> '''' then Some w else None
                | None \<Rightarrow> None)
      | None \<Rightarrow>
          (case labels MinTimeBetweenZonesDownscaleLabelKey of
             Some w \<Rightarrow> if w \<noteq> '''' then Some w else None
           | None \<Rightarrow> None))"

lemma GetMinTime_annotation_wins:
  "annotations MinTimeBetweenZonesDownscaleAnnotationKey = Some v \<Longrightarrow> v \<noteq> '''' \<Longrightarrow>
   GetMinTimeBetweenZonesDownscale annotations labels = Some v"
  by (simp add: GetMinTimeBetweenZonesDownscale_def)

lemma GetMinTime_nonempty:
  "GetMinTimeBetweenZonesDownscale annotations labels = Some v \<Longrightarrow> v \<noteq> ''''"
  by (auto simp: GetMinTimeBetweenZonesDownscale_def split: option.splits if_splits)

end
