(* ===== verification/OpUtil.thy ===== *)
theory OpUtil
  imports OperatorConfig
begin

text \<open>
  \<^verbatim>\<open>pkg/util/util.go\<close> and the vendored \<^verbatim>\<open>natsort\<close> comparison it sorts pods with: ordering of
  StatefulSets and pods, readiness of a pod, regrouping of StatefulSets, pod DNS names.
\<close>

section \<open>Natural ordering of pod names\<close>

text \<open>\<^verbatim>\<open>chunkify\<close>: the maximal runs of digits and of non-digits (the regexp \<^verbatim>\<open>(\d+|\D+)\<close>).\<close>

function chunkify :: "string \<Rightarrow> string list" where
  "chunkify [] = []"
| "chunkify (c # cs) =
     (c # takeWhile (\<lambda>d. is_digit d = is_digit c) cs)
     # chunkify (dropWhile (\<lambda>d. is_digit d = is_digit c) cs)"
  by pat_completeness auto
termination
  by (relation "measure length") (auto simp: le_imp_less_Suc length_dropWhile_le)

text \<open>The loop of \<^verbatim>\<open>natsort.Compare\<close> over the two chunk lists.\<close>

fun compare_chunks :: "string list \<Rightarrow> string list \<Rightarrow> bool" where
  "compare_chunks [] bs = False"
| "compare_chunks (a # as) [] = False"
| "compare_chunks (a # as) (b # bs) =
     (case (Atoi a, Atoi b) of
        (Some x, Some y) \<Rightarrow>
          if x = y then (if as = [] then True else if bs = [] then False else compare_chunks as bs)
          else x < y
      | _ \<Rightarrow>
          if a = b then (if as = [] then True else if bs = [] then False else compare_chunks as bs)
          else a < b)"

definition Compare :: "string \<Rightarrow> string \<Rightarrow> bool" where
  "Compare a b = compare_chunks (chunkify a) (chunkify b)"

section \<open>Operations of \<^verbatim>\<open>util.go\<close>\<close>

definition SortStatefulSets :: "statefulset list \<Rightarrow> statefulset list" where
  "SortStatefulSets sets = go_sort (\<lambda>a b. sts_name a < sts_name b) sets"

definition SortPods :: "pod list \<Rightarrow> pod list" where
  "SortPods pods = go_sort (\<lambda>a b. Compare (pod_name a) (pod_name b)) pods"

definition PodNames :: "pod list \<Rightarrow> string list" where
  "PodNames pods = map pod_name pods"

definition IsPodRunningAndReady :: "pod \<Rightarrow> bool" where
  "IsPodRunningAndReady p =
     (if pod_phase p \<noteq> PodRunning then False
      else if pod_deletion_timestamp p \<noteq> None then False
      else list_all (\<lambda>c. cs_ready c \<and> cs_running c) (pod_statuses p))"

text \<open>Pointer comparison is comparison of \<^const>\<open>sts_ptr\<close>.\<close>

definition MoveStatefulSetToFront :: "statefulset list \<Rightarrow> statefulset \<Rightarrow> statefulset list" where
  "MoveStatefulSetToFront sets toMove = toMove # filter (\<lambda>s. sts_ptr s \<noteq> sts_ptr toMove) sets"

fun GroupStatefulSetsByLabel ::
    "statefulset list \<Rightarrow> string \<Rightarrow> (string \<rightharpoonup> statefulset list) \<Rightarrow> (string \<rightharpoonup> statefulset list)" where
  "GroupStatefulSetsByLabel [] label groups = groups"
| "GroupStatefulSetsByLabel (sts # sets) label groups =
     (let value = mget (sts_labels sts) label;
          old = (case groups value of None \<Rightarrow> [] | Some l \<Rightarrow> l)
      in GroupStatefulSetsByLabel sets label (groups(value \<mapsto> old @ [sts])))"

definition MustNewLabelsRequirement :: "string \<Rightarrow> sel_op \<Rightarrow> string list \<Rightarrow> requirement res" where
  "MustNewLabelsRequirement key oper vals =
     (case NewRequirement key oper vals of
        Ok r \<Rightarrow> Ok r
      | Fail e \<Rightarrow> Panic (errmsg e)
      | Panic m \<Rightarrow> Panic m)"

definition StatefulSetPodFQDN :: "string \<Rightarrow> string \<Rightarrow> int \<Rightarrow> string \<Rightarrow> string \<Rightarrow> string" where
  "StatefulSetPodFQDN namespace statefulSetName ordinal serviceName clusterDomain =
     statefulSetName @ ''-'' @ Itoa ordinal @ ''.'' @ serviceName @ ''.'' @ namespace @ ''.svc.'' @ clusterDomain"

section \<open>Pods of one StatefulSet sort by ordinal\<close>

lemma takeWhile_all: "list_all P xs \<Longrightarrow> takeWhile P xs = xs"
  by (simp add: list_all_iff takeWhile_eq_all_conv)

lemma dropWhile_all: "list_all P xs \<Longrightarrow> dropWhile P xs = []"
  by (simp add: list_all_iff)

lemma chunkify_digits: "d \<noteq> [] \<Longrightarrow> list_all is_digit d \<Longrightarrow> chunkify d = [d]"
  by (cases d) (simp_all add: takeWhile_all dropWhile_all)

lemma chunkify_append_digits:
  assumes "p \<noteq> []" and "\<not> is_digit (last p)" and "d \<noteq> []" and "list_all is_digit d"
  shows "chunkify (p @ d) = chunkify p @ [d]"
  using assms(1,2)
proof (induction p rule: chunkify.induct)
  case (2 c cs)
  let ?Q = "\<lambda>x. is_digit x = is_digit c"
  show ?case
  proof (cases "list_all ?Q cs")
    case True
    with 2(3) have nd: "\<not> is_digit c" by (auto simp: list_all_iff split: if_splits)
    then have "takeWhile ?Q (cs @ d) = cs" and "dropWhile ?Q (cs @ d) = d"
      using True assms(3,4)
      by (auto simp: list_all_iff takeWhile_append dropWhile_append takeWhile_eq_Nil_iff neq_Nil_conv)
    then show ?thesis
      using assms(3,4) takeWhile_all [OF True] dropWhile_all [OF True]
      by (simp only: append_Cons chunkify.simps) (simp add: chunkify_digits)
  next
    case False
    then obtain x where x: "x \<in> set cs" "\<not> ?Q x" by (auto simp: list_all_iff)
    then have ne: "dropWhile ?Q cs \<noteq> []" by (auto simp: dropWhile_eq_Nil_conv)
    have "cs = takeWhile ?Q cs @ dropWhile ?Q cs" by simp
    then have "last cs = last (dropWhile ?Q cs)" using ne by (metis last_appendR)
    moreover have "last (c # cs) = last cs" using x by auto
    ultimately have "\<not> is_digit (last (dropWhile ?Q cs))" using 2(3) by simp
    then have "chunkify (dropWhile ?Q cs @ d) = chunkify (dropWhile ?Q cs) @ [d]"
      using 2(1) ne by blast
    moreover have "takeWhile ?Q (cs @ d) = takeWhile ?Q cs"
      and "dropWhile ?Q (cs @ d) = dropWhile ?Q cs @ d"
      using takeWhile_append1 [of x cs ?Q d] dropWhile_append1 [of x cs ?Q d] x by blast+
    ultimately show ?thesis by simp
  qed
qed simp

lemma compare_chunks_common_prefix:
  "bs \<noteq> [] \<Longrightarrow> cs \<noteq> [] \<Longrightarrow> compare_chunks (as @ bs) (as @ cs) = compare_chunks bs cs"
  by (induction as) (auto split: option.splits)

text \<open>The name of the pod with a given ordinal of a StatefulSet.\<close>

definition ordinal_name :: "string \<Rightarrow> int \<Rightarrow> string" where
  "ordinal_name s i = s @ ''-'' @ dec_str i"

lemma Compare_ordinal_name:
  assumes "0 \<le> i" and "i < 2 ^ 63" and "0 \<le> j" and "j < 2 ^ 63"
  shows "Compare (ordinal_name s i) (ordinal_name s j) \<longleftrightarrow> i \<le> j"
proof -
  have ch: "chunkify (ordinal_name s k) = chunkify (s @ ''-'') @ [dec_str k]" if "0 \<le> k" for k
    using chunkify_append_digits [of "s @ ''-''" "dec_str k"] that
    by (simp add: ordinal_name_def dec_str_digits is_digit_def)
  have "compare_chunks [dec_str i] [dec_str j] \<longleftrightarrow> i \<le> j"
    using assms by (auto simp: Atoi_dec_str)
  then show ?thesis
    using assms by (simp add: Compare_def ch compare_chunks_common_prefix)
qed

lemma ordinal_name_inj:
  "0 \<le> i \<Longrightarrow> 0 \<le> j \<Longrightarrow> ordinal_name s i = ordinal_name s j \<Longrightarrow> i = j"
  by (auto simp: ordinal_name_def dest: dec_str_inj)

lemma strict_total_on_ordinals:
  assumes "\<forall>p\<in>P. 0 \<le> ord p \<and> ord p < 2 ^ 63 \<and> pod_name p = ordinal_name s (ord p)"
    and "inj_on ord P"
  shows "strict_total_on (\<lambda>a b. Compare (pod_name a) (pod_name b) \<and> a \<noteq> b) P"
proof -
  have cmp: "Compare (pod_name a) (pod_name b) \<longleftrightarrow> ord a \<le> ord b" if "a \<in> P" and "b \<in> P" for a b
    using that assms(1) Compare_ordinal_name by simp
  show ?thesis
    unfolding strict_total_on_def
    using assms(2) by (auto simp: cmp inj_on_def)
qed

text \<open>\<^const>\<open>go_sort\<close> only compares distinct positions: on a list without repetitions the reflexive
  part of a comparison is never used.\<close>

lemma ins_back_irrefl:
  "x \<notin> set ys \<Longrightarrow> ins_back (\<lambda>a b. lt a b \<and> a \<noteq> b) x ys = ins_back lt x ys"
  by (induction ys) auto

lemma ins_all_irrefl:
  "distinct (acc @ xs) \<Longrightarrow> ins_all (\<lambda>a b. lt a b \<and> a \<noteq> b) acc xs = ins_all lt acc xs"
proof (induction xs arbitrary: acc)
  case (Cons x xs)
  then have "distinct (ins_back lt x acc @ xs)"
    by (metis (no_types, lifting) ins_all.simps(2) mset_append mset_eq_imp_distinct_iff mset_ins_back
        mset.simps(2) union_mset_add_mset_left union_mset_add_mset_right)
  then show ?case using Cons by (simp add: ins_back_irrefl)
qed simp

lemma go_sort_irrefl: "distinct xs \<Longrightarrow> go_sort (\<lambda>a b. lt a b \<and> a \<noteq> b) xs = go_sort lt xs"
  by (simp add: go_sort_def ins_all_irrefl)

lemma SortPods_ordinal_sorted:
  assumes "\<forall>p\<in>set pods. 0 \<le> ord p \<and> ord p < 2 ^ 63 \<and> pod_name p = ordinal_name s (ord p)"
    and "distinct (map ord pods)"
  shows "sorted_wrt (\<lambda>a b. ord a < ord b) (SortPods pods)"
proof -
  have d: "distinct pods" and inj: "inj_on ord (set pods)" using assms(2) by (auto simp: distinct_map)
  have "sorted_wrt (\<lambda>a b. Compare (pod_name a) (pod_name b) \<and> a \<noteq> b) (SortPods pods)"
    using go_sort_sorted [OF strict_total_on_ordinals [OF assms(1) inj] d]
    by (simp add: SortPods_def go_sort_irrefl d)
  then show ?thesis
  proof (rule sorted_wrt_mono_rel [rotated])
    fix a b assume "a \<in> set (SortPods pods)" "b \<in> set (SortPods pods)"
      and "Compare (pod_name a) (pod_name b) \<and> a \<noteq> b"
    with assms(1) inj show "ord a < ord b"
      using Compare_ordinal_name [of "ord a" "ord b" s]
      by (auto simp: SortPods_def inj_on_def order_less_le)
  qed
qed

lemma set_SortPods [simp]: "set (SortPods pods) = set pods"
  by (simp add: SortPods_def)

lemma mset_SortPods [simp]: "mset (SortPods pods) = mset pods"
  by (simp add: SortPods_def)

lemma length_SortPods [simp]: "length (SortPods pods) = length pods"
  by (simp add: SortPods_def)

section \<open>Grouping and reordering of StatefulSets\<close>

lemma set_SortStatefulSets [simp]: "set (SortStatefulSets sets) = set sets"
  by (simp add: SortStatefulSets_def)

lemma distinct_map_SortStatefulSets [simp]:
  "distinct (map f (SortStatefulSets sets)) = distinct (map f sets)"
  by (simp add: SortStatefulSets_def)

lemma set_MoveStatefulSetToFront:
  assumes "toMove \<in> set sets" and "inj_on sts_ptr (set sets)"
  shows "set (MoveStatefulSetToFront sets toMove) = set sets"
  using assms by (auto simp: MoveStatefulSetToFront_def inj_on_def)

lemma MoveStatefulSetToFront_distinct:
  assumes "distinct (map sts_ptr sets)"
  shows "distinct (map sts_ptr (MoveStatefulSetToFront sets toMove))"
  using assms by (auto simp: MoveStatefulSetToFront_def distinct_map inj_on_def)

lemma MoveStatefulSetToFront_mset:
  assumes "toMove \<in> set sets" and "distinct (map sts_ptr sets)"
  shows "mset (MoveStatefulSetToFront sets toMove) = mset sets"
proof -
  have "distinct sets" and "inj_on sts_ptr (set sets)" using assms(2) by (auto simp: distinct_map)
  moreover have "distinct (MoveStatefulSetToFront sets toMove)"
    using MoveStatefulSetToFront_distinct [OF assms(2)] by (auto simp: distinct_map)
  ultimately show ?thesis
    using set_MoveStatefulSetToFront [OF assms(1)] by (simp add: set_eq_iff_mset_eq_distinct)
qed

lemma GroupStatefulSetsByLabel_lookup:
  "GroupStatefulSetsByLabel sets label groups k =
     (let mine = filter (\<lambda>s. mget (sts_labels s) label = k) sets
      in if mine = [] then groups k
         else Some ((case groups k of None \<Rightarrow> [] | Some l \<Rightarrow> l) @ mine))"
  by (induction sets arbitrary: groups) (auto simp: Let_def)

text \<open>A concrete StatefulSet for the witnesses.\<close>

definition demo_sts :: "string \<Rightarrow> int \<Rightarrow> strmap \<Rightarrow> statefulset" where
  "demo_sts name replicas annotations =
     \<lparr>sts_ptr = 0, sts_name = name, sts_namespace = ''ns'', sts_uid = '''', sts_generation = 1,
      sts_labels = [RolloutGroupLabelKey \<mapsto> ''ingester''], sts_annotations = annotations,
      sts_replicas = Some replicas, sts_template_labels = [''name'' \<mapsto> name], sts_service_name = name,
      sts_update_strategy = OnDelete, sts_status_replicas = replicas, sts_ready_replicas = replicas,
      sts_updated_replicas = replicas, sts_current_revision = ''r1'', sts_update_revision = ''r1''\<rparr>"

end
