(* ===== verification/ReplicasPolicy.thy ===== *)
theory ReplicasPolicy
  imports OpUtil
begin

text \<open>
  \<^verbatim>\<open>pkg/controller/labels.go\<close> and \<^verbatim>\<open>pkg/controller/replicas.go\<close>: the max-unavailable setting of a
  StatefulSet, the force-replicas override, and the replica count a follower should have given its
  leader and the time since the last downscale of another zone.
\<close>

section \<open>The model\<close>

definition getMaxUnavailableForStatefulSet :: "statefulset \<Rightarrow> int" where
  "getMaxUnavailableForStatefulSet sts =
     (case sts_annotations sts RolloutMaxUnavailableAnnotationKey of
        None \<Rightarrow> 1
      | Some raw \<Rightarrow>
          (let rawValue = TrimSpace raw in
           if HasSuffix rawValue ''%'' then
             (case Atoi (take (length rawValue - 1) rawValue) of
                None \<Rightarrow> 1
              | Some perc \<Rightarrow>
                  if perc \<le> 0 \<or> 100 < perc then 1
                  else (case sts_replicas sts of
                          None \<Rightarrow> 1
                        | Some replicas \<Rightarrow>
                            let result = floor_hundredth (wrap64 (perc * replicas))
                            in if result < 1 then 1 else result))
           else
             (case Atoi rawValue of
                None \<Rightarrow> 1
              | Some v \<Rightarrow> if v \<le> 0 then 1 else v)))"

definition getForceReplicasOverride :: "statefulset \<Rightarrow> int option" where
  "getForceReplicasOverride sts =
     (case sts_annotations sts RolloutForceReplicasAnnotationKey of
        None \<Rightarrow> None
      | Some valueStr \<Rightarrow>
          (case ParseInt32 valueStr of
             None \<Rightarrow> None
           | Some value \<Rightarrow> if value < 0 then None else Some value))"

definition isExcludeFromStatusReplicasEnabled :: "statefulset \<Rightarrow> bool" where
  "isExcludeFromStatusReplicasEnabled sts =
     (ParseBool (mget (sts_annotations sts)
        RolloutDelayedDownscaleExcludeFromStatusReplicasAnnotationKey) = Some True)"

text \<open>\<^term>\<open>Ok None\<close> is the Go result \<^verbatim>\<open>(nil, nil)\<close>: no leader is configured.\<close>

definition getLeaderForStatefulSet ::
    "statefulset \<Rightarrow> statefulset list \<Rightarrow> statefulset option res" where
  "getLeaderForStatefulSet follower sets =
     (case sts_annotations follower RolloutDownscaleLeaderAnnotationKey of
        None \<Rightarrow> Ok None
      | Some leaderName \<Rightarrow>
          (case find (\<lambda>s. sts_name s = leaderName) sets of
             Some s \<Rightarrow> Ok (Some s)
           | None \<Rightarrow> Fail (Err (''could not find leader for '' @ sts_name follower @ '' using ''
                                 @ RolloutDownscaleLeaderAnnotationKey))))"

fun most_recent :: "string \<Rightarrow> instant \<Rightarrow> statefulset list \<Rightarrow> instant res" where
  "most_recent follower mostRecent [] = Ok mostRecent"
| "most_recent follower mostRecent (sts # all) =
     (if sts_name sts = follower then most_recent follower mostRecent all
      else
        (case sts_annotations sts LastDownscaleAnnotationKey of
           None \<Rightarrow> most_recent follower mostRecent all
         | Some rawValue \<Rightarrow>
             (case ParseRFC3339 rawValue of
                None \<Rightarrow> Fail (Err (''can't parse '' @ LastDownscaleAnnotationKey @ '' annotation of '' @ sts_name sts))
              | Some lastDownscale \<Rightarrow>
                  most_recent follower (if mostRecent < lastDownscale then lastDownscale else mostRecent) all)))"

text \<open>The zero time is the instant 0.\<close>

definition getMostRecentDownscale :: "statefulset \<Rightarrow> statefulset list \<Rightarrow> instant res" where
  "getMostRecentDownscale follower all = most_recent (sts_name follower) 0 all"

definition minimumTimeHasElapsed ::
    "env \<Rightarrow> trace \<Rightarrow> statefulset \<Rightarrow> statefulset list \<Rightarrow> bool res \<times> trace" where
  "minimumTimeHasElapsed E tr follower all =
     (case getMostRecentDownscale follower all of
        Fail e \<Rightarrow> (Fail e, tr)
      | Panic m \<Rightarrow> (Panic m, tr)
      | Ok lastDownscale \<Rightarrow>
          if lastDownscale = 0 then (Ok True, tr)
          else
            (case GetMinTimeBetweenZonesDownscale (sts_annotations follower) (sts_labels follower) of
               None \<Rightarrow> (Fail (Err (''missing annotation or label '' @ MinTimeBetweenZonesDownscaleAnnotationKey
                                   @ '' on follower'')), tr)
             | Some rawValue \<Rightarrow>
                 (case ParseDuration rawValue of
                    None \<Rightarrow> (Fail (Err (''unable to parse annotation or label ''
                               @ MinTimeBetweenZonesDownscaleAnnotationKey @ '' value on follower'')), tr)
                  | Some minTime \<Rightarrow> (Ok (minTime < time_sub (e_now E tr) lastDownscale), tr @ [EvNow]))))"

text \<open>\<^verbatim>\<open>*sts.Spec.Replicas\<close> panics on a nil pointer.\<close>

definition deref :: "'a option \<Rightarrow> 'a res" where
  "deref p = (case p of None \<Rightarrow> Panic ''nil pointer dereference'' | Some v \<Rightarrow> Ok v)"

definition desiredStsReplicas ::
    "env \<Rightarrow> trace \<Rightarrow> statefulset \<Rightarrow> statefulset list \<Rightarrow> int res \<times> trace" where
  "desiredStsReplicas E tr sts all =
     (case deref (sts_replicas sts) of
        Fail e \<Rightarrow> (Fail e, tr)
      | Panic m \<Rightarrow> (Panic m, tr)
      | Ok followerReplicas \<Rightarrow>
          (case getLeaderForStatefulSet sts all of
             Fail e \<Rightarrow> (Fail e, tr)
           | Panic m \<Rightarrow> (Panic m, tr)
           | Ok None \<Rightarrow> (Ok followerReplicas, tr)
           | Ok (Some leader) \<Rightarrow>
               (case getForceReplicasOverride sts of
                  Some forceReplicas \<Rightarrow> (Ok forceReplicas, tr)
                | None \<Rightarrow>
                    (case deref (sts_replicas leader) of
                       Fail e \<Rightarrow> (Fail e, tr)
                     | Panic m \<Rightarrow> (Panic m, tr)
                     | Ok leaderReplicas \<Rightarrow>
                         if followerReplicas < leaderReplicas then
                           (if sts_annotations sts RolloutLeaderReadyAnnotationKey
                                 = Some RolloutLeaderReadyAnnotationValue
                               \<and> leaderReplicas \<noteq> sts_ready_replicas leader
                            then (Ok followerReplicas, tr)
                            else (Ok leaderReplicas, tr))
                         else if leaderReplicas < followerReplicas then
                           (case minimumTimeHasElapsed E tr sts all of
                              (Fail e, tr1) \<Rightarrow> (Fail e, tr1)
                            | (Panic m, tr1) \<Rightarrow> (Panic m, tr1)
                            | (Ok minTimeElapsed, tr1) \<Rightarrow>
                                if minTimeElapsed then (Ok leaderReplicas, tr1)
                                else (Ok followerReplicas, tr1))
                         else (Ok followerReplicas, tr)))))"

section \<open>The max-unavailable setting\<close>

lemma perc_product:
  assumes "0 < perc" and "perc \<le> (100 :: int)" and "is_int32 replicas"
  shows "wrap64 (perc * replicas) = perc * replicas" and "\<bar>perc * replicas\<bar> < 2 ^ 45"
proof -
  have "\<bar>replicas\<bar> \<le> 2 ^ 31" using assms(3) by (auto simp: is_int32_def)
  then have "perc * \<bar>replicas\<bar> \<le> 100 * 2 ^ 31" using assms by (intro mult_mono) auto
  then have b: "\<bar>perc * replicas\<bar> \<le> 100 * 2 ^ 31" using assms by (simp add: abs_mult)
  then show "\<bar>perc * replicas\<bar> < 2 ^ 45" by simp
  have "is_int64 (perc * replicas)" using b by (simp add: is_int64_def abs_le_iff)
  then show "wrap64 (perc * replicas) = perc * replicas" by (rule wrap64_id)
qed

lemma perc_floor:
  assumes "0 < perc" and "perc \<le> (100 :: int)" and "is_int32 replicas"
  shows "floor_hundredth (wrap64 (perc * replicas)) = perc * replicas div 100"
  using floor_hundredth_eq [OF perc_product(2) [OF assms]] perc_product(1) [OF assms] by simp

lemma getMaxUnavailable_pos: "1 \<le> getMaxUnavailableForStatefulSet sts"
  by (auto simp: getMaxUnavailableForStatefulSet_def Let_def split: option.splits)

lemma getMaxUnavailable_int64: "is_int64 (getMaxUnavailableForStatefulSet sts)"
  if "\<forall>r. sts_replicas sts = Some r \<longrightarrow> is_int32 r"
proof -
  have one: "is_int64 1" by (simp add: is_int64_def)
  have at: "is_int64 v" if "Atoi s = Some v" for s v
    using that by (auto simp: Atoi_def split: option.splits if_splits)
  have pc: "is_int64 (p * r div 100)" if "0 < p" "p \<le> 100" "is_int32 r" for p r
    using perc_product(2) [OF that] by (simp add: is_int64_def abs_less_iff) linarith
  show ?thesis
    using that by (auto simp: getMaxUnavailableForStatefulSet_def Let_def one at perc_floor pc split: option.splits)
qed

section \<open>The replica count of a follower\<close>

lemma most_recent_Ok:
  assumes "most_recent f m all = Ok t"
  shows "m \<le> t"
    and "\<forall>s\<in>set all. \<forall>raw u. sts_name s \<noteq> f \<longrightarrow> sts_annotations s LastDownscaleAnnotationKey = Some raw \<longrightarrow>
           ParseRFC3339 raw = Some u \<longrightarrow> u \<le> t"
    and "\<forall>s\<in>set all. \<forall>raw. sts_name s \<noteq> f \<longrightarrow> sts_annotations s LastDownscaleAnnotationKey = Some raw \<longrightarrow>
           ParseRFC3339 raw \<noteq> None"
    and "t = m \<or> (\<exists>s\<in>set all. \<exists>raw. sts_name s \<noteq> f \<and> sts_annotations s LastDownscaleAnnotationKey = Some raw \<and>
           ParseRFC3339 raw = Some t)"
proof -
  have "m \<le> t \<and> (\<forall>s\<in>set all. \<forall>raw. sts_name s \<noteq> f \<longrightarrow> sts_annotations s LastDownscaleAnnotationKey = Some raw \<longrightarrow>
          (\<exists>u. ParseRFC3339 raw = Some u \<and> u \<le> t)) \<and>
        (t = m \<or> (\<exists>s\<in>set all. \<exists>raw. sts_name s \<noteq> f \<and> sts_annotations s LastDownscaleAnnotationKey = Some raw \<and>
           ParseRFC3339 raw = Some t))"
    using assms
  proof (induction all arbitrary: m)
    case (Cons s all)
    show ?case
    proof (cases "sts_name s = f \<or> sts_annotations s LastDownscaleAnnotationKey = None")
      case True
      then have "most_recent f m all = Ok t" using Cons.prems by (auto split: if_splits)
      from Cons.IH [OF this] show ?thesis using True by auto
    next
      case False
      then obtain raw where raw: "sts_annotations s LastDownscaleAnnotationKey = Some raw" by auto
      with False Cons.prems obtain u where u: "ParseRFC3339 raw = Some u"
        and rest: "most_recent f (if m < u then u else m) all = Ok t"
        by (auto split: option.splits)
      from Cons.IH [OF rest] show ?thesis using False raw u by (auto split: if_splits)
    qed
  qed simp
  then show "m \<le> t"
    and "\<forall>s\<in>set all. \<forall>raw u. sts_name s \<noteq> f \<longrightarrow> sts_annotations s LastDownscaleAnnotationKey = Some raw \<longrightarrow>
           ParseRFC3339 raw = Some u \<longrightarrow> u \<le> t"
    and "\<forall>s\<in>set all. \<forall>raw. sts_name s \<noteq> f \<longrightarrow> sts_annotations s LastDownscaleAnnotationKey = Some raw \<longrightarrow>
           ParseRFC3339 raw \<noteq> None"
    and "t = m \<or> (\<exists>s\<in>set all. \<exists>raw. sts_name s \<noteq> f \<and> sts_annotations s LastDownscaleAnnotationKey = Some raw \<and>
           ParseRFC3339 raw = Some t)"
    by fastforce+
qed

lemma getLeader_Some:
  "getLeaderForStatefulSet sts all = Ok (Some l) \<Longrightarrow>
     l \<in> set all \<and> sts_annotations sts RolloutDownscaleLeaderAnnotationKey = Some (sts_name l)"
  by (auto simp: getLeaderForStatefulSet_def find_Some_iff split: option.splits)

lemma getForceReplicasOverride_range:
  "getForceReplicasOverride sts = Some n \<Longrightarrow> 0 \<le> n \<and> is_int32 n"
  by (auto simp: getForceReplicasOverride_def ParseInt32_range split: option.splits if_splits)

lemma minimumTimeHasElapsed_extends [trace_intros]:
  "minimumTimeHasElapsed E tr f all = (r, tr') \<Longrightarrow> tr' = tr \<or> tr' = tr @ [EvNow]"
  by (auto simp: minimumTimeHasElapsed_def split: res.splits option.splits if_splits)

lemma desiredStsReplicas_extends [trace_intros]:
  "desiredStsReplicas E tr sts all = (r, tr') \<Longrightarrow> tr' = tr \<or> tr' = tr @ [EvNow]"
  by (auto simp: desiredStsReplicas_def dest!: minimumTimeHasElapsed_extends
      split: res.splits option.splits if_splits prod.splits)

text \<open>What a scale-down decision has established.\<close>

lemma desired_lower:
  assumes des: "desiredStsReplicas E tr sts all = (Ok d, tr')"
    and cur: "sts_replicas sts = Some cur" and "d < cur"
    and nf: "getForceReplicasOverride sts = None"
    and s: "s \<in> set all" "sts_name s \<noteq> sts_name sts"
      "sts_annotations s LastDownscaleAnnotationKey = Some raw" "ParseRFC3339 raw = Some t" "0 < t"
  obtains v m where "GetMinTimeBetweenZonesDownscale (sts_annotations sts) (sts_labels sts) = Some v"
    and "ParseDuration v = Some m" and "m < time_sub (e_now E tr) t"
proof -
  from assms(1-4) have "\<exists>tr1. minimumTimeHasElapsed E tr sts all = (Ok True, tr1)"
    by (auto simp: desiredStsReplicas_def deref_def split: res.splits option.splits if_splits prod.splits)
  then obtain tr1 where mt: "minimumTimeHasElapsed E tr sts all = (Ok True, tr1)" ..
  then obtain last where last: "most_recent (sts_name sts) 0 all = Ok last"
    by (auto simp: minimumTimeHasElapsed_def getMostRecentDownscale_def split: res.splits)
  have "t \<le> last" using most_recent_Ok(2) [OF last] s by blast
  with mt last \<open>0 < t\<close> obtain v m where
      "GetMinTimeBetweenZonesDownscale (sts_annotations sts) (sts_labels sts) = Some v"
    and "ParseDuration v = Some m" and "m < time_sub (e_now E tr) last"
    by (auto simp: minimumTimeHasElapsed_def getMostRecentDownscale_def split: res.splits option.splits if_splits)
  moreover have "time_sub (e_now E tr) last \<le> time_sub (e_now E tr) t"
    using \<open>t \<le> last\<close> by (auto simp: time_sub_def)
  ultimately show ?thesis using that by force
qed

section \<open>Properties\<close>

text \<open>the max-unavailable setting of a StatefulSet. It is at least 1 whatever the annotation
  holds; \<open>p%\<close> with \<open>1 \<le> p \<le> 100\<close> means the integer part of \<open>p * replicas / 100\<close> (the double-precision
  computation of the code is exact), but at least 1; a positive integer means itself.\<close>

theorem max_unavailable_setting:
  "1 \<le> getMaxUnavailableForStatefulSet sts \<and>
   (is_int32 r \<longrightarrow> 1 \<le> p \<longrightarrow> p \<le> 100 \<longrightarrow>
      getMaxUnavailableForStatefulSet
        (sts\<lparr>sts_replicas := Some r,
             sts_annotations := (sts_annotations sts)(RolloutMaxUnavailableAnnotationKey \<mapsto> Itoa p @ ''%'')\<rparr>)
      = max 1 (p * r div 100)) \<and>
   (1 \<le> n \<longrightarrow> n < 2 ^ 63 \<longrightarrow>
      getMaxUnavailableForStatefulSet
        (sts\<lparr>sts_annotations := (sts_annotations sts)(RolloutMaxUnavailableAnnotationKey \<mapsto> Itoa n)\<rparr>) = n)"
proof (intro conjI impI)
  show "1 \<le> getMaxUnavailableForStatefulSet sts" by (rule getMaxUnavailable_pos)
next
  assume p: "is_int32 r" "1 \<le> p" "p \<le> 100"
  let ?s = "dec_str p @ ''%''"
  have "TrimSpace ?s = ?s"
    using dec_str_ends [of p] p is_digit_visible by (intro TrimSpace_id) (auto simp: visible_def)
  moreover have "HasSuffix ?s ''%''" by (simp add: HasSuffix_def HasPrefix_def)
  moreover have "Atoi (dec_str p) = Some p" using p by (intro Atoi_dec_str) auto
  moreover have "floor_hundredth (wrap64 (p * r)) = p * r div 100" using p by (intro perc_floor) auto
  ultimately show "getMaxUnavailableForStatefulSet
        (sts\<lparr>sts_replicas := Some r,
             sts_annotations := (sts_annotations sts)(RolloutMaxUnavailableAnnotationKey \<mapsto> Itoa p @ ''%'')\<rparr>)
      = max 1 (p * r div 100)"
    using p by (simp add: getMaxUnavailableForStatefulSet_def Itoa_def Let_def)
next
  assume n: "1 \<le> n" "n < 2 ^ 63"
  have "TrimSpace (dec_str n) = dec_str n"
    using dec_str_ends [of n] n by (intro TrimSpace_id) (auto simp: is_digit_visible)
  moreover have "\<not> HasSuffix (dec_str n) ''%''"
    using dec_str_ends [of n] n by (cases "dec_str n" rule: rev_cases) (auto simp: HasSuffix_def HasPrefix_def is_digit_def)
  moreover have "Atoi (dec_str n) = Some n" using n by (intro Atoi_dec_str) auto
  ultimately show "getMaxUnavailableForStatefulSet
        (sts\<lparr>sts_annotations := (sts_annotations sts)(RolloutMaxUnavailableAnnotationKey \<mapsto> Itoa n)\<rparr>) = n"
    using n by (simp add: getMaxUnavailableForStatefulSet_def Itoa_def Let_def)
qed

theorem max_unavailable_setting_witness:
  "getMaxUnavailableForStatefulSet
     ((demo_sts ''a'' 0 Map.empty)\<lparr>sts_replicas := Some 29,
        sts_annotations := (sts_annotations (demo_sts ''a'' 0 Map.empty))
          (RolloutMaxUnavailableAnnotationKey \<mapsto> Itoa 58 @ ''%'')\<rparr>) = 16 \<and>
   getMaxUnavailableForStatefulSet
     ((demo_sts ''a'' 0 Map.empty)\<lparr>sts_annotations := (sts_annotations (demo_sts ''a'' 0 Map.empty))
          (RolloutMaxUnavailableAnnotationKey \<mapsto> Itoa 7)\<rparr>) = 7"
  using max_unavailable_setting [of "demo_sts ''a'' 0 Map.empty" 29 58 7] by (simp add: is_int32_def)

text \<open>C8: a follower is only scaled down when the downscale of every other zone of its group is long
  enough ago. If the computed replica count is lower than the current one and no force-replicas
  override is set, it is the leader's count, and for every other StatefulSet of the group with a
  last-downscale time \<open>t\<close> more than the configured minimum time has passed since \<open>t\<close> at the clock
  reading of the decision.\<close>

theorem follower_downscale_gated:
  assumes "desiredStsReplicas E tr sts all = (Ok d, tr')"
    and "sts_replicas sts = Some cur" and "d < cur" and "getForceReplicasOverride sts = None"
  shows "(\<exists>leader\<in>set all. sts_replicas leader = Some d \<and>
            sts_annotations sts RolloutDownscaleLeaderAnnotationKey = Some (sts_name leader)) \<and>
         (\<forall>s raw t. s \<in> set all \<and> sts_name s \<noteq> sts_name sts \<and>
            sts_annotations s LastDownscaleAnnotationKey = Some raw \<and> ParseRFC3339 raw = Some t \<and> 0 < t \<longrightarrow>
            (\<exists>v m. GetMinTimeBetweenZonesDownscale (sts_annotations sts) (sts_labels sts) = Some v \<and>
                   ParseDuration v = Some m \<and> m < time_sub (e_now E tr) t))"
proof
  from assms obtain l where "getLeaderForStatefulSet sts all = Ok (Some l)" and "sts_replicas l = Some d"
    by (auto simp: desiredStsReplicas_def deref_def split: res.splits option.splits if_splits prod.splits)
  with getLeader_Some show "\<exists>leader\<in>set all. sts_replicas leader = Some d \<and>
            sts_annotations sts RolloutDownscaleLeaderAnnotationKey = Some (sts_name leader)" by blast
  show "\<forall>s raw t. s \<in> set all \<and> sts_name s \<noteq> sts_name sts \<and>
            sts_annotations s LastDownscaleAnnotationKey = Some raw \<and> ParseRFC3339 raw = Some t \<and> 0 < t \<longrightarrow>
            (\<exists>v m. GetMinTimeBetweenZonesDownscale (sts_annotations sts) (sts_labels sts) = Some v \<and>
                   ParseDuration v = Some m \<and> m < time_sub (e_now E tr) t)"
    by (meson assms desired_lower)
qed

text \<open>C13: what the downscale webhook writes, the controller reads back. When another zone of the group
  carries the timestamp of a downscale at \<open>t\<close>, formatted the way the webhook formats it, then until one
  second before the minimum time has passed since \<open>t\<close> the controller never computes a lower replica
  count for the follower (one second is what RFC 3339 truncates).\<close>

theorem recent_downscale_blocks_follower:
  assumes "desiredStsReplicas E tr sts all = (Ok d, tr')"
    and "sts_replicas sts = Some cur" and "getForceReplicasOverride sts = None"
    and "s \<in> set all" and "sts_name s \<noteq> sts_name sts"
    and "sts_annotations s LastDownscaleAnnotationKey = Some (FormatRFC3339 t)"
    and "writable_time t" and "second \<le> t"
    and "GetMinTimeBetweenZonesDownscale (sts_annotations sts) (sts_labels sts) = Some v"
    and "ParseDuration v = Some m"
    and "e_now E tr \<le> t + m - second"
  shows "cur \<le> d"
proof (rule ccontr)
  assume "\<not> cur \<le> d"
  then have "d < cur" by simp
  define t' where "t' = t - t mod 1000000000"
  have parse: "ParseRFC3339 (FormatRFC3339 t) = Some t'"
    using assms(7) by (simp add: ParseRFC3339_FormatRFC3339 t'_def)
  have t': "t - second < t'" "0 < t'"
  proof -
    have "t mod 1000000000 < 1000000000" by simp
    then show "t - second < t'" by (simp add: t'_def second_def)
    with assms(8) show "0 < t'" by simp
  qed
  obtain v' m' where "GetMinTimeBetweenZonesDownscale (sts_annotations sts) (sts_labels sts) = Some v'"
    and "ParseDuration v' = Some m'" and lt: "m' < time_sub (e_now E tr) t'"
    by (rule desired_lower [OF assms(1,2) \<open>d < cur\<close> assms(3,4,5,6) parse t'(2)])
  with assms(9,10) have "m < time_sub (e_now E tr) t'" by simp
  moreover have "e_now E tr - t' < m" using assms(11) t'(1) by simp
  moreover have "is_int64 m" using assms(10) by (rule ParseDuration_range)
  ultimately show False by (auto simp: time_sub_def is_int64_def)
qed

text \<open>A leader with three replicas, a follower with five, and the third zone downscaled at \<open>10 ^ 18\<close>.\<close>

definition demo_zones :: "statefulset list" where
  "demo_zones =
     [demo_sts ''zone-a'' 3 Map.empty,
      demo_sts ''zone-b'' 5 [RolloutDownscaleLeaderAnnotationKey \<mapsto> ''zone-a'',
                             MinTimeBetweenZonesDownscaleAnnotationKey \<mapsto> ''12h''],
      demo_sts ''zone-c'' 5 [LastDownscaleAnnotationKey \<mapsto> FormatRFC3339 (1000000000000000000)]]"

lemma demo_time: "ParseRFC3339 (FormatRFC3339 (1000000000000000000)) = Some (1000000000000000000)" "writable_time (1000000000000000000)"
proof -
  show "writable_time (1000000000000000000)" by (simp add: writable_time_def year_of_days_def Let_def)
  then show "ParseRFC3339 (FormatRFC3339 (1000000000000000000)) = Some (1000000000000000000)"
    by (simp add: ParseRFC3339_FormatRFC3339)
qed

lemma demo_half_day: "ParseDuration ''12h'' = Some (12 * hour)"
  by (simp add: duration_eval hour_def minute_def second_def)

lemmas demo_replicas_eval = desiredStsReplicas_def getLeaderForStatefulSet_def getForceReplicasOverride_def
  minimumTimeHasElapsed_def getMostRecentDownscale_def GetMinTimeBetweenZonesDownscale_def demo_zones_def
  demo_sts_def deref_def config_keys time_sub_def

lemma demo_follower_scales_down:
  "desiredStsReplicas (steady_env (1000000000000000000 + 13 * hour) [] []) [] (demo_zones ! 1) demo_zones = (Ok 3, [EvNow])"
  using demo_time demo_half_day by (simp add: demo_replicas_eval hour_def minute_def second_def)

lemma demo_follower_waits:
  "desiredStsReplicas (steady_env (1000000000000000000 + 11 * hour) [] []) [] (demo_zones ! 1) demo_zones = (Ok 5, [EvNow])"
  using demo_time demo_half_day by (simp add: demo_replicas_eval hour_def minute_def second_def)

theorem follower_downscale_gated_witness:
  "12 * hour < time_sub (1000000000000000000 + 13 * hour) (1000000000000000000)"
proof -
  have "\<exists>v m. GetMinTimeBetweenZonesDownscale (sts_annotations (demo_zones ! 1)) (sts_labels (demo_zones ! 1)) = Some v \<and>
      ParseDuration v = Some m \<and> m < time_sub (e_now (steady_env (1000000000000000000 + 13 * hour) [] []) []) (1000000000000000000)"
    by (rule follower_downscale_gated [OF demo_follower_scales_down, of 5, THEN conjunct2, THEN spec,
          THEN spec, THEN spec, of "demo_zones ! 2" "FormatRFC3339 1000000000000000000", THEN mp])
       (simp_all add: demo_time demo_zones_def demo_sts_def getForceReplicasOverride_def config_keys)
  then show ?thesis
    using demo_half_day by (simp add: demo_zones_def demo_sts_def GetMinTimeBetweenZonesDownscale_def config_keys)
qed

theorem recent_downscale_blocks_follower_witness:
  "sts_replicas (demo_zones ! 1) = Some 5 \<and> (5 :: int) \<le> 5"
proof
  show "sts_replicas (demo_zones ! 1) = Some 5" by (simp add: demo_zones_def demo_sts_def)
  show "(5 :: int) \<le> 5"
    by (rule recent_downscale_blocks_follower [OF demo_follower_waits,
          where s = "demo_zones ! 2" and t = "1000000000000000000" and v = "''12h''" and m = "12 * hour"])
       (simp_all add: demo_zones_def demo_sts_def getForceReplicasOverride_def GetMinTimeBetweenZonesDownscale_def
          config_keys demo_time demo_half_day hour_def minute_def second_def)
qed

end
