(* ===== verification/DelayedDownscale.thy ===== *)
theory DelayedDownscale
  imports ReplicasPolicy
begin

text \<open>
  \<^verbatim>\<open>pkg/controller/delay.go\<close>: the delayed downscale. Pods about to be removed are asked (POST) to
  prepare and report since when they are prepared; the others are told (DELETE) to stop preparing.
  Only the pods at the end of the StatefulSet whose delay has passed may be removed.

  The code sends the requests of one call concurrently (an \<^verbatim>\<open>errgroup\<close>). Here they are sent in the
  order of the endpoints; each reply is chosen by the environment, so it also covers a request that
  was cancelled because another one failed. The results are keyed by replica and do not depend on
  the order; which of several errors is returned does.
\<close>

section \<open>\<^verbatim>\<open>model.ParseDuration\<close> of the Prometheus library\<close>

definition unitMap :: "string \<rightharpoonup> nat \<times> int" where
  "unitMap =
     [''ms'' \<mapsto> (7, 1000000), ''s'' \<mapsto> (6, second), ''m'' \<mapsto> (5, minute), ''h'' \<mapsto> (4, hour),
      ''d'' \<mapsto> (3, 24 * hour), ''w'' \<mapsto> (2, 7 * 24 * hour), ''y'' \<mapsto> (1, 365 * 24 * hour)]"

text \<open>The loop: \<open>dur\<close> and \<open>lastUnitPos\<close> are its variables. No unsigned addition in it can wrap.\<close>

function prom_terms :: "int \<Rightarrow> nat \<Rightarrow> string \<Rightarrow> duration option" where
  "prom_terms dur lastUnitPos s =
     (if s = [] then Some dur
      else if \<not> is_digit (hd s) then None
      else
        (let v = dec_val 0 (takeWhile is_digit s);
             s1 = dropWhile is_digit s;
             u = takeWhile (\<lambda>c. \<not> is_digit c) s1;
             s2 = dropWhile (\<lambda>c. \<not> is_digit c) s1
         in if 2 ^ 64 \<le> v then None
            else if u = [] then None
            else (case unitMap u of
                    None \<Rightarrow> None
                  | Some (upos, factor) \<Rightarrow>
                      if upos \<le> lastUnitPos then None
                      else if 2 ^ 63 div factor < v then None
                      else if 2 ^ 63 - 1 < dur + v * factor then None
                      else prom_terms (dur + v * factor) upos s2)))"
  by pat_completeness auto
termination
proof (relation "measure (\<lambda>(d, p, s). length s)", goal_cases)
  case (2 dur lastUnitPos s v s1 u s2 x2 a b)
  have "length s1 < length s" using 2(1-4) by (cases s) (auto simp: le_imp_less_Suc length_dropWhile_le)
  moreover have "length s2 \<le> length s1" using 2 by (simp add: length_dropWhile_le)
  ultimately show ?case by simp
qed simp

declare prom_terms.simps [simp del]

definition PromParseDuration :: "string \<Rightarrow> duration option" where
  "PromParseDuration s = (if s = ''0'' then Some 0 else if s = [] then None else prom_terms 0 0 s)"

section \<open>Annotations and endpoints\<close>

text \<open>\<^verbatim>\<open>u.Port()\<close>: what follows the last colon of the host when it is all digits.\<close>

definition url_Port :: "url \<Rightarrow> string" where
  "url_Port u =
     (let r = rev (url_host u); p = takeWhile (\<lambda>c. c \<noteq> CHR '':'') r
      in if CHR '':'' \<in> set r \<and> list_all is_digit p then rev p else '''')"

definition parseDelayedDownscaleAnnotations :: "env \<Rightarrow> strmap \<Rightarrow> (duration \<times> url option) res" where
  "parseDelayedDownscaleAnnotations E annotations =
     (let delayStr = mget annotations RolloutDelayedDownscaleAnnotationKey;
          urlStr = mget annotations RolloutDelayedDownscalePrepareUrlAnnotationKey
      in if delayStr = '''' \<or> urlStr = '''' then Ok (0, None)
         else (case PromParseDuration delayStr of
                 None \<Rightarrow> Fail (Err (''failed to parse '' @ RolloutDelayedDownscaleAnnotationKey
                                  @ '' annotation value as duration''))
               | Some d \<Rightarrow>
                   if d < 0 then Fail (Err (''negative value of '' @ RolloutDelayedDownscaleAnnotationKey
                                            @ '' annotation: '' @ delayStr))
                   else (case e_url_parse E urlStr of
                           Error e \<Rightarrow> Fail (Err (''failed to parse '' @ RolloutDelayedDownscalePrepareUrlAnnotationKey
                                              @ '' annotation value as URL: '' @ errmsg e))
                         | Reply u \<Rightarrow> Ok (d, Some u))))"

record endpoint =
  ep_namespace :: string
  ep_podName :: string
  ep_url :: url
  ep_replica :: int

definition prepare_endpoint :: "string \<Rightarrow> string \<Rightarrow> string \<Rightarrow> string \<Rightarrow> url \<Rightarrow> int \<Rightarrow> endpoint" where
  "prepare_endpoint namespace statefulSetName serviceName clusterDomain u index =
     (let newHost = StatefulSetPodFQDN namespace statefulSetName index serviceName clusterDomain;
          host = (if url_Port u \<noteq> '''' then newHost @ '':'' @ url_Port u else newHost)
      in \<lparr>ep_namespace = namespace, ep_podName = statefulSetName @ ''-'' @ Itoa index,
          ep_url = u\<lparr>url_host := host\<rparr>, ep_replica = index\<rparr>)"

text \<open>\<^verbatim>\<open>make([]endpoint, 0, to-from)\<close> panics on a negative capacity.\<close>

definition createPrepareDownscaleEndpoints ::
    "string \<Rightarrow> string \<Rightarrow> string \<Rightarrow> string \<Rightarrow> int \<Rightarrow> int \<Rightarrow> url \<Rightarrow> endpoint list res" where
  "createPrepareDownscaleEndpoints namespace statefulSetName serviceName clusterDomain from to u =
     (if to - from < 0 then Panic ''makeslice: cap out of range''
      else Ok (map (prepare_endpoint namespace statefulSetName serviceName clusterDomain u) [from..to - 1]))"

section \<open>Calls to the pods\<close>

text \<open>\<^verbatim>\<open>time.Unix(ts, 0)\<close>; the addition inside \<^verbatim>\<open>time.Time\<close> wraps.\<close>

definition unix_time :: "int \<Rightarrow> instant" where
  "unix_time ts = wrap64 (ts + 62135596800) * second"

definition prepare_one :: "env \<Rightarrow> trace \<Rightarrow> endpoint \<Rightarrow> duration reply \<times> trace" where
  "prepare_one E tr ep =
     (let tr1 = tr @ [EvHttp POST (ep_url ep)] in
      case e_http E tr POST (ep_url ep) of
        Error e \<Rightarrow> (Error e, tr1)
      | Reply resp \<Rightarrow>
          (case resp_body_err resp of
             Some e \<Rightarrow> (Error e, tr1)
           | None \<Rightarrow>
               if resp_status resp div 100 \<noteq> 2 then
                 (Error (Err (''HTTP POST request returned non-2xx status code: '' @ Itoa (resp_status resp))), tr1)
               else (case resp_timestamp resp of
                       Error e \<Rightarrow> (Error e, tr1)
                     | Reply ts \<Rightarrow>
                         if ts = 0 then (Error (Err ''no timestamp in response''), tr1)
                         else (Reply (time_sub (e_now E tr1) (unix_time ts)), tr1 @ [EvNow]))))"

text \<open>The map \<^verbatim>\<open>timestamps\<close> is an association list, newest entry first.\<close>

fun prepare_all :: "env \<Rightarrow> trace \<Rightarrow> endpoint list \<Rightarrow> (int \<times> duration) list \<Rightarrow> err option
    \<Rightarrow> ((int \<times> duration) list \<times> err option) \<times> trace" where
  "prepare_all E tr [] timestamps firstErr = ((timestamps, firstErr), tr)"
| "prepare_all E tr (ep # eps) timestamps firstErr =
     (case prepare_one E tr ep of
        (Reply elapsed, tr1) \<Rightarrow> prepare_all E tr1 eps ((ep_replica ep, elapsed) # timestamps) firstErr
      | (Error e, tr1) \<Rightarrow>
          prepare_all E tr1 eps timestamps (case firstErr of None \<Rightarrow> Some e | Some e0 \<Rightarrow> Some e0))"

definition callPrepareDownscaleAndReturnElapsedDurationsSinceInitiatedDownscale ::
    "env \<Rightarrow> trace \<Rightarrow> endpoint list \<Rightarrow> ((int \<times> duration) list \<times> err option) \<times> trace" where
  "callPrepareDownscaleAndReturnElapsedDurationsSinceInitiatedDownscale E tr endpoints =
     (if endpoints = [] then (([], Some (Err ''no endpoints'')), tr)
      else prepare_all E tr endpoints [] None)"

text \<open>Every error of a cancel request is only logged: the call leaves nothing but its requests.\<close>

definition callCancelDelayedDownscale :: "trace \<Rightarrow> endpoint list \<Rightarrow> trace" where
  "callCancelDelayedDownscale tr endpoints = tr @ map (\<lambda>ep. EvHttp DELETE (ep_url ep)) endpoints"

definition sts_endpoints :: "statefulset \<Rightarrow> string \<Rightarrow> int \<Rightarrow> int \<Rightarrow> url \<Rightarrow> endpoint list res" where
  "sts_endpoints sts clusterDomain from to u =
     createPrepareDownscaleEndpoints (sts_namespace sts) (sts_name sts) (sts_service_name sts) clusterDomain from to u"

definition cancelDelayedDownscaleIfConfigured ::
    "env \<Rightarrow> trace \<Rightarrow> statefulset \<Rightarrow> string \<Rightarrow> int \<Rightarrow> unit res \<times> trace" where
  "cancelDelayedDownscaleIfConfigured E tr sts clusterDomain replicas =
     (case parseDelayedDownscaleAnnotations E (sts_annotations sts) of
        Fail e \<Rightarrow> (Ok (), tr)
      | Panic m \<Rightarrow> (Panic m, tr)
      | Ok (delay, None) \<Rightarrow> (Ok (), tr)
      | Ok (delay, Some u) \<Rightarrow>
          if delay = 0 then (Ok (), tr)
          else (case sts_endpoints sts clusterDomain 0 replicas u of
                  Ok eps \<Rightarrow> (Ok (), callCancelDelayedDownscale tr eps)
                | Fail e \<Rightarrow> (Fail e, tr)
                | Panic m \<Rightarrow> (Panic m, tr)))"

section \<open>The delay check\<close>

text \<open>The loop over \<open>replica\<close> from the end of the range down to \<open>desired\<close>.\<close>

function scan_down :: "(int \<rightharpoonup> duration) \<Rightarrow> duration \<Rightarrow> int \<Rightarrow> int \<Rightarrow> int \<Rightarrow> int" where
  "scan_down elapsed delay desired replica allowed =
     (if replica < desired then allowed
      else (case elapsed replica of
              None \<Rightarrow> allowed
            | Some e \<Rightarrow> if e < delay then allowed
                        else scan_down elapsed delay desired (replica - 1) (allowed - 1)))"
  by pat_completeness auto
termination
  by (relation "measure (\<lambda>(e, dl, d, r, a). nat (r - d + 1))") auto

declare scan_down.simps [simp del]

text \<open>
  The three Go results: updated desired replicas, prepared replicas, error. The subtractions cannot
  wrap: a negative \<open>desired\<close> has already panicked in \<^const>\<open>createPrepareDownscaleEndpoints\<close>.
\<close>

definition checkScalingDelay ::
    "env \<Rightarrow> trace \<Rightarrow> statefulset \<Rightarrow> string \<Rightarrow> int \<Rightarrow> int \<Rightarrow> (int \<times> int \<times> err option) res \<times> trace" where
  "checkScalingDelay E tr sts clusterDomain currentReplicas desiredReplicas =
     (if currentReplicas = desiredReplicas then (Ok (currentReplicas, 0, None), tr)
      else
        (case parseDelayedDownscaleAnnotations E (sts_annotations sts) of
           Panic m \<Rightarrow> (Panic m, tr)
         | Fail e \<Rightarrow> (Ok (currentReplicas, 0, Some e), tr)
         | Ok (delay, None) \<Rightarrow> (Ok (desiredReplicas, 0, None), tr)
         | Ok (delay, Some u) \<Rightarrow>
             if delay = 0 then (Ok (desiredReplicas, 0, None), tr)
             else if currentReplicas \<le> desiredReplicas then
               (case sts_endpoints sts clusterDomain 0 currentReplicas u of
                  Ok eps \<Rightarrow> (Ok (desiredReplicas, 0, None), callCancelDelayedDownscale tr eps)
                | Fail e \<Rightarrow> (Fail e, tr)
                | Panic m \<Rightarrow> (Panic m, tr))
             else
               (case sts_endpoints sts clusterDomain 0 desiredReplicas u of
                  Fail e \<Rightarrow> (Fail e, tr)
                | Panic m \<Rightarrow> (Panic m, tr)
                | Ok cancelEndpoints \<Rightarrow>
                    (let tr1 = callCancelDelayedDownscale tr cancelEndpoints in
                     case sts_endpoints sts clusterDomain desiredReplicas currentReplicas u of
                       Fail e \<Rightarrow> (Fail e, tr1)
                     | Panic m \<Rightarrow> (Panic m, tr1)
                     | Ok downscaleEndpoints \<Rightarrow>
                         (case callPrepareDownscaleAndReturnElapsedDurationsSinceInitiatedDownscale E tr1 downscaleEndpoints of
                            ((elapsed, Some e), tr2) \<Rightarrow>
                              (Ok (currentReplicas, int (length (remdups (map fst elapsed))),
                                   Some (Err (''failed prepare pods for delayed downscale: '' @ errmsg e))), tr2)
                          | ((elapsed, None), tr2) \<Rightarrow>
                              (let allowed = scan_down (map_of elapsed) delay desiredReplicas (currentReplicas - 1) currentReplicas
                               in if allowed = currentReplicas
                                  then (Ok (currentReplicas, currentReplicas - desiredReplicas,
                                            Some (Err ''configured downscale delay has not been reached for any pods at the end of statefulset replicas range'')), tr2)
                                  else (Ok (allowed, allowed - desiredReplicas, None), tr2)))))))"

section \<open>What a successful preparation means\<close>

text \<open>
  At some point of the trace the pod of \<open>ep\<close> answered its POST with a 2xx status and a timestamp,
  and \<open>el\<close> is the time from that timestamp to the clock reading that followed.
\<close>

definition prepared_since :: "env \<Rightarrow> trace \<Rightarrow> endpoint \<Rightarrow> duration \<Rightarrow> bool" where
  "prepared_since E tr ep el \<longleftrightarrow>
     (\<exists>pre post resp ts. tr = pre @ [EvHttp POST (ep_url ep), EvNow] @ post \<and>
        e_http E pre POST (ep_url ep) = Reply resp \<and> resp_body_err resp = None \<and>
        resp_status resp div 100 = 2 \<and> resp_timestamp resp = Reply ts \<and> ts \<noteq> 0 \<and>
        el = time_sub (e_now E (pre @ [EvHttp POST (ep_url ep)])) (unix_time ts))"

lemma prepared_since_extends: "prepared_since E tr ep el \<Longrightarrow> extends tr tr' \<Longrightarrow> prepared_since E tr' ep el"
  unfolding prepared_since_def extends_def by (elim exE conjE) (metis append_assoc)

lemma prepare_one_Reply:
  assumes "prepare_one E tr ep = (Reply el, tr')"
  shows "prepared_since E tr' ep el"
proof -
  from assms have "tr' = tr @ [EvHttp POST (ep_url ep), EvNow] @ []"
    and "\<exists>resp ts. e_http E tr POST (ep_url ep) = Reply resp \<and> resp_body_err resp = None \<and>
        resp_status resp div 100 = 2 \<and> resp_timestamp resp = Reply ts \<and> ts \<noteq> 0 \<and>
        el = time_sub (e_now E (tr @ [EvHttp POST (ep_url ep)])) (unix_time ts)"
    by (auto simp: prepare_one_def Let_def split: reply.splits option.splits if_splits)
  then show ?thesis unfolding prepared_since_def by blast
qed

lemma prepare_one_trace:
  "prepare_one E tr ep = (r, tr') \<Longrightarrow>
     extends tr tr' \<and> http_requests tr' = http_requests tr @ [(POST, ep_url ep)] \<and> replica_patches tr' = replica_patches tr"
  by (auto simp: prepare_one_def Let_def extends_def split: reply.splits option.splits if_splits)

lemma prepare_all_trace:
  "prepare_all E tr eps ts fe = (r, tr') \<Longrightarrow>
     extends tr tr' \<and> http_requests tr' = http_requests tr @ map (\<lambda>ep. (POST, ep_url ep)) eps \<and>
     replica_patches tr' = replica_patches tr"
proof (induction eps arbitrary: tr ts fe)
  case (Cons ep eps)
  obtain q tr1 where one: "prepare_one E tr ep = (q, tr1)" by fastforce
  note t = prepare_one_trace [OF one]
  from Cons.prems one obtain ts1 fe1 where "prepare_all E tr1 eps ts1 fe1 = (r, tr')"
    by (auto split: reply.splits)
  from Cons.IH [OF this] t show ?case by (auto intro: extends_trans)
qed simp

lemma prepare_all_entries:
  "prepare_all E tr eps ts fe = ((ts', fe'), tr') \<Longrightarrow> (i, el) \<in> set ts' \<Longrightarrow>
     (i, el) \<in> set ts \<or> (\<exists>ep\<in>set eps. ep_replica ep = i \<and> prepared_since E tr' ep el)"
proof (induction eps arbitrary: tr ts fe)
  case (Cons ep eps)
  obtain q tr1 where one: "prepare_one E tr ep = (q, tr1)" by fastforce
  show ?case
  proof (cases q)
    case (Reply el0)
    with Cons.prems(1) one have rest: "prepare_all E tr1 eps ((ep_replica ep, el0) # ts) fe = ((ts', fe'), tr')"
      by simp
    have "prepared_since E tr' ep el0"
      using prepared_since_extends prepare_one_Reply one Reply prepare_all_trace [OF rest] by blast
    with Cons.IH [OF rest Cons.prems(2)] show ?thesis by auto
  next
    case (Error e)
    with Cons.prems(1) one obtain fe1 where "prepare_all E tr1 eps ts fe1 = ((ts', fe'), tr')" by auto
    from Cons.IH [OF this Cons.prems(2)] show ?thesis by auto
  qed
qed simp

lemma prepare_all_no_error:
  "prepare_all E tr eps ts fe = ((ts', None), tr') \<Longrightarrow>
     fe = None \<and> map fst ts' = rev (map ep_replica eps) @ map fst ts"
proof (induction eps arbitrary: tr ts fe)
  case (Cons ep eps)
  obtain q tr1 where one: "prepare_one E tr ep = (q, tr1)" by fastforce
  show ?case
  proof (cases q)
    case (Reply el0)
    with Cons.prems one have "prepare_all E tr1 eps ((ep_replica ep, el0) # ts) fe = ((ts', None), tr')" by simp
    from Cons.IH [OF this] show ?thesis by simp
  next
    case (Error e)
    with Cons.prems one have "prepare_all E tr1 eps ts (case fe of None \<Rightarrow> Some e | Some e0 \<Rightarrow> Some e0) = ((ts', None), tr')"
      by simp
    from Cons.IH [OF this] show ?thesis by (simp split: option.splits)
  qed
qed simp

section \<open>The scan\<close>

lemma scan_down_spec:
  assumes "scan_down elapsed delay desired (allowed - 1) allowed = a" and "desired \<le> allowed"
  shows "desired \<le> a \<and> a \<le> allowed \<and>
         (\<forall>i. a \<le> i \<and> i < allowed \<longrightarrow> (\<exists>el. elapsed i = Some el \<and> delay \<le> el)) \<and>
         (a = desired \<or> elapsed (a - 1) = None \<or> (\<exists>el. elapsed (a - 1) = Some el \<and> el < delay))"
  using assms
proof (induction "nat (allowed - desired)" arbitrary: allowed rule: less_induct)
  case less
  show ?case
  proof (cases "allowed = desired")
    case True
    with less.prems show ?thesis by (auto simp: scan_down.simps [of elapsed delay desired])
  next
    case False
    with less.prems(2) have lt: "desired < allowed" by simp
    show ?thesis
    proof (cases "\<exists>el. elapsed (allowed - 1) = Some el \<and> delay \<le> el")
      case True
      with less.prems(1) lt have "scan_down elapsed delay desired (allowed - 1 - 1) (allowed - 1) = a"
        by (auto simp: scan_down.simps [of elapsed delay desired "allowed - 1"])
      from less.hyps [OF _ this] lt have IH: "desired \<le> a \<and> a \<le> allowed - 1 \<and>
          (\<forall>i. a \<le> i \<and> i < allowed - 1 \<longrightarrow> (\<exists>el. elapsed i = Some el \<and> delay \<le> el)) \<and>
          (a = desired \<or> elapsed (a - 1) = None \<or> (\<exists>el. elapsed (a - 1) = Some el \<and> el < delay))"
        by simp
      have "\<exists>el. elapsed i = Some el \<and> delay \<le> el" if "a \<le> i" "i < allowed" for i
        using that IH True by (cases "i = allowed - 1") auto
      with IH show ?thesis by simp
    next
      case stop: False
      with less.prems(1) lt have "a = allowed"
        by (auto simp: scan_down.simps [of elapsed delay desired "allowed - 1"] not_le split: option.splits)
      with stop lt show ?thesis by (cases "elapsed (allowed - 1)") auto
    qed
  qed
qed

section \<open>The delay check\<close>

lemma sts_endpoints_Ok:
  "sts_endpoints sts cd from to u = Ok eps \<longleftrightarrow>
     from \<le> to \<and> eps = map (prepare_endpoint (sts_namespace sts) (sts_name sts) (sts_service_name sts) cd u) [from..to - 1]"
  by (auto simp: sts_endpoints_def createPrepareDownscaleEndpoints_def)

lemma sts_endpoints_not_Fail [simp]: "sts_endpoints sts cd from to u \<noteq> Fail e"
  by (simp add: sts_endpoints_def createPrepareDownscaleEndpoints_def)

lemma http_requests_cancel [simp]:
  "http_requests (callCancelDelayedDownscale tr eps) = http_requests tr @ map (\<lambda>ep. (DELETE, ep_url ep)) eps"
proof -
  have "http_requests (map (\<lambda>ep. EvHttp DELETE (ep_url ep)) eps) = map (\<lambda>ep. (DELETE, ep_url ep)) eps"
    by (induction eps) auto
  then show ?thesis by (simp add: callCancelDelayedDownscale_def)
qed

lemma replica_patches_cancel [simp]: "replica_patches (callCancelDelayedDownscale tr eps) = replica_patches tr"
proof -
  have "replica_patches (map (\<lambda>ep. EvHttp DELETE (ep_url ep)) eps) = []" by (induction eps) auto
  then show ?thesis by (simp add: callCancelDelayedDownscale_def)
qed

lemma extends_cancel [simp]: "extends tr (callCancelDelayedDownscale tr eps)"
  by (simp add: callCancelDelayedDownscale_def)

lemma ep_replica_prepare_endpoint [simp]: "ep_replica (prepare_endpoint ns name svc cd u i) = i"
  by (simp add: prepare_endpoint_def Let_def)

lemma checkScalingDelay_unfold:
  assumes "desired < current" and "parseDelayedDownscaleAnnotations E (sts_annotations sts) = Ok (delay, Some u)"
    and "delay \<noteq> 0" and "checkScalingDelay E tr sts cd current desired = (Ok (n, p, eo), tr')"
  obtains elapsed fe tr1 where "0 \<le> desired"
    and "prepare_all E tr1 (map (prepare_endpoint (sts_namespace sts) (sts_name sts) (sts_service_name sts) cd u) [desired..current - 1])
           [] None = ((elapsed, fe), tr')"
    and "tr1 = callCancelDelayedDownscale tr
           (map (prepare_endpoint (sts_namespace sts) (sts_name sts) (sts_service_name sts) cd u) [0..desired - 1])"
    and "eo = None \<longleftrightarrow> fe = None \<and> scan_down (map_of elapsed) delay desired (current - 1) current \<noteq> current"
    and "eo = None \<Longrightarrow> n = scan_down (map_of elapsed) delay desired (current - 1) current \<and> p = n - desired"
    and "eo \<noteq> None \<Longrightarrow> n = current"
  using assms
  by (auto simp: checkScalingDelay_def sts_endpoints_Ok Let_def
        callPrepareDownscaleAndReturnElapsedDurationsSinceInitiatedDownscale_def
      split: res.splits option.splits if_splits prod.splits)

section \<open>Properties\<close>

text \<open>C7: the delayed downscale removes only pods that have waited. When a delay is configured and the
  check lets the StatefulSet shrink to \<open>n\<close> replicas, then \<open>desired \<le> n < current\<close>, every pod with an
  ordinal in \<open>[n, current)\<close> answered its prepare request with a timestamp at least the delay ago, and the
  check stopped as late as it may: \<open>n = desired\<close>, or pod \<open>n - 1\<close> has not waited long enough. The
  number of prepared replicas that remain is \<open>n - desired\<close>.\<close>

theorem delayed_downscale_waits:
  assumes "checkScalingDelay E tr sts clusterDomain current desired = (Ok (n, p, None), tr')"
    and "desired < current"
    and "parseDelayedDownscaleAnnotations E (sts_annotations sts) = Ok (delay, Some u)" and "delay \<noteq> 0"
  defines "ep \<equiv> prepare_endpoint (sts_namespace sts) (sts_name sts) (sts_service_name sts) clusterDomain u"
  shows "desired \<le> n \<and> n < current \<and> p = n - desired \<and>
         (\<forall>i. n \<le> i \<and> i < current \<longrightarrow> (\<exists>el. delay \<le> el \<and> prepared_since E tr' (ep i) el)) \<and>
         (n = desired \<or> (\<exists>el. el < delay \<and> prepared_since E tr' (ep (n - 1)) el))"
proof -
  obtain elapsed tr1 where
      all: "prepare_all E tr1 (map ep [desired..current - 1]) [] None = ((elapsed, None), tr')"
    and n: "n = scan_down (map_of elapsed) delay desired (current - 1) current" "p = n - desired" "n \<noteq> current"
    using checkScalingDelay_unfold [OF assms(2,3,4,1)] unfolding ep_def by metis
  have keys: "map fst elapsed = rev [desired..current - 1]"
    using prepare_all_no_error [OF all] by (simp add: ep_def comp_def)
  have found: "prepared_since E tr' (ep i) el" if "map_of elapsed i = Some el" for i el
  proof -
    have "(i, el) \<in> set elapsed" using that by (rule map_of_SomeD)
    from prepare_all_entries [OF all this] show ?thesis by (auto simp: ep_def)
  qed
  have total: "map_of elapsed i \<noteq> None" if "desired \<le> i" "i < current" for i
  proof -
    have "i \<in> set (map fst elapsed)" unfolding keys using that by simp
    then show ?thesis by (simp add: map_of_eq_None_iff)
  qed
  have spec: "desired \<le> n \<and> n \<le> current \<and>
         (\<forall>i. n \<le> i \<and> i < current \<longrightarrow> (\<exists>el. map_of elapsed i = Some el \<and> delay \<le> el)) \<and>
         (n = desired \<or> map_of elapsed (n - 1) = None \<or> (\<exists>el. map_of elapsed (n - 1) = Some el \<and> el < delay))"
    using scan_down_spec [OF n(1) [symmetric]] assms(2) by simp
  then have "n = desired \<or> (\<exists>el. el < delay \<and> prepared_since E tr' (ep (n - 1)) el)"
    using found total [of "n - 1"] by auto
  moreover have "\<forall>i. n \<le> i \<and> i < current \<longrightarrow> (\<exists>el. delay \<le> el \<and> prepared_since E tr' (ep i) el)"
    using spec found by blast
  ultimately show ?thesis using spec n by simp
qed

text \<open>the requests of a delay check. When a delay is configured and the StatefulSet is to shrink,
  then, unless the check panics, it sends DELETE to exactly the pods \<open>0 .. desired - 1\<close> and POST to exactly the
  pods \<open>desired .. current - 1\<close>, each once, and nothing else; and when it reports an error the allowed
  replica count is the current one.\<close>

theorem delay_check_requests:
  assumes "checkScalingDelay E tr sts clusterDomain current desired = (Ok (n, p, eo), tr')"
    and "desired < current"
    and "parseDelayedDownscaleAnnotations E (sts_annotations sts) = Ok (delay, Some u)" and "delay \<noteq> 0"
  defines "ep \<equiv> prepare_endpoint (sts_namespace sts) (sts_name sts) (sts_service_name sts) clusterDomain u"
  shows "http_requests tr' = http_requests tr @ map (\<lambda>i. (DELETE, ep_url (ep i))) [0..desired - 1]
                                             @ map (\<lambda>i. (POST, ep_url (ep i))) [desired..current - 1] \<and>
         replica_patches tr' = replica_patches tr \<and> (eo \<noteq> None \<longrightarrow> n = current)"
proof -
  obtain elapsed fe tr1 where
      all: "prepare_all E tr1 (map ep [desired..current - 1]) [] None = ((elapsed, fe), tr')"
    and tr1: "tr1 = callCancelDelayedDownscale tr (map ep [0..desired - 1])" and "eo \<noteq> None \<longrightarrow> n = current"
    using checkScalingDelay_unfold [OF assms(2,3,4,1)] unfolding ep_def by metis
  with prepare_all_trace [OF all] show ?thesis by (simp add: comp_def)
qed

text \<open>A StatefulSet of three pods, prepared since one second after the epoch, with a delay of one hour.\<close>

definition demo_delayed :: statefulset where
  "demo_delayed = demo_sts ''store'' 3 [RolloutDelayedDownscaleAnnotationKey \<mapsto> ''1h'',
                                        RolloutDelayedDownscalePrepareUrlAnnotationKey \<mapsto> ''pod:80'']"

definition demo_url :: url where
  "demo_url = \<lparr>url_scheme = ''http'', url_host = ''pod:80'', url_path = ''/''\<rparr>"

lemma demo_delay_parsed:
  "parseDelayedDownscaleAnnotations (steady_env t [] []) (sts_annotations demo_delayed) = Ok (hour, Some demo_url)"
  by (simp add: parseDelayedDownscaleAnnotations_def demo_delayed_def demo_sts_def config_keys mget_def
      PromParseDuration_def prom_terms.simps is_digit_def digit_val_def unitMap_def demo_url_def
      hour_def minute_def second_def Let_def)

lemma demo_delay_checked:
  "\<exists>tr'. checkScalingDelay (steady_env (unix_time 1 + 2 * hour) [] []) [] demo_delayed ''local'' 3 1 = (Ok (1, 0, None), tr')"
  by (simp add: checkScalingDelay_def demo_delay_parsed sts_endpoints_def createPrepareDownscaleEndpoints_def
      callPrepareDownscaleAndReturnElapsedDurationsSinceInitiatedDownscale_def prepare_one_def
      scan_down.simps upto.simps time_sub_def hour_def minute_def second_def Let_def)

lemma hour_nonzero: "hour \<noteq> 0"
  by (simp add: hour_def minute_def second_def)

theorem delayed_downscale_waits_witness:
  "\<exists>tr' el. hour \<le> el \<and>
     prepared_since (steady_env (unix_time 1 + 2 * hour) [] []) tr' (prepare_endpoint ''ns'' ''store'' ''store'' ''local'' demo_url 2) el"
proof -
  obtain tr' where "checkScalingDelay (steady_env (unix_time 1 + 2 * hour) [] []) [] demo_delayed ''local'' 3 1 = (Ok (1, 0, None), tr')"
    using demo_delay_checked by blast
  from delayed_downscale_waits [OF this _ demo_delay_parsed hour_nonzero,
      THEN conjunct2, THEN conjunct2, THEN conjunct2, THEN conjunct1, THEN spec, of 2]
  have "\<exists>el. hour \<le> el \<and> prepared_since (steady_env (unix_time 1 + 2 * hour) [] []) tr'
      (prepare_endpoint ''ns'' ''store'' ''store'' ''local'' demo_url 2) el"
    by (simp add: demo_delayed_def demo_sts_def)
  then show ?thesis by (rule exI [of _ tr'])
qed

theorem delay_check_requests_witness:
  "\<exists>tr'. map fst (http_requests tr') = [DELETE, POST, POST] \<and>
     checkScalingDelay (steady_env (unix_time 1 + 2 * hour) [] []) [] demo_delayed ''local'' 3 1 = (Ok (1, 0, None), tr')"
proof -
  obtain tr' where c: "checkScalingDelay (steady_env (unix_time 1 + 2 * hour) [] []) [] demo_delayed ''local'' 3 1 = (Ok (1, 0, None), tr')"
    using demo_delay_checked by blast
  from delay_check_requests [OF c _ demo_delay_parsed hour_nonzero] have "map fst (http_requests tr') = [DELETE, POST, POST]"
    by (simp add: upto.simps)
  with c show ?thesis by (intro exI conjI)
qed

end
