(* ===== verification/ReplicaAdjust.thy ===== *)
theory ReplicaAdjust
  imports DelayedDownscale
begin

text \<open>
  The adjustment of replica counts of one rollout group: following a leader StatefulSet
  (\<^verbatim>\<open>controller.go\<close>) and mirroring a reference resource's scale
  (\<^verbatim>\<open>pkg/controller/custom_resource_replicas.go\<close>). At most one StatefulSet is patched per reconcile.
\<close>

section \<open>Following the leader\<close>

text \<open>The patch goes to the operator's namespace; only the error of the call is used.\<close>

definition patchStatefulSetSpecReplicas ::
    "env \<Rightarrow> string \<Rightarrow> trace \<Rightarrow> statefulset \<Rightarrow> int \<Rightarrow> unit res \<times> trace" where
  "patchStatefulSetSpecReplicas E namespace tr sts replicas =
     ((case e_patch_replicas E tr namespace (sts_name sts) replicas of Reply _ \<Rightarrow> Ok () | Error e \<Rightarrow> Fail e),
      tr @ [EvPatchReplicas namespace (sts_name sts) replicas])"

fun follow_leader :: "env \<Rightarrow> string \<Rightarrow> statefulset list \<Rightarrow> trace \<Rightarrow> statefulset list \<Rightarrow> bool res \<times> trace" where
  "follow_leader E namespace all tr [] = (Ok False, tr)"
| "follow_leader E namespace all tr (sts # sets) =
     (case deref (sts_replicas sts) of
        Fail e \<Rightarrow> (Fail e, tr)
      | Panic m \<Rightarrow> (Panic m, tr)
      | Ok currentReplicas \<Rightarrow>
          (case desiredStsReplicas E tr sts all of
             (Fail e, tr1) \<Rightarrow> (Fail e, tr1)
           | (Panic m, tr1) \<Rightarrow> (Panic m, tr1)
           | (Ok desiredReplicas, tr1) \<Rightarrow>
               if desiredReplicas > currentReplicas then
                 (case patchStatefulSetSpecReplicas E namespace tr1 sts desiredReplicas of
                    (Fail e, tr2) \<Rightarrow> (Fail e, tr2)
                  | (Panic m, tr2) \<Rightarrow> (Panic m, tr2)
                  | (Ok _, tr2) \<Rightarrow> (Ok True, tr2))
               else if desiredReplicas < currentReplicas then
                 (case patchStatefulSetSpecReplicas E namespace tr1 sts desiredReplicas of
                    (Fail e, tr2) \<Rightarrow> (Fail e, tr2)
                  | (Panic m, tr2) \<Rightarrow> (Panic m, tr2)
                  | (Ok _, tr2) \<Rightarrow> (Ok True, tr2))
               else follow_leader E namespace all tr1 sets))"

definition adjustStatefulSetsGroupReplicasToFollowLeader ::
    "env \<Rightarrow> string \<Rightarrow> trace \<Rightarrow> statefulset list \<Rightarrow> bool res \<times> trace" where
  "adjustStatefulSetsGroupReplicasToFollowLeader E namespace tr sets = follow_leader E namespace sets tr sets"

section \<open>Mirroring a reference resource\<close>

text \<open>\<^verbatim>\<open>schema.ParseGroupVersion\<close>; the caller uses the group only.\<close>

definition ParseGroupVersion :: "string \<Rightarrow> string res" where
  "ParseGroupVersion gv =
     (if gv = '''' \<or> gv = ''/'' then Ok ''''
      else (case split_on CHR ''/'' gv of
              [v] \<Rightarrow> Ok ''''
            | [g, v] \<Rightarrow> Ok g
            | _ \<Rightarrow> Fail (Err (''unexpected GroupVersion string: '' @ gv))))"

fun scale_loop :: "env \<Rightarrow> trace \<Rightarrow> string \<Rightarrow> string \<Rightarrow> gvr list \<Rightarrow> nat \<Rightarrow> err option
    \<Rightarrow> (scale \<times> gvr) res \<times> trace" where
  "scale_loop E tr namespace name [] i firstErr =
     (Fail (case firstErr of None \<Rightarrow> Err ''unrecognized resource'' | Some e \<Rightarrow> e), tr)"
| "scale_loop E tr namespace name (mapping # mappings) i firstErr =
     (let tr1 = tr @ [EvGetScale namespace mapping name] in
      case e_get_scale E tr namespace mapping name of
        Reply s \<Rightarrow> (Ok (s, mapping), tr1)
      | Error e \<Rightarrow> scale_loop E tr1 namespace name mappings (Suc i) (if i = 0 then Some e else firstErr))"

definition scaleForResourceMappings ::
    "env \<Rightarrow> trace \<Rightarrow> string \<Rightarrow> string \<Rightarrow> gvr list \<Rightarrow> (scale \<times> gvr) res \<times> trace" where
  "scaleForResourceMappings E tr namespace name mappings = scale_loop E tr namespace name mappings 0 None"

text \<open>\<^term>\<open>Ok None\<close> is a nil scale object: the StatefulSet mirrors no resource.\<close>

definition getCustomScaleResourceForStatefulset ::
    "env \<Rightarrow> trace \<Rightarrow> statefulset \<Rightarrow> (scale \<times> gvr \<times> string) option res \<times> trace" where
  "getCustomScaleResourceForStatefulset E tr sts =
     (let annotations = sts_annotations sts;
          name = mget annotations RolloutMirrorReplicasFromResourceNameAnnotationKey;
          kind = mget annotations RolloutMirrorReplicasFromResourceKindAnnotationKey;
          apiVersion = mget annotations RolloutMirrorReplicasFromResourceAPIVersionAnnotationKey;
          reference = kind @ ''/'' @ name
      in if name = '''' \<or> kind = '''' then (Ok None, tr)
         else
           (case ParseGroupVersion apiVersion of
              Fail e \<Rightarrow> (Fail (Err (''invalid API version in '' @ RolloutMirrorReplicasFromResourceAPIVersionAnnotationKey
                                    @ '' annotation: '' @ errmsg e)), tr)
            | Panic m \<Rightarrow> (Panic m, tr)
            | Ok targetGroup \<Rightarrow>
                (let tr1 = tr @ [EvRESTMappings targetGroup kind] in
                 case e_rest_mappings E tr targetGroup kind of
                   Error e \<Rightarrow> (Fail (Err (''unable to find custom resource mapping for reference resource ''
                                        @ reference @ '': '' @ errmsg e)), tr1)
                 | Reply mappings \<Rightarrow>
                     (case scaleForResourceMappings E tr1 (sts_namespace sts) name mappings of
                        (Fail e, tr2) \<Rightarrow> (Fail (Err (''failed to query scale subresource for '' @ reference @ '': ''
                                                @ errmsg e)), tr2)
                      | (Panic m, tr2) \<Rightarrow> (Panic m, tr2)
                      | (Ok (s, g), tr2) \<Rightarrow> (Ok (Some (s, g, name)), tr2)))))"

definition updateStatusReplicasOnReferenceResourceIfNeeded ::
    "trace \<Rightarrow> statefulset \<Rightarrow> scale \<Rightarrow> gvr \<Rightarrow> string \<Rightarrow> int \<Rightarrow> trace" where
  "updateStatusReplicasOnReferenceResourceIfNeeded tr sts scaleObj g resName replicas =
     (if scale_status_replicas scaleObj = replicas then tr
      else
        (let patched = tr @ [EvPatchStatusReplicas g (sts_namespace sts) resName replicas] in
         case sts_annotations sts RolloutMirrorReplicasFromResourceWriteBackStatusReplicas of
           None \<Rightarrow> patched
         | Some updateReplicas \<Rightarrow>
             (case ParseBool updateReplicas of
                None \<Rightarrow> tr
              | Some False \<Rightarrow> tr
              | Some True \<Rightarrow> patched)))"

fun mirror_resource :: "env \<Rightarrow> string \<Rightarrow> string \<Rightarrow> trace \<Rightarrow> statefulset list \<Rightarrow> bool res \<times> trace" where
  "mirror_resource E namespace clusterDomain tr [] = (Ok False, tr)"
| "mirror_resource E namespace clusterDomain tr (sts # sets) =
     (case deref (sts_replicas sts) of
        Fail e \<Rightarrow> (Fail e, tr)
      | Panic m \<Rightarrow> (Panic m, tr)
      | Ok currentReplicas \<Rightarrow>
          (case getCustomScaleResourceForStatefulset E tr sts of
             (Fail e, tr1) \<Rightarrow> (Fail e, tr1)
           | (Panic m, tr1) \<Rightarrow> (Panic m, tr1)
           | (Ok None, tr1) \<Rightarrow> mirror_resource E namespace clusterDomain tr1 sets
           | (Ok (Some (scaleObj, referenceGVR, referenceName)), tr1) \<Rightarrow>
               (let ref = (case getForceReplicasOverride sts of
                             Some f \<Rightarrow> f | None \<Rightarrow> scale_spec_replicas scaleObj);
                    writeBack = (\<lambda>tr n. updateStatusReplicasOnReferenceResourceIfNeeded tr sts scaleObj
                                          referenceGVR referenceName n)
                in if currentReplicas = ref then
                     (case cancelDelayedDownscaleIfConfigured E (writeBack tr1 ref) sts clusterDomain ref of
                        (Ok _, tr2) \<Rightarrow> mirror_resource E namespace clusterDomain tr2 sets
                      | (Fail e, tr2) \<Rightarrow> (Fail e, tr2)
                      | (Panic m, tr2) \<Rightarrow> (Panic m, tr2))
                   else
                     (case checkScalingDelay E tr1 sts clusterDomain currentReplicas ref of
                        (Fail e, tr2) \<Rightarrow> (Fail e, tr2)
                      | (Panic m, tr2) \<Rightarrow> (Panic m, tr2)
                      | (Ok (desiredReplicas, preparedReplicas, errOpt), tr2) \<Rightarrow>
                          (let statusReplicas = (\<lambda>n. if isExcludeFromStatusReplicasEnabled sts
                                                     then wrap32 (n - preparedReplicas) else n)
                           in case errOpt of
                                Some e \<Rightarrow>
                                  mirror_resource E namespace clusterDomain
                                    (writeBack tr2 (statusReplicas currentReplicas)) sets
                              | None \<Rightarrow>
                                  (case patchStatefulSetSpecReplicas E namespace tr2 sts desiredReplicas of
                                     (Fail e, tr3) \<Rightarrow> (Fail e, tr3)
                                   | (Panic m, tr3) \<Rightarrow> (Panic m, tr3)
                                   | (Ok _, tr3) \<Rightarrow>
                                       (Ok True, writeBack tr3 (statusReplicas desiredReplicas))))))))"

definition adjustStatefulSetsGroupReplicasToMirrorResource ::
    "env \<Rightarrow> string \<Rightarrow> trace \<Rightarrow> statefulset list \<Rightarrow> string \<Rightarrow> bool res \<times> trace" where
  "adjustStatefulSetsGroupReplicasToMirrorResource E namespace tr sets clusterDomain =
     mirror_resource E namespace clusterDomain tr sets"

definition adjustStatefulSetsGroupReplicas ::
    "env \<Rightarrow> string \<Rightarrow> string \<Rightarrow> trace \<Rightarrow> statefulset list \<Rightarrow> bool res \<times> trace" where
  "adjustStatefulSetsGroupReplicas E namespace clusterDomain tr sets =
     (case adjustStatefulSetsGroupReplicasToFollowLeader E namespace tr sets of
        (Fail e, tr1) \<Rightarrow> (Fail e, tr1)
      | (Panic m, tr1) \<Rightarrow> (Panic m, tr1)
      | (Ok True, tr1) \<Rightarrow> (Ok True, tr1)
      | (Ok False, tr1) \<Rightarrow> adjustStatefulSetsGroupReplicasToMirrorResource E namespace tr1 sets clusterDomain)"

section \<open>What an adjustment appends to the trace\<close>

text \<open>Beside a patch of \<^verbatim>\<open>spec.replicas\<close>, an adjustment is \<^const>\<open>quiet\<close>: it deletes no pod.\<close>

lemma quiet_desired: "desiredStsReplicas E tr sts all = (r, tr') \<Longrightarrow> quiet tr tr'"
  by (drule desiredStsReplicas_extends) auto

lemma quiet_scale_loop: "scale_loop E tr ns n ms i fe = (r, tr') \<Longrightarrow> quiet tr tr'"
proof (induction ms arbitrary: tr i fe)
  case (Cons m ms)
  have one: "quiet tr (tr @ [EvGetScale ns m n])" by simp
  from Cons.prems have "tr' = tr @ [EvGetScale ns m n] \<or>
      (\<exists>i fe. scale_loop E (tr @ [EvGetScale ns m n]) ns n ms i fe = (r, tr'))"
    by (auto simp: Let_def split: reply.splits)
  with Cons.IH one show ?case using quiet_trans by blast
qed simp

lemma quiet_getCustomScale:
  assumes "getCustomScaleResourceForStatefulset E tr sts = (r, tr')"
  shows "quiet tr tr'"
proof -
  from assms consider "tr' = tr"
    | g k where "tr' = tr @ [EvRESTMappings g k]"
    | g k ms q where "scale_loop E (tr @ [EvRESTMappings g k]) (sts_namespace sts)
        (mget (sts_annotations sts) RolloutMirrorReplicasFromResourceNameAnnotationKey) ms 0 None = (q, tr')"
    by (auto simp: getCustomScaleResourceForStatefulset_def scaleForResourceMappings_def Let_def
        split: if_splits res.splits reply.splits prod.splits)
  then show ?thesis
  proof cases
    case (3 g k ms q)
    have "quiet tr (tr @ [EvRESTMappings g k])" by simp
    with quiet_scale_loop [OF 3] show ?thesis using quiet_trans by blast
  qed simp_all
qed

lemma quiet_writeBack [simp]:
  "quiet tr (updateStatusReplicasOnReferenceResourceIfNeeded tr sts sc g n r)"
  by (auto simp: updateStatusReplicasOnReferenceResourceIfNeeded_def Let_def split: option.splits bool.splits)

lemma deletions_requests: "deletions (map (\<lambda>ep. EvHttp m (ep_url ep)) eps) = []"
  by (induction eps) auto

lemma quiet_cancel [simp]: "quiet tr (callCancelDelayedDownscale tr eps)"
  by (simp add: quiet_def) (simp add: callCancelDelayedDownscale_def deletions_requests)

lemma quiet_cancelIfConfigured:
  "cancelDelayedDownscaleIfConfigured E tr sts cd n = (r, tr') \<Longrightarrow> quiet tr tr'"
  by (auto simp: cancelDelayedDownscaleIfConfigured_def split: res.splits option.splits prod.splits if_splits)

lemma quiet_prepare_one: "prepare_one E tr ep = (r, tr') \<Longrightarrow> quiet tr tr'"
  by (auto simp: prepare_one_def Let_def quiet_def extends_def split: reply.splits option.splits if_splits)

lemma quiet_prepare_all: "prepare_all E tr eps ts fe = (r, tr') \<Longrightarrow> quiet tr tr'"
proof (induction eps arbitrary: tr ts fe)
  case (Cons ep eps)
  obtain q tr1 where one: "prepare_one E tr ep = (q, tr1)" by fastforce
  from Cons.prems one obtain ts1 fe1 where "prepare_all E tr1 eps ts1 fe1 = (r, tr')"
    by (auto split: reply.splits)
  with Cons.IH quiet_prepare_one [OF one] show ?case using quiet_trans by blast
qed simp

lemma quiet_checkScalingDelay:
  assumes "checkScalingDelay E tr sts cd cur des = (r, tr')"
  shows "quiet tr tr'"
proof -
  have call: "quiet t t'" if "callPrepareDownscaleAndReturnElapsedDurationsSinceInitiatedDownscale E t eps = (q, t')" for t t' eps q
    using that quiet_prepare_all
    by (auto simp: callPrepareDownscaleAndReturnElapsedDurationsSinceInitiatedDownscale_def split: if_splits)
  from assms consider "tr' = tr" | eps where "tr' = callCancelDelayedDownscale tr eps"
    | eps eps2 q where "callPrepareDownscaleAndReturnElapsedDurationsSinceInitiatedDownscale E
        (callCancelDelayedDownscale tr eps) eps2 = (q, tr')"
    by (auto simp: checkScalingDelay_def Let_def split: if_splits res.splits option.splits prod.splits)
  then show ?thesis
  proof cases
    case (3 eps eps2 q)
    with call show ?thesis using quiet_cancel quiet_trans by blast
  qed simp_all
qed

section \<open>At most one patch\<close>

text \<open>
  The possible outcomes of an adjustment of \<open>sets\<close>: no patch and no report of one, or one patch of
  one StatefulSet to a different count, reported as an update when the API server accepted it. With \<open>I\<close>
  set, the count also fits an \<^verbatim>\<open>int32\<close>.
\<close>

definition adjusted_once :: "bool \<Rightarrow> trace \<Rightarrow> statefulset list \<Rightarrow> bool res \<Rightarrow> trace \<Rightarrow> bool" where
  "adjusted_once I tr sets r tr' \<longleftrightarrow>
     quiet tr tr' \<and> r \<noteq> Ok True \<or>
     (\<exists>s\<in>set sets. \<exists>cur n. sts_replicas s = Some cur \<and> n \<noteq> cur \<and> (I \<longrightarrow> is_int32 n) \<and> (r = Ok True \<or> (\<exists>e. r = Fail e)) \<and>
        extends tr tr' \<and> deletions tr' = deletions tr \<and>
        replica_patches tr' = replica_patches tr @ [(sts_name s, n)])"

lemma adjusted_once_quiet: "quiet tr tr' \<Longrightarrow> r \<noteq> Ok True \<Longrightarrow> adjusted_once I tr sets r tr'"
  by (simp add: adjusted_once_def)

lemma adjusted_once_weaken:
  assumes "adjusted_once I tr1 sets r tr'" and "quiet tr tr1" and "set sets \<subseteq> set sets'"
  shows "adjusted_once I tr sets' r tr'"
proof (cases "quiet tr1 tr' \<and> r \<noteq> Ok True")
  case True
  with assms(2) show ?thesis using quiet_trans by (auto simp: adjusted_once_def)
next
  case False
  with assms(1) obtain s cur n where "s \<in> set sets" and "sts_replicas s = Some cur" and "n \<noteq> cur" and "I \<longrightarrow> is_int32 n"
    and "r = Ok True \<or> (\<exists>e. r = Fail e)" and "extends tr1 tr'" and "deletions tr' = deletions tr1"
    and "replica_patches tr' = replica_patches tr1 @ [(sts_name s, n)]"
    by (auto simp: adjusted_once_def)
  moreover have "extends tr tr'" using \<open>extends tr1 tr'\<close> assms(2) extends_trans by (auto simp: quiet_def)
  ultimately show ?thesis using assms(2,3) unfolding adjusted_once_def quiet_def by auto
qed

lemma adjusted_once_Cons:
  "adjusted_once I tr1 sets r tr' \<Longrightarrow> quiet tr tr1 \<Longrightarrow> adjusted_once I tr (s # sets) r tr'"
  by (rule adjusted_once_weaken) auto

lemma adjusted_once_patch:
  assumes "patchStatefulSetSpecReplicas E ns tr1 s n = (q, tr2)" and "quiet tr tr1" and "quiet tr2 tr'"
    and "sts_replicas s = Some cur" and "n \<noteq> cur" and "I \<Longrightarrow> is_int32 n"
    and "r = (case q of Ok _ \<Rightarrow> Ok True | Fail e \<Rightarrow> Fail e | Panic m \<Rightarrow> Panic m)"
  shows "adjusted_once I tr (s # sets) r tr'"
proof -
  from assms(1) have tr2: "tr2 = tr1 @ [EvPatchReplicas ns (sts_name s) n]" and q: "\<forall>m. q \<noteq> Panic m"
    by (auto simp: patchStatefulSetSpecReplicas_def split: reply.splits)
  then have "extends tr tr'" and "deletions tr' = deletions tr"
    and "replica_patches tr' = replica_patches tr @ [(sts_name s, n)]"
    using assms(2,3) by (auto simp: quiet_def extends_def)
  moreover have "r = Ok True \<or> (\<exists>e. r = Fail e)" using assms(7) q by (cases q) auto
  ultimately show ?thesis using assms(4-6) unfolding adjusted_once_def by auto
qed

lemma checkScalingDelay_changes:
  assumes "checkScalingDelay E tr sts cd cur des = (Ok (n, p, None), tr')" and "cur \<noteq> des"
  shows "n = des \<or> des < n \<and> n < cur"
proof (cases "\<exists>delay u. parseDelayedDownscaleAnnotations E (sts_annotations sts) = Ok (delay, Some u) \<and> delay \<noteq> 0 \<and> des < cur")
  case True
  then obtain delay u where d: "parseDelayedDownscaleAnnotations E (sts_annotations sts) = Ok (delay, Some u)"
    "delay \<noteq> 0" "des < cur" by blast
  obtain elapsed where "n = scan_down elapsed delay des (cur - 1) cur" and "n \<noteq> cur"
    using checkScalingDelay_unfold [OF d(3,1,2) assms(1)] by metis
  with scan_down_spec [of elapsed delay des cur n] d(3) show ?thesis by auto
next
  case False
  with assms show ?thesis
    by (auto simp: checkScalingDelay_def Let_def split: if_splits res.splits option.splits prod.splits)
qed

text \<open>The counts the code starts from fit their Go type \<^verbatim>\<open>int32\<close>; so do the counts computed from them.\<close>

definition int32_inputs :: "env \<Rightarrow> statefulset list \<Rightarrow> bool" where
  "int32_inputs E all \<longleftrightarrow>
     (\<forall>s\<in>set all. \<forall>cur. sts_replicas s = Some cur \<longrightarrow> is_int32 cur) \<and>
     (\<forall>t ns g n sc. e_get_scale E t ns g n = Reply sc \<longrightarrow> is_int32 (scale_spec_replicas sc))"

lemma desired_int32:
  assumes "desiredStsReplicas E tr s all = (Ok n, tr')" and "int32_inputs E all" and "s \<in> set all"
  shows "is_int32 n"
  using assms getForceReplicasOverride_range [of s n] getLeader_Some [of s all]
  by (auto simp: desiredStsReplicas_def int32_inputs_def deref_def split: res.splits option.splits if_splits prod.splits)

lemma scale_loop_int32:
  assumes "int32_inputs E all"
  shows "scale_loop E tr ns n ms i fe = (Ok (sc, g), tr') \<Longrightarrow> is_int32 (scale_spec_replicas sc)"
  using assms by (induction ms arbitrary: tr i fe) (auto simp: int32_inputs_def Let_def split: reply.splits)

lemma custom_scale_int32:
  "getCustomScaleResourceForStatefulset E tr s = (Ok (Some (sc, g, n)), tr') \<Longrightarrow> int32_inputs E all \<Longrightarrow>
     is_int32 (scale_spec_replicas sc)"
  by (auto simp: getCustomScaleResourceForStatefulset_def scaleForResourceMappings_def Let_def
      dest: scale_loop_int32 split: if_splits res.splits reply.splits prod.splits)

lemma follow_leader_once:
  assumes "I \<Longrightarrow> int32_inputs E all" and "set sets \<subseteq> set all"
    and "follow_leader E ns all tr sets = (r, tr')"
  shows "adjusted_once I tr sets r tr'"
  using assms(2,3)
proof (induction sets arbitrary: tr)
  case (Cons s sets)
  have IH: "adjusted_once I t sets r tr'" if "follow_leader E ns all t sets = (r, tr')" for t
    using Cons.IH [OF _ that] Cons.prems(1) by simp
  show ?case
  proof (cases "sts_replicas s")
    case None
    with Cons.prems show ?thesis by (auto simp: deref_def intro: adjusted_once_quiet)
  next
    case (Some cur)
    obtain d tr1 where des: "desiredStsReplicas E tr s all = (d, tr1)" by fastforce
    note q = quiet_desired [OF des]
    show ?thesis
    proof (cases d)
      case (Ok n)
      show ?thesis
      proof (cases "n = cur")
        case True
        with Cons.prems(2) IH Some des Ok q show ?thesis by (auto simp: deref_def intro: adjusted_once_Cons)
      next
        case False
        obtain p tr2 where p: "patchStatefulSetSpecReplicas E ns tr1 s n = (p, tr2)" by fastforce
        with Cons.prems Some des Ok False have "tr' = tr2"
          and "r = (case p of Ok _ \<Rightarrow> Ok True | Fail e \<Rightarrow> Fail e | Panic m \<Rightarrow> Panic m)"
          by (auto simp: deref_def split: res.splits if_splits)
        moreover have "is_int32 n" if I using desired_int32 [OF des [unfolded Ok] assms(1) [OF that]] Cons.prems(1) by simp
        ultimately show ?thesis using adjusted_once_patch [OF p q _ Some False] by simp
      qed
    qed (use Cons.prems Some des q in \<open>auto simp: deref_def intro: adjusted_once_quiet\<close>)
  qed
qed (auto intro: adjusted_once_quiet)

lemma mirror_resource_once:
  assumes "I \<Longrightarrow> int32_inputs E all" and "set sets \<subseteq> set all" and "mirror_resource E ns cd tr sets = (r, tr')"
  shows "adjusted_once I tr sets r tr'"
  using assms(2,3)
proof (induction sets arbitrary: tr)
  case (Cons s sets)
  have IH: "adjusted_once I t sets r tr'" if "mirror_resource E ns cd t sets = (r, tr')" for t
    using Cons.IH [OF _ that] Cons.prems(1) by simp
  show ?case
  proof (cases "sts_replicas s")
    case None
    with Cons.prems show ?thesis by (auto simp: deref_def intro: adjusted_once_quiet)
  next
    case (Some cur)
    obtain g tr1 where get: "getCustomScaleResourceForStatefulset E tr s = (g, tr1)" by fastforce
    note q1 = quiet_getCustomScale [OF get]
    show ?thesis
    proof (cases "\<exists>sc gv n. g = Ok (Some (sc, gv, n))")
      case False
      with Cons.prems Some get q1 show ?thesis
        by (auto simp: deref_def intro: adjusted_once_quiet adjusted_once_Cons IH
            split: res.splits option.splits)
    next
      case True
      then obtain sc gv rn where g: "g = Ok (Some (sc, gv, rn))" by blast
      define ref where "ref = (case getForceReplicasOverride s of Some f \<Rightarrow> f | None \<Rightarrow> scale_spec_replicas sc)"
      let ?wb = "\<lambda>tr n. updateStatusReplicasOnReferenceResourceIfNeeded tr s sc gv rn n"
      show ?thesis
      proof (cases "cur = ref")
        case True
        obtain c tr2 where can: "cancelDelayedDownscaleIfConfigured E (?wb tr1 ref) s cd ref = (c, tr2)" by fastforce
        have q2: "quiet tr tr2"
          using quiet_cancelIfConfigured [OF can] q1 quiet_writeBack quiet_trans by blast
        with Cons.prems Some get g True can show ?thesis
          by (auto simp: deref_def Let_def ref_def [symmetric] intro: adjusted_once_quiet adjusted_once_Cons IH
              split: res.splits)
      next
        case False
        obtain c tr2 where chk: "checkScalingDelay E tr1 s cd cur ref = (c, tr2)" by fastforce
        have q2: "quiet tr tr2" using quiet_checkScalingDelay [OF chk] q1 quiet_trans by blast
        show ?thesis
        proof (cases "\<exists>n p. c = Ok (n, p, None)")
          case True
          then obtain n p where c: "c = Ok (n, p, None)" by blast
          obtain k tr3 where pat: "patchStatefulSetSpecReplicas E ns tr2 s n = (k, tr3)" by fastforce
          have "n \<noteq> cur" using checkScalingDelay_changes chk c False by fastforce
          moreover from Cons.prems Some get g False chk c pat have "quiet tr3 tr'"
            and "r = (case k of Ok _ \<Rightarrow> Ok True | Fail e \<Rightarrow> Fail e | Panic m \<Rightarrow> Panic m)"
            by (auto simp: deref_def Let_def ref_def [symmetric] split: res.splits)
          moreover have "is_int32 n" if I
          proof -
            have "is_int32 ref"
              using get [unfolded g] getForceReplicasOverride_range assms(1) [OF that]
              by (auto simp: ref_def dest: custom_scale_int32 split: option.splits)
            moreover have "is_int32 cur" using assms(1) [OF that] Cons.prems(1) Some by (auto simp: int32_inputs_def)
            ultimately show ?thesis using checkScalingDelay_changes [OF chk [unfolded c] False] by (auto simp: is_int32_def)
          qed
          ultimately show ?thesis using adjusted_once_patch [OF pat q2 _ Some] by simp
        next
          case notyet: False
          from Cons.prems Some get g False chk notyet consider "tr' = tr2" "r \<noteq> Ok True"
            | m where "mirror_resource E ns cd (?wb tr2 m) sets = (r, tr')"
            by (auto simp: deref_def Let_def ref_def [symmetric] split: res.splits option.splits)
          then show ?thesis
          proof cases
            case 1
            with q2 show ?thesis by (simp add: adjusted_once_quiet)
          next
            case (2 m)
            have "quiet tr (?wb tr2 m)" using q2 quiet_writeBack quiet_trans by blast
            with IH [OF 2] show ?thesis by (rule adjusted_once_Cons)
          qed
        qed
      qed
    qed
  qed
qed (auto intro: adjusted_once_quiet)

lemma adjust_once:
  assumes "adjustStatefulSetsGroupReplicas E ns cd tr sets = (r, tr')" and "I \<Longrightarrow> int32_inputs E sets"
  shows "adjusted_once I tr sets r tr'"
proof -
  obtain q tr1 where f: "follow_leader E ns sets tr sets = (q, tr1)" by fastforce
  have once: "adjusted_once I tr sets q tr1" using follow_leader_once [OF assms(2) order_refl f] .
  show ?thesis
  proof (cases "q = Ok False")
    case True
    with assms(1) f have m: "mirror_resource E ns cd tr1 sets = (r, tr')"
      by (simp add: adjustStatefulSetsGroupReplicas_def adjustStatefulSetsGroupReplicasToFollowLeader_def
          adjustStatefulSetsGroupReplicasToMirrorResource_def)
    from once True have q: "quiet tr tr1" by (auto simp: adjusted_once_def)
    from mirror_resource_once [OF assms(2) order_refl m] q show ?thesis by (rule adjusted_once_weaken [OF _ _ order_refl])
  next
    case False
    with assms(1) f have "r = q" and "tr' = tr1"
      by (auto simp: adjustStatefulSetsGroupReplicas_def adjustStatefulSetsGroupReplicasToFollowLeader_def
          split: res.splits bool.splits)
    with once show ?thesis by simp
  qed
qed

section \<open>Followers converge to the leader\<close>

text \<open>
  What a group is asked to be: the name of its leader, the leader's replicas, and the count a follower is
  forced to, for the followers that have the force-replicas annotation.
\<close>

record follow_plan =
  fp_leader :: string
  fp_replicas :: int
  fp_forced :: "string \<rightharpoonup> int"

definition wanted :: "follow_plan \<Rightarrow> statefulset \<Rightarrow> int" where
  "wanted P s =
     (if sts_name s = fp_leader P then fp_replicas P
      else (case fp_forced P (sts_name s) of Some f \<Rightarrow> f | None \<Rightarrow> fp_replicas P))"

text \<open>
  A member of a group that follows that plan. The leader has its replicas and follows nobody, the others
  follow the leader, a forced count is written as a decimal \<^verbatim>\<open>int32\<close>, no member mirrors a resource, every
  recorded downscale is a time, and where one is recorded the followers' minimum time between downscales is a
  duration.
\<close>

definition follows :: "follow_plan \<Rightarrow> statefulset list \<Rightarrow> statefulset \<Rightarrow> bool" where
  "follows P all s \<longleftrightarrow>
     (if sts_name s = fp_leader P
      then sts_replicas s = Some (fp_replicas P) \<and> sts_annotations s RolloutDownscaleLeaderAnnotationKey = None
      else sts_replicas s \<noteq> None \<and> sts_annotations s RolloutDownscaleLeaderAnnotationKey = Some (fp_leader P)) \<and>
     sts_annotations s RolloutForceReplicasAnnotationKey = map_option Itoa (fp_forced P (sts_name s)) \<and>
     (\<forall>f. fp_forced P (sts_name s) = Some f \<longrightarrow> 0 \<le> f \<and> is_int32 f) \<and>
     (mget (sts_annotations s) RolloutMirrorReplicasFromResourceNameAnnotationKey = [] \<or>
      mget (sts_annotations s) RolloutMirrorReplicasFromResourceKindAnnotationKey = []) \<and>
     (\<forall>x\<in>set all. \<forall>raw. sts_name s \<noteq> fp_leader P \<longrightarrow> sts_annotations x LastDownscaleAnnotationKey = Some raw \<longrightarrow>
        ParseRFC3339 raw \<noteq> None \<and>
        (\<exists>v. GetMinTimeBetweenZonesDownscale (sts_annotations s) (sts_labels s) = Some v \<and> ParseDuration v \<noteq> None))"

definition leader_group :: "follow_plan \<Rightarrow> statefulset list \<Rightarrow> bool" where
  "leader_group P sets \<longleftrightarrow>
     distinct (map sts_name sets) \<and> fp_leader P \<in> set (map sts_name sets) \<and> list_all (follows P sets) sets"

definition lagging :: "follow_plan \<Rightarrow> statefulset list \<Rightarrow> statefulset list" where
  "lagging P sets = filter (\<lambda>s. sts_replicas s \<noteq> Some (wanted P s)) sets"

text \<open>
  Whether a follower may move at a moment of the run: to more replicas once the leader is ready, if it waits
  for the leader; to fewer once its minimum time has passed since every downscale of another zone.
\<close>

definition gate_open :: "follow_plan \<Rightarrow> env \<Rightarrow> trace \<Rightarrow> statefulset list \<Rightarrow> statefulset \<Rightarrow> bool" where
  "gate_open P E t all s \<longleftrightarrow>
     fp_forced P (sts_name s) \<noteq> None \<or>
     (the (sts_replicas s) < fp_replicas P \<longrightarrow> sts_annotations s RolloutLeaderReadyAnnotationKey = Some ''true'' \<longrightarrow>
        (\<forall>l\<in>set all. sts_name l = fp_leader P \<longrightarrow> sts_ready_replicas l = fp_replicas P)) \<and>
     (fp_replicas P < the (sts_replicas s) \<longrightarrow>
        (\<forall>x\<in>set all. \<forall>raw u v m. sts_name x \<noteq> sts_name s \<longrightarrow>
           sts_annotations x LastDownscaleAnnotationKey = Some raw \<longrightarrow> ParseRFC3339 raw = Some u \<longrightarrow>
           GetMinTimeBetweenZonesDownscale (sts_annotations s) (sts_labels s) = Some v \<longrightarrow> ParseDuration v = Some m \<longrightarrow>
           m < time_sub (e_now E t) u))"

definition moment :: "trace \<Rightarrow> trace \<Rightarrow> trace \<Rightarrow> bool" where
  "moment tr t tr' \<longleftrightarrow> extends tr t \<and> extends t tr'"

text \<open>
  An adjustment that nothing holds back: all the while some lagging follower may move, and the API server
  accepts patches of replicas.
\<close>

definition unhindered :: "follow_plan \<Rightarrow> env \<Rightarrow> string \<Rightarrow> statefulset list \<Rightarrow> trace \<Rightarrow> trace \<Rightarrow> bool" where
  "unhindered P E namespace sets tr tr' \<longleftrightarrow>
     (\<exists>s\<in>set (lagging P sets). \<forall>t. moment tr t tr' \<longrightarrow> gate_open P E t sets s) \<and>
     (\<forall>t n k. moment tr t tr' \<longrightarrow> e_patch_replicas E t namespace n k = Reply ())"

text \<open>
  What the API server does with the patches of one adjustment, seen by the next one. A patch that was
  answered with an error may have been applied or not.
\<close>

definition apply_patch :: "string \<times> int \<Rightarrow> statefulset list \<Rightarrow> statefulset list" where
  "apply_patch p sets = map (\<lambda>s. if sts_name s = fst p then s\<lparr>sts_replicas := Some (snd p)\<rparr> else s) sets"

definition new_patches :: "trace \<Rightarrow> trace \<Rightarrow> (string \<times> int) list" where
  "new_patches tr tr' = drop (length (replica_patches tr)) (replica_patches tr')"

definition applied :: "bool res \<Rightarrow> trace \<Rightarrow> trace \<Rightarrow> statefulset list \<Rightarrow> statefulset list \<Rightarrow> bool" where
  "applied r tr tr' sets sets' \<longleftrightarrow>
     sets' = fold apply_patch (new_patches tr tr') sets \<or> (\<forall>u. r \<noteq> Ok u) \<and> sets' = sets"

text \<open>
  Rounds of the adjustment of one group. Between two rounds anything else may happen to the operator and to
  the StatefulSets (pods get ready, a downscale is recorded, labels change) that leaves the group, its plan
  and its replica counts as they are. The number counts the rounds that nothing held back.
\<close>

definition same_group :: "follow_plan \<Rightarrow> statefulset list \<Rightarrow> statefulset list \<Rightarrow> bool" where
  "same_group P sets sets' \<longleftrightarrow>
     leader_group P sets' \<and>
     map (\<lambda>s. (sts_name s, sts_replicas s)) sets' = map (\<lambda>s. (sts_name s, sts_replicas s)) sets"

inductive adjust_rounds :: "follow_plan \<Rightarrow> env \<Rightarrow> string \<Rightarrow> string \<Rightarrow> trace \<Rightarrow> statefulset list \<Rightarrow> nat \<Rightarrow> trace \<Rightarrow>
    statefulset list \<Rightarrow> bool" for P E namespace clusterDomain tr sets where
  start: "adjust_rounds P E namespace clusterDomain tr sets 0 tr sets"
| round: "adjust_rounds P E namespace clusterDomain tr sets n tr1 sets1 \<Longrightarrow> extends tr1 tr2 \<Longrightarrow> same_group P sets1 sets2 \<Longrightarrow>
    adjustStatefulSetsGroupReplicas E namespace clusterDomain tr2 sets2 = (r, tr3) \<Longrightarrow> applied r tr2 tr3 sets2 sets3 \<Longrightarrow>
    adjust_rounds P E namespace clusterDomain tr sets (if unhindered P E namespace sets2 tr2 tr3 then Suc n else n) tr3 sets3"

lemma ParseInt32_Itoa: "is_int32 f \<Longrightarrow> ParseInt32 (Itoa f) = Some f"
  by (simp add: ParseInt32_def parse_signed_Itoa)

lemma follows_leader_found:
  assumes "leader_group P all"
  obtains l where "find (\<lambda>s. sts_name s = fp_leader P) all = Some l" and "l \<in> set all"
    and "sts_name l = fp_leader P" and "sts_replicas l = Some (fp_replicas P)"
proof -
  from assms have "find (\<lambda>s. sts_name s = fp_leader P) all \<noteq> None"
    by (auto simp: leader_group_def find_None_iff)
  then obtain l where l: "find (\<lambda>s. sts_name s = fp_leader P) all = Some l" by blast
  then have "l \<in> set all" and "sts_name l = fp_leader P" by (auto simp: find_Some_iff)
  with assms have "sts_replicas l = Some (fp_replicas P)"
    by (auto simp: leader_group_def follows_def list_all_iff)
  with l \<open>l \<in> set all\<close> \<open>sts_name l = fp_leader P\<close> that show ?thesis by blast
qed

lemma most_recent_readable:
  assumes "\<forall>x\<in>set all. \<forall>raw. sts_annotations x LastDownscaleAnnotationKey = Some raw \<longrightarrow> ParseRFC3339 raw \<noteq> None"
  shows "\<exists>t. most_recent f m all = Ok t"
  using assms by (induction all arbitrary: m) (auto split: option.splits)

text \<open>A follower with more replicas than its leader: the minimum time has passed, or its gate is closed.\<close>

lemma follower_minimum_time:
  assumes "leader_group P all" and "s \<in> set all" and "fp_forced P (sts_name s) = None"
    and "sts_replicas s = Some cur" and "fp_replicas P < cur"
  shows "\<exists>u tr1. minimumTimeHasElapsed E tr s all = (Ok u, tr1) \<and> (u \<or> \<not> gate_open P E tr all s)"
proof -
  have f: "follows P all s" using assms(1,2) by (auto simp: leader_group_def list_all_iff)
  then have nl: "sts_name s \<noteq> fp_leader P" using assms(4,5) by (auto simp: follows_def)
  obtain last where last: "most_recent (sts_name s) 0 all = Ok last"
    using most_recent_readable [of all "sts_name s" 0] f nl unfolding follows_def by blast
  show ?thesis
  proof (cases "last = 0")
    case True
    with last show ?thesis by (auto simp: minimumTimeHasElapsed_def getMostRecentDownscale_def)
  next
    case False
    then obtain x raw where x: "x \<in> set all" "sts_name x \<noteq> sts_name s"
      "sts_annotations x LastDownscaleAnnotationKey = Some raw" "ParseRFC3339 raw = Some last"
      using most_recent_Ok(4) [OF last] by blast
    then obtain v m where v: "GetMinTimeBetweenZonesDownscale (sts_annotations s) (sts_labels s) = Some v"
      "ParseDuration v = Some m" using f nl unfolding follows_def by blast
    have "m < time_sub (e_now E tr) last \<or> \<not> gate_open P E tr all s"
      using x v assms(3-5) unfolding gate_open_def by force
    with last v False show ?thesis by (auto simp: minimumTimeHasElapsed_def getMostRecentDownscale_def)
  qed
qed

lemma follower_desired:
  assumes "leader_group P all" and "s \<in> set all" and cur: "sts_replicas s = Some cur"
  shows "cur = wanted P s \<and> desiredStsReplicas E tr s all = (Ok cur, tr) \<or>
    (\<exists>tr1. quiet tr tr1 \<and> cur \<noteq> wanted P s \<and>
       (desiredStsReplicas E tr s all = (Ok (wanted P s), tr1) \<or>
        desiredStsReplicas E tr s all = (Ok cur, tr1) \<and> \<not> gate_open P E tr all s))"
proof -
  have f: "follows P all s" using assms(1,2) by (auto simp: leader_group_def list_all_iff)
  obtain l where l: "find (\<lambda>s. sts_name s = fp_leader P) all = Some l" "l \<in> set all" "sts_name l = fp_leader P"
    "sts_replicas l = Some (fp_replicas P)" using follows_leader_found [OF assms(1)] .
  show ?thesis
  proof (cases "sts_name s = fp_leader P")
    case True
    with f cur show ?thesis
      by (simp add: follows_def wanted_def desiredStsReplicas_def getLeaderForStatefulSet_def deref_def)
  next
    case False
    then have lead: "getLeaderForStatefulSet s all = Ok (Some l)"
      using f l by (simp add: follows_def getLeaderForStatefulSet_def)
    show ?thesis
    proof (cases "fp_forced P (sts_name s)")
      case (Some n)
      then have "getForceReplicasOverride s = Some n"
        using f by (simp add: follows_def getForceReplicasOverride_def ParseInt32_Itoa)
      with Some False lead cur show ?thesis
        by (auto simp: wanted_def desiredStsReplicas_def deref_def intro!: exI [of _ tr])
    next
      case None
      then have nf: "getForceReplicasOverride s = None"
        using f by (simp add: follows_def getForceReplicasOverride_def)
      have w: "wanted P s = fp_replicas P" using None False by (simp add: wanted_def)
      show ?thesis
      proof (cases "fp_replicas P < cur")
        case True
        obtain u tr1 where m: "minimumTimeHasElapsed E tr s all = (Ok u, tr1)" "u \<or> \<not> gate_open P E tr all s"
          using follower_minimum_time [OF assms(1,2) None cur True] by blast
        have "quiet tr tr1" using minimumTimeHasElapsed_extends [OF m(1)] by auto
        with m nf lead l True cur w show ?thesis by (auto simp: desiredStsReplicas_def deref_def)
      next
        case nless: False
        have "gate_open P E tr all s \<Longrightarrow> cur < fp_replicas P \<Longrightarrow>
            sts_annotations s RolloutLeaderReadyAnnotationKey = Some RolloutLeaderReadyAnnotationValue \<Longrightarrow>
            fp_replicas P = sts_ready_replicas l"
          using l None cur unfolding gate_open_def by (auto simp: RolloutLeaderReadyAnnotationValue_def)
        with nless nf lead l cur w show ?thesis
          by (auto simp: desiredStsReplicas_def deref_def intro!: exI [of _ tr])
      qed
    qed
  qed
qed

text \<open>
  One pass over a part of the group: either nothing is patched and every lagging StatefulSet met a closed
  gate, or one lagging StatefulSet is patched to the count wanted of it.
\<close>

definition follow_outcome :: "follow_plan \<Rightarrow> env \<Rightarrow> string \<Rightarrow> statefulset list \<Rightarrow> statefulset list \<Rightarrow> trace \<Rightarrow> bool res \<Rightarrow> trace \<Rightarrow> bool" where
  "follow_outcome P E ns all sets tr r tr' \<longleftrightarrow>
     r = Ok False \<and> quiet tr tr' \<and> (\<forall>s\<in>set (lagging P sets). \<exists>t. moment tr t tr' \<and> \<not> gate_open P E t all s) \<or>
     (\<exists>s\<in>set (lagging P sets). \<exists>t. quiet tr t \<and> tr' = t @ [EvPatchReplicas ns (sts_name s) (wanted P s)] \<and>
        r = (case e_patch_replicas E t ns (sts_name s) (wanted P s) of Reply _ \<Rightarrow> Ok True | Error e \<Rightarrow> Fail e))"

lemma follow_outcome_Cons:
  assumes "follow_outcome P E ns all sets tr1 r tr'" and "quiet tr tr1"
    and "sts_replicas s \<noteq> Some (wanted P s) \<Longrightarrow> \<not> gate_open P E tr all s"
  shows "follow_outcome P E ns all (s # sets) tr r tr'"
proof -
  have ext: "extends tr tr1" using assms(2) by (simp add: quiet_def)
  from assms(1) consider
      "r = Ok False" "quiet tr1 tr'" "\<forall>s\<in>set (lagging P sets). \<exists>t. moment tr1 t tr' \<and> \<not> gate_open P E t all s"
    | x t where "x \<in> set (lagging P sets)" "quiet tr1 t" "tr' = t @ [EvPatchReplicas ns (sts_name x) (wanted P x)]"
        "r = (case e_patch_replicas E t ns (sts_name x) (wanted P x) of Reply _ \<Rightarrow> Ok True | Error e \<Rightarrow> Fail e)"
    unfolding follow_outcome_def by blast
  then show ?thesis
  proof cases
    case 1
    have q: "quiet tr tr'" using quiet_trans [OF assms(2) 1(2)] .
    have now: "moment tr tr tr'" using q by (simp add: moment_def quiet_def)
    have later: "moment tr t tr'" if "moment tr1 t tr'" for t
      using that ext extends_trans by (auto simp: moment_def)
    have "\<exists>t. moment tr t tr' \<and> \<not> gate_open P E t all x" if "x \<in> set (lagging P (s # sets))" for x
    proof (cases "x \<in> set (lagging P sets)")
      case True
      with 1(3) later show ?thesis by blast
    next
      case False
      with that have "x = s" and "sts_replicas s \<noteq> Some (wanted P s)" by (auto simp: lagging_def split: if_splits)
      with assms(3) now show ?thesis by blast
    qed
    with 1(1) q show ?thesis by (simp add: follow_outcome_def)
  next
    case (2 x t)
    have "x \<in> set (lagging P (s # sets))" using 2(1) by (simp add: lagging_def)
    with 2 quiet_trans [OF assms(2) 2(2)] show ?thesis unfolding follow_outcome_def by blast
  qed
qed

lemma follow_leader_outcome:
  assumes "leader_group P all" and "set sets \<subseteq> set all" and "follow_leader E ns all tr sets = (r, tr')"
  shows "follow_outcome P E ns all sets tr r tr'"
  using assms(2,3)
proof (induction sets arbitrary: tr)
  case Nil
  then show ?case by (simp add: follow_outcome_def lagging_def)
next
  case (Cons s sets)
  have mem: "s \<in> set all" and sub: "set sets \<subseteq> set all" using Cons.prems(1) by auto
  obtain cur where cur: "sts_replicas s = Some cur"
    using assms(1) mem by (auto simp: leader_group_def follows_def list_all_iff split: if_splits)
  have IH: "follow_outcome P E ns all (s # sets) tr r tr'"
    if "follow_leader E ns all tr1 sets = (r, tr')" "quiet tr tr1"
      "cur \<noteq> wanted P s \<Longrightarrow> \<not> gate_open P E tr all s" for tr1
    by (rule follow_outcome_Cons [OF Cons.IH [OF sub that(1)] that(2)]) (use that(3) cur in auto)
  from follower_desired [OF assms(1) mem cur, of E tr] consider
      "cur = wanted P s" "desiredStsReplicas E tr s all = (Ok cur, tr)"
    | tr1 where "quiet tr tr1" "cur \<noteq> wanted P s" "desiredStsReplicas E tr s all = (Ok (wanted P s), tr1)"
    | tr1 where "quiet tr tr1" "desiredStsReplicas E tr s all = (Ok cur, tr1)" "\<not> gate_open P E tr all s"
    by blast
  then show ?case
  proof cases
    case 1
    with Cons.prems(2) cur have "follow_leader E ns all tr sets = (r, tr')" by (simp add: deref_def)
    from IH [OF this] 1(1) show ?thesis by simp
  next
    case (2 tr1)
    let ?tr = "tr1 @ [EvPatchReplicas ns (sts_name s) (wanted P s)]"
    have "(r, tr') = (case e_patch_replicas E tr1 ns (sts_name s) (wanted P s) of
        Reply _ \<Rightarrow> Ok True | Error e \<Rightarrow> Fail e, ?tr)"
      using Cons.prems(2) cur 2 by (auto simp: deref_def patchStatefulSetSpecReplicas_def split: reply.splits if_splits)
    moreover have "s \<in> set (lagging P (s # sets))" using cur 2(2) by (simp add: lagging_def)
    ultimately show ?thesis using 2(1) unfolding follow_outcome_def by blast
  next
    case (3 tr1)
    with Cons.prems(2) cur have "follow_leader E ns all tr1 sets = (r, tr')" by (simp add: deref_def)
    from IH [OF this 3(1)] 3(3) show ?thesis by simp
  qed
qed

lemma no_mirror:
  assumes "leader_group P all" and "set sets \<subseteq> set all"
  shows "mirror_resource E ns cd tr sets = (Ok False, tr)"
  using assms(2)
proof (induction sets)
  case (Cons s sets)
  then have "follows P all s" using assms(1) by (auto simp: leader_group_def list_all_iff)
  with Cons show ?case
    by (auto simp: follows_def getCustomScaleResourceForStatefulset_def Let_def deref_def split: if_splits)
qed simp

lemma adjust_outcome:
  assumes "leader_group P sets" and "adjustStatefulSetsGroupReplicas E ns cd tr sets = (r, tr')"
  shows "follow_outcome P E ns sets sets tr r tr'"
proof -
  obtain q tr1 where f: "follow_leader E ns sets tr sets = (q, tr1)" by fastforce
  have out: "follow_outcome P E ns sets sets tr q tr1"
    using follow_leader_outcome [OF assms(1) order_refl f] .
  have "q = r \<and> tr1 = tr'"
    using assms(2) f no_mirror [OF assms(1) order_refl, of E ns cd tr1]
    by (auto simp: adjustStatefulSetsGroupReplicas_def adjustStatefulSetsGroupReplicasToFollowLeader_def
        adjustStatefulSetsGroupReplicasToMirrorResource_def split: res.splits bool.splits)
  with out show ?thesis by simp
qed

lemma adjust_at_rest:
  assumes "leader_group P sets" and "lagging P sets = []"
  shows "adjustStatefulSetsGroupReplicas E ns cd tr sets = (Ok False, tr)"
proof -
  have "follow_leader E ns sets tr xs = (Ok False, tr)" if "set xs \<subseteq> set sets" for xs
    using that
  proof (induction xs)
    case (Cons s xs)
    then have s: "s \<in> set sets" and w: "sts_replicas s = Some (wanted P s)"
      using assms(2) by (auto simp: lagging_def filter_empty_conv)
    with follower_desired [OF assms(1) s w, of E tr] Cons show ?case by (simp add: deref_def)
  qed simp
  with no_mirror [OF assms(1) order_refl, of E ns cd tr] show ?thesis
    by (simp add: adjustStatefulSetsGroupReplicas_def adjustStatefulSetsGroupReplicasToFollowLeader_def
        adjustStatefulSetsGroupReplicasToMirrorResource_def)
qed

section \<open>The effect of a round\<close>

lemma apply_patch_names [simp]: "map sts_name (apply_patch p sets) = map sts_name sets"
  by (simp add: apply_patch_def comp_def if_distrib cong: if_cong)

lemma follows_update:
  assumes "follows P sets s" and "\<forall>x\<in>set sets'. \<exists>y\<in>set sets. sts_annotations x = sts_annotations y"
  shows "follows P sets' s" and "sts_name s = fp_leader P \<longrightarrow> n = fp_replicas P \<Longrightarrow> follows P sets' (s\<lparr>sts_replicas := Some n\<rparr>)"
  using assms unfolding follows_def by (auto split: if_splits)

lemma apply_patch_group:
  assumes "leader_group P sets" and "s \<in> set sets"
  shows "leader_group P (apply_patch (sts_name s, wanted P s) sets)"
proof -
  let ?sets = "apply_patch (sts_name s, wanted P s) sets"
  have old: "\<forall>x\<in>set ?sets. \<exists>y\<in>set sets. sts_annotations x = sts_annotations y"
    by (auto simp: apply_patch_def)
  have "follows P ?sets x" if mem: "x \<in> set ?sets" for x
  proof -
    obtain y where y: "y \<in> set sets" and x: "x = (if sts_name y = sts_name s then y\<lparr>sts_replicas := Some (wanted P s)\<rparr> else y)"
      using mem unfolding apply_patch_def set_map fst_conv snd_conv by blast
    have "follows P sets y" using assms(1) y by (auto simp: leader_group_def list_all_iff)
    from follows_update [OF this old] x show ?thesis
      by (cases "sts_name y = sts_name s") (simp_all add: wanted_def)
  qed
  with assms(1) show ?thesis by (simp add: leader_group_def list_all_iff flip: set_map)
qed

lemma apply_patch_lagging:
  assumes "distinct (map sts_name sets)" and "s \<in> set (lagging P sets)"
  shows "Suc (length (lagging P (apply_patch (sts_name s, wanted P s) sets))) = length (lagging P sets)"
  using assms
proof (induction sets)
  case (Cons t sets)
  show ?case
  proof (cases "t = s")
    case True
    then have "\<forall>x\<in>set sets. sts_name x \<noteq> sts_name s" using Cons.prems(1) by (simp add: image_iff) metis
    then have "apply_patch (sts_name s, wanted P s) sets = sets" by (simp add: apply_patch_def map_idI)
    moreover have "sts_replicas s \<noteq> Some (wanted P s)" using Cons.prems(2) by (auto simp: lagging_def split: if_splits)
    moreover have "wanted P (s\<lparr>sts_replicas := Some (wanted P s)\<rparr>) = wanted P s" by (simp add: wanted_def)
    ultimately show ?thesis using True by (simp add: lagging_def apply_patch_def)
  next
    case False
    with Cons.prems have s: "s \<in> set (lagging P sets)" and "sts_name t \<noteq> sts_name s"
      by (auto simp: lagging_def split: if_splits)
    with Cons show ?thesis by (auto simp: lagging_def apply_patch_def)
  qed
qed (simp add: lagging_def)

text \<open>Every round keeps the group and never adds a lagging StatefulSet; one that nothing holds back removes one.\<close>

lemma adjust_round_progress:
  assumes "leader_group P sets" and "adjustStatefulSetsGroupReplicas E ns cd tr sets = (r, tr')"
    and "applied r tr tr' sets sets'"
  shows "leader_group P sets'" and "map sts_name sets' = map sts_name sets"
    and "length (lagging P sets') + (if unhindered P E ns sets tr tr' then 1 else 0) \<le> length (lagging P sets)"
proof -
  have names: "distinct (map sts_name sets)" using assms(1) by (simp add: leader_group_def)
  consider (held) "quiet tr tr'" "\<forall>s\<in>set (lagging P sets). \<exists>t. moment tr t tr' \<and> \<not> gate_open P E t sets s"
    | (patched) s t where "s \<in> set (lagging P sets)" "quiet tr t" "tr' = t @ [EvPatchReplicas ns (sts_name s) (wanted P s)]"
        "r = (case e_patch_replicas E t ns (sts_name s) (wanted P s) of Reply _ \<Rightarrow> Ok True | Error e \<Rightarrow> Fail e)"
    using adjust_outcome [OF assms(1,2)] unfolding follow_outcome_def by blast
  then have "leader_group P sets' \<and> map sts_name sets' = map sts_name sets \<and>
      length (lagging P sets') + (if unhindered P E ns sets tr tr' then 1 else 0) \<le> length (lagging P sets)"
  proof cases
    case held
    then have "new_patches tr tr' = []" by (simp add: new_patches_def quiet_def)
    then have "sets' = sets" using assms(3) by (auto simp: applied_def)
    moreover have "\<not> unhindered P E ns sets tr tr'" using held(2) by (auto simp: unhindered_def)
    ultimately show ?thesis using assms(1) by simp
  next
    case (patched s t)
    then have "new_patches tr tr' = [(sts_name s, wanted P s)]" by (simp add: new_patches_def quiet_def)
    then consider "sets' = apply_patch (sts_name s, wanted P s) sets" | "sets' = sets" "\<forall>u. r \<noteq> Ok u"
      using assms(3) by (auto simp: applied_def)
    then show ?thesis
    proof cases
      case 1
      have "s \<in> set sets" using patched(1) by (simp add: lagging_def)
      with 1 apply_patch_group [OF assms(1)] apply_patch_lagging [OF names patched(1)] show ?thesis by simp
    next
      case 2
      have "moment tr t tr'" using patched(2,3) by (simp add: moment_def quiet_def)
      moreover have "e_patch_replicas E t ns (sts_name s) (wanted P s) \<noteq> Reply ()"
        using 2(2) patched(4) by auto
      ultimately have "\<not> unhindered P E ns sets tr tr'" by (auto simp: unhindered_def)
      with 2 assms(1) show ?thesis by simp
    qed
  qed
  then show "leader_group P sets'" and "map sts_name sets' = map sts_name sets"
    and "length (lagging P sets') + (if unhindered P E ns sets tr tr' then 1 else 0) \<le> length (lagging P sets)"
    by blast+
qed

lemma same_group_lagging:
  assumes "same_group P sets sets'"
  shows "map sts_name sets' = map sts_name sets" and "length (lagging P sets') = length (lagging P sets)"
proof -
  let ?f = "\<lambda>s. (sts_name s, sts_replicas s)"
  have eq: "map ?f sets' = map ?f sets" using assms by (simp add: same_group_def)
  then show "map sts_name sets' = map sts_name sets" by (metis (mono_tags, lifting) comp_apply fst_conv map_eq_conv map_map)
  define late where "late = (\<lambda>q. snd q \<noteq> Some (if fst q = fp_leader P then fp_replicas P
      else (case fp_forced P (fst q) of Some f \<Rightarrow> f | None \<Rightarrow> fp_replicas P)))"
  have "length (lagging P xs) = length (filter late (map ?f xs))" for xs
    by (simp add: lagging_def wanted_def late_def filter_map comp_def)
  then show "length (lagging P sets') = length (lagging P sets)" by (simp only: eq)
qed

lemma adjust_rounds_progress:
  assumes "adjust_rounds P E ns cd tr sets n tr' sets'" and "leader_group P sets"
  shows "leader_group P sets' \<and> map sts_name sets' = map sts_name sets \<and>
    length (lagging P sets') + n \<le> length (lagging P sets)"
  using assms
proof (induction rule: adjust_rounds.induct)
  case (round n tr1 sets1 tr2 sets2 r tr3 sets3)
  have g: "leader_group P sets2" using round.hyps by (simp add: same_group_def)
  note p = adjust_round_progress [OF g round.hyps(4,5)] and d = same_group_lagging [OF round.hyps(3)]
  from p d round.IH round.prems show ?case by (simp split: if_splits)
qed simp

section \<open>Properties\<close>

text \<open>C12: one adjustment patches at most one StatefulSet. Adjusting the replicas of a group deletes no
  pod and either sends no replica patch and reports no update, or sends exactly one, for a StatefulSet
  of the group and to a count different from its current one; an update is reported only then.\<close>

theorem adjust_patches_at_most_one:
  assumes "adjustStatefulSetsGroupReplicas E namespace clusterDomain tr sets = (r, tr')"
  shows "deletions tr' = deletions tr \<and>
         (replica_patches tr' = replica_patches tr \<and> r \<noteq> Ok True \<or>
          (\<exists>s\<in>set sets. \<exists>cur n. sts_replicas s = Some cur \<and> n \<noteq> cur \<and> (r = Ok True \<or> (\<exists>e. r = Fail e)) \<and>
             replica_patches tr' = replica_patches tr @ [(sts_name s, n)]))"
  using adjust_once [OF assms, of False] by (auto simp: adjusted_once_def quiet_def)


text \<open>no replica count leaves its type. If the replica counts of the StatefulSets and of the scale objects are \<^verbatim>\<open>int32\<close> values, so is
  every count an adjustment writes to the API server: forced replicas are parsed as \<^verbatim>\<open>int32\<close>, and a delayed downscale only picks a
  count between the current and the desired one.\<close>

theorem patched_replicas_are_int32:
  assumes "adjustStatefulSetsGroupReplicas E namespace clusterDomain tr sets = (r, tr')"
    and "int32_inputs E sets" and "\<forall>p\<in>set (replica_patches tr). is_int32 (snd p)"
  shows "\<forall>p\<in>set (replica_patches tr'). is_int32 (snd p)"
  using adjust_once [OF assms(1), of True] assms(2,3) by (auto simp: adjusted_once_def quiet_def)

text \<open>Two followers of a leader with three replicas.\<close>

definition demo_followers :: "statefulset list" where
  "demo_followers =
     [demo_sts ''zone-a'' 3 Map.empty,
      demo_sts ''zone-b'' 5 [RolloutDownscaleLeaderAnnotationKey \<mapsto> ''zone-a''],
      demo_sts ''zone-c'' 2 [RolloutDownscaleLeaderAnnotationKey \<mapsto> ''zone-a'']]"

lemma demo_adjust:
  "adjustStatefulSetsGroupReplicas (steady_env 0 [] []) ''ns'' ''local'' [] demo_followers =
     (Ok True, [EvPatchReplicas ''ns'' ''zone-b'' 3])"
  by (simp add: adjustStatefulSetsGroupReplicas_def adjustStatefulSetsGroupReplicasToFollowLeader_def
      patchStatefulSetSpecReplicas_def demo_followers_def demo_replicas_eval)

theorem adjust_patches_at_most_one_witness:
  "\<exists>s\<in>set demo_followers. \<exists>cur. sts_replicas s = Some cur \<and> cur \<noteq> 3 \<and> ''zone-b'' = sts_name s"
  using adjust_patches_at_most_one [OF demo_adjust] by auto

text \<open>
  A leader with three ready replicas; \<open>zone-b\<close> has five and waits twelve hours after a downscale of another
  zone; \<open>zone-c\<close> has two, waits for the leader, and was downscaled at \<open>10 ^ 18\<close>. Between the two rounds the
  downscale of \<open>zone-b\<close> is recorded.
\<close>

definition demo_plan :: follow_plan where
  "demo_plan = \<lparr>fp_leader = ''zone-a'', fp_replicas = 3, fp_forced = Map.empty\<rparr>"

definition demo_gated :: "int \<Rightarrow> int \<Rightarrow> strmap \<Rightarrow> statefulset list" where
  "demo_gated b c recorded =
     [demo_sts ''zone-a'' 3 Map.empty,
      demo_sts ''zone-b'' b (recorded ++ [RolloutDownscaleLeaderAnnotationKey \<mapsto> ''zone-a'',
                             MinTimeBetweenZonesDownscaleAnnotationKey \<mapsto> ''12h'']),
      demo_sts ''zone-c'' c [RolloutDownscaleLeaderAnnotationKey \<mapsto> ''zone-a'',
                             MinTimeBetweenZonesDownscaleAnnotationKey \<mapsto> ''12h'',
                             RolloutLeaderReadyAnnotationKey \<mapsto> ''true'',
                             LastDownscaleAnnotationKey \<mapsto> FormatRFC3339 1000000000000000000]]"

abbreviation demo_recorded :: strmap where
  "demo_recorded \<equiv> [LastDownscaleAnnotationKey \<mapsto> FormatRFC3339 1000000000000000000]"

abbreviation demo_later :: env where
  "demo_later \<equiv> steady_env (1000000000000000000 + 13 * hour) [] []"

lemmas demo_gated_eval = demo_gated_def demo_plan_def demo_sts_def config_keys demo_time demo_half_day wanted_def
  mget_def GetMinTimeBetweenZonesDownscale_def

lemma demo_gated_group:
  "leader_group demo_plan (demo_gated b c Map.empty)" "leader_group demo_plan (demo_gated b c demo_recorded)"
  by (simp_all add: leader_group_def follows_def demo_gated_eval)

lemma demo_first_round:
  "adjustStatefulSetsGroupReplicas demo_later ''ns'' ''local'' [] (demo_gated 5 2 Map.empty) =
     (Ok True, [EvNow, EvPatchReplicas ''ns'' ''zone-b'' 3])"
  by (simp add: adjustStatefulSetsGroupReplicas_def adjustStatefulSetsGroupReplicasToFollowLeader_def
      patchStatefulSetSpecReplicas_def demo_gated_eval demo_replicas_eval hour_def minute_def second_def)

lemma demo_second_round:
  "adjustStatefulSetsGroupReplicas demo_later ''ns'' ''local'' tr (demo_gated 3 2 demo_recorded) =
     (Ok True, tr @ [EvPatchReplicas ''ns'' ''zone-c'' 3])"
  by (simp add: adjustStatefulSetsGroupReplicas_def adjustStatefulSetsGroupReplicasToFollowLeader_def
      patchStatefulSetSpecReplicas_def demo_gated_eval demo_replicas_eval hour_def minute_def second_def)

lemma demo_unhindered: "unhindered demo_plan demo_later ''ns'' (demo_gated b 2 m) tr tr'"
  by (simp add: unhindered_def lagging_def gate_open_def demo_gated_eval)

lemma unhindered_round:
  assumes "adjust_rounds P E ns cd tr sets n tr1 sets1" and "same_group P sets1 sets2"
    and "adjustStatefulSetsGroupReplicas E ns cd tr1 sets2 = (r, tr3)" and "unhindered P E ns sets2 tr1 tr3"
  shows "adjust_rounds P E ns cd tr sets (Suc n) tr3 (fold apply_patch (new_patches tr1 tr3) sets2)"
  using adjust_rounds.round [OF assms(1) extends_refl assms(2,3)] assms(4) by (simp add: applied_def)

lemma demo_rounds:
  "adjust_rounds demo_plan demo_later ''ns'' ''local'' [] (demo_gated 5 2 Map.empty) 2
     [EvNow, EvPatchReplicas ''ns'' ''zone-b'' 3, EvPatchReplicas ''ns'' ''zone-c'' 3]
     (apply_patch (''zone-c'', 3) (demo_gated 3 2 demo_recorded))"
proof -
  have one: "adjust_rounds demo_plan demo_later ''ns'' ''local'' [] (demo_gated 5 2 Map.empty) 1
      [EvNow, EvPatchReplicas ''ns'' ''zone-b'' 3] (apply_patch (''zone-b'', 3) (demo_gated 5 2 Map.empty))"
    using unhindered_round [OF adjust_rounds.start _ demo_first_round demo_unhindered]
    by (simp add: same_group_def demo_gated_group new_patches_def)
  have "same_group demo_plan (apply_patch (''zone-b'', 3) (demo_gated 5 2 Map.empty)) (demo_gated 3 2 demo_recorded)"
    by (simp add: same_group_def demo_gated_group) (simp add: apply_patch_def demo_gated_def demo_sts_def)
  from unhindered_round [OF one this demo_second_round demo_unhindered]
  show ?thesis by (simp add: new_patches_def numeral_2_eq_2)
qed


theorem patched_replicas_are_int32_witness:
  "replica_patches (snd (adjustStatefulSetsGroupReplicas (steady_env 0 [] []) ''ns'' ''local'' [] demo_followers)) = [(''zone-b'', 3)] \<and>
   is_int32 3"
proof -
  have "int32_inputs (steady_env 0 [] []) demo_followers"
    by (simp add: int32_inputs_def demo_followers_def demo_sts_def is_int32_def steady_env_def)
  from patched_replicas_are_int32 [OF demo_adjust this] show ?thesis by (simp add: demo_adjust)
qed

end
