(* ===== verification/ZpdbConfig.thy ===== *)
theory ZpdbConfig
  imports OpUtil
begin

text \<open>
  \<^verbatim>\<open>pkg/zpdb/config.go\<close>: the configuration of a ZoneAwarePodDisruptionBudget, its parsing from an
  unstructured custom resource, the number of pods it lets be unavailable, and the partition of a pod.

  Regular expressions are Go's \<^verbatim>\<open>regexp\<close> package, kept as a parameter: a compiled expression is its
  number of subexpressions and the function \<^verbatim>\<open>FindStringSubmatch\<close>; compiling is an argument of the
  operations that compile.
\<close>

section \<open>Unstructured objects\<close>

datatype jval = JNull | JStr string | JInt int | JMap "(string \<times> jval) list" | JOther

text \<open>\<^verbatim>\<open>unstructured.NestedFieldNoCopy\<close>: \<^term>\<open>Ok None\<close> is "not found".\<close>

fun NestedFieldNoCopy :: "jval \<Rightarrow> string list \<Rightarrow> jval option res" where
  "NestedFieldNoCopy val [] = Ok (Some val)"
| "NestedFieldNoCopy val (field # path) =
     (case val of
        JNull \<Rightarrow> Ok None
      | JMap m \<Rightarrow> (case map_of m field of None \<Rightarrow> Ok None | Some v \<Rightarrow> NestedFieldNoCopy v path)
      | _ \<Rightarrow> Fail (Err ''accessor error: expected map[string]interface{}''))"

definition NestedMap :: "jval \<Rightarrow> string list \<Rightarrow> (string \<rightharpoonup> jval) option res" where
  "NestedMap obj path =
     (case NestedFieldNoCopy obj path of
        Fail e \<Rightarrow> Fail e
      | Panic m \<Rightarrow> Panic m
      | Ok None \<Rightarrow> Ok None
      | Ok (Some (JMap m)) \<Rightarrow> Ok (Some (map_of m))
      | Ok (Some _) \<Rightarrow> Fail (Err ''accessor error: expected map[string]interface{}''))"

fun string_values :: "(string \<times> jval) list \<Rightarrow> (string \<times> string) list res" where
  "string_values [] = Ok []"
| "string_values ((k, v) # kvs) =
     (case v of
        JStr str \<Rightarrow> (case string_values kvs of
                      Ok rest \<Rightarrow> Ok ((k, str) # rest)
                    | Fail e \<Rightarrow> Fail e
                    | Panic m \<Rightarrow> Panic m)
      | _ \<Rightarrow> Fail (Err ''accessor error: contains non-string value in the map''))"

definition NestedStringMap :: "jval \<Rightarrow> string list \<Rightarrow> (string \<times> string) list option res" where
  "NestedStringMap obj path =
     (case NestedFieldNoCopy obj path of
        Fail e \<Rightarrow> Fail e
      | Panic m \<Rightarrow> Panic m
      | Ok None \<Rightarrow> Ok None
      | Ok (Some (JMap m)) \<Rightarrow> map_res Some (string_values m)
      | Ok (Some _) \<Rightarrow> Fail (Err ''accessor error: expected map[string]interface{}''))"

definition nested_string :: "jval \<Rightarrow> string list \<Rightarrow> string" where
  "nested_string obj path =
     (case NestedFieldNoCopy obj path of Ok (Some (JStr s)) \<Rightarrow> s | _ \<Rightarrow> '''')"

definition GetKind :: "jval \<Rightarrow> string" where
  "GetKind obj = nested_string obj [''kind'']"

definition GetName :: "jval \<Rightarrow> string" where
  "GetName obj = nested_string obj [''metadata'', ''name'']"

definition GetGeneration :: "jval \<Rightarrow> int" where
  "GetGeneration obj =
     (case NestedFieldNoCopy obj [''metadata'', ''generation''] of Ok (Some (JInt n)) \<Rightarrow> n | _ \<Rightarrow> 0)"

section \<open>The configuration\<close>

record regexp =
  re_NumSubexp :: int
  re_FindStringSubmatch :: "string \<Rightarrow> string list"

definition ZoneAwarePodDisruptionBudgetName :: string where
  "ZoneAwarePodDisruptionBudgetName = ''ZoneAwarePodDisruptionBudget''"

record zpdb_config =
  cfg_name :: string
  cfg_generation :: int
  cfg_maxUnavailable :: int
  cfg_maxUnavailablePercentage :: int
  cfg_selector :: selector
  cfg_podNamePartition :: "regexp option"
  cfg_podNamePartitionRegexGroup :: int
  cfg_crossZoneEvictionDelay :: duration

definition matchesPod :: "zpdb_config \<Rightarrow> pod \<Rightarrow> bool" where
  "matchesPod c p = sel_matches (cfg_selector c) (pod_labels p)"

definition maxUnavailablePods :: "zpdb_config \<Rightarrow> statefulset \<Rightarrow> int" where
  "maxUnavailablePods c sts =
     (if 0 < cfg_maxUnavailable c then cfg_maxUnavailable c
      else (case sts_replicas sts of
              None \<Rightarrow> 0
            | Some spec \<Rightarrow>
                if 0 < cfg_maxUnavailablePercentage c \<and> 0 < spec then
                  (let replicas = min spec (sts_status_replicas sts) in
                   if replicas = 0 then 0
                   else (let result = floor_hundredth (wrap64 (cfg_maxUnavailablePercentage c * replicas))
                         in if result < 1 then 1 else result))
                else 0))"

text \<open>Indexing the submatches panics on a negative group, which the length test lets through.\<close>

definition podPartition :: "zpdb_config \<Rightarrow> pod \<Rightarrow> string res" where
  "podPartition c p =
     (case cfg_podNamePartition c of
        None \<Rightarrow> Ok ''''
      | Some re \<Rightarrow>
          (let zone = re_FindStringSubmatch re (pod_name p);
               g = cfg_podNamePartitionRegexGroup c
           in if g < int (length zone) then
                (if g < 0 then Panic ''index out of range''
                 else if zone ! nat g \<noteq> '''' then Ok (zone ! nat g)
                 else Fail (Err ''failed to extract partition from pod Name regular expression''))
              else Fail (Err ''failed to extract partition from pod Name regular expression'')))"

definition FieldMaxUnavailable :: string where "FieldMaxUnavailable = ''maxUnavailable''"
definition FieldMaxUnavailablePercentage :: string where
  "FieldMaxUnavailablePercentage = ''maxUnavailablePercentage''"
definition FieldPodNamePartitionRegex :: string where
  "FieldPodNamePartitionRegex = ''podNamePartitionRegex''"
definition FieldPodNameRegexGroup :: string where "FieldPodNameRegexGroup = ''podNameRegexGroup''"
definition FieldCrossZoneEvictionDelay :: string where
  "FieldCrossZoneEvictionDelay = ''crossZoneEvictionDelay''"

text \<open>\<open>compile\<close> is \<^verbatim>\<open>regexp.Compile\<close>. The result is the expression (if any) and its group.\<close>

definition valueAsRegex ::
    "(string \<Rightarrow> regexp reply) \<Rightarrow> (string \<rightharpoonup> jval) \<Rightarrow> string \<Rightarrow> string \<Rightarrow> (regexp option \<times> int) res" where
  "valueAsRegex compile config regexField groupField =
     (case config regexField of
        None \<Rightarrow> Ok (None, 0)
      | Some (JStr regexString) \<Rightarrow>
          if regexString = '''' then Ok (None, 0)
          else
            (case (case config groupField of
                     None \<Rightarrow> Ok (1, False)
                   | Some (JInt tmp) \<Rightarrow> Ok (tmp, True)
                   | Some _ \<Rightarrow> Fail (Err (''failed to extract group value from config field '' @ groupField))) of
               Fail e \<Rightarrow> Fail e
             | Panic m \<Rightarrow> Panic m
             | Ok (groupValue, groupValueSet) \<Rightarrow>
                 (case compile (''^'' @ regexString @ ''$'') of
                    Error e \<Rightarrow> Fail e
                  | Reply re \<Rightarrow>
                      (let numSubExp = re_NumSubexp re in
                       if numSubExp = 0 then Fail (Err ''regular expression requires at least one subexpression'')
                       else if 1 < numSubExp \<and> \<not> groupValueSet then
                         Fail (Err (''regular expression has multiple subexpressions and requires '' @ groupField @ '' to be set''))
                       else if numSubExp < groupValue then
                         Fail (Err ''regular expression subexpression index out of range'')
                       else Ok (Some re, groupValue))))
      | Some _ \<Rightarrow> Fail (Err (''failed to extract regex value from config field '' @ regexField)))"

definition SelectorFromSet :: "(string \<times> string) list \<Rightarrow> selector" where
  "SelectorFromSet ls = map (\<lambda>(k, v). Requirement k Equals [v]) ls"

text \<open>The fields \<^verbatim>\<open>maxUnavailable\<close> and \<^verbatim>\<open>maxUnavailablePercentage\<close> of the spec, with their defaults.\<close>

definition max_unavailable_fields :: "(string \<rightharpoonup> jval) \<Rightarrow> (int \<times> int) res" where
  "max_unavailable_fields mapSpec =
     (case (mapSpec FieldMaxUnavailable, mapSpec FieldMaxUnavailablePercentage) of
        (Some _, Some _) \<Rightarrow>
          Fail (Err ''invalid value: only one of maxUnavailable or maxUnavailablePercentage may be set'')
      | (Some (JInt tmp), None) \<Rightarrow>
          if tmp < 0 then Fail (Err (''invalid value: max unavailable must be 0 <= val, got '' @ Itoa tmp))
          else Ok (tmp, 0)
      | (Some _, None) \<Rightarrow> Fail (Err (''failed to extract value from config field '' @ FieldMaxUnavailable))
      | (None, Some (JInt tmp)) \<Rightarrow>
          if tmp < 0 \<or> 100 < tmp then
            Fail (Err (''invalid value: max unavailable percentage must be 0 <= val <= 100, got '' @ Itoa tmp))
          else Ok (0, tmp)
      | (None, Some _) \<Rightarrow> Fail (Err (''failed to extract value from config field '' @ FieldMaxUnavailablePercentage))
      | (None, None) \<Rightarrow> Ok (1, 0))"

definition eviction_delay_field :: "(string \<rightharpoonup> jval) \<Rightarrow> duration res" where
  "eviction_delay_field mapSpec =
     (case mapSpec FieldCrossZoneEvictionDelay of
        None \<Rightarrow> Ok 0
      | Some (JStr delayStr) \<Rightarrow>
          if delayStr = '''' then Ok 0
          else (case ParseDuration delayStr of
                  None \<Rightarrow> Fail (Err (''invalid value: '' @ FieldCrossZoneEvictionDelay @ '' is not a valid duration''))
                | Some d \<Rightarrow> if d < 0 then Fail (Err (''invalid value: '' @ FieldCrossZoneEvictionDelay
                                                   @ '' must be >= 0, got '' @ delayStr))
                            else Ok d)
      | Some _ \<Rightarrow> Fail (Err (''failed to extract value from config field '' @ FieldCrossZoneEvictionDelay)))"

definition ParseAndValidate :: "(string \<Rightarrow> regexp reply) \<Rightarrow> jval \<Rightarrow> zpdb_config res" where
  "ParseAndValidate compile obj =
     (case NestedMap obj [''spec''] of
        Fail e \<Rightarrow> Fail e
      | Panic m \<Rightarrow> Panic m
      | Ok None \<Rightarrow> Fail (Err ''no spec found in unstructured object'')
      | Ok (Some mapSpec) \<Rightarrow>
          if GetKind obj \<noteq> ZoneAwarePodDisruptionBudgetName then
            Fail (Err (''unexpected object kind - expecting '' @ ZoneAwarePodDisruptionBudgetName))
          else
            (case max_unavailable_fields mapSpec of
               Fail e \<Rightarrow> Fail e
             | Panic m \<Rightarrow> Panic m
             | Ok (maxUnavailable, percentage) \<Rightarrow>
                 (case valueAsRegex compile mapSpec FieldPodNamePartitionRegex FieldPodNameRegexGroup of
                    Fail e \<Rightarrow> Fail (Err (''invalid value: regex is not valid, got '' @ errmsg e))
                  | Panic m \<Rightarrow> Panic m
                  | Ok (re, grp) \<Rightarrow>
                      (case NestedStringMap obj [''spec'', ''selector'', ''matchLabels''] of
                         Fail e \<Rightarrow> Fail (Err (''invalid value: selector is not valid, got '' @ errmsg e))
                       | Panic m \<Rightarrow> Panic m
                       | Ok None \<Rightarrow> Fail (Err ''invalid value: selector is not found'')
                       | Ok (Some mlMap) \<Rightarrow>
                           (case eviction_delay_field mapSpec of
                              Fail e \<Rightarrow> Fail e
                            | Panic m \<Rightarrow> Panic m
                            | Ok delay \<Rightarrow>
                                if 0 < delay \<and> re = None then
                                  Fail (Err ''invalid value: crossZoneEvictionDelay requires podNamePartitionRegex to be set'')
                                else if 0 < percentage \<and> re \<noteq> None then
                                  Fail (Err ''invalid value: max unavailable percentage can not be used with partition awareness'')
                                else
                                  Ok \<lparr>cfg_name = GetName obj, cfg_generation = GetGeneration obj,
                                      cfg_maxUnavailable = maxUnavailable, cfg_maxUnavailablePercentage = percentage,
                                      cfg_selector = SelectorFromSet mlMap, cfg_podNamePartition = re,
                                      cfg_podNamePartitionRegexGroup = grp, cfg_crossZoneEvictionDelay = delay\<rparr>)))))"

section \<open>Well-formed configurations\<close>

text \<open>
  What parsing guarantees of an accepted configuration. The group is at most the number of groups of the expression; there is no
  lower bound, since the parser has none: a negative group is accepted and makes \<^const>\<open>podPartition\<close> panic on every pod.
\<close>

definition wf_config :: "zpdb_config \<Rightarrow> bool" where
  "wf_config c \<longleftrightarrow>
     0 \<le> cfg_maxUnavailable c \<and>
     0 \<le> cfg_maxUnavailablePercentage c \<and> cfg_maxUnavailablePercentage c \<le> 100 \<and>
     (0 < cfg_maxUnavailablePercentage c \<longrightarrow> cfg_maxUnavailable c = 0 \<and> cfg_podNamePartition c = None) \<and>
     0 \<le> cfg_crossZoneEvictionDelay c \<and> is_int64 (cfg_crossZoneEvictionDelay c) \<and>
     (0 < cfg_crossZoneEvictionDelay c \<longrightarrow> cfg_podNamePartition c \<noteq> None) \<and>
     (\<forall>re. cfg_podNamePartition c = Some re \<longrightarrow>
        re_NumSubexp re \<noteq> 0 \<and> cfg_podNamePartitionRegexGroup c \<le> re_NumSubexp re)"

lemma max_unavailable_fields_Ok:
  "max_unavailable_fields s = Ok (m, p) \<Longrightarrow> 0 \<le> m \<and> 0 \<le> p \<and> p \<le> 100 \<and> (0 < p \<longrightarrow> m = 0)"
  by (auto simp: max_unavailable_fields_def split: option.splits jval.splits if_splits)

lemma valueAsRegex_Ok:
  "valueAsRegex compile s f g = Ok (Some re, n) \<Longrightarrow> re_NumSubexp re \<noteq> 0 \<and> n \<le> re_NumSubexp re"
  by (auto simp: valueAsRegex_def Let_def split: option.splits jval.splits if_splits res.splits reply.splits prod.splits)

lemma eviction_delay_field_Ok: "eviction_delay_field s = Ok d \<Longrightarrow> 0 \<le> d \<and> is_int64 d"
  by (auto simp: eviction_delay_field_def is_int64_def dest: ParseDuration_range
      split: option.splits jval.splits if_splits)

lemma ParseAndValidate_wf:
  assumes "ParseAndValidate compile obj = Ok c"
  shows "wf_config c"
proof -
  from assms obtain mapSpec m p re g d where
      m: "max_unavailable_fields mapSpec = Ok (m, p)"
    and re: "valueAsRegex compile mapSpec FieldPodNamePartitionRegex FieldPodNameRegexGroup = Ok (re, g)"
    and d: "eviction_delay_field mapSpec = Ok d"
    and c: "cfg_maxUnavailable c = m" "cfg_maxUnavailablePercentage c = p" "cfg_podNamePartition c = re"
      "cfg_podNamePartitionRegexGroup c = g" "cfg_crossZoneEvictionDelay c = d"
    and guards: "\<not> (0 < d \<and> re = None)" "\<not> (0 < p \<and> re \<noteq> None)"
    by (auto simp: ParseAndValidate_def split: res.splits option.splits if_splits prod.splits)
  with max_unavailable_fields_Ok [OF m] eviction_delay_field_Ok [OF d] valueAsRegex_Ok show ?thesis
    unfolding wf_config_def by auto
qed

lemma podPartition_panics:
  "(\<exists>m. podPartition c p = Panic m) \<longleftrightarrow> cfg_podNamePartition c \<noteq> None \<and> cfg_podNamePartitionRegexGroup c < 0"
  by (auto simp: podPartition_def Let_def split: option.splits)

lemma podPartition_total:
  assumes "0 \<le> cfg_podNamePartitionRegexGroup c"
  shows "\<forall>m. podPartition c p \<noteq> Panic m"
  using assms by (auto simp: podPartition_def Let_def split: option.splits)

end
