(* ===== verification/ZpdbCaches.thy ===== *)
theory ZpdbCaches
  imports ZpdbConfig "HOL-Library.AList"
begin

text \<open>
  The state of the ZPDB eviction controller: the cache of configurations
  (\<^verbatim>\<open>config_cache.go\<close>), the cache of recent evictions (\<^verbatim>\<open>pod_eviction_cache.go\<close>), and the informer
  handlers that keep them up to date (\<^verbatim>\<open>config_observer.go\<close>, \<^verbatim>\<open>pod_observer.go\<close>).
\<close>

section \<open>The configuration cache\<close>

text \<open>The Go map \<^verbatim>\<open>entries\<close>; the order of the list is the order of one iteration over it.\<close>

type_synonym config_cache = "(string \<times> zpdb_config) list"

definition newConfigCache :: config_cache where
  "newConfigCache = []"

definition addOrUpdate :: "config_cache \<Rightarrow> zpdb_config \<Rightarrow> config_cache \<times> bool \<times> int" where
  "addOrUpdate entries pdb =
     (case map_of entries (cfg_name pdb) of
        Some oldCfg \<Rightarrow>
          if cfg_generation pdb \<le> cfg_generation oldCfg then (entries, False, cfg_generation oldCfg)
          else (AList.update (cfg_name pdb) pdb entries, True, cfg_generation pdb)
      | None \<Rightarrow> (AList.update (cfg_name pdb) pdb entries, True, cfg_generation pdb))"

definition addOrUpdateRaw ::
    "(string \<Rightarrow> regexp reply) \<Rightarrow> config_cache \<Rightarrow> jval \<Rightarrow> config_cache \<times> (bool \<times> int) res" where
  "addOrUpdateRaw compile entries obj =
     (case ParseAndValidate compile obj of
        Fail e \<Rightarrow> (entries, Fail e)
      | Panic m \<Rightarrow> (entries, Panic m)
      | Ok pdbConfig \<Rightarrow>
          (case addOrUpdate entries pdbConfig of
             (entries', updated, generation) \<Rightarrow> (entries', Ok (updated, generation))))"

definition config_delete :: "config_cache \<Rightarrow> int \<Rightarrow> string \<Rightarrow> config_cache \<times> bool \<times> int" where
  "config_delete entries generation name =
     (case map_of entries name of
        None \<Rightarrow> (entries, False, -1)
      | Some oldCfg \<Rightarrow>
          if generation < cfg_generation oldCfg then (entries, False, cfg_generation oldCfg)
          else (AList.delete name entries, True, cfg_generation oldCfg))"

fun find_loop :: "config_cache \<Rightarrow> pod \<Rightarrow> zpdb_config option \<Rightarrow> zpdb_config option res" where
  "find_loop [] p pdbMatch = Ok pdbMatch"
| "find_loop ((n, pdb) # rest) p pdbMatch =
     (if matchesPod pdb p then
        (if pdbMatch \<noteq> None then Fail (Err ''multiple zoned pod disruption budgets found for pod'')
         else find_loop rest p (Some pdb))
      else find_loop rest p pdbMatch)"

definition config_find :: "config_cache \<Rightarrow> pod \<Rightarrow> zpdb_config option res" where
  "config_find entries p = find_loop entries p None"

definition config_size :: "config_cache \<Rightarrow> nat" where
  "config_size entries = length entries"

section \<open>The eviction cache\<close>

record podEvictionCacheValue =
  ev_expires :: instant
  ev_generation :: int

type_synonym evict_cache = "string \<rightharpoonup> podEvictionCacheValue"

definition cacheExpiry :: duration where
  "cacheExpiry = 2 * minute"

definition newPodEvictionCache :: evict_cache where
  "newPodEvictionCache = Map.empty"

text \<open>\<open>now\<close> is the clock reading of \<^verbatim>\<open>time.Now()\<close> inside the operation.\<close>

definition recordEviction :: "evict_cache \<Rightarrow> instant \<Rightarrow> pod \<Rightarrow> evict_cache" where
  "recordEviction entries now p =
     entries(pod_name p \<mapsto> \<lparr>ev_expires = now + cacheExpiry, ev_generation = pod_generation p\<rparr>)"

definition hasPendingEvictionWithGeneration :: "evict_cache \<Rightarrow> instant \<Rightarrow> pod \<Rightarrow> bool \<times> int" where
  "hasPendingEvictionWithGeneration entries now p =
     (case entries (pod_name p) of
        None \<Rightarrow> (False, 0)
      | Some rec \<Rightarrow> (now < ev_expires rec, ev_generation rec))"

definition hasPendingEviction :: "evict_cache \<Rightarrow> instant \<Rightarrow> pod \<Rightarrow> bool" where
  "hasPendingEviction entries now p = fst (hasPendingEvictionWithGeneration entries now p)"

definition evict_delete :: "evict_cache \<Rightarrow> pod \<Rightarrow> evict_cache" where
  "evict_delete entries p = entries(pod_name p := None)"

section \<open>The informer handlers\<close>

text \<open>
  What an informer passes to a handler: an object of the expected type, or something else (client-go
  passes a \<^verbatim>\<open>DeletedFinalStateUnknown\<close> for a deletion whose last state it missed).
\<close>

datatype 'o informer_obj = Object 'o | OtherObject

text \<open>The label under which \<^verbatim>\<open>ConfigurationsObserved\<close> is counted is the second result.\<close>

definition observer_addOrUpdate ::
    "(string \<Rightarrow> regexp reply) \<Rightarrow> config_cache \<Rightarrow> jval \<Rightarrow> config_cache \<times> string" where
  "observer_addOrUpdate compile entries obj =
     (case addOrUpdateRaw compile entries obj of
        (entries', Ok (True, generation)) \<Rightarrow> (entries', ''updated'')
      | (entries', Ok (False, generation)) \<Rightarrow> (entries', ''ignored'')
      | (entries', _) \<Rightarrow> (entries', ''invalid''))"

definition onPdbAdded ::
    "(string \<Rightarrow> regexp reply) \<Rightarrow> config_cache \<Rightarrow> jval informer_obj \<Rightarrow> config_cache \<times> string" where
  "onPdbAdded compile entries obj =
     (case obj of
        OtherObject \<Rightarrow> (entries, ''ignored'')
      | Object u \<Rightarrow> observer_addOrUpdate compile entries u)"

definition onPdbUpdated ::
    "(string \<Rightarrow> regexp reply) \<Rightarrow> config_cache \<Rightarrow> jval informer_obj \<Rightarrow> jval informer_obj \<Rightarrow> config_cache \<times> string" where
  "onPdbUpdated compile entries old new =
     (case (old, new) of
        (Object _, Object newCfg) \<Rightarrow> observer_addOrUpdate compile entries newCfg
      | _ \<Rightarrow> (entries, ''ignored''))"

definition onPdbDeleted :: "config_cache \<Rightarrow> jval informer_obj \<Rightarrow> config_cache \<times> string" where
  "onPdbDeleted entries obj =
     (case obj of
        OtherObject \<Rightarrow> (entries, ''ignored'')
      | Object oldCfg \<Rightarrow>
          (case config_delete entries (GetGeneration oldCfg) (GetName oldCfg) of
             (entries', success, generation) \<Rightarrow>
               (entries', if success then ''deleted'' else ''delete-ignored'')))"

definition invalidatePodEvictionCache :: "evict_cache \<Rightarrow> instant \<Rightarrow> pod \<Rightarrow> evict_cache" where
  "invalidatePodEvictionCache entries now p =
     (case hasPendingEvictionWithGeneration entries now p of
        (pending, generationAtEviction) \<Rightarrow>
          if \<not> pending then entries
          else if pod_phase p = PodRunning then entries
          else evict_delete entries p)"

text \<open>A pod is accepted when exactly one configuration covers it.\<close>

definition accept :: "config_cache \<Rightarrow> pod informer_obj \<Rightarrow> pod option" where
  "accept configs obj =
     (case obj of
        OtherObject \<Rightarrow> None
      | Object p \<Rightarrow> (case config_find configs p of
                      Ok (Some _) \<Rightarrow> Some p
                    | _ \<Rightarrow> None))"

definition onPodAdded :: "config_cache \<Rightarrow> evict_cache \<Rightarrow> instant \<Rightarrow> pod informer_obj \<Rightarrow> evict_cache" where
  "onPodAdded configs entries now obj =
     (case accept configs obj of None \<Rightarrow> entries | Some p \<Rightarrow> invalidatePodEvictionCache entries now p)"

definition onPodUpdated :: "config_cache \<Rightarrow> evict_cache \<Rightarrow> instant \<Rightarrow> pod informer_obj \<Rightarrow> evict_cache" where
  "onPodUpdated configs entries now new =
     (case accept configs new of None \<Rightarrow> entries | Some p \<Rightarrow> invalidatePodEvictionCache entries now p)"

definition onPodDeleted :: "config_cache \<Rightarrow> evict_cache \<Rightarrow> instant \<Rightarrow> pod informer_obj \<Rightarrow> evict_cache" where
  "onPodDeleted configs entries now obj =
     (case accept configs obj of None \<Rightarrow> entries | Some p \<Rightarrow> invalidatePodEvictionCache entries now p)"

section \<open>The invariant of the configuration cache\<close>

definition wf_cache :: "config_cache \<Rightarrow> bool" where
  "wf_cache entries \<longleftrightarrow>
     distinct (map fst entries) \<and> (\<forall>(n, c)\<in>set entries. cfg_name c = n \<and> wf_config c)"

lemma wf_cache_empty [simp]: "wf_cache newConfigCache"
  by (simp add: wf_cache_def newConfigCache_def)

lemma wf_cache_lookup:
  assumes "wf_cache entries" and "map_of entries n = Some c"
  shows "cfg_name c = n \<and> wf_config c"
  using assms map_of_SomeD [OF assms(2)] by (auto simp: wf_cache_def)

lemma wf_cache_update:
  assumes "wf_cache entries" and "wf_config c"
  shows "wf_cache (AList.update (cfg_name c) c entries)"
proof -
  have d: "distinct (map fst (AList.update (cfg_name c) c entries))"
    using assms(1) by (simp add: wf_cache_def distinct_update)
  have found: "map_of (AList.update (cfg_name c) c entries) n = Some x \<Longrightarrow> cfg_name x = n \<and> wf_config x" for n x
    using assms(2) wf_cache_lookup [OF assms(1), of n x] by (simp add: update_conv split: if_splits)
  have "cfg_name x = n \<and> wf_config x" if "(n, x) \<in> set (AList.update (cfg_name c) c entries)" for n x
    using found map_of_is_SomeI [OF d that] by blast
  with d show ?thesis unfolding wf_cache_def by blast
qed

lemma wf_cache_addOrUpdate:
  assumes "wf_cache entries" and "wf_config pdb"
  shows "wf_cache (fst (addOrUpdate entries pdb))"
  using assms by (auto simp: addOrUpdate_def wf_cache_update split: option.splits)

lemma wf_cache_addOrUpdateRaw:
  assumes "wf_cache entries"
  shows "wf_cache (fst (addOrUpdateRaw compile entries obj))"
proof (cases "ParseAndValidate compile obj")
  case (Ok c)
  with assms show ?thesis
    using wf_cache_addOrUpdate [OF assms ParseAndValidate_wf [OF Ok]]
    by (auto simp: addOrUpdateRaw_def split: prod.splits)
qed (use assms in \<open>simp_all add: addOrUpdateRaw_def\<close>)

lemma wf_cache_delete:
  assumes "wf_cache entries"
  shows "wf_cache (fst (config_delete entries g n))"
proof -
  have "distinct (map fst (AList.delete n entries))"
    using assms by (simp add: wf_cache_def distinct_delete)
  moreover have "set (AList.delete n entries) \<subseteq> set entries"
    by (auto simp: AList.delete_eq)
  ultimately have "wf_cache (AList.delete n entries)"
    using assms unfolding wf_cache_def by blast
  with assms show ?thesis by (auto simp: config_delete_def split: option.splits)
qed

lemma wf_cache_observer:
  assumes "wf_cache entries"
  shows "wf_cache (fst (onPdbAdded compile entries o1))"
    and "wf_cache (fst (onPdbUpdated compile entries o1 o2))"
    and "wf_cache (fst (onPdbDeleted entries o1))"
proof -
  have add: "wf_cache (fst (observer_addOrUpdate compile entries u))" for u
    using wf_cache_addOrUpdateRaw [OF assms, of compile u]
    by (auto simp: observer_addOrUpdate_def split: prod.splits res.splits bool.splits)
  then show "wf_cache (fst (onPdbAdded compile entries o1))"
    and "wf_cache (fst (onPdbUpdated compile entries o1 o2))"
    using assms by (auto simp: onPdbAdded_def onPdbUpdated_def split: informer_obj.splits)
  show "wf_cache (fst (onPdbDeleted entries o1))"
    using assms wf_cache_delete [OF assms]
    by (auto simp: onPdbDeleted_def split: informer_obj.splits prod.splits) (metis fst_conv)
qed

section \<open>Looking up a pod's configuration\<close>

definition matching :: "config_cache \<Rightarrow> pod \<Rightarrow> zpdb_config list" where
  "matching entries p = filter (\<lambda>c. matchesPod c p) (map snd entries)"

lemma find_loop_matching:
  "find_loop entries p m =
     (case (case m of None \<Rightarrow> [] | Some c \<Rightarrow> [c]) @ matching entries p of
        [] \<Rightarrow> Ok None
      | [c] \<Rightarrow> Ok (Some c)
      | _ \<Rightarrow> Fail (Err ''multiple zoned pod disruption budgets found for pod''))"
  by (induction entries p m rule: find_loop.induct) (auto simp: matching_def split: list.splits option.splits)

lemma config_find_matching:
  "config_find entries p =
     (case matching entries p of
        [] \<Rightarrow> Ok None
      | [c] \<Rightarrow> Ok (Some c)
      | _ \<Rightarrow> Fail (Err ''multiple zoned pod disruption budgets found for pod''))"
  by (simp add: config_find_def find_loop_matching)

lemma set_matching: "set (matching entries p) = {c \<in> snd ` set entries. matchesPod c p}"
  by (auto simp: matching_def)

lemma config_find_Some: "config_find entries p = Ok (Some c) \<Longrightarrow> c \<in> snd ` set entries \<and> matchesPod c p"
proof -
  assume "config_find entries p = Ok (Some c)"
  then have "matching entries p = [c]" by (auto simp: config_find_matching split: list.splits)
  then have "c \<in> set (matching entries p)" by simp
  then show ?thesis by (simp add: set_matching)
qed

lemma config_find_None: "config_find entries p = Ok None \<longleftrightarrow> (\<forall>c\<in>snd ` set entries. \<not> matchesPod c p)"
proof -
  have "config_find entries p = Ok None \<longleftrightarrow> set (matching entries p) = {}"
    by (auto simp: config_find_matching split: list.splits)
  then show ?thesis by (auto simp: set_matching)
qed

lemma config_find_perm:
  assumes "mset entries = mset entries'"
  shows "config_find entries p = config_find entries' p"
proof -
  have "mset (matching entries p) = mset (matching entries' p)"
    using assms by (simp add: matching_def)
  then have eq: "length (matching entries p) = length (matching entries' p)"
    and s: "set (matching entries p) = set (matching entries' p)"
    by (metis size_mset, metis set_mset_mset)
  show ?thesis
    unfolding config_find_matching using eq s
    by (auto split: list.splits simp: length_Suc_conv)
qed

lemma wf_config_found:
  assumes "wf_cache entries" and "config_find entries p = Ok (Some c)"
  shows "wf_config c"
  using assms config_find_Some [OF assms(2)] by (auto simp: wf_cache_def)

section \<open>The interface of the eviction cache\<close>

text \<open>
  What the eviction controller relies on: a recorded pod is pending until the expiry or until it is
  forgotten, and an operation on one pod name does not touch another.
\<close>

locale pending_evictions =
  fixes rec_evict :: "'c \<Rightarrow> instant \<Rightarrow> pod \<Rightarrow> 'c"
    and pending :: "'c \<Rightarrow> instant \<Rightarrow> pod \<Rightarrow> bool"
    and forget :: "'c \<Rightarrow> pod \<Rightarrow> 'c"
    and expiry :: duration
  assumes pending_rec: "pending (rec_evict c t p) t' q \<longleftrightarrow>
      (if pod_name q = pod_name p then t' < t + expiry else pending c t' q)"
    and pending_forget: "pending (forget c p) t' q \<longleftrightarrow> pod_name q \<noteq> pod_name p \<and> pending c t' q"
    and pending_antimono: "pending c t' q \<Longrightarrow> t \<le> t' \<Longrightarrow> pending c t q"
begin

text \<open>An observation of a pod forgets it only when it is pending and no longer running.\<close>

definition observe :: "'c \<Rightarrow> instant \<Rightarrow> pod \<Rightarrow> 'c" where
  "observe c t p = (if pending c t p \<and> pod_phase p \<noteq> PodRunning then forget c p else c)"

lemma observe_keeps:
  "pending c t' q \<Longrightarrow> pod_name p \<noteq> pod_name q \<or> pod_phase p = PodRunning \<Longrightarrow> pending (observe c t p) t' q"
  by (auto simp: observe_def pending_forget)

lemma observe_antitone: "pending (observe c t p) t' q \<Longrightarrow> pending c t' q"
  by (auto simp: observe_def pending_forget split: if_splits)

lemma rec_keeps: "pending c t' q \<Longrightarrow> t' < t + expiry \<Longrightarrow> pending (rec_evict c t p) t' q"
  by (simp add: pending_rec)

text \<open>
  Any interleaving of recordings and observations, each with its clock reading: as long as no
  observation of the pod itself shows it out of the running phase, it stays pending.
\<close>

inductive evolves :: "(pod \<times> instant) set \<Rightarrow> 'c \<Rightarrow> 'c \<Rightarrow> bool" for seen where
  evolves_refl: "evolves seen c c"
| evolves_rec: "evolves seen c c' \<Longrightarrow> (p, t) \<in> seen \<Longrightarrow> evolves seen c (rec_evict c' t p)"
| evolves_observe: "evolves seen c c' \<Longrightarrow> (p, t) \<in> seen \<Longrightarrow> evolves seen c (observe c' t p)"

lemma evolves_pending:
  assumes "evolves seen c c'" and "pending c t' q"
    and "\<And>p t. (p, t) \<in> seen \<Longrightarrow> t' < t + expiry"
    and "\<And>p t. (p, t) \<in> seen \<Longrightarrow> pod_name p \<noteq> pod_name q \<or> pod_phase p = PodRunning"
  shows "pending c' t' q"
  using assms
proof (induction rule: evolves.induct)
  case (evolves_rec c c' p t)
  then show ?case by (intro rec_keeps) auto
next
  case (evolves_observe c c' p t)
  then show ?case by (intro observe_keeps) auto
qed simp

end

interpretation ec: pending_evictions recordEviction hasPendingEviction evict_delete cacheExpiry
  by unfold_locales
     (auto simp: recordEviction_def hasPendingEviction_def hasPendingEvictionWithGeneration_def evict_delete_def
       split: option.splits)

lemma invalidate_observe: "invalidatePodEvictionCache c t p = ec.observe c t p"
  by (auto simp: invalidatePodEvictionCache_def ec.observe_def hasPendingEviction_def split: prod.splits)

text \<open>The steps the running operator takes on the eviction cache, one after another.\<close>

datatype cache_step =
    Evicted pod instant
  | PodAdded "pod informer_obj" instant
  | PodUpdated "pod informer_obj" instant
  | PodDeleted "pod informer_obj" instant

fun cache_apply :: "config_cache \<Rightarrow> cache_step \<Rightarrow> evict_cache \<Rightarrow> evict_cache" where
  "cache_apply configs (Evicted p t) c = recordEviction c t p"
| "cache_apply configs (PodAdded obj t) c = onPodAdded configs c t obj"
| "cache_apply configs (PodUpdated obj t) c = onPodUpdated configs c t obj"
| "cache_apply configs (PodDeleted obj t) c = onPodDeleted configs c t obj"

fun step_seen :: "cache_step \<Rightarrow> (pod \<times> instant) set" where
  "step_seen (Evicted p t) = {(p, t)}"
| "step_seen (PodAdded (Object p) t) = {(p, t)}"
| "step_seen (PodUpdated (Object p) t) = {(p, t)}"
| "step_seen (PodDeleted (Object p) t) = {(p, t)}"
| "step_seen _ = {}"

lemma accept_Some: "accept configs obj = Some p \<Longrightarrow> obj = Object p"
  by (auto simp: accept_def split: informer_obj.splits res.splits option.splits)

lemma cache_apply_evolves:
  assumes "ec.evolves seen c c'" and "step_seen s \<subseteq> seen"
  shows "ec.evolves seen c (cache_apply configs s c')"
proof -
  have seen: "ec.evolves seen c (case accept configs obj of None \<Rightarrow> c' | Some p \<Rightarrow> invalidatePodEvictionCache c' t p)"
    if "\<And>p. obj = Object p \<Longrightarrow> (p, t) \<in> seen" for obj t
    using assms(1) that accept_Some [of configs obj]
    by (auto simp: invalidate_observe intro: ec.evolves_observe split: option.splits)
  show ?thesis
  proof (cases s)
    case (Evicted p t)
    with assms show ?thesis by (auto intro: ec.evolves_rec)
  qed (use assms(2) in \<open>auto simp: onPodAdded_def onPodUpdated_def onPodDeleted_def intro!: seen\<close>)
qed

lemma cache_fold_evolves:
  "ec.evolves seen c c' \<Longrightarrow> (\<Union>s\<in>set steps. step_seen s) \<subseteq> seen \<Longrightarrow>
     ec.evolves seen c (fold (cache_apply configs) steps c')"
  by (induction steps arbitrary: c') (auto intro: cache_apply_evolves)

section \<open>Out-of-order configuration updates\<close>

definition add_all :: "config_cache \<Rightarrow> zpdb_config list \<Rightarrow> config_cache" where
  "add_all entries cs = fold (\<lambda>c e. fst (addOrUpdate e c)) cs entries"

lemma addOrUpdate_lookup:
  "map_of (fst (addOrUpdate e c)) n =
     (if n = cfg_name c \<and> (\<forall>old. map_of e n = Some old \<longrightarrow> cfg_generation old < cfg_generation c)
      then Some c else map_of e n)"
  by (auto simp: addOrUpdate_def update_conv split: option.splits)

lemma add_all_latest:
  assumes "map_of e n = Some c0"
  shows "\<exists>c. map_of (add_all e cs) n = Some c \<and> (c = c0 \<or> c \<in> set cs \<and> cfg_name c = n) \<and>
             cfg_generation c0 \<le> cfg_generation c \<and>
             (\<forall>c'\<in>set cs. cfg_name c' = n \<longrightarrow> cfg_generation c' \<le> cfg_generation c)"
  using assms
proof (induction cs arbitrary: e c0)
  case (Cons x cs)
  define e1 where "e1 = fst (addOrUpdate e x)"
  define c1 where "c1 = (if n = cfg_name x \<and> cfg_generation c0 < cfg_generation x then x else c0)"
  have "map_of e1 n = Some c1" using Cons.prems by (simp add: e1_def c1_def addOrUpdate_lookup)
  from Cons.IH [OF this] obtain c where c: "map_of (add_all e1 cs) n = Some c" "c = c1 \<or> c \<in> set cs \<and> cfg_name c = n"
    "cfg_generation c1 \<le> cfg_generation c" "\<forall>c'\<in>set cs. cfg_name c' = n \<longrightarrow> cfg_generation c' \<le> cfg_generation c"
    by blast
  have "add_all e (x # cs) = add_all e1 cs" by (simp add: add_all_def e1_def)
  with c show ?case by (intro exI [of _ c]) (auto simp: c1_def split: if_splits)
qed (simp add: add_all_def)

lemma add_all_first:
  assumes "map_of e n = None" and "\<exists>c\<in>set cs. cfg_name c = n"
  shows "\<exists>c\<in>set cs. map_of (add_all e cs) n = Some c \<and> cfg_name c = n \<and>
             (\<forall>c'\<in>set cs. cfg_name c' = n \<longrightarrow> cfg_generation c' \<le> cfg_generation c)"
  using assms
proof (induction cs arbitrary: e)
  case (Cons x cs)
  define e1 where "e1 = fst (addOrUpdate e x)"
  have step: "add_all e (x # cs) = add_all e1 cs" by (simp add: add_all_def e1_def)
  show ?case
  proof (cases "cfg_name x = n")
    case True
    then have "map_of e1 n = Some x" using Cons.prems by (simp add: e1_def addOrUpdate_lookup)
    from add_all_latest [OF this, of cs] show ?thesis using True step by auto
  next
    case False
    then have "map_of e1 n = None" using Cons.prems by (simp add: e1_def addOrUpdate_lookup)
    moreover have "\<exists>c\<in>set cs. cfg_name c = n" using Cons.prems(2) False by auto
    ultimately show ?thesis using Cons.IH [of e1] False step by auto
  qed
qed simp

section \<open>Properties\<close>


text \<open>C15: the configuration cache converges whatever the order of updates. After any sequence of
  updates the entry of a name that occurs is one of the configurations given for it with the greatest
  generation, so an update that arrives late never replaces a newer one.\<close>

theorem newest_config_wins:
  assumes "c \<in> set cs"
  shows "\<exists>newest\<in>set cs. map_of (add_all newConfigCache cs) (cfg_name c) = Some newest \<and>
           cfg_name newest = cfg_name c \<and>
           (\<forall>c'\<in>set cs. cfg_name c' = cfg_name c \<longrightarrow> cfg_generation c' \<le> cfg_generation newest)"
  using add_all_first [of newConfigCache "cfg_name c" cs] assms by (auto simp: newConfigCache_def)

text \<open>the lookup of a pod's configuration is deterministic. It does not depend on the order in which
  the Go map is iterated; it returns a configuration iff exactly one matches the pod, nothing iff none
  does, and an error otherwise.\<close>

theorem config_lookup_deterministic:
  assumes "mset entries = mset entries'"
  shows "config_find entries p = config_find entries' p \<and>
         config_find entries p =
           (case filter (\<lambda>c. matchesPod c p) (map snd entries) of
              [] \<Rightarrow> Ok None
            | [c] \<Rightarrow> Ok (Some c)
            | _ \<Rightarrow> Fail (Err ''multiple zoned pod disruption budgets found for pod''))"
  using config_find_perm [OF assms] by (simp add: config_find_matching matching_def)

text \<open>C23: a recorded eviction stays pending for two minutes. After a pod is recorded at \<open>t\<close>, any later
  sequence of evictions and informer events leaves it pending at every time before \<open>t + 2 minutes\<close>, unless
  an event shows a pod of that name out of the running phase.\<close>

theorem eviction_stays_pending:
  assumes "\<forall>s\<in>set steps. \<forall>(q, t')\<in>step_seen s. t \<le> t'"
    and "\<forall>s\<in>set steps. \<forall>(q, t')\<in>step_seen s. pod_name q \<noteq> pod_name p \<or> pod_phase q = PodRunning"
    and "now < t + 2 * minute"
  shows "hasPendingEviction (fold (cache_apply configs) steps (recordEviction cache t p)) now p"
proof -
  let ?seen = "\<Union>s\<in>set steps. step_seen s"
  let ?c = "recordEviction cache t p"
  have "ec.evolves ?seen ?c (fold (cache_apply configs) steps ?c)"
    by (rule cache_fold_evolves) (auto intro: ec.evolves_refl)
  moreover have "hasPendingEviction ?c now p" using assms(3) by (simp add: ec.pending_rec cacheExpiry_def)
  ultimately show ?thesis
    using assms by (elim ec.evolves_pending) (fastforce simp: cacheExpiry_def)+
qed

text \<open>a deletion that the informer reports without its last state is lost. client-go hands such a
  deletion to the handler as a \<^verbatim>\<open>DeletedFinalStateUnknown\<close>; the handler only counts it as ignored, so the
  configuration of a deleted resource keeps applying to its pods, and a later resource of the same name
  whose generation starts over is ignored.\<close>

theorem missed_config_deletion_is_kept:
  assumes "map_of entries (cfg_name c) = Some old" and "cfg_generation c \<le> cfg_generation old"
  shows "onPdbDeleted entries OtherObject = (entries, ''ignored'') \<and>
         addOrUpdate (fst (onPdbDeleted entries OtherObject)) c = (entries, False, cfg_generation old)"
  using assms by (simp add: onPdbDeleted_def addOrUpdate_def)

text \<open>Concrete data for the witnesses.\<close>

definition demo_cfg :: "string \<Rightarrow> int \<Rightarrow> zpdb_config" where
  "demo_cfg name generation =
     \<lparr>cfg_name = name, cfg_generation = generation, cfg_maxUnavailable = 1, cfg_maxUnavailablePercentage = 0,
      cfg_selector = [Requirement RolloutGroupLabelKey Equals [''ingester'']], cfg_podNamePartition = None,
      cfg_podNamePartitionRegexGroup = 0, cfg_crossZoneEvictionDelay = 0\<rparr>"

lemma demo_cfg_simps [simp]: "cfg_name (demo_cfg n g) = n" "cfg_generation (demo_cfg n g) = g"
  by (simp_all add: demo_cfg_def)

definition demo_pod :: "string \<Rightarrow> string \<Rightarrow> pod" where
  "demo_pod sts name =
     \<lparr>pod_name = name, pod_namespace = ''ns'', pod_uid = name, pod_generation = 1,
      pod_labels = [RolloutGroupLabelKey \<mapsto> ''ingester'', ''name'' \<mapsto> sts, ControllerRevisionHashLabelKey \<mapsto> ''r1''],
      pod_deletion_timestamp = None, pod_owners = [\<lparr>or_kind = ''StatefulSet'', or_name = sts, or_controller = Some True\<rparr>],
      pod_phase = PodRunning, pod_conditions = [], pod_init_statuses = [],
      pod_statuses = [\<lparr>cs_ready = True, cs_running = True, cs_waiting = None\<rparr>]\<rparr>"

definition demo_resource :: jval where
  "demo_resource =
     JMap [(''kind'', JStr ''ZoneAwarePodDisruptionBudget''),
           (''metadata'', JMap [(''name'', JStr ''ingester''), (''generation'', JInt 3)]),
           (''spec'', JMap [(''maxUnavailable'', JInt 1),
                            (''selector'', JMap [(''matchLabels'', JMap [(''rollout-group'', JStr ''ingester'')])])])]"

lemma demo_resource_parsed: "ParseAndValidate (\<lambda>_. Error (Err ''unused'')) demo_resource = Ok (demo_cfg ''ingester'' 3)"
  by (simp add: ParseAndValidate_def demo_resource_def NestedMap_def GetKind_def nested_string_def
      ZoneAwarePodDisruptionBudgetName_def max_unavailable_fields_def FieldMaxUnavailable_def
      FieldMaxUnavailablePercentage_def valueAsRegex_def FieldPodNamePartitionRegex_def NestedStringMap_def
      eviction_delay_field_def FieldCrossZoneEvictionDelay_def demo_cfg_def GetName_def GetGeneration_def
      SelectorFromSet_def config_keys)

text \<open>A budget with the regex group -1 is accepted.\<close>

definition demo_negative :: jval where
  "demo_negative =
     JMap [(''kind'', JStr ''ZoneAwarePodDisruptionBudget''),
           (''metadata'', JMap [(''name'', JStr ''ingester''), (''generation'', JInt 3)]),
           (''spec'', JMap [(''maxUnavailable'', JInt 1), (''podNamePartitionRegex'', JStr ''(.*)''), (''podNameRegexGroup'', JInt (- 1)),
                            (''selector'', JMap [(''matchLabels'', JMap [(''rollout-group'', JStr ''ingester'')])])])]"

definition demo_regexp :: regexp where
  "demo_regexp = \<lparr>re_NumSubexp = 1, re_FindStringSubmatch = (\<lambda>s. [s, s])\<rparr>"

lemma negative_group_is_accepted:
  "\<exists>c. ParseAndValidate (\<lambda>_. Reply demo_regexp) demo_negative = Ok c \<and> podPartition c p = Panic ''index out of range''"
  by (simp add: ParseAndValidate_def demo_negative_def NestedMap_def GetKind_def nested_string_def
      ZoneAwarePodDisruptionBudgetName_def max_unavailable_fields_def FieldMaxUnavailable_def
      FieldMaxUnavailablePercentage_def valueAsRegex_def FieldPodNamePartitionRegex_def FieldPodNameRegexGroup_def NestedStringMap_def
      eviction_delay_field_def FieldCrossZoneEvictionDelay_def GetName_def GetGeneration_def
      SelectorFromSet_def config_keys demo_regexp_def podPartition_def Let_def)


theorem newest_config_wins_witness:
  "map_of (add_all newConfigCache [demo_cfg ''a'' 2, demo_cfg ''a'' 1]) ''a'' = Some (demo_cfg ''a'' 2)"
  using newest_config_wins [of "demo_cfg ''a'' 2" "[demo_cfg ''a'' 2, demo_cfg ''a'' 1]"]
  by auto

theorem config_lookup_deterministic_witness:
  "config_find [(''a'', demo_cfg ''a'' 1), (''b'', (demo_cfg ''b'' 1)\<lparr>cfg_selector := [Requirement ''x'' Exists []]\<rparr>)]
     (demo_pod ''zone-a'' ''zone-a-0'')
   = config_find [(''b'', (demo_cfg ''b'' 1)\<lparr>cfg_selector := [Requirement ''x'' Exists []]\<rparr>), (''a'', demo_cfg ''a'' 1)]
     (demo_pod ''zone-a'' ''zone-a-0'')"
  by (rule config_lookup_deterministic [THEN conjunct1]) (simp add: add_mset_commute)

theorem eviction_stays_pending_witness:
  "hasPendingEviction (fold (cache_apply []) [PodUpdated (Object (demo_pod ''a'' ''a-0'')) 5, Evicted (demo_pod ''a'' ''a-1'') 7]
     (recordEviction newPodEvictionCache 0 (demo_pod ''a'' ''a-0''))) minute (demo_pod ''a'' ''a-0'')"
  by (rule eviction_stays_pending) (simp_all add: demo_pod_def minute_def second_def)

theorem missed_config_deletion_is_kept_witness:
  "onPdbDeleted [(''a'', demo_cfg ''a'' 4)] OtherObject = ([(''a'', demo_cfg ''a'' 4)], ''ignored'') \<and>
   addOrUpdate (fst (onPdbDeleted [(''a'', demo_cfg ''a'' 4)] OtherObject)) (demo_cfg ''a'' 1)
     = ([(''a'', demo_cfg ''a'' 4)], False, 4)"
  by (rule missed_config_deletion_is_kept [of "[(''a'', demo_cfg ''a'' 4)]" "demo_cfg ''a'' 1" "demo_cfg ''a'' 4",
      unfolded demo_cfg_simps]) simp_all

end
