(* ===== verification/ZpdbValidators.thy ===== *)
theory ZpdbValidators
  imports ZpdbCaches
begin

text \<open>
  The validators of an eviction (\<^verbatim>\<open>validator.go\<close>, \<^verbatim>\<open>validator_zone_aware.go\<close>,
  \<^verbatim>\<open>validator_partition_aware.go\<close>) and the pod tally they are fed with
  (\<^verbatim>\<open>pod_eviction_k8s_clients.go\<close>). The Go interface \<^verbatim>\<open>validator\<close> is a record of operations over the state
  of an implementation; its contract is the locale \<open>pdb_validator\<close>, interpreted on both implementations.

  Every clock reading is an event of the trace. The eviction cache does not change while one request
  is assessed.
\<close>

section \<open>The interface\<close>

record zone_status =
  zs_tested :: int
  zs_notReady :: int
  zs_unknown :: int

definition plural :: "string \<Rightarrow> int \<Rightarrow> string" where
  "plural s v = (if 1 < v then s @ ''s'' else s)"

definition pdbMessage :: "zone_status \<Rightarrow> string \<Rightarrow> string" where
  "pdbMessage r scope =
     (if 0 < zs_notReady r
      then Itoa (zs_notReady r) @ '' '' @ plural ''pod'' (zs_notReady r) @ '' not ready''
           @ (if 0 < zs_unknown r then '', '' else '''')
      else '''')
     @ (if 0 < zs_unknown r then Itoa (zs_unknown r) @ '' '' @ plural ''pod'' (zs_unknown r) @ '' unknown'' else '''')
     @ (if scope \<noteq> '''' then '' in '' @ scope else '''')"

record 'v validator_ops =
  vo_considerSts :: "'v \<Rightarrow> statefulset \<Rightarrow> bool"
  vo_considerPod :: "'v \<Rightarrow> pod \<Rightarrow> bool res"
  vo_accumulateResult :: "'v \<Rightarrow> statefulset \<Rightarrow> zone_status \<Rightarrow> 'v \<times> err option"
  vo_validate :: "'v \<Rightarrow> int \<Rightarrow> err option res"
  vo_isReady :: "env \<Rightarrow> evict_cache \<Rightarrow> trace \<Rightarrow> 'v \<Rightarrow> pod \<Rightarrow> bool \<times> trace"
  vo_successMessage :: "'v \<Rightarrow> string"

text \<open>\<^verbatim>\<open>hasPendingEviction\<close> reads the clock only when the pod has an entry.\<close>

definition pending_now :: "env \<Rightarrow> evict_cache \<Rightarrow> trace \<Rightarrow> pod \<Rightarrow> bool \<times> trace" where
  "pending_now E cache tr p =
     (case cache (pod_name p) of
        None \<Rightarrow> (False, tr)
      | Some _ \<Rightarrow> (hasPendingEviction cache (e_now E tr) p, tr @ [EvNow]))"

section \<open>The zone-aware validator\<close>

record validatorZoneAware =
  za_sts :: statefulset
  za_result :: "zone_status option"
  za_zones :: nat

definition newValidatorZoneAware :: "statefulset \<Rightarrow> nat \<Rightarrow> validatorZoneAware" where
  "newValidatorZoneAware sts zones = \<lparr>za_sts = sts, za_result = None, za_zones = zones\<rparr>"

definition zone_accumulateResult ::
    "validatorZoneAware \<Rightarrow> statefulset \<Rightarrow> zone_status \<Rightarrow> validatorZoneAware \<times> err option" where
  "zone_accumulateResult v otherSts r =
     (if sts_uid otherSts = sts_uid (za_sts v) then (v\<lparr>za_result := Some r\<rparr>, None)
      else if 0 < zs_notReady r + zs_unknown r then (v, Some (Err (pdbMessage r (sts_name otherSts))))
      else (v, None))"

text \<open>A nil \<^verbatim>\<open>result\<close> is dereferenced.\<close>

definition zone_validate :: "validatorZoneAware \<Rightarrow> int \<Rightarrow> err option res" where
  "zone_validate v maxUnavailable =
     (case za_result v of
        None \<Rightarrow> Panic ''nil pointer dereference''
      | Some r \<Rightarrow> if maxUnavailable \<le> zs_notReady r + zs_unknown r
                  then Ok (Some (Err (pdbMessage r (sts_name (za_sts v)))))
                  else Ok None)"

definition zone_isReady :: "env \<Rightarrow> evict_cache \<Rightarrow> trace \<Rightarrow> validatorZoneAware \<Rightarrow> pod \<Rightarrow> bool \<times> trace" where
  "zone_isReady E cache tr v p =
     (case pending_now E cache tr p of (pend, tr1) \<Rightarrow> (\<not> pend \<and> IsPodRunningAndReady p, tr1))"

definition zone_ops :: "validatorZoneAware validator_ops" where
  "zone_ops =
     \<lparr>vo_considerSts = (\<lambda>v s. True), vo_considerPod = (\<lambda>v p. Ok True),
      vo_accumulateResult = zone_accumulateResult, vo_validate = zone_validate, vo_isReady = zone_isReady,
      vo_successMessage = (\<lambda>v. ''zpdb met across '' @ Itoa (int (za_zones v)) @ '' zones'')\<rparr>"

section \<open>The partition-aware validator\<close>

record validatorPartitionAware =
  pa_sts :: statefulset
  pa_result :: zone_status
  pa_partition :: string
  pa_zones :: nat
  pa_pdbConfig :: zpdb_config

definition newValidatorPartitionAware ::
    "statefulset \<Rightarrow> string \<Rightarrow> nat \<Rightarrow> zpdb_config \<Rightarrow> validatorPartitionAware" where
  "newValidatorPartitionAware sts part zones cfg =
     \<lparr>pa_sts = sts, pa_result = \<lparr>zs_tested = 0, zs_notReady = 0, zs_unknown = 0\<rparr>, pa_partition = part,
      pa_zones = zones, pa_pdbConfig = cfg\<rparr>"

text \<open>The matcher: on a failed extraction \<^verbatim>\<open>thisPartition\<close> is the empty string.\<close>

definition partition_matcher :: "validatorPartitionAware \<Rightarrow> pod \<Rightarrow> bool res" where
  "partition_matcher v pd =
     (case podPartition (pa_pdbConfig v) pd of
        Ok thisPartition \<Rightarrow> Ok (thisPartition = pa_partition v)
      | Fail e \<Rightarrow> Ok ('''' = pa_partition v)
      | Panic m \<Rightarrow> Panic m)"

definition partition_considerSts :: "validatorPartitionAware \<Rightarrow> statefulset \<Rightarrow> bool" where
  "partition_considerSts v otherSts \<longleftrightarrow> sts_uid otherSts \<noteq> sts_uid (pa_sts v)"

definition partition_accumulateResult ::
    "validatorPartitionAware \<Rightarrow> statefulset \<Rightarrow> zone_status \<Rightarrow> validatorPartitionAware \<times> err option" where
  "partition_accumulateResult v sts r =
     (let acc = pa_result v;
          none = zs_tested r = 0 \<and> zs_notReady r = 0 \<and> zs_unknown r = 0
      in (v\<lparr>pa_result := \<lparr>zs_tested = zs_tested acc + zs_tested r, zs_notReady = zs_notReady acc + zs_notReady r,
                         zs_unknown = zs_unknown acc + zs_unknown r + (if none then 1 else 0)\<rparr>\<rparr>, None))"

definition partition_validate :: "validatorPartitionAware \<Rightarrow> int \<Rightarrow> err option res" where
  "partition_validate v maxUnavailable =
     (if maxUnavailable \<le> zs_notReady (pa_result v) + zs_unknown (pa_result v)
      then Ok (Some (Err (pdbMessage (pa_result v) (''partition '' @ pa_partition v))))
      else Ok None)"

definition PodReady :: string where "PodReady = ''Ready''"
definition ConditionTrue :: string where "ConditionTrue = ''True''"

text \<open>The zero \<^verbatim>\<open>LastTransitionTime\<close> is the instant 0.\<close>

definition podReadyTransitionTime :: "pod \<Rightarrow> instant \<times> string \<times> bool" where
  "podReadyTransitionTime p =
     (case find (\<lambda>c. cond_type c = PodReady) (pod_conditions p) of
        None \<Rightarrow> (0, '''', False)
      | Some c \<Rightarrow> (cond_last_transition c, cond_status c, cond_status c = ConditionTrue \<and> cond_last_transition c \<noteq> 0))"

definition partition_isReady :: "env \<Rightarrow> evict_cache \<Rightarrow> trace \<Rightarrow> validatorPartitionAware \<Rightarrow> pod \<Rightarrow> bool \<times> trace" where
  "partition_isReady E cache tr v p =
     (case pending_now E cache tr p of
        (pend, tr1) \<Rightarrow>
          if pend \<or> \<not> IsPodRunningAndReady p then (False, tr1)
          else if cfg_crossZoneEvictionDelay (pa_pdbConfig v) = 0 then (True, tr1)
          else (case podReadyTransitionTime p of
                  (since, status, found) \<Rightarrow>
                    (found \<and> since + cfg_crossZoneEvictionDelay (pa_pdbConfig v) < e_now E tr1, tr1 @ [EvNow])))"

definition partition_ops :: "validatorPartitionAware validator_ops" where
  "partition_ops =
     \<lparr>vo_considerSts = partition_considerSts, vo_considerPod = partition_matcher,
      vo_accumulateResult = partition_accumulateResult, vo_validate = partition_validate,
      vo_isReady = partition_isReady,
      vo_successMessage = (\<lambda>v. ''zpdb met for partition '' @ pa_partition v @ '' across '' @ Itoa (int (pa_zones v)) @ '' zones'')\<rparr>"

section \<open>The pod tally of one StatefulSet\<close>

fun tally :: "'v validator_ops \<Rightarrow> env \<Rightarrow> evict_cache \<Rightarrow> trace \<Rightarrow> 'v \<Rightarrow> pod \<Rightarrow> zone_status \<Rightarrow> pod list
    \<Rightarrow> zone_status res \<times> trace" where
  "tally ops E cache tr v p result [] = (Ok result, tr)"
| "tally ops E cache tr v p result (pd # pds) =
     (case vo_considerPod ops v pd of
        Fail e \<Rightarrow> (Fail e, tr)
      | Panic m \<Rightarrow> (Panic m, tr)
      | Ok False \<Rightarrow> tally ops E cache tr v p result pds
      | Ok True \<Rightarrow>
          if pod_uid p = pod_uid pd
          then tally ops E cache tr v p (result\<lparr>zs_tested := zs_tested result + 1\<rparr>) pds
          else (case vo_isReady ops E cache tr v pd of
                  (ready, tr1) \<Rightarrow>
                    tally ops E cache tr1 v p
                      (result\<lparr>zs_notReady := zs_notReady result + (if ready then 0 else 1),
                              zs_tested := zs_tested result + 1\<rparr>) pds))"

definition zpdb_replicas :: "statefulset \<Rightarrow> int" where
  "zpdb_replicas sts =
     (case sts_replicas sts of
        None \<Rightarrow> sts_status_replicas sts
      | Some n \<Rightarrow> max (sts_status_replicas sts) n)"

text \<open>The API server applies the label selector to the pods of the namespace.\<close>

definition podsNotRunningAndReady ::
    "'v validator_ops \<Rightarrow> env \<Rightarrow> evict_cache \<Rightarrow> trace \<Rightarrow> statefulset \<Rightarrow> pod \<Rightarrow> 'v \<Rightarrow> zone_status res \<times> trace" where
  "podsNotRunningAndReady ops E cache tr sts p v =
     (case MustNewLabelsRequirement ''name'' Equals [mget (sts_template_labels sts) ''name''] of
        Fail e \<Rightarrow> (Fail e, tr)
      | Panic m \<Rightarrow> (Panic m, tr)
      | Ok req \<Rightarrow>
          (let tr1 = tr @ [EvListPodsAPI (sts_namespace sts)] in
           case e_list_pods E tr (sts_namespace sts) of
             Error e \<Rightarrow> (Fail e, tr1)
           | Reply pods \<Rightarrow>
               (let items = filter (\<lambda>pd. sel_matches [req] (pod_labels pd)) pods in
                case tally ops E cache tr1 v p \<lparr>zs_tested = 0, zs_notReady = 0, zs_unknown = 0\<rparr> items of
                  (Ok result, tr2) \<Rightarrow>
                    (Ok (if int (length items) < zpdb_replicas sts
                         then result\<lparr>zs_unknown := zpdb_replicas sts - int (length items)\<rparr>
                         else result), tr2)
                | (Fail e, tr2) \<Rightarrow> (Fail e, tr2)
                | (Panic m, tr2) \<Rightarrow> (Panic m, tr2))))"

text \<open>
  The loop of \<^verbatim>\<open>HandlePodEvictionRequest\<close> over the StatefulSets, and the final validation: a denial
  carries the metric label, the message and the HTTP status.
\<close>

datatype 'v verdict = Accepted 'v | Denied string string int

fun assess :: "'v validator_ops \<Rightarrow> env \<Rightarrow> evict_cache \<Rightarrow> trace \<Rightarrow> pod \<Rightarrow> 'v \<Rightarrow> statefulset list
    \<Rightarrow> 'v verdict res \<times> trace" where
  "assess ops E cache tr p v [] = (Ok (Accepted v), tr)"
| "assess ops E cache tr p v (otherSts # items) =
     (if \<not> vo_considerSts ops v otherSts then assess ops E cache tr p v items
      else
        (case podsNotRunningAndReady ops E cache tr otherSts p v of
           (Panic m, tr1) \<Rightarrow> (Panic m, tr1)
         | (Fail e, tr1) \<Rightarrow>
             (Ok (Denied ''err: sts-pod-status-not-determined'' ''unable to determine pod status in related StatefulSet'' 500), tr1)
         | (Ok result, tr1) \<Rightarrow>
             (case vo_accumulateResult ops v otherSts result of
                (v1, Some e) \<Rightarrow> (Ok (Denied ''denied'' (errmsg e) 429), tr1)
              | (v1, None) \<Rightarrow> assess ops E cache tr1 p v1 items)))"

definition run_validator :: "'v validator_ops \<Rightarrow> env \<Rightarrow> evict_cache \<Rightarrow> trace \<Rightarrow> pod \<Rightarrow> 'v \<Rightarrow> statefulset list \<Rightarrow> int
    \<Rightarrow> 'v verdict res \<times> trace" where
  "run_validator ops E cache tr p v items maxUnavailable =
     (case assess ops E cache tr p v items of
        (Ok (Accepted v1), tr1) \<Rightarrow>
          (case vo_validate ops v1 maxUnavailable of
             Ok None \<Rightarrow> (Ok (Accepted v1), tr1)
           | Ok (Some e) \<Rightarrow> (Ok (Denied ''denied'' (errmsg e) 429), tr1)
           | Fail e \<Rightarrow> (Fail e, tr1)
           | Panic m \<Rightarrow> (Panic m, tr1))
      | (Ok (Denied l m c), tr1) \<Rightarrow> (Ok (Denied l m c), tr1)
      | (Fail e, tr1) \<Rightarrow> (Fail e, tr1)
      | (Panic m, tr1) \<Rightarrow> (Panic m, tr1))"

section \<open>What the validators must guarantee\<close>

text \<open>
  A pod other than the evicted one that disrupts its zone between the points \<open>tr\<close> and \<open>tr'\<close> of the trace: it is considered, and
  it is not running and ready, or it has a pending eviction, or it is not settled yet, at every clock
  reading between the two.
\<close>

definition disrupted :: "env \<Rightarrow> evict_cache \<Rightarrow> (pod \<Rightarrow> bool) \<Rightarrow> (instant \<Rightarrow> pod \<Rightarrow> bool) \<Rightarrow> trace \<Rightarrow> trace \<Rightarrow> pod \<Rightarrow> pod \<Rightarrow> bool" where
  "disrupted E cache considered unsettled tr tr' p pd \<longleftrightarrow>
     considered pd \<and> pod_uid p \<noteq> pod_uid pd \<and>
     (\<not> IsPodRunningAndReady pd \<or>
      (\<forall>t. extends tr t \<and> extends t tr' \<longrightarrow> hasPendingEviction cache (e_now E t) pd) \<or>
      (\<forall>t. extends tr t \<and> extends t tr' \<longrightarrow> unsettled (e_now E t) pd))"

definition sts_pods :: "statefulset \<Rightarrow> pod list \<Rightarrow> pod list" where
  "sts_pods s pods =
     filter (\<lambda>pd. sel_matches [Requirement ''name'' Equals [mget (sts_template_labels s) ''name'']] (pod_labels pd)) pods"

text \<open>
  The disruption of a StatefulSet is at most \<open>d\<close>: the API server answered a listing of its pods made between \<open>tr\<close> and
  \<open>tr'\<close>, and in that answer its disrupted pods and the pods it should have but that the answer does not show are
  together at most \<open>d\<close>.
\<close>

definition disruption_within :: "env \<Rightarrow> evict_cache \<Rightarrow> (pod \<Rightarrow> bool) \<Rightarrow> (instant \<Rightarrow> pod \<Rightarrow> bool) \<Rightarrow> pod \<Rightarrow> trace \<Rightarrow> trace
    \<Rightarrow> statefulset \<Rightarrow> int \<Rightarrow> bool" where
  "disruption_within E cache considered unsettled p tr tr' s d \<longleftrightarrow>
     (\<exists>trs pods. extends tr trs \<and> extends (trs @ [EvListPodsAPI (sts_namespace s)]) tr' \<and>
        e_list_pods E trs (sts_namespace s) = Reply pods \<and>
        int (length (filter (disrupted E cache considered unsettled trs tr' p) (sts_pods s pods)))
          + max 0 (zpdb_replicas s - int (length (sts_pods s pods))) \<le> d)"

lemma disrupted_mono:
  "disrupted E cache cons uns tr tr' p pd \<Longrightarrow> extends tr t \<Longrightarrow> extends t' tr' \<Longrightarrow> disrupted E cache cons uns t t' p pd"
  unfolding disrupted_def using extends_trans by blast

lemma length_filter_mono:
  "\<forall>x\<in>set xs. P x \<longrightarrow> Q x \<Longrightarrow> length (filter P xs) \<le> length (filter Q xs)"
  by (induction xs) auto

lemma disruption_within_mono:
  assumes "disruption_within E cache cons uns p t t' s d" and "extends tr t" and "extends t' tr'" and "d \<le> d'"
  shows "disruption_within E cache cons uns p tr tr' s d'"
proof -
  from assms(1) obtain trs pods where w: "extends t trs" "extends (trs @ [EvListPodsAPI (sts_namespace s)]) t'"
      "e_list_pods E trs (sts_namespace s) = Reply pods"
    and le: "int (length (filter (disrupted E cache cons uns trs t' p) (sts_pods s pods)))
          + max 0 (zpdb_replicas s - int (length (sts_pods s pods))) \<le> d"
    unfolding disruption_within_def by blast
  have "length (filter (disrupted E cache cons uns trs tr' p) (sts_pods s pods))
      \<le> length (filter (disrupted E cache cons uns trs t' p) (sts_pods s pods))"
    by (rule length_filter_mono) (blast intro: disrupted_mono [OF _ extends_refl assms(3)])
  with le assms(4) have "int (length (filter (disrupted E cache cons uns trs tr' p) (sts_pods s pods)))
          + max 0 (zpdb_replicas s - int (length (sts_pods s pods))) \<le> d'" by linarith
  then show ?thesis unfolding disruption_within_def
    using w extends_trans [OF assms(2) w(1)] extends_trans [OF w(2) assms(3)] by blast
qed

lemma MustNewLabelsRequirement_Ok:
  "MustNewLabelsRequirement k oper vs = Ok req \<Longrightarrow> req = Requirement k oper vs"
  by (auto simp: MustNewLabelsRequirement_def NewRequirement_def split: res.splits if_splits)

lemma pending_now_sound:
  "pending_now E cache tr p = (False, tr') \<Longrightarrow> \<not> hasPendingEviction cache (e_now E tr) p"
  by (auto simp: pending_now_def hasPendingEviction_def hasPendingEvictionWithGeneration_def split: option.splits)

lemma pending_now_quiet: "pending_now E cache tr p = (b, tr') \<Longrightarrow> quiet tr tr'"
  by (auto simp: pending_now_def split: option.splits)

text \<open>
  The contract of a validator. \<open>counted v seen t\<close>: the sets with the UIDs \<open>seen\<close> have been accumulated and
  their total disruption is at most what the validator has counted as \<open>t\<close>; \<open>tolerated v s d\<close>: a disruption
  \<open>d\<close> of \<open>s\<close> does not end the assessment at once; \<open>unsettled v now pd\<close>: a ready pod does not count as ready at \<open>now\<close>.
\<close>

locale pdb_validator =
  fixes ops :: "'v validator_ops"
    and counted :: "'v \<Rightarrow> string set \<Rightarrow> int \<Rightarrow> bool"
    and tolerated :: "'v \<Rightarrow> statefulset \<Rightarrow> int \<Rightarrow> bool"
    and unsettled :: "'v \<Rightarrow> instant \<Rightarrow> pod \<Rightarrow> bool"
  assumes ready_sound: "vo_isReady ops E cache tr v p = (True, tr') \<Longrightarrow>
      IsPodRunningAndReady p \<and> \<not> hasPendingEviction cache (e_now E tr) p \<and>
      (\<exists>t. extends tr t \<and> extends t tr' \<and> \<not> unsettled v (e_now E t) p)"
    and ready_quiet: "vo_isReady ops E cache tr v p = (b, tr') \<Longrightarrow> quiet tr tr'"
    and accumulate_counted: "counted v seen t \<Longrightarrow> sts_uid s \<notin> seen \<Longrightarrow> 0 \<le> zs_notReady r \<Longrightarrow> 0 \<le> zs_unknown r \<Longrightarrow>
      vo_accumulateResult ops v s r = (v', None) \<Longrightarrow>
      counted v' (insert (sts_uid s) seen) (t + (zs_notReady r + zs_unknown r))"
    and accumulate_tolerated: "vo_accumulateResult ops v s r = (v', None) \<Longrightarrow> tolerated v s (zs_notReady r + zs_unknown r)"
    and accumulate_frame: "vo_accumulateResult ops v s r = (v', e) \<Longrightarrow>
      vo_considerSts ops v' = vo_considerSts ops v \<and> vo_considerPod ops v' = vo_considerPod ops v \<and>
      tolerated v' = tolerated v \<and> unsettled v' = unsettled v"
    and validate_counted: "counted v seen t \<Longrightarrow> vo_validate ops v m = Ok None \<Longrightarrow> t < m"
begin

abbreviation considered :: "'v \<Rightarrow> pod \<Rightarrow> bool" where
  "considered v pd \<equiv> vo_considerPod ops v pd = Ok True"

lemmas ready_extends = ready_quiet [THEN quiet_extends]

lemma tally_disrupted:
  "tally ops E cache tr v p r0 pds = (Ok r, tr') \<Longrightarrow> extends t0 tr \<Longrightarrow> extends tr' t1 \<Longrightarrow>
     zs_notReady r0 + int (length (filter (disrupted E cache (considered v) (unsettled v) t0 t1 p) pds)) \<le> zs_notReady r \<and>
     zs_unknown r = zs_unknown r0 \<and> extends tr tr'"
proof (induction pds arbitrary: tr r0)
  case (Cons pd pds)
  let ?bad = "disrupted E cache (considered v) (unsettled v) t0 t1 p"
  show ?case
  proof (cases "considered v pd \<and> pod_uid p \<noteq> pod_uid pd")
    case True
    obtain b tr1 where rd: "vo_isReady ops E cache tr v pd = (b, tr1)" by fastforce
    note e1 = ready_extends [OF rd]
    let ?r1 = "r0\<lparr>zs_notReady := zs_notReady r0 + (if b then 0 else 1), zs_tested := zs_tested r0 + 1\<rparr>"
    have "tally ops E cache tr1 v p ?r1 pds = (Ok r, tr')" using Cons.prems(1) True rd by simp
    from Cons.IH [OF this extends_trans [OF Cons.prems(2) e1] Cons.prems(3)]
    have IH: "zs_notReady r0 + (if b then 0 else 1) + int (length (filter ?bad pds)) \<le> zs_notReady r"
        "zs_unknown r = zs_unknown r0" "extends tr1 tr'" by simp_all
    have "\<not> ?bad pd" if b
    proof -
      from ready_sound [of E cache tr v pd tr1] rd that obtain t where ok: "IsPodRunningAndReady pd"
        "\<not> hasPendingEviction cache (e_now E tr) pd" "extends tr t" "extends t tr1" "\<not> unsettled v (e_now E t) pd" by auto
      have "extends tr1 t1" using IH(3) Cons.prems(3) by (rule extends_trans)
      then have "extends tr t1" "extends t t1" using e1 ok(4) extends_trans by blast+
      moreover have "extends t0 t" using Cons.prems(2) ok(3) by (rule extends_trans)
      ultimately show ?thesis using ok Cons.prems(2) unfolding disrupted_def by blast
    qed
    then show ?thesis using IH extends_trans [OF e1] by (cases b) auto
  next
    case False
    then have "\<not> ?bad pd" by (auto simp: disrupted_def)
    with Cons False show ?thesis by (fastforce split: res.splits bool.splits if_splits)
  qed
qed simp

lemma tally_quiet: "tally ops E cache tr v p r0 pds = (r, tr') \<Longrightarrow> quiet tr tr'"
proof (induction pds arbitrary: tr r0)
  case (Cons pd pds)
  obtain b tr1 where rd: "vo_isReady ops E cache tr v pd = (b, tr1)" by fastforce
  from Cons.prems rd consider "tr' = tr" | r1 where "tally ops E cache tr v p r1 pds = (r, tr')"
    | r1 where "tally ops E cache tr1 v p r1 pds = (r, tr')"
    by (auto split: res.splits bool.splits if_splits)
  then show ?case using Cons.IH ready_quiet [OF rd] quiet_trans by cases (simp, blast+)
qed simp

lemma pods_quiet:
  assumes "podsNotRunningAndReady ops E cache tr s p v = (r, tr')"
  shows "quiet tr tr'"
proof -
  let ?tr1 = "tr @ [EvListPodsAPI (sts_namespace s)]"
  from assms consider "tr' = tr" | "tr' = ?tr1" | r0 pds q where "tally ops E cache ?tr1 v p r0 pds = (q, tr')"
    by (auto simp: podsNotRunningAndReady_def Let_def split: res.splits reply.splits prod.splits)
  then show ?thesis
  proof cases
    case (3 r0 pds q)
    have "quiet tr ?tr1" by simp
    with tally_quiet [OF 3] show ?thesis using quiet_trans by blast
  qed simp_all
qed

lemmas pods_extends = pods_quiet [THEN quiet_extends]

lemma podsNotRunningAndReady_disruption:
  assumes "podsNotRunningAndReady ops E cache tr s p v = (Ok r, tr')"
  shows "disruption_within E cache (considered v) (unsettled v) p tr tr' s (zs_notReady r + zs_unknown r)"
    and "0 \<le> zs_notReady r" and "0 \<le> zs_unknown r" and "extends tr tr'"
proof -
  let ?items = "\<lambda>pods. sts_pods s pods" and ?tr1 = "tr @ [EvListPodsAPI (sts_namespace s)]"
  from assms obtain pods r1 where list: "e_list_pods E tr (sts_namespace s) = Reply pods"
    and t: "tally ops E cache ?tr1 v p \<lparr>zs_tested = 0, zs_notReady = 0, zs_unknown = 0\<rparr> (?items pods) = (Ok r1, tr')"
    and r: "r = (if int (length (?items pods)) < zpdb_replicas s
                 then r1\<lparr>zs_unknown := zpdb_replicas s - int (length (?items pods))\<rparr> else r1)"
    by (auto simp: podsNotRunningAndReady_def sts_pods_def Let_def split: res.splits reply.splits prod.splits
        dest!: MustNewLabelsRequirement_Ok)
  have "extends tr ?tr1" by simp
  note sp = tally_disrupted [OF t this extends_refl]
  show "0 \<le> zs_notReady r" and "0 \<le> zs_unknown r" using sp r by auto
  have "int (length (filter (disrupted E cache (considered v) (unsettled v) tr tr' p) (?items pods)))
      + max 0 (zpdb_replicas s - int (length (?items pods))) \<le> zs_notReady r + zs_unknown r"
    using sp r by auto
  with list sp show "disruption_within E cache (considered v) (unsettled v) p tr tr' s (zs_notReady r + zs_unknown r)"
    unfolding disruption_within_def using extends_refl by blast
  show "extends tr tr'" using sp extends_append extends_trans by blast
qed

lemma assess_quiet: "assess ops E cache tr p v items = (r, tr') \<Longrightarrow> quiet tr tr'"
proof (induction items arbitrary: tr v)
  case (Cons s items)
  obtain q tr1 where pn: "podsNotRunningAndReady ops E cache tr s p v = (q, tr1)" by fastforce
  have ext: "quiet tr tr1" using pn by (rule pods_quiet)
  from Cons.prems pn consider "assess ops E cache tr p v items = (r, tr')" | "tr' = tr1"
    | v1 where "assess ops E cache tr1 p v1 items = (r, tr')"
    by (auto split: if_splits res.splits prod.splits option.splits)
  then show ?case using Cons.IH ext quiet_trans by cases blast+
qed simp

lemmas assess_extends = assess_quiet [THEN quiet_extends]

lemma assess_accepted:
  assumes "assess ops E cache tr p v items = (Ok (Accepted v'), tr')" and "counted v seen t"
    and "distinct (map sts_uid items)" and "seen \<inter> sts_uid ` set items = {}"
  shows "\<exists>ds seen'. list_all2 (\<lambda>s d. 0 \<le> d \<and> tolerated v s d \<and>
             disruption_within E cache (considered v) (unsettled v) p tr tr' s d)
           (filter (vo_considerSts ops v) items) ds \<and> counted v' seen' (t + sum_list ds)"
  using assms
proof (induction items arbitrary: tr v seen t)
  case Nil
  then show ?case by auto
next
  case (Cons s items)
  show ?case
  proof (cases "vo_considerSts ops v s")
    case False
    with Cons show ?thesis by auto
  next
    case True
    obtain q tr1 where pn: "podsNotRunningAndReady ops E cache tr s p v = (q, tr1)" by fastforce
    with Cons.prems(1) True obtain r where q: "q = Ok r" by (cases q) auto
    obtain v1 e where acc: "vo_accumulateResult ops v s r = (v1, e)" by fastforce
    with Cons.prems(1) True pn q have e: "e = None"
      and rest: "assess ops E cache tr1 p v1 items = (Ok (Accepted v'), tr')"
      by (cases e; simp)+
    note d = podsNotRunningAndReady_disruption [OF pn [unfolded q]]
    note frame = accumulate_frame [OF acc]
    have c1: "counted v1 (insert (sts_uid s) seen) (t + (zs_notReady r + zs_unknown r))"
      using Cons.prems(2,4) d acc e by (intro accumulate_counted) auto
    have "insert (sts_uid s) seen \<inter> sts_uid ` set items = {}" and "distinct (map sts_uid items)"
      using Cons.prems(3,4) by auto
    from Cons.IH [OF rest c1 this(2) this(1)] obtain ds seen' where
        ds: "list_all2 (\<lambda>s d. 0 \<le> d \<and> tolerated v s d \<and>
             disruption_within E cache (considered v) (unsettled v) p tr1 tr' s d)
           (filter (vo_considerSts ops v) items) ds"
      and c': "counted v' seen' (t + (zs_notReady r + zs_unknown r) + sum_list ds)"
      using frame by auto
    have "list_all2 (\<lambda>s d. 0 \<le> d \<and> tolerated v s d \<and>
             disruption_within E cache (considered v) (unsettled v) p tr tr' s d)
           (filter (vo_considerSts ops v) items) ds"
      using ds by (rule list_all2_mono) (blast intro: disruption_within_mono [OF _ d(4) extends_refl order_refl])
    moreover have "tolerated v s (zs_notReady r + zs_unknown r)" using acc e by (simp add: accumulate_tolerated)
    moreover have "disruption_within E cache (considered v) (unsettled v) p tr tr' s (zs_notReady r + zs_unknown r)"
      using disruption_within_mono [OF d(1) extends_refl assess_extends [OF rest] order_refl] .
    ultimately show ?thesis
      using True c' d(2,3)
      by (intro exI [of _ "(zs_notReady r + zs_unknown r) # ds"] exI [of _ seen']) (simp add: add.assoc)
  qed
qed

lemma run_validator_quiet: "run_validator ops E cache tr p v items m = (r, tr') \<Longrightarrow> quiet tr tr'"
  by (auto simp: run_validator_def dest!: assess_quiet split: prod.splits res.splits verdict.splits option.splits)

lemma run_validator_accepted:
  assumes "run_validator ops E cache tr p v items m = (Ok (Accepted v'), tr')" and "counted v {} 0"
    and "distinct (map sts_uid items)"
  shows "\<exists>ds. list_all2 (\<lambda>s d. 0 \<le> d \<and> tolerated v s d \<and>
             disruption_within E cache (considered v) (unsettled v) p tr tr' s d)
           (filter (vo_considerSts ops v) items) ds \<and> sum_list ds < m"
proof -
  from assms(1) have a: "assess ops E cache tr p v items = (Ok (Accepted v'), tr')"
    and val: "vo_validate ops v' m = Ok None"
    by (auto simp: run_validator_def split: prod.splits res.splits verdict.splits option.splits)
  from assess_accepted [OF a assms(2,3)] validate_counted [OF _ val] show ?thesis by fastforce
qed

end

text \<open>Zone mode: other zones must be undisrupted, and what is counted is the pod's own zone.\<close>

definition zone_counted :: "validatorZoneAware \<Rightarrow> string set \<Rightarrow> int \<Rightarrow> bool" where
  "zone_counted v seen t \<longleftrightarrow>
     (sts_uid (za_sts v) \<notin> seen \<longrightarrow> t = 0) \<and>
     (\<forall>r. za_result v = Some r \<longrightarrow> t \<le> zs_notReady r + zs_unknown r)"

definition zone_tolerated :: "validatorZoneAware \<Rightarrow> statefulset \<Rightarrow> int \<Rightarrow> bool" where
  "zone_tolerated v s d \<longleftrightarrow> sts_uid s = sts_uid (za_sts v) \<or> d \<le> 0"

interpretation zone: pdb_validator zone_ops zone_counted zone_tolerated "\<lambda>v now pd. False"
proof unfold_locales
  fix E cache tr v p tr'
  assume "vo_isReady zone_ops E cache tr v p = (True, tr')"
  then have p: "pending_now E cache tr p = (False, tr')" and "IsPodRunningAndReady p"
    by (auto simp: zone_ops_def zone_isReady_def split: prod.splits)
  then show "IsPodRunningAndReady p \<and> \<not> hasPendingEviction cache (e_now E tr) p \<and> (\<exists>t. extends tr t \<and> extends t tr' \<and> \<not> False)"
    using pending_now_sound [OF p] quiet_extends [OF pending_now_quiet [OF p]] extends_refl by blast
next
  fix E cache tr v p b tr'
  assume "vo_isReady zone_ops E cache tr v p = (b, tr')"
  then show "quiet tr tr'"
    using pending_now_quiet [of E cache tr p] by (auto simp: zone_ops_def zone_isReady_def split: prod.splits)
next
  fix v seen t s r v'
  assume "zone_counted v seen t" and "sts_uid s \<notin> seen" and "0 \<le> zs_notReady r" and "0 \<le> zs_unknown r"
    and "vo_accumulateResult zone_ops v s r = (v', None)"
  then show "zone_counted v' (insert (sts_uid s) seen) (t + (zs_notReady r + zs_unknown r))"
    by (auto simp: zone_ops_def zone_accumulateResult_def zone_counted_def split: if_splits)
next
  fix v s r v'
  assume "vo_accumulateResult zone_ops v s r = (v', None)"
  then show "zone_tolerated v s (zs_notReady r + zs_unknown r)"
    by (auto simp: zone_ops_def zone_accumulateResult_def zone_tolerated_def split: if_splits)
next
  fix v s r v' e
  assume "vo_accumulateResult zone_ops v s r = (v', e)"
  then show "vo_considerSts zone_ops v' = vo_considerSts zone_ops v \<and>
      vo_considerPod zone_ops v' = vo_considerPod zone_ops v \<and> zone_tolerated v' = zone_tolerated v \<and>
      (\<lambda>(now :: instant) (pd :: pod). False) = (\<lambda>now pd. False)"
    by (auto simp: zone_ops_def zone_accumulateResult_def zone_tolerated_def fun_eq_iff split: if_splits)
next
  fix v seen t m
  assume "zone_counted v seen t" and "vo_validate zone_ops v m = Ok None"
  then show "t < m" by (auto simp: zone_ops_def zone_validate_def zone_counted_def split: option.splits if_splits)
qed

text \<open>Partition mode: the disruption of all considered zones adds up.\<close>

definition partition_counted :: "validatorPartitionAware \<Rightarrow> string set \<Rightarrow> int \<Rightarrow> bool" where
  "partition_counted v seen t \<longleftrightarrow> t \<le> zs_notReady (pa_result v) + zs_unknown (pa_result v)"

text \<open>With a cross-zone eviction delay, a pod counts as ready only when it has been ready for longer than the delay.\<close>

definition recently_ready :: "zpdb_config \<Rightarrow> instant \<Rightarrow> pod \<Rightarrow> bool" where
  "recently_ready cfg now pd \<longleftrightarrow>
     cfg_crossZoneEvictionDelay cfg \<noteq> 0 \<and>
     \<not> (case podReadyTransitionTime pd of (since, status, found) \<Rightarrow> found \<and> since + cfg_crossZoneEvictionDelay cfg < now)"

interpretation parti: pdb_validator partition_ops partition_counted "\<lambda>v s d. True" "\<lambda>v. recently_ready (pa_pdbConfig v)"
proof unfold_locales
  fix E cache tr v p tr'
  assume "vo_isReady partition_ops E cache tr v p = (True, tr')"
  then obtain t1 where pn: "pending_now E cache tr p = (False, t1)" and ready: "IsPodRunningAndReady p"
    and t1: "extends t1 tr'" "\<not> recently_ready (pa_pdbConfig v) (e_now E t1) p"
    by (auto simp: partition_ops_def partition_isReady_def recently_ready_def split: prod.splits if_splits)
  show "IsPodRunningAndReady p \<and> \<not> hasPendingEviction cache (e_now E tr) p \<and>
      (\<exists>t. extends tr t \<and> extends t tr' \<and> \<not> recently_ready (pa_pdbConfig v) (e_now E t) p)"
    using pending_now_sound [OF pn] quiet_extends [OF pending_now_quiet [OF pn]] ready t1 by blast
next
  fix E cache tr v p b tr'
  assume "vo_isReady partition_ops E cache tr v p = (b, tr')"
  then show "quiet tr tr'"
    using pending_now_quiet [of E cache tr p]
    by (auto simp: partition_ops_def partition_isReady_def intro: quiet_snocI split: prod.splits if_splits)
next
  fix v seen t s r v'
  assume "partition_counted v seen t" and "0 \<le> zs_notReady r" and "0 \<le> zs_unknown r"
    and "vo_accumulateResult partition_ops v s r = (v', None)"
  then show "partition_counted v' (insert (sts_uid s) seen) (t + (zs_notReady r + zs_unknown r))"
    by (auto simp: partition_ops_def partition_accumulateResult_def partition_counted_def Let_def)
next
  fix v s r v' e
  assume "vo_accumulateResult partition_ops v s r = (v', e)"
  then have "pa_sts v' = pa_sts v" and "pa_partition v' = pa_partition v" and "pa_pdbConfig v' = pa_pdbConfig v"
    by (auto simp: partition_ops_def partition_accumulateResult_def Let_def)
  then show "vo_considerSts partition_ops v' = vo_considerSts partition_ops v \<and>
      vo_considerPod partition_ops v' = vo_considerPod partition_ops v \<and>
      (\<lambda>(s :: statefulset) (d :: int). True) = (\<lambda>s d. True) \<and> recently_ready (pa_pdbConfig v') = recently_ready (pa_pdbConfig v)"
    by (simp add: partition_ops_def partition_considerSts_def partition_matcher_def fun_eq_iff split: res.splits)
next
  fix v seen t m
  assume "partition_counted v seen t" and "vo_validate partition_ops v m = Ok None"
  then show "t < m" by (auto simp: partition_ops_def partition_validate_def partition_counted_def split: if_splits)
qed simp

section \<open>The zone-aware validator never dereferences a nil result\<close>

lemma zone_ops_simps [simp]:
  "vo_considerSts zone_ops v s" "vo_considerPod zone_ops v p = Ok True"
  "vo_accumulateResult zone_ops = zone_accumulateResult" "vo_validate zone_ops = zone_validate"
  by (simp_all add: zone_ops_def)

lemma zone_assess_result:
  "assess zone_ops E cache tr p v items = (Ok (Accepted v'), tr') \<Longrightarrow>
     za_result v \<noteq> None \<or> sts_uid (za_sts v) \<in> sts_uid ` set items \<Longrightarrow> za_result v' \<noteq> None"
proof (induction items arbitrary: tr v)
  case (Cons s items)
  obtain q tr1 where pn: "podsNotRunningAndReady zone_ops E cache tr s p v = (q, tr1)" by fastforce
  with Cons.prems(1) obtain r where q: "q = Ok r" by (cases q) auto
  obtain v1 e where acc: "vo_accumulateResult zone_ops v s r = (v1, e)" by fastforce
  with Cons.prems(1) pn q have e: "e = None"
    and rest: "assess zone_ops E cache tr1 p v1 items = (Ok (Accepted v'), tr')"
    by (cases e; simp)+
  have "za_result v1 \<noteq> None \<or> v1 = v \<and> sts_uid s \<noteq> sts_uid (za_sts v)"
    using acc by (simp add: zone_accumulateResult_def split: if_splits) force
  then have "za_result v1 \<noteq> None \<or> sts_uid (za_sts v1) \<in> sts_uid ` set items"
    using Cons.prems(2) by auto
  with Cons.IH [OF rest] show ?case by blast
qed auto

section \<open>The assessment never panics\<close>

lemma name_requirement:
  "IsLabelValue val \<Longrightarrow> MustNewLabelsRequirement ''name'' Equals [val] = Ok (Requirement ''name'' Equals [val])"
  by (simp add: MustNewLabelsRequirement_def NewRequirement_def IsLabelKey_def matches_label_fmt_def
      is_label_ext_def is_alnum_def is_lower_def)

lemma tally_no_panic:
  assumes "\<forall>pd. \<exists>b. vo_considerPod ops v pd = Ok b"
  shows "\<exists>r t'. tally ops E cache t v p r0 pds = (Ok r, t')"
proof (induction pds arbitrary: t r0)
  case (Cons pd pds)
  obtain b where b: "vo_considerPod ops v pd = Ok b" using assms by blast
  obtain rd t1 where "vo_isReady ops E cache t v pd = (rd, t1)" by fastforce
  with b Cons.IH show ?case by (cases b) auto
qed simp

lemma pods_no_panic:
  assumes "\<forall>pd. \<exists>b. vo_considerPod ops v pd = Ok b" and "IsLabelValue (mget (sts_template_labels s) ''name'')"
  shows "podsNotRunningAndReady ops E cache t s p v \<noteq> (Panic msg, t')"
proof (cases "e_list_pods E t (sts_namespace s)")
  case (Reply pods)
  obtain r t1 where "tally ops E cache (t @ [EvListPodsAPI (sts_namespace s)]) v p
      \<lparr>zs_tested = 0, zs_notReady = 0, zs_unknown = 0\<rparr>
      (filter (\<lambda>pd. sel_matches [Requirement ''name'' Equals [mget (sts_template_labels s) ''name'']] (pod_labels pd)) pods) = (Ok r, t1)"
    using tally_no_panic [OF assms(1)] by blast
  with Reply show ?thesis by (simp add: podsNotRunningAndReady_def name_requirement [OF assms(2)] Let_def)
qed (simp add: podsNotRunningAndReady_def name_requirement [OF assms(2)] Let_def)

lemma assess_no_panic:
  assumes total: "\<And>v pd. Q v \<Longrightarrow> \<exists>b. vo_considerPod ops v pd = Ok b"
    and step: "\<And>v s r v' e. Q v \<Longrightarrow> vo_accumulateResult ops v s r = (v', e) \<Longrightarrow> Q v'"
    and "Q v" and "\<forall>s\<in>set items. IsLabelValue (mget (sts_template_labels s) ''name'')"
  shows "\<exists>w t'. assess ops E cache t p v items = (Ok w, t')"
  using assms(3,4)
proof (induction items arbitrary: t v)
  case (Cons s items)
  obtain q t1 where pn: "podsNotRunningAndReady ops E cache t s p v = (q, t1)" by fastforce
  have np: "\<forall>m. q \<noteq> Panic m"
    using pods_no_panic [of ops v s E cache t p _ t1] total [OF Cons.prems(1)] Cons.prems(2) pn by auto
  show ?case
  proof (cases q)
    case (Ok r)
    obtain v1 e where acc: "vo_accumulateResult ops v s r = (v1, e)" by fastforce
    have "Q v1" using step [OF Cons.prems(1) acc] .
    with Cons Ok pn acc show ?thesis by (cases e) auto
  qed (use Cons pn np in auto)
qed simp

lemma zone_run_no_panic:
  assumes "sts_uid sts \<in> sts_uid ` set items" and "\<forall>s\<in>set items. IsLabelValue (mget (sts_template_labels s) ''name'')"
  shows "\<exists>w t'. run_validator zone_ops E cache tr p (newValidatorZoneAware sts n) items m = (Ok w, t')"
proof -
  let ?v = "newValidatorZoneAware sts n"
  have "\<exists>w t'. assess zone_ops E cache tr p ?v items = (Ok w, t')"
    by (rule assess_no_panic [where Q = "\<lambda>_. True"]) (use assms(2) in auto)
  then obtain w t' where a: "assess zone_ops E cache tr p ?v items = (Ok w, t')" by blast
  show ?thesis
  proof (cases w)
    case (Accepted v')
    then have "za_result v' \<noteq> None"
      using zone_assess_result a assms(1) by (fastforce simp: newValidatorZoneAware_def)
    with a Accepted show ?thesis by (auto simp: run_validator_def zone_validate_def)
  qed (use a in \<open>simp add: run_validator_def\<close>)
qed

lemma partition_run_no_panic:
  assumes "0 \<le> cfg_podNamePartitionRegexGroup cfg" and "\<forall>s\<in>set items. IsLabelValue (mget (sts_template_labels s) ''name'')"
  shows "\<exists>w t'. run_validator partition_ops E cache tr p (newValidatorPartitionAware sts part n cfg) items m = (Ok w, t')"
proof -
  let ?v = "newValidatorPartitionAware sts part n cfg"
  have c: "\<exists>b. vo_considerPod partition_ops v pd = Ok b" if "pa_pdbConfig v = cfg" for v pd
    using podPartition_total [OF assms(1), of pd] that
    by (auto simp: partition_ops_def partition_matcher_def split: res.splits)
  have s: "pa_pdbConfig v' = cfg" if "pa_pdbConfig v = cfg" "vo_accumulateResult partition_ops v s r = (v', e)" for v s r v' e
    using that by (auto simp: partition_ops_def partition_accumulateResult_def Let_def)
  have v: "pa_pdbConfig ?v = cfg" by (simp add: newValidatorPartitionAware_def)
  have "\<exists>w t'. assess partition_ops E cache tr p ?v items = (Ok w, t')"
    by (rule assess_no_panic [where Q = "\<lambda>v. pa_pdbConfig v = cfg", OF c s v assms(2)])
  then obtain w t' where a: "assess partition_ops E cache tr p ?v items = (Ok w, t')" by blast
  then show ?thesis
    by (cases w) (auto simp: run_validator_def partition_ops_def partition_validate_def)
qed

end
