(* ===== verification/ZpdbEviction.thy ===== *)
theory ZpdbEviction
  imports ZpdbValidators
begin

text \<open>
  \<^verbatim>\<open>pkg/zpdb/eviction_controller.go\<close> with \<^verbatim>\<open>admission_review_request.go\<close> and the API calls of
  \<^verbatim>\<open>pod_eviction_k8s_clients.go\<close>: the handling of one eviction request, from the webhook or from the
  rollout controller. The lock of the pod's configuration is held from the listing of the StatefulSets to
  the recording of the eviction, so requests under one configuration do not overlap.
\<close>

section \<open>Requests, responses and state\<close>

record eviction_request =
  er_uid :: string
  er_operation :: string
  er_subResource :: string
  er_namespace :: string
  er_name :: string

text \<open>\<open>adm_message\<close> and \<open>adm_code\<close> are the \<^verbatim>\<open>Result\<close> of a denial.\<close>

record adm_response =
  adm_allowed :: bool
  adm_uid :: string
  adm_message :: string
  adm_code :: int
  adm_warnings :: "string list"

record MaxUnavailableZeroOverride =
  mo_maxUnavailable :: int
  mo_set :: bool

definition NewMaxUnavailableZeroOverrideNone :: MaxUnavailableZeroOverride where
  "NewMaxUnavailableZeroOverrideNone = \<lparr>mo_maxUnavailable = 0, mo_set = False\<rparr>"

definition NewMaxUnavailableZeroOverride :: "int \<Rightarrow> MaxUnavailableZeroOverride" where
  "NewMaxUnavailableZeroOverride n = \<lparr>mo_maxUnavailable = n, mo_set = True\<rparr>"

record zpdb_state =
  zp_configs :: config_cache
  zp_evictions :: evict_cache
  zp_locks :: "string list"

definition NewEvictionController :: zpdb_state where
  "NewEvictionController = \<lparr>zp_configs = newConfigCache, zp_evictions = newPodEvictionCache, zp_locks = []\<rparr>"

text \<open>A lock is identified by its configuration's name and created on first use.\<close>

definition findLock :: "zpdb_state \<Rightarrow> string \<Rightarrow> zpdb_state" where
  "findLock st name = (if name \<in> set (zp_locks st) then st else st\<lparr>zp_locks := zp_locks st @ [name]\<rparr>)"

definition denyWithReason :: "eviction_request \<Rightarrow> string \<Rightarrow> int \<Rightarrow> adm_response" where
  "denyWithReason r reason code =
     \<lparr>adm_allowed = False, adm_uid = er_uid r, adm_message = reason, adm_code = code, adm_warnings = []\<rparr>"

definition allowWithWarning :: "eviction_request \<Rightarrow> string \<Rightarrow> adm_response" where
  "allowWithWarning r warning =
     \<lparr>adm_allowed = True, adm_uid = er_uid r, adm_message = '''', adm_code = 0, adm_warnings = [warning]\<rparr>"

definition allow :: "eviction_request \<Rightarrow> adm_response" where
  "allow r = \<lparr>adm_allowed = True, adm_uid = er_uid r, adm_message = '''', adm_code = 0, adm_warnings = []\<rparr>"

definition validate_request :: "eviction_request \<Rightarrow> err option" where
  "validate_request r =
     (if er_operation r \<noteq> ''CREATE'' then Some (Err (''request operation is not create, got: '' @ er_operation r))
      else if er_subResource r \<noteq> ''eviction'' then
        Some (Err (''request SubResource is not eviction, got: '' @ er_subResource r))
      else if er_namespace r = '''' \<or> er_name r = '''' then
        Some (Err ''request did not include both a namespace and a name'')
      else None)"

definition canIgnorePDBForPod :: "pod \<Rightarrow> bool" where
  "canIgnorePDBForPod p \<longleftrightarrow>
     pod_phase p = PodSucceeded \<or> pod_phase p = PodFailed \<or> pod_phase p = PodPending \<or>
     (case pod_deletion_timestamp p of None \<Rightarrow> False | Some t \<Rightarrow> t \<noteq> 0)"

section \<open>Calls to the API server\<close>

definition podByName :: "env \<Rightarrow> trace \<Rightarrow> string \<Rightarrow> string \<Rightarrow> pod res \<times> trace" where
  "podByName E tr namespace name =
     ((case e_get_pod E tr namespace name of Reply p \<Rightarrow> Ok p | Error e \<Rightarrow> Fail e), tr @ [EvGetPod namespace name])"

definition statefulSetOwnerReference :: "pod \<Rightarrow> owner_reference res" where
  "statefulSetOwnerReference p =
     (case GetControllerOf p of
        None \<Rightarrow> Fail (Err ''unable to find a StatefulSet pod owner'')
      | Some owner \<Rightarrow>
          if or_kind owner \<noteq> ''StatefulSet'' then
            Fail (Err (''pod owner is not a StatefulSet - '' @ pod_name p @ '' has owner '' @ or_name owner
                       @ '' ('' @ or_kind owner @ '')''))
          else Ok owner)"

text \<open>\<open>related\<close> is \<^term>\<open>None\<close> when the listing failed.\<close>

definition owner_sts :: "env \<Rightarrow> trace \<Rightarrow> pod \<Rightarrow> owner_reference \<Rightarrow> statefulset list option \<Rightarrow> statefulset res \<times> trace" where
  "owner_sts E tr p owner related =
     (case (case related of None \<Rightarrow> None | Some items \<Rightarrow> find (\<lambda>s. sts_name s = or_name owner) items) of
        Some s \<Rightarrow> (Ok s, tr)
      | None \<Rightarrow>
          ((case e_get_sts E tr (pod_namespace p) (or_name owner) of
              Reply s \<Rightarrow> Ok s
            | Error e \<Rightarrow> Fail (wrapf (''unable to find StatefulSet '' @ or_name owner @ '' by name: '') e)),
           tr @ [EvGetStatefulSet (pod_namespace p) (or_name owner)]))"

text \<open>The API server applies the selector to the StatefulSets of the namespace.\<close>

definition findRelatedStatefulSets :: "env \<Rightarrow> trace \<Rightarrow> string \<Rightarrow> selector \<Rightarrow> statefulset list res \<times> trace" where
  "findRelatedStatefulSets E tr namespace sel =
     ((case e_list_sts E tr namespace of
         Reply items \<Rightarrow> Ok (filter (\<lambda>s. sel_matches sel (sts_labels s)) items)
       | Error e \<Rightarrow> Fail e), tr @ [EvListStatefulSetsAPI namespace])"

text \<open>The pod in the informer cache.\<close>

definition cached_pod :: "env \<Rightarrow> trace \<Rightarrow> string \<Rightarrow> string \<Rightarrow> pod option \<times> trace" where
  "cached_pod E tr namespace name =
     ((case e_pod_lister E tr of
         Error e \<Rightarrow> None
       | Reply pods \<Rightarrow> find (\<lambda>p. pod_namespace p = namespace \<and> pod_name p = name) pods), tr @ [EvListPods])"

section \<open>Handling an eviction request\<close>

text \<open>The outcome: the response and the label it is counted under.\<close>

type_synonym outcome = "(adm_response \<times> string) res"

text \<open>The tail under the lock, once the owner and the related sets are known.\<close>

definition decide_eviction :: "env \<Rightarrow> trace \<Rightarrow> zpdb_state \<Rightarrow> eviction_request \<Rightarrow> zpdb_config \<Rightarrow> pod \<Rightarrow> statefulset
    \<Rightarrow> statefulset list \<Rightarrow> int \<Rightarrow> outcome \<times> zpdb_state \<times> trace" where
  "decide_eviction E tr st r pdbConfig p sts items maxUnavailable =
     (if length items \<le> 1 then
        (Ok (denyWithReason r ''minimum number of StatefulSets not found'' 400, ''min-sts-not-found''), st, tr)
      else if sts_uid sts \<notin> sts_uid ` set items then
        (Ok (denyWithReason r ''owner StatefulSet is not in the related StatefulSets'' 400, ''owner-sts-not-in-group''), st, tr)
      else
        (case podPartition pdbConfig p of
           Panic m \<Rightarrow> (Panic m, st, tr)
         | Fail e \<Rightarrow> (Ok (denyWithReason r (errmsg e) 400, ''partition-not-identified''), st, tr)
         | Ok part \<Rightarrow>
             (let finish = (\<lambda>out tr1.
                    (case out of
                       Panic m \<Rightarrow> (Panic m, st, tr1)
                     | Fail e \<Rightarrow> (Fail e, st, tr1)
                     | Ok (Denied l msg c) \<Rightarrow> (Ok (denyWithReason r msg c, l), st, tr1)
                     | Ok (Accepted _) \<Rightarrow>
                         (Ok (allow r, ''allowed''),
                          st\<lparr>zp_evictions := recordEviction (zp_evictions st) (e_now E tr1) p\<rparr>, tr1 @ [EvNow])))
              in if part \<noteq> '''' then
                   (case run_validator partition_ops E (zp_evictions st) tr p
                           (newValidatorPartitionAware sts part (length items) pdbConfig) items maxUnavailable of
                      (Ok (Accepted v), tr1) \<Rightarrow> finish (Ok (Accepted ())) tr1
                    | (Ok (Denied l m c), tr1) \<Rightarrow> finish (Ok (Denied l m c)) tr1
                    | (Fail e, tr1) \<Rightarrow> finish (Fail e) tr1
                    | (Panic m, tr1) \<Rightarrow> finish (Panic m) tr1)
                 else
                   (case run_validator zone_ops E (zp_evictions st) tr p
                           (newValidatorZoneAware sts (length items)) items maxUnavailable of
                      (Ok (Accepted v), tr1) \<Rightarrow> finish (Ok (Accepted ())) tr1
                    | (Ok (Denied l m c), tr1) \<Rightarrow> finish (Ok (Denied l m c)) tr1
                    | (Fail e, tr1) \<Rightarrow> finish (Fail e) tr1
                    | (Panic m, tr1) \<Rightarrow> finish (Panic m) tr1))))"

text \<open>The part of the handler that holds the lock of the configuration.\<close>

definition locked_eviction :: "env \<Rightarrow> trace \<Rightarrow> zpdb_state \<Rightarrow> eviction_request \<Rightarrow> MaxUnavailableZeroOverride \<Rightarrow> pod
    \<Rightarrow> zpdb_config \<Rightarrow> owner_reference \<Rightarrow> outcome \<times> zpdb_state \<times> trace" where
  "locked_eviction E tr st r override p pdbConfig ownerRef =
     (case findRelatedStatefulSets E tr (pod_namespace p) (cfg_selector pdbConfig) of
        (listRes, tr1) \<Rightarrow>
          (let related = (case listRes of Ok items \<Rightarrow> Some items | _ \<Rightarrow> None) in
           case owner_sts E tr1 p ownerRef related of
             (Panic m, tr2) \<Rightarrow> (Panic m, st, tr2)
           | (Fail e, tr2) \<Rightarrow> (Ok (denyWithReason r (errmsg e) 500, ''sts-no-found''), st, tr2)
           | (Ok sts, tr2) \<Rightarrow>
               (let configured = maxUnavailablePods pdbConfig sts;
                    maxUnavailable = (if configured = 0 \<and> mo_set override then mo_maxUnavailable override else configured)
                in if maxUnavailable = 0 then
                     (Ok (denyWithReason r ''max unavailable = 0'' 403, ''max-unavailable-0''), st, tr2)
                   else
                     (case related of
                        None \<Rightarrow> (Ok (denyWithReason r ''minimum number of StatefulSets not found'' 400, ''min-sts-not-found''), st, tr2)
                      | Some items \<Rightarrow> decide_eviction E tr2 st r pdbConfig p sts items maxUnavailable))))"

text \<open>\<open>ar\<close> is the optional \<^verbatim>\<open>Request\<close> of the review; the logger dereferences it first.\<close>

definition HandlePodEvictionRequest :: "env \<Rightarrow> trace \<Rightarrow> zpdb_state \<Rightarrow> eviction_request option
    \<Rightarrow> MaxUnavailableZeroOverride \<Rightarrow> outcome \<times> zpdb_state \<times> trace" where
  "HandlePodEvictionRequest E tr st ar override =
     (case ar of
        None \<Rightarrow> (Panic ''nil pointer dereference'', st, tr)
      | Some r \<Rightarrow>
          (case validate_request r of
             Some e \<Rightarrow> (Ok (denyWithReason r (errmsg e) 400, ''invalid-request''), st, tr)
           | None \<Rightarrow>
               (case cached_pod E tr (er_namespace r) (er_name r) of
                  (cached, tr1) \<Rightarrow>
                    if (case cached of
                          None \<Rightarrow> False
                        | Some cp \<Rightarrow> (case config_find (zp_configs st) cp of Ok None \<Rightarrow> True | _ \<Rightarrow> False)) then
                      (Ok (allow r, ''pod-not-in-scope''), st, tr1)
                    else
                      (case podByName E tr1 (er_namespace r) (er_name r) of
                         (Panic m, tr2) \<Rightarrow> (Panic m, st, tr2)
                       | (Fail e, tr2) \<Rightarrow> (Ok (denyWithReason r (errmsg e) 400, ''pod-not-found''), st, tr2)
                       | (Ok p, tr2) \<Rightarrow>
                           if canIgnorePDBForPod p then
                             (Ok (allowWithWarning r ''pod is not ready'', ''pod-not-ready''), st, tr2)
                           else
                             (case config_find (zp_configs st) p of
                                Panic m \<Rightarrow> (Panic m, st, tr2)
                              | Fail e \<Rightarrow> (Ok (denyWithReason r (errmsg e) 400, ''cfg-not-found''), st, tr2)
                              | Ok None \<Rightarrow> (Ok (allow r, ''pod-not-in-scope''), st, tr2)
                              | Ok (Some pdbConfig) \<Rightarrow>
                                  (case statefulSetOwnerReference p of
                                     Panic m \<Rightarrow> (Panic m, st, tr2)
                                   | Fail e \<Rightarrow> (Ok (denyWithReason r (errmsg e) 500, ''sts-no-found''), st, tr2)
                                   | Ok ownerRef \<Rightarrow>
                                       locked_eviction E tr2 (findLock st (cfg_name pdbConfig)) r override p
                                         pdbConfig ownerRef))))))"

section \<open>The interface used by the rollout controller\<close>

definition internal_request :: "string \<Rightarrow> string \<Rightarrow> eviction_request" where
  "internal_request namespace podName =
     \<lparr>er_uid = ''internal-request-pod-eviction-'' @ podName @ ''-for-rolling-update'', er_operation = ''CREATE'',
      er_subResource = ''eviction'', er_namespace = namespace, er_name = podName\<rparr>"

definition MarkPodAsDeleted :: "env \<Rightarrow> trace \<Rightarrow> zpdb_state \<Rightarrow> string \<Rightarrow> string \<Rightarrow> string
    \<Rightarrow> MaxUnavailableZeroOverride \<Rightarrow> unit res \<times> zpdb_state \<times> trace" where
  "MarkPodAsDeleted E tr st namespace podName source override =
     (case HandlePodEvictionRequest E tr st (Some (internal_request namespace podName)) override of
        (Ok (response, label), st1, tr1) \<Rightarrow>
          ((if adm_allowed response then Ok () else Fail (Err (adm_message response))), st1, tr1)
      | (Fail e, st1, tr1) \<Rightarrow> (Fail e, st1, tr1)
      | (Panic m, st1, tr1) \<Rightarrow> (Panic m, st1, tr1))"

definition HasPartitionAwarePdb :: "zpdb_state \<Rightarrow> pod \<Rightarrow> bool res" where
  "HasPartitionAwarePdb st p =
     (case config_find (zp_configs st) p of
        Fail e \<Rightarrow> Fail e
      | Panic m \<Rightarrow> Panic m
      | Ok None \<Rightarrow> Ok False
      | Ok (Some pdbConfig) \<Rightarrow> Ok (cfg_podNamePartition pdbConfig \<noteq> None))"

section \<open>What an allowed eviction has established\<close>

text \<open>
  The budget of an eviction of \<open>p\<close>, whose owner is \<open>sts\<close> among \<open>items\<close>, at listings answered between two points of the
  trace. In zone mode (no partition) every other zone is undisrupted and the disruption of the own zone is below
  \<open>maxU\<close>. In partition mode the disruption of the pod's partition over all other zones adds up to less
  than \<open>maxU\<close>; there a pod that became ready within the cross-zone delay still counts as disrupted.
\<close>

definition zone_budget_met :: "env \<Rightarrow> evict_cache \<Rightarrow> pod \<Rightarrow> statefulset \<Rightarrow> statefulset list \<Rightarrow> int \<Rightarrow> trace \<Rightarrow> trace \<Rightarrow> bool" where
  "zone_budget_met E cache p sts items maxU tr tr' \<longleftrightarrow>
     (\<forall>s\<in>set items. disruption_within E cache (\<lambda>_. True) (\<lambda>_ _. False) p tr tr' s
        (if sts_uid s = sts_uid sts then maxU - 1 else 0))"

definition partition_budget_met ::
    "env \<Rightarrow> evict_cache \<Rightarrow> zpdb_config \<Rightarrow> string \<Rightarrow> pod \<Rightarrow> statefulset \<Rightarrow> statefulset list \<Rightarrow> int \<Rightarrow> trace \<Rightarrow> trace \<Rightarrow> bool" where
  "partition_budget_met E cache cfg part p sts items maxU tr tr' \<longleftrightarrow>
     (\<exists>ds. list_all2 (\<lambda>s d. 0 \<le> d \<and>
             disruption_within E cache (\<lambda>pd. podPartition cfg pd = Ok part) (recently_ready cfg) p tr tr' s d)
           (filter (\<lambda>s. sts_uid s \<noteq> sts_uid sts) items) ds \<and> sum_list ds < maxU)"

lemma sum_list_nonneg_member: "\<forall>d\<in>set ds. 0 \<le> d \<Longrightarrow> d \<in> set ds \<Longrightarrow> d \<le> sum_list (ds :: int list)"
proof (induction ds)
  case (Cons x ds)
  have "0 \<le> sum_list ds" using Cons.prems by (intro sum_list_nonneg) simp
  with Cons show ?case by auto
qed simp

lemma zone_run_budget:
  assumes "run_validator zone_ops E cache tr p (newValidatorZoneAware sts n) items maxU = (Ok (Accepted v), tr')"
    and "distinct (map sts_uid items)"
  shows "zone_budget_met E cache p sts items maxU tr tr'"
proof -
  let ?v = "newValidatorZoneAware sts n"
  have "zone_counted ?v {} 0" by (simp add: zone_counted_def newValidatorZoneAware_def)
  from zone.run_validator_accepted [OF assms(1) this assms(2)] obtain ds where
      ds: "list_all2 (\<lambda>s d. 0 \<le> d \<and> zone_tolerated ?v s d \<and>
             disruption_within E cache (\<lambda>_. True) (\<lambda>_ _. False) p tr tr' s d) items ds"
    and sum: "sum_list ds < maxU"
    by auto
  have nn: "\<forall>d\<in>set ds. 0 \<le> d" using ds by (auto simp: list_all2_conv_all_nth in_set_conv_nth)
  show ?thesis unfolding zone_budget_met_def
  proof
    fix s assume "s \<in> set items"
    then obtain i where i: "i < length items" "items ! i = s" by (auto simp: in_set_conv_nth)
    with ds have d: "zone_tolerated ?v s (ds ! i)"
        "disruption_within E cache (\<lambda>_. True) (\<lambda>_ _. False) p tr tr' s (ds ! i)"
      and mem: "ds ! i \<in> set ds"
      by (auto simp: list_all2_conv_all_nth)
    have "ds ! i \<le> (if sts_uid s = sts_uid sts then maxU - 1 else 0)"
      using d(1) sum sum_list_nonneg_member [OF nn mem]
      by (auto simp: zone_tolerated_def newValidatorZoneAware_def)
    with d(2) show "disruption_within E cache (\<lambda>_. True) (\<lambda>_ _. False) p tr tr' s (if sts_uid s = sts_uid sts then maxU - 1 else 0)"
      using disruption_within_mono [OF _ extends_refl extends_refl] by blast
  qed
qed

lemma partition_run_budget:
  assumes "run_validator partition_ops E cache tr p (newValidatorPartitionAware sts part n cfg) items maxU = (Ok (Accepted v), tr')"
    and "distinct (map sts_uid items)" and "part \<noteq> ''''"
  shows "partition_budget_met E cache cfg part p sts items maxU tr tr'"
proof -
  let ?v = "newValidatorPartitionAware sts part n cfg"
  have "partition_counted ?v {} 0" by (simp add: partition_counted_def newValidatorPartitionAware_def)
  moreover have "vo_considerSts partition_ops ?v = (\<lambda>s. sts_uid s \<noteq> sts_uid sts)"
    by (simp add: partition_ops_def partition_considerSts_def newValidatorPartitionAware_def fun_eq_iff)
  moreover have "(\<lambda>pd. vo_considerPod partition_ops ?v pd = Ok True) = (\<lambda>pd. podPartition cfg pd = Ok part)"
    using assms(3) by (auto simp: partition_ops_def partition_matcher_def newValidatorPartitionAware_def fun_eq_iff split: res.splits)
  moreover have "pa_pdbConfig ?v = cfg" by (simp add: newValidatorPartitionAware_def)
  ultimately show ?thesis
    using parti.run_validator_accepted [OF assms(1) _ assms(2)] unfolding partition_budget_met_def by auto
qed

text \<open>The budget the handler works with: the configured one, or the override when that is 0.\<close>

definition effective_max :: "zpdb_config \<Rightarrow> statefulset \<Rightarrow> MaxUnavailableZeroOverride \<Rightarrow> int" where
  "effective_max cfg sts override =
     (if maxUnavailablePods cfg sts = 0 \<and> mo_set override then mo_maxUnavailable override
      else maxUnavailablePods cfg sts)"

lemma decide_allowed:
  assumes "decide_eviction E tr st r cfg p sts items m = (Ok (resp, lbl), st', tr')" and "adm_allowed resp"
  obtains part tr1 where "podPartition cfg p = Ok part" and "1 < length items" and "sts_uid sts \<in> sts_uid ` set items"
    and "lbl = ''allowed''" and "tr' = tr1 @ [EvNow]"
    and "st' = st\<lparr>zp_evictions := recordEviction (zp_evictions st) (e_now E tr1) p\<rparr>"
    and "part \<noteq> '''' \<Longrightarrow> \<exists>v. run_validator partition_ops E (zp_evictions st) tr p
           (newValidatorPartitionAware sts part (length items) cfg) items m = (Ok (Accepted v), tr1)"
    and "part = '''' \<Longrightarrow> \<exists>v. run_validator zone_ops E (zp_evictions st) tr p
           (newValidatorZoneAware sts (length items)) items m = (Ok (Accepted v), tr1)"
  using assms
  by (auto simp: decide_eviction_def denyWithReason_def Let_def
      split: if_splits res.splits prod.splits verdict.splits)

lemma assess_label: "assess ops E c t p v its = (Ok (Denied l msg code), t') \<Longrightarrow> l \<noteq> ''allowed''"
  by (induction its arbitrary: t v) (auto split: if_splits res.splits prod.splits option.splits)

lemma run_label: "run_validator ops E c t p v its m = (Ok (Denied l msg code), t') \<Longrightarrow> l \<noteq> ''allowed''"
  by (auto simp: run_validator_def dest: assess_label split: res.splits prod.splits verdict.splits option.splits)

lemma decide_label:
  assumes "decide_eviction E tr st r cfg p sts items m = (Ok (resp, lbl), st', tr')"
  shows "lbl = ''allowed'' \<longleftrightarrow> adm_allowed resp"
  using assms
  by (auto simp: decide_eviction_def denyWithReason_def allow_def Let_def dest!: run_label
      split: if_splits res.splits prod.splits verdict.splits)

lemma findLock_frame [simp]:
  "zp_configs (findLock st n) = zp_configs st" "zp_evictions (findLock st n) = zp_evictions st"
  by (simp_all add: findLock_def)

lemma owner_sts_extends: "owner_sts E tr p orf related = (q, tr') \<Longrightarrow> extends tr tr'"
  by (auto simp: owner_sts_def split: option.splits)

lemma locked_eviction_alt:
  "locked_eviction E tr st r override p cfg ownerRef =
     (case findRelatedStatefulSets E tr (pod_namespace p) (cfg_selector cfg) of
        (listRes, tr1) \<Rightarrow>
          (case owner_sts E tr1 p ownerRef (case listRes of Ok items \<Rightarrow> Some items | _ \<Rightarrow> None) of
             (Panic m, tr2) \<Rightarrow> (Panic m, st, tr2)
           | (Fail e, tr2) \<Rightarrow> (Ok (denyWithReason r (errmsg e) 500, ''sts-no-found''), st, tr2)
           | (Ok sts, tr2) \<Rightarrow>
               if effective_max cfg sts override = 0 then
                 (Ok (denyWithReason r ''max unavailable = 0'' 403, ''max-unavailable-0''), st, tr2)
               else (case listRes of
                       Ok items \<Rightarrow> decide_eviction E tr2 st r cfg p sts items (effective_max cfg sts override)
                     | _ \<Rightarrow> (Ok (denyWithReason r ''minimum number of StatefulSets not found'' 400, ''min-sts-not-found''), st, tr2))))"
  unfolding locked_eviction_def effective_max_def Let_def
  by (intro prod.case_cong refl) (auto split: res.splits prod.splits)

lemma locked_allowed:
  assumes "locked_eviction E tr st r override p cfg ownerRef = (Ok (resp, lbl), st', tr')" and "adm_allowed resp"
  obtains sts items all tr2 where "e_list_sts E tr (pod_namespace p) = Reply all"
    and "items = filter (\<lambda>s. sel_matches (cfg_selector cfg) (sts_labels s)) all"
    and "decide_eviction E tr2 st r cfg p sts items (effective_max cfg sts override) = (Ok (resp, lbl), st', tr')"
    and "effective_max cfg sts override \<noteq> 0" and "extends tr tr2"
    and "owner_sts E (tr @ [EvListStatefulSetsAPI (pod_namespace p)]) p ownerRef (Some items) = (Ok sts, tr2)"
proof -
  obtain listRes tr1 where f: "findRelatedStatefulSets E tr (pod_namespace p) (cfg_selector cfg) = (listRes, tr1)"
    by fastforce
  obtain q tr2 where o: "owner_sts E tr1 p ownerRef (case listRes of Ok items \<Rightarrow> Some items | _ \<Rightarrow> None) = (q, tr2)"
    by fastforce
  from assms f o obtain sts where q: "q = Ok sts" by (cases q) (auto simp: locked_eviction_alt denyWithReason_def)
  from assms f o q obtain items where l: "listRes = Ok items" "effective_max cfg sts override \<noteq> 0"
      "decide_eviction E tr2 st r cfg p sts items (effective_max cfg sts override) = (Ok (resp, lbl), st', tr')"
    by (cases listRes) (auto simp: locked_eviction_alt denyWithReason_def split: if_splits)
  from f l(1) obtain all where all: "e_list_sts E tr (pod_namespace p) = Reply all"
      "items = filter (\<lambda>s. sel_matches (cfg_selector cfg) (sts_labels s)) all"
    and tr1: "tr1 = tr @ [EvListStatefulSetsAPI (pod_namespace p)]"
    by (auto simp: findRelatedStatefulSets_def split: reply.splits)
  have "extends tr tr2" using owner_sts_extends [OF o] tr1 extends_append extends_trans by blast
  from that [OF all l(3,2) this] o q l(1) tr1 show ?thesis by simp
qed

lemma config_find_no_panic: "config_find configs p \<noteq> Panic m"
  by (auto simp: config_find_matching split: list.splits)

lemma statefulSetOwnerReference_no_panic: "statefulSetOwnerReference p \<noteq> Panic m"
  by (auto simp: statefulSetOwnerReference_def split: option.splits)

text \<open>The ways through the handler.\<close>

lemma handle_elim:
  assumes h: "HandlePodEvictionRequest E tr st (Some r) override = (x, st', tr')"
  obtains (denied) msg code lbl where "x = Ok (denyWithReason r msg code, lbl)" and "st' = st"
  | (cached) p where "fst (cached_pod E tr (er_namespace r) (er_name r)) = Some p" and "config_find (zp_configs st) p = Ok None"
      and "x = Ok (allow r, ''pod-not-in-scope'')" and "st' = st"
  | (ignored) p where "e_get_pod E (tr @ [EvListPods]) (er_namespace r) (er_name r) = Reply p" and "canIgnorePDBForPod p"
      and "x = Ok (allowWithWarning r ''pod is not ready'', ''pod-not-ready'')" and "st' = st"
  | (scope) p where "e_get_pod E (tr @ [EvListPods]) (er_namespace r) (er_name r) = Reply p" and "config_find (zp_configs st) p = Ok None"
      and "x = Ok (allow r, ''pod-not-in-scope'')" and "st' = st"
  | (locked) p cfg ownerRef where "e_get_pod E (tr @ [EvListPods]) (er_namespace r) (er_name r) = Reply p" and "\<not> canIgnorePDBForPod p"
      and "config_find (zp_configs st) p = Ok (Some cfg)" and "statefulSetOwnerReference p = Ok ownerRef"
      and "locked_eviction E (tr @ [EvListPods, EvGetPod (er_namespace r) (er_name r)]) (findLock st (cfg_name cfg)) r override p cfg ownerRef = (x, st', tr')"
proof (cases "validate_request r")
  case (Some e)
  with h show ?thesis by (auto simp: HandlePodEvictionRequest_def intro: denied)
next
  case valid: None
  let ?cached = "fst (cached_pod E tr (er_namespace r) (er_name r))"
  have snd_cached: "snd (cached_pod E tr (er_namespace r) (er_name r)) = tr @ [EvListPods]" by (simp add: cached_pod_def)
  note handler = HandlePodEvictionRequest_def case_prod_beta snd_cached podByName_def
  show ?thesis
  proof (cases "\<exists>p. ?cached = Some p \<and> config_find (zp_configs st) p = Ok None")
    case True
    then obtain p where p: "?cached = Some p" "config_find (zp_configs st) p = Ok None" by blast
    with h valid have "x = Ok (allow r, ''pod-not-in-scope'')" "st' = st" by (simp_all add: handler)
    with p show ?thesis by (rule cached)
  next
    case False
    then have out: "\<not> (case ?cached of None \<Rightarrow> False | Some cp \<Rightarrow> (case config_find (zp_configs st) cp of Ok None \<Rightarrow> True | _ \<Rightarrow> False))"
      by (auto split: option.splits res.splits)
    show ?thesis
    proof (cases "e_get_pod E (tr @ [EvListPods]) (er_namespace r) (er_name r)")
      case (Error e)
      with h valid out show ?thesis by (auto simp: handler intro: denied)
    next
      case p: (Reply p)
      show ?thesis
      proof (cases "canIgnorePDBForPod p")
        case True
        with h valid out p show ?thesis by (auto simp: handler intro: ignored)
      next
        case counts: False
        show ?thesis
        proof (cases "config_find (zp_configs st) p")
          case (Fail e)
          with h valid out p counts show ?thesis by (auto simp: handler intro: denied)
        next
          case (Ok c)
          show ?thesis
          proof (cases c)
            case None
            with h valid out p counts Ok show ?thesis by (auto simp: handler intro: scope)
          next
            case (Some cfg)
            with Ok have cfg: "config_find (zp_configs st) p = Ok (Some cfg)" by simp
            show ?thesis
            proof (cases "statefulSetOwnerReference p")
              case (Fail e)
              with h valid out p counts cfg show ?thesis by (auto simp: handler intro: denied)
            next
              case (Ok ownerRef)
              with h valid out p counts cfg show ?thesis by (auto simp: handler intro: locked)
            qed (simp add: statefulSetOwnerReference_no_panic)
          qed
        qed (simp add: config_find_no_panic)
      qed
    qed
  qed
qed

lemma decide_uid: "decide_eviction E tr st r cfg p sts items m = (Ok (resp, lbl), st', tr') \<Longrightarrow> adm_uid resp = er_uid r"
  by (auto simp: decide_eviction_def allow_def denyWithReason_def Let_def split: res.splits prod.splits if_splits verdict.splits)

lemma locked_uid:
  assumes "locked_eviction E tr st r override p cfg ownerRef = (Ok (resp, lbl), st', tr')"
  shows "adm_uid resp = er_uid r"
  using assms by (auto simp: locked_eviction_alt denyWithReason_def dest: decide_uid split: res.splits prod.splits if_splits)

lemma handle_uid:
  assumes "HandlePodEvictionRequest E tr st (Some r) override = (Ok (resp, lbl), st', tr')"
  shows "adm_uid resp = er_uid r"
  using assms by (cases rule: handle_elim) (auto simp: denyWithReason_def allow_def allowWithWarning_def dest: locked_uid)

lemma handle_allowed:
  assumes "HandlePodEvictionRequest E tr st ar override = (Ok (resp, lbl), st', tr')" and "adm_allowed resp"
  obtains (scope) "st' = st" and "lbl = ''pod-not-in-scope''"
  | (ignored) "st' = st" and "lbl = ''pod-not-ready''"
  | (budget) r p cfg ownerRef tr2 where "ar = Some r" and "tr2 = tr @ [EvListPods, EvGetPod (er_namespace r) (er_name r)]"
      and "e_get_pod E (tr @ [EvListPods]) (er_namespace r) (er_name r) = Reply p" and "\<not> canIgnorePDBForPod p"
      and "config_find (zp_configs st) p = Ok (Some cfg)" and "statefulSetOwnerReference p = Ok ownerRef"
      and "locked_eviction E tr2 (findLock st (cfg_name cfg)) r override p cfg ownerRef = (Ok (resp, lbl), st', tr')"
proof (cases ar)
  case None
  with assms(1) show ?thesis by (simp add: HandlePodEvictionRequest_def)
next
  case (Some r)
  from assms(1) [unfolded Some] show ?thesis
    by (cases rule: handle_elim) (use assms(2) Some scope ignored budget in \<open>auto simp: denyWithReason_def\<close>)
qed

text \<open>
  The decision of the budget on the eviction of \<open>p\<close>, begun at \<open>tr\<close> with the configurations \<open>configs\<close> and the recorded evictions
  \<open>cache\<close>, and finished at \<open>tr'\<close>: a configuration covers \<open>p\<close>; the StatefulSets that it selects in the listing made at \<open>tr\<close> are
  \<open>items\<close>, at least two; the owner of \<open>p\<close> is one of them by its UID; the allowed number is not 0; and after the
  owner was known the budget was met at listings of the pods, made before the last clock reading. The last part needs the
  API server to give StatefulSets distinct UIDs.
\<close>

definition distinct_uids :: "env \<Rightarrow> bool" where
  "distinct_uids E \<longleftrightarrow> (\<forall>t ns items. e_list_sts E t ns = Reply items \<longrightarrow> distinct (map sts_uid items))"

definition owned_by :: "env \<Rightarrow> trace \<Rightarrow> pod \<Rightarrow> statefulset list \<Rightarrow> statefulset \<Rightarrow> bool" where
  "owned_by E tr p items sts \<longleftrightarrow>
     (\<exists>owner. statefulSetOwnerReference p = Ok owner \<and>
        (sts \<in> set items \<and> sts_name sts = or_name owner \<or> e_get_sts E tr (pod_namespace p) (or_name owner) = Reply sts))"

definition budget_decision :: "env \<Rightarrow> config_cache \<Rightarrow> evict_cache \<Rightarrow> trace \<Rightarrow> trace \<Rightarrow> pod \<Rightarrow> MaxUnavailableZeroOverride \<Rightarrow> bool" where
  "budget_decision E configs cache tr tr' p override \<longleftrightarrow>
     (\<exists>cfg part all items sts tr1.
        config_find configs p = Ok (Some cfg) \<and> podPartition cfg p = Ok part \<and>
        e_list_sts E tr (pod_namespace p) = Reply all \<and>
        items = filter (\<lambda>s. sel_matches (cfg_selector cfg) (sts_labels s)) all \<and> 1 < length items \<and>
        owned_by E (tr @ [EvListStatefulSetsAPI (pod_namespace p)]) p items sts \<and> sts_uid sts \<in> sts_uid ` set items \<and>
        extends (tr @ [EvListStatefulSetsAPI (pod_namespace p)]) tr1 \<and> effective_max cfg sts override \<noteq> 0 \<and>
        (distinct_uids E \<longrightarrow>
          (if part = '''' then zone_budget_met E cache p sts items (effective_max cfg sts override) tr1 tr'
           else partition_budget_met E cache cfg part p sts items (effective_max cfg sts override) tr1 tr')))"

lemma owner_sts_owned:
  "owner_sts E tr p owner (Some items) = (Ok sts, tr') \<Longrightarrow> statefulSetOwnerReference p = Ok owner \<Longrightarrow> owned_by E tr p items sts"
  by (auto simp: owner_sts_def owned_by_def find_Some_iff split: option.splits reply.splits)

lemma decide_budget:
  assumes "decide_eviction E tr1 st r cfg p sts items (effective_max cfg sts override) = (Ok (resp, lbl), st', tr')"
    and "adm_allowed resp" and "distinct_uids E" and "e_list_sts E tr ns = Reply all"
    and "items = filter (\<lambda>s. sel_matches (cfg_selector cfg) (sts_labels s)) all"
    and "podPartition cfg p = Ok part" and "tr' = tr2 @ [EvNow]"
  shows "if part = '''' then zone_budget_met E (zp_evictions st) p sts items (effective_max cfg sts override) tr1 tr2
         else partition_budget_met E (zp_evictions st) cfg part p sts items (effective_max cfg sts override) tr1 tr2"
proof -
  have dist: "distinct (map sts_uid items)"
    using assms(3-5) unfolding distinct_uids_def by (metis distinct_map_filter)
  show ?thesis
  proof (rule decide_allowed [OF assms(1,2)])
    fix part' t2
    assume d: "podPartition cfg p = Ok part'" "tr' = t2 @ [EvNow]"
      "part' \<noteq> '''' \<Longrightarrow> \<exists>v. run_validator partition_ops E (zp_evictions st) tr1 p
           (newValidatorPartitionAware sts part' (length items) cfg) items (effective_max cfg sts override) = (Ok (Accepted v), t2)"
      "part' = '''' \<Longrightarrow> \<exists>v. run_validator zone_ops E (zp_evictions st) tr1 p
           (newValidatorZoneAware sts (length items)) items (effective_max cfg sts override) = (Ok (Accepted v), t2)"
    have same: "part' = part" "t2 = tr2" using d(1,2) assms(6,7) by simp_all
    show ?thesis
    proof (cases "part = ''''")
      case True
      with d(4) same zone_run_budget [OF _ dist] show ?thesis by auto
    next
      case False
      with d(3) same partition_run_budget [OF _ dist False] show ?thesis by auto
    qed
  qed
qed

text \<open>The facts behind an allowed eviction of a pod that a configuration covers.\<close>

lemma handle_budget:
  assumes "HandlePodEvictionRequest E tr st ar override = (Ok (resp, ''allowed''), st', tr')" and "adm_allowed resp"
  obtains r p tr2 where "ar = Some r"
    and "e_get_pod E (tr @ [EvListPods]) (er_namespace r) (er_name r) = Reply p" and "\<not> canIgnorePDBForPod p"
    and "budget_decision E (zp_configs st) (zp_evictions st) (tr @ [EvListPods, EvGetPod (er_namespace r) (er_name r)]) tr2 p override"
    and "tr' = tr2 @ [EvNow]" and "zp_evictions st' = recordEviction (zp_evictions st) (e_now E tr2) p"
    and "zp_configs st' = zp_configs st"
proof -
  from assms(1,2) obtain r p cfg ownerRef tra where a: "ar = Some r" "tra = tr @ [EvListPods, EvGetPod (er_namespace r) (er_name r)]"
      "e_get_pod E (tr @ [EvListPods]) (er_namespace r) (er_name r) = Reply p" "\<not> canIgnorePDBForPod p"
      "config_find (zp_configs st) p = Ok (Some cfg)" "statefulSetOwnerReference p = Ok ownerRef"
    and loc: "locked_eviction E tra (findLock st (cfg_name cfg)) r override p cfg ownerRef = (Ok (resp, ''allowed''), st', tr')"
    by (cases rule: handle_allowed) simp_all
  obtain sts items all trb where l: "e_list_sts E tra (pod_namespace p) = Reply all"
      "items = filter (\<lambda>s. sel_matches (cfg_selector cfg) (sts_labels s)) all"
      "effective_max cfg sts override \<noteq> 0"
      "owner_sts E (tra @ [EvListStatefulSetsAPI (pod_namespace p)]) p ownerRef (Some items) = (Ok sts, trb)"
    and dec: "decide_eviction E trb (findLock st (cfg_name cfg)) r cfg p sts items (effective_max cfg sts override)
                = (Ok (resp, ''allowed''), st', tr')"
    by (rule locked_allowed [OF loc assms(2)]) blast
  obtain part tr2 where d: "podPartition cfg p = Ok part" "1 < length items" "sts_uid sts \<in> sts_uid ` set items" "tr' = tr2 @ [EvNow]"
      "st' = (findLock st (cfg_name cfg))\<lparr>zp_evictions := recordEviction (zp_evictions (findLock st (cfg_name cfg))) (e_now E tr2) p\<rparr>"
    by (rule decide_allowed [OF dec assms(2)])
  have "budget_decision E (zp_configs st) (zp_evictions st) tra tr2 p override"
    unfolding budget_decision_def
  proof (rule exI [of _ cfg], rule exI [of _ part], rule exI [of _ all], rule exI [of _ items], rule exI [of _ sts],
      rule exI [of _ trb], intro conjI impI)
  qed (use a(5) d(1-3) l(1,3) owner_sts_owned [OF l(4) a(6)] owner_sts_extends [OF l(4)]
      decide_budget [OF dec assms(2) _ l(1,2) d(1,4), unfolded findLock_frame] in \<open>simp_all add: l(2) split: if_splits\<close>)
  with that a(1-4) d(4,5) show ?thesis by simp
qed

lemma locked_label:
  assumes "locked_eviction E tr st r override p cfg ownerRef = (Ok (resp, ''allowed''), st', tr')"
  shows "adm_allowed resp"
  using assms by (auto simp: locked_eviction_alt dest: decide_label split: prod.splits res.splits if_splits)

lemma handle_label:
  assumes "HandlePodEvictionRequest E tr st ar override = (Ok (resp, ''allowed''), st', tr')"
  shows "adm_allowed resp"
  using assms by (auto simp: HandlePodEvictionRequest_def dest: locked_label
      split: option.splits prod.splits res.splits if_splits)

section \<open>A request only reads the cluster\<close>

lemma decide_quiet:
  assumes "decide_eviction E tr st r cfg p sts items m = (q, st', tr')"
  shows "quiet tr tr'"
  using assms
  by (auto simp: decide_eviction_def Let_def intro: quiet_snocI dest!: zone.run_validator_quiet parti.run_validator_quiet
      split: if_splits res.splits prod.splits verdict.splits)

lemma owner_sts_quiet: "owner_sts E tr p orf related = (q, tr') \<Longrightarrow> quiet tr tr'"
  by (auto simp: owner_sts_def split: option.splits)

lemma locked_quiet:
  assumes "locked_eviction E tr st r ov p cfg orf = (q, st', tr')"
  shows "quiet tr tr'"
proof -
  let ?tr1 = "tr @ [EvListStatefulSetsAPI (pod_namespace p)]"
  obtain listRes where l: "findRelatedStatefulSets E tr (pod_namespace p) (cfg_selector cfg) = (listRes, ?tr1)"
    by (simp add: findRelatedStatefulSets_def)
  obtain q1 tr2 where own: "owner_sts E ?tr1 p orf (case listRes of Ok items \<Rightarrow> Some items | _ \<Rightarrow> None) = (q1, tr2)"
    by fastforce
  have "quiet tr tr2" by (rule quiet_trans [OF _ owner_sts_quiet [OF own]]) simp
  moreover have "quiet tr2 tr'"
    using assms l own by (auto simp: locked_eviction_def Let_def dest: decide_quiet split: res.splits if_splits)
  ultimately show ?thesis by (rule quiet_trans)
qed

lemma handle_quiet:
  assumes "HandlePodEvictionRequest E tr st ar ov = (q, st', tr')"
  shows "quiet tr tr'"
proof (cases "tr' = tr \<or> tr' = tr @ [EvListPods]")
  case False
  then obtain r where r: "ar = Some r"
    and rest: "tr' = tr @ [EvListPods, EvGetPod (er_namespace r) (er_name r)] \<or>
      (\<exists>st1 p cfg orf. locked_eviction E (tr @ [EvListPods, EvGetPod (er_namespace r) (er_name r)]) st1 r ov p cfg orf = (q, st', tr'))"
    using assms
    by (auto simp: HandlePodEvictionRequest_def cached_pod_def podByName_def
        split: option.splits res.splits prod.splits if_splits reply.splits)
  have "quiet tr (tr @ [EvListPods, EvGetPod (er_namespace r) (er_name r)])"
    by (simp add: quiet_def)
  with rest show ?thesis using locked_quiet quiet_trans by blast
qed auto

lemma MarkPodAsDeleted_quiet: "MarkPodAsDeleted E tr st ns n src ov = (q, st', tr') \<Longrightarrow> quiet tr tr'"
  by (auto simp: MarkPodAsDeleted_def dest!: handle_quiet split: prod.splits res.splits)

text \<open>
  What an approval by \<^const>\<open>MarkPodAsDeleted\<close> rests on, for the configurations \<open>configs\<close> and the recorded evictions \<open>cache\<close> at
  the time: the pod is outside every configuration's scope, or it no longer counts (not started, finished or
  terminating), and then nothing is recorded; or the budget of its configuration was met (\<^const>\<open>budget_decision\<close>) and \<open>cache'\<close>
  has the eviction recorded at the time of the decision.
\<close>

definition eviction_approved :: "env \<Rightarrow> config_cache \<Rightarrow> evict_cache \<Rightarrow> trace \<Rightarrow> evict_cache \<Rightarrow> trace \<Rightarrow> string \<Rightarrow> string
    \<Rightarrow> MaxUnavailableZeroOverride \<Rightarrow> bool" where
  "eviction_approved E configs cache tr cache' tr' ns n override \<longleftrightarrow>
     (cache' = cache \<and>
        (\<exists>p. (fst (cached_pod E tr ns n) = Some p \<or> e_get_pod E (tr @ [EvListPods]) ns n = Reply p) \<and>
             config_find configs p = Ok None)) \<or>
     (cache' = cache \<and> (\<exists>p. e_get_pod E (tr @ [EvListPods]) ns n = Reply p \<and> canIgnorePDBForPod p)) \<or>
     (\<exists>p tr2. e_get_pod E (tr @ [EvListPods]) ns n = Reply p \<and>
        budget_decision E configs cache (tr @ [EvListPods, EvGetPod ns n]) tr2 p override \<and>
        tr' = tr2 @ [EvNow] \<and> cache' = recordEviction cache (e_now E tr2) p)"

lemma handle_approved:
  assumes h: "HandlePodEvictionRequest E tr st (Some r) override = (Ok (resp, lbl), st', tr')" and ok: "adm_allowed resp"
  shows "eviction_approved E (zp_configs st) (zp_evictions st) tr (zp_evictions st') tr' (er_namespace r) (er_name r) override"
proof -
  from h show ?thesis
  proof (cases rule: handle_elim)
    case (locked p cfg orf)
    have lbl: "lbl = ''allowed''" using locked(5) ok by (rule locked_allowed) (use ok in \<open>blast dest: decide_label\<close>)
    obtain ra pa tr2 where b: "Some r = Some ra" "e_get_pod E (tr @ [EvListPods]) (er_namespace ra) (er_name ra) = Reply pa"
      "budget_decision E (zp_configs st) (zp_evictions st) (tr @ [EvListPods, EvGetPod (er_namespace ra) (er_name ra)]) tr2 pa override"
      "tr' = tr2 @ [EvNow]" "zp_evictions st' = recordEviction (zp_evictions st) (e_now E tr2) pa"
      by (rule handle_budget [OF h [unfolded lbl] ok])
    then show ?thesis unfolding eviction_approved_def by blast
  qed (use ok in \<open>auto simp: eviction_approved_def denyWithReason_def\<close>)
qed

lemma handle_refused:
  assumes h: "HandlePodEvictionRequest E tr st (Some r) override = (q, st', tr')"
    and no: "\<not> (\<exists>resp l. q = Ok (resp, l) \<and> adm_allowed resp)"
  shows "zp_evictions st' = zp_evictions st \<and> zp_configs st' = zp_configs st"
proof -
  have dec: "zp_evictions s1 = zp_evictions s \<and> zp_configs s1 = zp_configs s"
    if "decide_eviction E t s ra cfg p sts items m = (q, s1, t1)" for t s ra cfg p sts items m s1 t1
    using that no by (auto simp: decide_eviction_def allow_def Let_def split: if_splits res.splits prod.splits verdict.splits)
  have loc: "zp_evictions s1 = zp_evictions s \<and> zp_configs s1 = zp_configs s"
    if "locked_eviction E t s ra ov p cfg orf = (q, s1, t1)" for t s ra ov p cfg orf s1 t1
    using that dec by (auto simp: locked_eviction_alt split: prod.splits res.splits if_splits)
  from h show ?thesis
    by (cases rule: handle_elim) (auto dest: loc)
qed

lemma mark_elim:
  assumes "MarkPodAsDeleted E tr st ns n src ov = (q, st', tr')"
  obtains (approved) resp lbl where "q = Ok ()" and "adm_allowed resp"
      and "HandlePodEvictionRequest E tr st (Some (internal_request ns n)) ov = (Ok (resp, lbl), st', tr')"
  | (refused) o1 where "q \<noteq> Ok ()" and "\<not> (\<exists>resp l. o1 = Ok (resp, l) \<and> adm_allowed resp)"
      and "HandlePodEvictionRequest E tr st (Some (internal_request ns n)) ov = (o1, st', tr')"
  using assms by (auto simp: MarkPodAsDeleted_def split: prod.splits res.splits if_splits)

lemma MarkPodAsDeleted_approved:
  assumes "MarkPodAsDeleted E tr st ns n src ov = (Ok (), st', tr')"
  shows "eviction_approved E (zp_configs st) (zp_evictions st) tr (zp_evictions st') tr' ns n ov"
  using assms by (cases rule: mark_elim) (auto dest: handle_approved simp: internal_request_def)

lemma MarkPodAsDeleted_refused:
  assumes "MarkPodAsDeleted E tr st ns n src ov = (q, st', tr')" and "q \<noteq> Ok ()"
  shows "zp_evictions st' = zp_evictions st \<and> zp_configs st' = zp_configs st"
  using assms by (cases rule: mark_elim) (auto dest: handle_refused)

section \<open>Properties\<close>

text \<open>C3: an eviction that the budget allows keeps within the budget and is recorded. When a request is answered with
  \<^verbatim>\<open>allowed\<close>, the pod that the API server returned for it is in the scope of a configuration; at least two StatefulSets of the
  listing made under the lock match the configuration and the pod's owner is one of them; and at the listings of pods made
  during the request, with the evictions recorded before it: without partitions, every other zone
  had no disrupted and no missing pod, and the pod's own zone had fewer than the allowed number
  (not counting the pod itself); with partitions, the disruption of the pod's partition over all other
  zones was below the allowed number. A pod whose earlier eviction is still pending counts as disrupted. The
  state afterwards differs in the recorded eviction of the pod, which is pending for two minutes from the clock reading that
  ends the request.\<close>

theorem allowed_eviction_within_budget:
  assumes "HandlePodEvictionRequest E tr st (Some r) override = (Ok (resp, ''allowed''), st', tr')"
  shows "\<exists>p tr2. e_get_pod E (tr @ [EvListPods]) (er_namespace r) (er_name r) = Reply p \<and>
    budget_decision E (zp_configs st) (zp_evictions st) (tr @ [EvListPods, EvGetPod (er_namespace r) (er_name r)]) tr2 p override \<and>
    tr' = tr2 @ [EvNow] \<and> zp_configs st' = zp_configs st \<and>
    zp_evictions st' = recordEviction (zp_evictions st) (e_now E tr2) p \<and>
    (\<forall>now < e_now E tr2 + 2 * minute. hasPendingEviction (zp_evictions st') now p)"
proof (rule handle_budget [OF assms handle_label [OF assms]])
  fix ra p tr2
  assume b: "Some r = Some ra" "e_get_pod E (tr @ [EvListPods]) (er_namespace ra) (er_name ra) = Reply p"
    "budget_decision E (zp_configs st) (zp_evictions st) (tr @ [EvListPods, EvGetPod (er_namespace ra) (er_name ra)]) tr2 p override"
    "tr' = tr2 @ [EvNow]" "zp_evictions st' = recordEviction (zp_evictions st) (e_now E tr2) p" "zp_configs st' = zp_configs st"
  then show ?thesis
    by (intro exI [of _ p] exI [of _ tr2]) (auto simp: ec.pending_rec cacheExpiry_def)
qed

text \<open>C5: no second zone while an eviction is pending. After the eviction of pod \<open>p1\<close> of StatefulSet \<open>s1\<close> was
  allowed, and while the API server still shows \<open>p1\<close> and \<open>s1\<close>, a request for a pod of another
  StatefulSet that a configuration without partitions puts in the same group as \<open>s1\<close> is not allowed by the budget during
  the two minutes after the first decision, even though \<open>p1\<close> still looks ready. (The API server gives
  every StatefulSet its own UID and resolves a name to the StatefulSet of that name.)\<close>

theorem no_second_zone_while_pending:
  assumes "HandlePodEvictionRequest E1 tr st (Some r1) ov1 = (Ok (resp1, ''allowed''), st1, tr1)"
    and "HandlePodEvictionRequest E2 tr2 st1 (Some r2) ov2 = (Ok (resp2, lbl2), st2, tr3)"
    and "\<forall>t. e_get_pod E1 t (er_namespace r1) (er_name r1) = Reply p1"
    and "\<forall>t. e_get_pod E2 t (er_namespace r2) (er_name r2) = Reply p2"
    and "pod_uid p1 \<noteq> pod_uid p2" and "statefulSetOwnerReference p2 = Ok owner2" and "or_name owner2 \<noteq> sts_name s1"
    and "\<forall>t t'. e_now E2 t < e_now E1 t' + 2 * minute"
    and "\<forall>t. \<exists>items. e_list_sts E2 t (pod_namespace p2) = Reply items \<and> s1 \<in> set items"
    and "\<forall>t. \<exists>pods. e_list_pods E2 t (sts_namespace s1) = Reply pods \<and> p1 \<in> set (sts_pods s1 pods)"
    and "\<forall>c\<in>snd ` set (zp_configs st). matchesPod c p2 \<longrightarrow> cfg_podNamePartition c = None \<and> sel_matches (cfg_selector c) (sts_labels s1)"
    and "\<forall>t ns items. e_list_sts E1 t ns = Reply items \<or> e_list_sts E2 t ns = Reply items \<longrightarrow> distinct (map sts_uid items)"
    and "\<forall>t ns n s. e_get_sts E2 t ns n = Reply s \<and> sts_uid s = sts_uid s1 \<longrightarrow> n = sts_name s1"
  shows "lbl2 \<noteq> ''allowed''"
proof
  assume lbl: "lbl2 = ''allowed''"
  have u2: "distinct_uids E2" using assms(12) unfolding distinct_uids_def by blast
  obtain t1 where ev1: "zp_evictions st1 = recordEviction (zp_evictions st) (e_now E1 t1) p1"
    and cf1: "zp_configs st1 = zp_configs st"
    by (rule handle_budget [OF assms(1) handle_label [OF assms(1)]]) (use assms(3) in auto)
  note second = assms(2) [unfolded lbl]
  show False
  proof (rule handle_budget [OF second handle_label [OF second]])
    fix r p trb
    assume h: "Some r2 = Some r" "e_get_pod E2 (tr2 @ [EvListPods]) (er_namespace r) (er_name r) = Reply p"
      and "budget_decision E2 (zp_configs st1) (zp_evictions st1) (tr2 @ [EvListPods, EvGetPod (er_namespace r) (er_name r)]) trb p ov2"
    then obtain cfg part all items sts trl tra where b: "config_find (zp_configs st1) p = Ok (Some cfg)" "podPartition cfg p = Ok part"
        "e_list_sts E2 trl (pod_namespace p) = Reply all" "items = filter (\<lambda>s. sel_matches (cfg_selector cfg) (sts_labels s)) all"
        "owned_by E2 (trl @ [EvListStatefulSetsAPI (pod_namespace p)]) p items sts"
      and met: "part = [] \<Longrightarrow> zone_budget_met E2 (zp_evictions st1) p sts items (effective_max cfg sts ov2) tra trb"
      unfolding budget_decision_def using u2 by (elim exE conjE) (metis (full_types))
    have p: "p = p2" using h assms(4) by simp
    have cfg: "cfg_podNamePartition cfg = None" "sel_matches (cfg_selector cfg) (sts_labels s1)"
      using config_find_Some [OF b(1)] assms(11) cf1 p by auto
    then have part: "part = []" using b(2) by (simp add: podPartition_def)
    have "s1 \<in> set all" using b(3) assms(9) p by (metis reply.inject(1))
    then have s1: "s1 \<in> set items" using b(4) cfg(2) by simp
    have "distinct (map sts_uid items)" using u2 b(3,4) unfolding distinct_uids_def by (metis distinct_map_filter)
    moreover have "sts_name sts \<noteq> sts_name s1 \<and> sts \<in> set items \<or> sts_uid sts \<noteq> sts_uid s1"
      using b(5) p assms(6,7,13) unfolding owned_by_def by (metis res.inject(1))
    ultimately have other: "sts_uid s1 \<noteq> sts_uid sts" using s1 by (auto simp: distinct_map inj_on_def)
    have "disruption_within E2 (zp_evictions st1) (\<lambda>_. True) (\<lambda>_ _. False) p2 tra trb s1 0"
      using met [OF part] s1 other p by (auto simp: zone_budget_met_def)
    then obtain trs pods where pods: "e_list_pods E2 trs (sts_namespace s1) = Reply pods"
      and none: "int (length (filter (disrupted E2 (zp_evictions st1) (\<lambda>_. True) (\<lambda>_ _. False) trs trb p2) (sts_pods s1 pods)))
        + max 0 (zpdb_replicas s1 - int (length (sts_pods s1 pods))) \<le> 0"
      unfolding disruption_within_def by blast
    have p1: "p1 \<in> set (sts_pods s1 pods)" using assms(10) pods by (metis reply.inject(1))
    have "disrupted E2 (zp_evictions st1) (\<lambda>_. True) (\<lambda>_ _. False) trs trb p2 p1"
      using assms(5,8) ev1 by (auto simp: disrupted_def ec.pending_rec cacheExpiry_def)
    then have "filter (disrupted E2 (zp_evictions st1) (\<lambda>_. True) (\<lambda>_ _. False) trs trb p2) (sts_pods s1 pods) \<noteq> []"
      using p1 by (auto simp: filter_empty_conv)
    with none show False by (auto simp flip: length_greater_0_conv)
  qed
qed

text \<open>C21: what the rollout controller knows after \<^verbatim>\<open>MarkPodAsDeleted\<close> returns without error. Either the
  decision was taken without the budget and the state is unchanged: the pod, as cached or as the API server returned it, is in no
  configuration's scope, or the pod that was returned is pending, finished or terminating. Or the pod that was returned has been
  recorded: it counts as unavailable exactly until two minutes after the clock reading that ends the request. A pod that is
  refused leaves the recorded evictions unchanged.\<close>

theorem mark_pod_as_deleted_outcome:
  assumes "MarkPodAsDeleted E tr st namespace podName source override = (r, st', tr')"
  shows "(r = Ok () \<longrightarrow>
            (st' = st \<and> (\<exists>p. (fst (cached_pod E tr namespace podName) = Some p \<or>
                 e_get_pod E (tr @ [EvListPods]) namespace podName = Reply p) \<and> config_find (zp_configs st) p = Ok None)) \<or>
            (st' = st \<and> (\<exists>p. e_get_pod E (tr @ [EvListPods]) namespace podName = Reply p \<and> canIgnorePDBForPod p)) \<or>
            (\<exists>p t. e_get_pod E (tr @ [EvListPods]) namespace podName = Reply p \<and> \<not> canIgnorePDBForPod p \<and> tr' = t @ [EvNow] \<and>
                 (\<forall>now. hasPendingEviction (zp_evictions st') now p \<longleftrightarrow> now < e_now E t + 2 * minute))) \<and>
         (r \<noteq> Ok () \<longrightarrow> zp_evictions st' = zp_evictions st) \<and> zp_configs st' = zp_configs st"
  using assms
proof (cases rule: mark_elim)
  case (approved resp lbl)
  have ns: "er_namespace (internal_request namespace podName) = namespace" "er_name (internal_request namespace podName) = podName"
    by (simp_all add: internal_request_def)
  from approved(3) show ?thesis
  proof (cases rule: handle_elim)
    case (locked p cfg orf)
    have lbl: "lbl = ''allowed''"
      using locked(5) approved(2) by (rule locked_allowed) (use approved(2) in \<open>blast dest: decide_label\<close>)
    show ?thesis
    proof (rule handle_budget [OF approved(3) [unfolded lbl] approved(2)])
      fix r1 p1 t assume "Some (internal_request namespace podName) = Some r1" "\<not> canIgnorePDBForPod p1"
        "e_get_pod E (tr @ [EvListPods]) (er_namespace r1) (er_name r1) = Reply p1" "tr' = t @ [EvNow]"
        "zp_evictions st' = recordEviction (zp_evictions st) (e_now E t) p1" "zp_configs st' = zp_configs st"
      with approved(1) ns show ?thesis by (auto simp: ec.pending_rec cacheExpiry_def)
    qed
  qed (use approved(1,2) ns in \<open>auto simp: denyWithReason_def\<close>)
next
  case (refused o1)
  with handle_refused [OF refused(3,2)] show ?thesis by simp
qed

lemma decide_no_panic:
  assumes "0 \<le> cfg_podNamePartitionRegexGroup cfg" and "\<forall>s\<in>set items. IsLabelValue (mget (sts_template_labels s) ''name'')"
  shows "\<exists>w st' tr'. decide_eviction E tr st r cfg p sts items m = (Ok w, st', tr')"
proof (cases "1 < length items \<and> sts_uid sts \<in> sts_uid ` set items")
  case True
  show ?thesis
  proof (cases "podPartition cfg p")
    case (Ok part)
    obtain w1 t1 where "run_validator zone_ops E (zp_evictions st) tr p (newValidatorZoneAware sts (length items)) items m = (Ok w1, t1)"
      using zone_run_no_panic [OF _ assms(2)] True by blast
    moreover obtain w2 t2 where "run_validator partition_ops E (zp_evictions st) tr p
        (newValidatorPartitionAware sts part (length items) cfg) items m = (Ok w2, t2)"
      using partition_run_no_panic [OF assms] by blast
    ultimately show ?thesis using True Ok
      by (cases w1; cases w2) (simp_all add: decide_eviction_def Let_def)
  qed (use True podPartition_total [OF assms(1), of p] in \<open>auto simp: decide_eviction_def\<close>)
qed (auto simp: decide_eviction_def)

text \<open>C22: the eviction handler answers, under two conditions. If the review carries a request, no cached configuration has a negative
  regex group (one is accepted by the parser and makes the handler panic), and the \<^verbatim>\<open>name\<close> label in the pod template of every
  listed StatefulSet is a valid label value (as the API server enforces), then the handler returns a
  response on every path, with the UID of the request: it does not panic (in particular the
  zone-aware validator never dereferences a missing result) and it returns no error in place of a response.\<close>

theorem eviction_handler_answers:
  assumes "\<forall>c\<in>snd ` set (zp_configs st). 0 \<le> cfg_podNamePartitionRegexGroup c"
    and "\<forall>t ns items. e_list_sts E t ns = Reply items \<longrightarrow>
           (\<forall>s\<in>set items. IsLabelValue (mget (sts_template_labels s) ''name''))"
  shows "\<exists>resp lbl st' tr'. HandlePodEvictionRequest E tr st (Some r) override = (Ok (resp, lbl), st', tr') \<and>
           adm_uid resp = er_uid r"
proof -
  have dec: "\<exists>resp lbl st' tr'. decide_eviction E t s r cfg p sts items m = (Ok (resp, lbl), st', tr')"
    if "0 \<le> cfg_podNamePartitionRegexGroup cfg" "\<forall>s\<in>set items. IsLabelValue (mget (sts_template_labels s) ''name'')"
    for t s cfg p sts items m
    using decide_no_panic [OF that, of E t s r p sts m] by auto
  have loc: "\<exists>resp lbl st' tr'. locked_eviction E t s r override p cfg orf = (Ok (resp, lbl), st', tr')"
    if g: "0 \<le> cfg_podNamePartitionRegexGroup cfg" for t s p cfg orf
  proof -
    obtain lr t1 where f: "findRelatedStatefulSets E t (pod_namespace p) (cfg_selector cfg) = (lr, t1)" by fastforce
    obtain q t2 where o: "owner_sts E t1 p orf (case lr of Ok items \<Rightarrow> Some items | _ \<Rightarrow> None) = (q, t2)" by fastforce
    have q: "\<forall>m. q \<noteq> Panic m" using o by (auto simp: owner_sts_def split: option.splits reply.splits)
    have lr: "\<forall>items. lr = Ok items \<longrightarrow> (\<forall>s\<in>set items. IsLabelValue (mget (sts_template_labels s) ''name''))"
      using f assms(2) by (fastforce simp: findRelatedStatefulSets_def split: reply.splits)
    show ?thesis using f o q lr dec [OF g] by (cases q; cases lr) (auto simp: locked_eviction_alt)
  qed
  obtain x st' tr' where x: "HandlePodEvictionRequest E tr st (Some r) override = (x, st', tr')"
    by (cases "HandlePodEvictionRequest E tr st (Some r) override")
  then have "\<exists>resp lbl. x = Ok (resp, lbl)"
  proof (cases rule: handle_elim)
    case (locked p cfg orf)
    then show ?thesis using loc config_find_Some [OF locked(3)] assms(1) by (metis prod.inject)
  qed auto
  with x have "\<exists>resp lbl st' tr'. HandlePodEvictionRequest E tr st (Some r) override = (Ok (resp, lbl), st', tr')" by blast
  then obtain resp lbl st' tr' where h: "HandlePodEvictionRequest E tr st (Some r) override = (Ok (resp, lbl), st', tr')"
    by blast
  have "adm_uid resp = er_uid r" using h by (rule handle_uid)
  with h show ?thesis by blast
qed

text \<open>Two zones of one pod each, one configuration, and a clock that stands still during a request.\<close>

definition demo_zone :: "string \<Rightarrow> statefulset" where
  "demo_zone n = (demo_sts n 1 Map.empty)\<lparr>sts_uid := n\<rparr>"

definition demo_cluster :: "instant \<Rightarrow> env" where
  "demo_cluster t = steady_env t [demo_zone ''zone-a'', demo_zone ''zone-b'']
     [demo_pod ''zone-a'' ''zone-a-0'', demo_pod ''zone-b'' ''zone-b-0'']"

definition demo_zpdb :: zpdb_state where
  "demo_zpdb = \<lparr>zp_configs = [(''ingester'', demo_cfg ''ingester'' 3)], zp_evictions = newPodEvictionCache, zp_locks = []\<rparr>"

lemmas demo_eviction_eval =
  HandlePodEvictionRequest_def validate_request_def internal_request_def cached_pod_def podByName_def
  canIgnorePDBForPod_def statefulSetOwnerReference_def GetControllerOf_def config_find_def matchesPod_def sel_matches_def
  locked_eviction_def findRelatedStatefulSets_def owner_sts_def decide_eviction_def podPartition_def maxUnavailablePods_def
  run_validator_def podsNotRunningAndReady_def name_requirement zone_ops_def zone_accumulateResult_def zone_validate_def
  zone_isReady_def pending_now_def IsPodRunningAndReady_def newValidatorZoneAware_def zpdb_replicas_def
  demo_cluster_def demo_zpdb_def demo_zone_def demo_sts_def demo_pod_def demo_cfg_def newPodEvictionCache_def
  PodRunning_def PodSucceeded_def PodFailed_def PodPending_def config_keys findLock_def Let_def
  NewMaxUnavailableZeroOverrideNone_def hasPendingEviction_def hasPendingEvictionWithGeneration_def recordEviction_def
  cacheExpiry_def ControllerRevisionHashLabelKey_def

lemma demo_label: "IsLabelValue ''zone-a''" "IsLabelValue ''zone-b''"
  by (simp_all add: IsLabelValue_def matches_label_fmt_def is_label_ext_def is_alnum_def is_lower_def)

lemma demo_first:
  "\<exists>st1 tr1. HandlePodEvictionRequest (demo_cluster 0) [] demo_zpdb (Some (internal_request ''ns'' ''zone-a-0''))
      NewMaxUnavailableZeroOverrideNone = (Ok (allow (internal_request ''ns'' ''zone-a-0''), ''allowed''), st1, tr1) \<and>
      st1 = demo_zpdb\<lparr>zp_evictions := recordEviction newPodEvictionCache 0 (demo_pod ''zone-a'' ''zone-a-0''), zp_locks := [''ingester'']\<rparr>"
  by (simp add: demo_eviction_eval demo_label)

lemma demo_second:
  assumes "zp_configs st1 = zp_configs demo_zpdb"
    and "zp_evictions st1 = recordEviction newPodEvictionCache 0 (demo_pod ''zone-a'' ''zone-a-0'')"
  shows "\<exists>resp st2 tr2. HandlePodEvictionRequest (demo_cluster minute) [] st1 (Some (internal_request ''ns'' ''zone-b-0''))
      NewMaxUnavailableZeroOverrideNone = (Ok (resp, ''denied''), st2, tr2)"
  using assms by (simp add: demo_eviction_eval demo_label minute_def second_def)

lemma demo_uids: "e_list_sts (demo_cluster t) tr ns = Reply items \<longrightarrow> distinct (map sts_uid items)"
  by (auto simp: demo_cluster_def demo_zone_def demo_sts_def)

theorem allowed_eviction_within_budget_witness:
  "\<exists>tr2. budget_decision (demo_cluster 0) (zp_configs demo_zpdb) newPodEvictionCache
       [EvListPods, EvGetPod ''ns'' ''zone-a-0''] tr2 (demo_pod ''zone-a'' ''zone-a-0'') NewMaxUnavailableZeroOverrideNone \<and>
     HandlePodEvictionRequest (demo_cluster 0) [] demo_zpdb (Some (internal_request ''ns'' ''zone-a-0'')) NewMaxUnavailableZeroOverrideNone
       = (Ok (allow (internal_request ''ns'' ''zone-a-0''), ''allowed''),
          demo_zpdb\<lparr>zp_evictions := recordEviction newPodEvictionCache 0 (demo_pod ''zone-a'' ''zone-a-0''), zp_locks := [''ingester'']\<rparr>,
          tr2 @ [EvNow])"
proof -
  obtain st1 tr1 where h: "HandlePodEvictionRequest (demo_cluster 0) [] demo_zpdb (Some (internal_request ''ns'' ''zone-a-0''))
      NewMaxUnavailableZeroOverrideNone = (Ok (allow (internal_request ''ns'' ''zone-a-0''), ''allowed''), st1, tr1)"
    and st1: "st1 = demo_zpdb\<lparr>zp_evictions := recordEviction newPodEvictionCache 0 (demo_pod ''zone-a'' ''zone-a-0''), zp_locks := [''ingester'']\<rparr>"
    using demo_first by blast
  have p: "e_get_pod (demo_cluster 0) t ''ns'' ''zone-a-0'' = Reply (demo_pod ''zone-a'' ''zone-a-0'')" for t
    by (simp add: demo_cluster_def demo_pod_def)
  from allowed_eviction_within_budget [OF h] h p st1 show ?thesis
    by (auto simp: internal_request_def demo_zpdb_def)
qed

theorem no_second_zone_while_pending_witness:
  "\<exists>st1 tr1 resp2 lbl2 st2 tr2.
     HandlePodEvictionRequest (demo_cluster 0) [] demo_zpdb (Some (internal_request ''ns'' ''zone-a-0''))
       NewMaxUnavailableZeroOverrideNone = (Ok (allow (internal_request ''ns'' ''zone-a-0''), ''allowed''), st1, tr1) \<and>
     HandlePodEvictionRequest (demo_cluster minute) [] st1 (Some (internal_request ''ns'' ''zone-b-0''))
       NewMaxUnavailableZeroOverrideNone = (Ok (resp2, lbl2), st2, tr2) \<and> lbl2 \<noteq> ''allowed''"
proof -
  obtain st1 tr1 where f: "HandlePodEvictionRequest (demo_cluster 0) [] demo_zpdb (Some (internal_request ''ns'' ''zone-a-0''))
      NewMaxUnavailableZeroOverrideNone = (Ok (allow (internal_request ''ns'' ''zone-a-0''), ''allowed''), st1, tr1)"
    and st1: "zp_configs st1 = zp_configs demo_zpdb"
      "zp_evictions st1 = recordEviction newPodEvictionCache 0 (demo_pod ''zone-a'' ''zone-a-0'')"
    using demo_first by auto
  obtain resp2 lbl2 st2 tr2 where s: "HandlePodEvictionRequest (demo_cluster minute) [] st1 (Some (internal_request ''ns'' ''zone-b-0''))
      NewMaxUnavailableZeroOverrideNone = (Ok (resp2, lbl2), st2, tr2)"
    using demo_second [OF st1] by blast
  have "lbl2 \<noteq> ''allowed''"
    by (rule no_second_zone_while_pending [OF f s, where ?p1.0 = "demo_pod ''zone-a'' ''zone-a-0''" and ?p2.0 = "demo_pod ''zone-b'' ''zone-b-0''"
          and ?s1.0 = "demo_zone ''zone-a''" and ?owner2.0 = "\<lparr>or_kind = ''StatefulSet'', or_name = ''zone-b'', or_controller = Some True\<rparr>"])
       (use demo_uids in \<open>auto simp: demo_cluster_def internal_request_def demo_pod_def demo_zone_def demo_sts_def demo_zpdb_def
          demo_cfg_def statefulSetOwnerReference_def GetControllerOf_def minute_def second_def sts_pods_def sel_matches_def config_keys ControllerRevisionHashLabelKey_def
          split: if_splits\<close>)
  with f s show ?thesis by blast
qed

theorem mark_pod_as_deleted_outcome_witness:
  "\<exists>st' tr'. MarkPodAsDeleted (demo_cluster 0) [] demo_zpdb ''ns'' ''zone-a-0'' ''rollout-controller''
       NewMaxUnavailableZeroOverrideNone = (Ok (), st', tr') \<and>
     hasPendingEviction (zp_evictions st') minute (demo_pod ''zone-a'' ''zone-a-0'') \<and> zp_configs st' = zp_configs demo_zpdb"
proof -
  obtain st1 tr1 where "HandlePodEvictionRequest (demo_cluster 0) [] demo_zpdb (Some (internal_request ''ns'' ''zone-a-0''))
      NewMaxUnavailableZeroOverrideNone = (Ok (allow (internal_request ''ns'' ''zone-a-0''), ''allowed''), st1, tr1)"
    and st1: "st1 = demo_zpdb\<lparr>zp_evictions := recordEviction newPodEvictionCache 0 (demo_pod ''zone-a'' ''zone-a-0''), zp_locks := [''ingester'']\<rparr>"
    using demo_first by blast
  then have m: "MarkPodAsDeleted (demo_cluster 0) [] demo_zpdb ''ns'' ''zone-a-0'' ''rollout-controller''
       NewMaxUnavailableZeroOverrideNone = (Ok (), st1, tr1)"
    by (simp add: MarkPodAsDeleted_def allow_def)
  have "hasPendingEviction (zp_evictions st1) minute (demo_pod ''zone-a'' ''zone-a-0'')"
    by (simp add: st1 ec.pending_rec cacheExpiry_def minute_def second_def)
  with mark_pod_as_deleted_outcome [OF m] m show ?thesis by blast
qed

theorem eviction_handler_answers_witness:
  "\<exists>resp lbl st' tr'. HandlePodEvictionRequest (demo_cluster 0) [] demo_zpdb (Some (internal_request ''ns'' ''zone-a-0''))
     NewMaxUnavailableZeroOverrideNone = (Ok (resp, lbl), st', tr') \<and> adm_uid resp = er_uid (internal_request ''ns'' ''zone-a-0'')"
  by (rule eviction_handler_answers)
     (auto simp: demo_zpdb_def demo_cfg_def demo_cluster_def demo_zone_def demo_sts_def demo_label)

end
