(* ===== verification/RolloutPods.thy ===== *)
theory RolloutPods
  imports ReplicaAdjust ZpdbEviction "HOL-Library.Sublist"
begin

text \<open>
  The part of \<^verbatim>\<open>pkg/controller/controller.go\<close> that looks at and deletes the pods of one StatefulSet:
  readiness of a StatefulSet, the pods that do not run the update revision, and
  \<^verbatim>\<open>updateStatefulSetPods\<close>. The eviction controller is used through the Go interface
  \<^verbatim>\<open>ZPDBEvictionController\<close>, a record of operations here; its contract is the locale \<open>zpdb_controller\<close>.
\<close>

section \<open>The interface of the eviction controller\<close>

text \<open>An operation may read the trace: between two calls other requests may have changed the state.\<close>

record 'z ZPDBEvictionController =
  zc_MarkPodAsDeleted :: "trace \<Rightarrow> 'z \<Rightarrow> string \<Rightarrow> string \<Rightarrow> string \<Rightarrow> MaxUnavailableZeroOverride
                            \<Rightarrow> unit res \<times> 'z \<times> trace"
  zc_HasPartitionAwarePdb :: "trace \<Rightarrow> 'z \<Rightarrow> pod \<Rightarrow> bool res"

section \<open>Pods of a StatefulSet\<close>

definition expectedReplicas :: "statefulset \<Rightarrow> int" where
  "expectedReplicas sts =
     (case sts_replicas sts of
        None \<Rightarrow> sts_status_replicas sts
      | Some n \<Rightarrow> max n (sts_status_replicas sts))"

definition notRunningAndReady :: "pod list \<Rightarrow> pod list" where
  "notRunningAndReady pods = SortPods (filter (\<lambda>p. \<not> IsPodRunningAndReady p) pods)"

text \<open>The lister returns the pods of the operator's namespace that match the selector.\<close>

definition listPods :: "env \<Rightarrow> string \<Rightarrow> trace \<Rightarrow> selector \<Rightarrow> pod list res \<times> trace" where
  "listPods E namespace tr sel =
     ((case e_pod_lister E tr of
         Error e \<Rightarrow> Fail (wrapf ''failed to list Pods: '' e)
       | Reply pods \<Rightarrow> Ok (filter (\<lambda>p. pod_namespace p = namespace \<and> sel_matches sel (pod_labels p)) pods)),
      tr @ [EvListPods])"

definition listPodsByStatefulSet :: "env \<Rightarrow> string \<Rightarrow> trace \<Rightarrow> statefulset \<Rightarrow> pod list res \<times> trace" where
  "listPodsByStatefulSet E namespace tr sts =
     (case MustNewLabelsRequirement ''name'' Equals [mget (sts_template_labels sts) ''name''] of
        Fail e \<Rightarrow> (Fail e, tr)
      | Panic m \<Rightarrow> (Panic m, tr)
      | Ok req \<Rightarrow> listPods E namespace tr [req])"

definition hasStatefulSetNotReadyPods :: "env \<Rightarrow> string \<Rightarrow> trace \<Rightarrow> statefulset \<Rightarrow> bool res \<times> trace" where
  "hasStatefulSetNotReadyPods E namespace tr sts =
     (if expectedReplicas sts \<noteq> sts_ready_replicas sts then (Ok True, tr)
      else
        (case listPodsByStatefulSet E namespace tr sts of
           (Fail e, tr1) \<Rightarrow> (Fail e, tr1)
         | (Panic m, tr1) \<Rightarrow> (Panic m, tr1)
         | (Ok pods, tr1) \<Rightarrow>
             if int (length pods) < expectedReplicas sts then (Ok True, tr1)
             else if notRunningAndReady pods = [] then (Ok False, tr1)
             else (Ok True, tr1)))"

definition stuckContainerWaitingReasons :: "string list" where
  "stuckContainerWaitingReasons =
     [''CrashLoopBackOff'', ''ImagePullBackOff'', ''ErrImagePull'', ''InvalidImageName'',
      ''CreateContainerConfigError'', ''CreateContainerError'']"

definition isPodStuck :: "pod \<Rightarrow> bool" where
  "isPodStuck p \<longleftrightarrow>
     list_ex (\<lambda>c. case cs_waiting c of
                    None \<Rightarrow> False
                  | Some reason \<Rightarrow> reason \<in> set stuckContainerWaitingReasons)
       (pod_init_statuses p @ pod_statuses p)"

definition podsNotMatchingUpdateRevision ::
    "env \<Rightarrow> string \<Rightarrow> trace \<Rightarrow> statefulset \<Rightarrow> pod list res \<times> trace" where
  "podsNotMatchingUpdateRevision E namespace tr sts =
     (let currRev = sts_current_revision sts; updateRev = sts_update_revision sts in
      if currRev = '''' then (Fail (Err ''currentRevision is empty''), tr)
      else if updateRev = '''' then (Fail (Err ''updateRevision is empty''), tr)
      else
        (case MustNewLabelsRequirement ControllerRevisionHashLabelKey NotEquals [updateRev] of
           Fail e \<Rightarrow> (Fail e, tr)
         | Panic m \<Rightarrow> (Panic m, tr)
         | Ok revReq \<Rightarrow>
             (case MustNewLabelsRequirement ''name'' Equals [mget (sts_template_labels sts) ''name''] of
                Fail e \<Rightarrow> (Fail e, tr)
              | Panic m \<Rightarrow> (Panic m, tr)
              | Ok nameReq \<Rightarrow>
                  (case listPods E namespace tr [revReq, nameReq] of
                     (Ok pods, tr1) \<Rightarrow> (Ok (SortPods pods), tr1)
                   | (Fail e, tr1) \<Rightarrow> (Fail e, tr1)
                   | (Panic m, tr1) \<Rightarrow> (Panic m, tr1)))))"

section \<open>Updating the pods of a StatefulSet\<close>

text \<open>The subtraction of the two \<^verbatim>\<open>int32\<close> values and that of the two \<^verbatim>\<open>int\<close> values may wrap.\<close>

definition numPodsToUpdate :: "statefulset \<Rightarrow> pod list \<Rightarrow> int" where
  "numPodsToUpdate sts podsToUpdate =
     (let numNotReady = wrap32 (expectedReplicas sts - sts_ready_replicas sts)
      in max 0 (min (wrap64 (getMaxUnavailableForStatefulSet sts - numNotReady)) (int (length podsToUpdate))))"

fun selectPodsToDelete :: "int \<Rightarrow> int \<Rightarrow> pod list \<Rightarrow> pod list" where
  "selectPodsToDelete i numPods [] = []"
| "selectPodsToDelete i numPods (p # ps) =
     (if pod_deletion_timestamp p \<noteq> None then selectPodsToDelete (i + 1) numPods ps
      else if i < numPods then p # selectPodsToDelete (i + 1) numPods ps
      else if isPodStuck p then p # selectPodsToDelete (i + 1) numPods ps
      else selectPodsToDelete (i + 1) numPods ps)"

text \<open>The loop that asks the eviction controller and deletes; a denied pod is skipped.\<close>

fun deletePods :: "'z ZPDBEvictionController \<Rightarrow> env \<Rightarrow> MaxUnavailableZeroOverride \<Rightarrow> trace \<Rightarrow> 'z \<Rightarrow> pod list
    \<Rightarrow> unit res \<times> 'z \<times> trace" where
  "deletePods zc E override tr z [] = (Ok (), z, tr)"
| "deletePods zc E override tr z (p # ps) =
     (case zc_MarkPodAsDeleted zc tr z (pod_namespace p) (pod_name p) ''rollout-controller'' override of
        (Panic m, z1, tr1) \<Rightarrow> (Panic m, z1, tr1)
      | (Fail e, z1, tr1) \<Rightarrow> deletePods zc E override tr1 z1 ps
      | (Ok _, z1, tr1) \<Rightarrow>
          (let tr2 = tr1 @ [EvDeletePod (pod_namespace p) (pod_name p)] in
           case e_delete_pod E tr1 (pod_namespace p) (pod_name p) of
             Error e \<Rightarrow> (Fail (wrapf (''failed to delete pod '' @ pod_name p @ '': '') e), z1, tr2)
           | Reply _ \<Rightarrow> deletePods zc E override tr2 z1 ps))"

text \<open>The branch with outdated pods: the boolean result is always \<^verbatim>\<open>true\<close>, the update is ongoing.\<close>

definition updateOutdatedPods :: "'z ZPDBEvictionController \<Rightarrow> env \<Rightarrow> trace \<Rightarrow> 'z \<Rightarrow> statefulset \<Rightarrow> pod list
    \<Rightarrow> bool res \<times> 'z \<times> trace" where
  "updateOutdatedPods zc E tr z sts podsToUpdate =
     (let podsToDelete = selectPodsToDelete 0 (numPodsToUpdate sts podsToUpdate) podsToUpdate in
      case podsToDelete of
        [] \<Rightarrow> (Ok True, z, tr)
      | first # _ \<Rightarrow>
          (case zc_HasPartitionAwarePdb zc tr z first of
             Panic m \<Rightarrow> (Panic m, z, tr)
           | Fail e \<Rightarrow> (Fail (wrapf (''failed to determine pod zpdb configuration '' @ pod_name first @ '': '') e), z, tr)
           | Ok hasPartitionAwarePdb \<Rightarrow>
               (let override = NewMaxUnavailableZeroOverride
                      (if hasPartitionAwarePdb then 1 else getMaxUnavailableForStatefulSet sts)
                in case deletePods zc E override tr z podsToDelete of
                     (Ok _, z1, tr1) \<Rightarrow> (Ok True, z1, tr1)
                   | (Fail e, z1, tr1) \<Rightarrow> (Fail e, z1, tr1)
                   | (Panic m, z1, tr1) \<Rightarrow> (Panic m, z1, tr1))))"

text \<open>
  The branch without outdated pods. When \<^verbatim>\<open>UpdateStatus\<close> fails, the client returns an empty object beside the
  error and the code has already overwritten \<^verbatim>\<open>sts\<close> with it: the error names no StatefulSet.
\<close>

definition finishStatefulSet :: "env \<Rightarrow> string \<Rightarrow> trace \<Rightarrow> statefulset \<Rightarrow> bool res \<times> trace" where
  "finishStatefulSet E namespace tr sts =
     (case hasStatefulSetNotReadyPods E namespace tr sts of
        (Panic m, tr1) \<Rightarrow> (Panic m, tr1)
      | (Fail e, tr1) \<Rightarrow>
          (Fail (wrapf (''unable to check if StatefulSet '' @ sts_name sts @ '' has not ready pods: '') e), tr1)
      | (Ok True, tr1) \<Rightarrow> (Ok True, tr1)
      | (Ok False, tr1) \<Rightarrow>
          if sts_current_revision sts \<noteq> sts_update_revision sts then
            (let sts1 = sts\<lparr>sts_current_revision := sts_update_revision sts\<rparr>;
                 tr2 = tr1 @ [EvUpdateStatus (sts_namespace sts) (sts_name sts) (sts_update_revision sts)]
             in case e_update_status E tr1 sts1 of
                  Error e \<Rightarrow> (Fail (wrapf ''failed to update StatefulSet : '' e), tr2)
                | Reply _ \<Rightarrow> (Ok False, tr2))
          else (Ok False, tr1))"

definition updateStatefulSetPods :: "'z ZPDBEvictionController \<Rightarrow> env \<Rightarrow> string \<Rightarrow> trace \<Rightarrow> 'z \<Rightarrow> statefulset
    \<Rightarrow> bool res \<times> 'z \<times> trace" where
  "updateStatefulSetPods zc E namespace tr z sts =
     (case podsNotMatchingUpdateRevision E namespace tr sts of
        (Panic m, tr1) \<Rightarrow> (Panic m, z, tr1)
      | (Fail e, tr1) \<Rightarrow> (Fail (wrapf ''failed to get pods to update: '' e), z, tr1)
      | (Ok podsToUpdate, tr1) \<Rightarrow>
          if podsToUpdate \<noteq> [] then updateOutdatedPods zc E tr1 z sts podsToUpdate
          else (case finishStatefulSet E namespace tr1 sts of (r, tr2) \<Rightarrow> (r, z, tr2)))"

section \<open>The contract of the eviction controller\<close>

text \<open>
  What the rollout controller relies on. \<open>held z\<close> is what the controller remembers of earlier decisions and \<open>seen tr\<close>
  what its other users have made of that by the point \<open>tr\<close>. Marking a pod neither deletes a pod nor patches replicas; a mark
  without error is an approval of this deletion at this point of the trace, given what was remembered then; a refusal
  adds nothing to it.
\<close>

locale zpdb_controller =
  fixes zc :: "'z ZPDBEvictionController"
    and held :: "'z \<Rightarrow> 'c"
    and seen :: "trace \<Rightarrow> 'c \<Rightarrow> 'c"
    and approved :: "'c \<Rightarrow> trace \<Rightarrow> 'c \<Rightarrow> trace \<Rightarrow> string \<Rightarrow> string \<Rightarrow> MaxUnavailableZeroOverride \<Rightarrow> bool"
  assumes mark_quiet: "zc_MarkPodAsDeleted zc tr z ns n src ov = (r, z', tr') \<Longrightarrow> quiet tr tr'"
    and mark_approved: "zc_MarkPodAsDeleted zc tr z ns n src ov = (Ok (), z', tr') \<Longrightarrow>
      approved (seen tr (held z)) tr (held z') tr' ns n ov"
    and mark_refused: "zc_MarkPodAsDeleted zc tr z ns n src ov = (r, z', tr') \<Longrightarrow> r \<noteq> Ok () \<Longrightarrow> held z' = seen tr (held z)"

text \<open>
  The eviction controller beside its other users. \<open>cfgs\<close> is what the configuration observer has cached at a
  point of the trace, \<open>evs\<close> what other requests and the pod observer have made of the recorded
  evictions by then; both are arbitrary.
\<close>

definition evictionController :: "env \<Rightarrow> (trace \<Rightarrow> config_cache) \<Rightarrow> (trace \<Rightarrow> evict_cache \<Rightarrow> evict_cache)
    \<Rightarrow> zpdb_state ZPDBEvictionController" where
  "evictionController E cfgs evs =
     (let now = (\<lambda>tr st. st\<lparr>zp_configs := cfgs tr, zp_evictions := evs tr (zp_evictions st)\<rparr>)
      in \<lparr>zc_MarkPodAsDeleted = (\<lambda>tr st. MarkPodAsDeleted E tr (now tr st)),
          zc_HasPartitionAwarePdb = (\<lambda>tr st. HasPartitionAwarePdb (now tr st))\<rparr>)"

text \<open>Its approvals, for the configurations cached when the request is made.\<close>

definition budget_approved :: "env \<Rightarrow> (trace \<Rightarrow> config_cache) \<Rightarrow> evict_cache \<Rightarrow> trace \<Rightarrow> evict_cache \<Rightarrow> trace \<Rightarrow> string \<Rightarrow> string
    \<Rightarrow> MaxUnavailableZeroOverride \<Rightarrow> bool" where
  "budget_approved E cfgs cache tr = eviction_approved E (cfgs tr) cache tr"

interpretation ec: zpdb_controller "evictionController E cfgs evs" zp_evictions evs "budget_approved E cfgs"
  for E cfgs evs
  by unfold_locales (auto simp: evictionController_def budget_approved_def dest: MarkPodAsDeleted_quiet MarkPodAsDeleted_refused
      dest!: MarkPodAsDeleted_approved)

section \<open>What an update deletes\<close>

lemma selectPodsToDelete_subseq: "subseq (selectPodsToDelete i n ps) ps"
  by (induction ps arbitrary: i) auto

lemma selectPodsToDelete_live: "p \<in> set (selectPodsToDelete i n ps) \<Longrightarrow> pod_deletion_timestamp p = None"
  by (induction ps arbitrary: i) (auto split: if_splits)

lemma selectPodsToDelete_bound:
  "int (length (filter (\<lambda>p. \<not> isPodStuck p) (selectPodsToDelete i n ps))) \<le> max 0 (n - i)"
proof (induction ps arbitrary: i)
  case (Cons p ps)
  from Cons.IH [of "i + 1"] show ?case by auto
qed simp

definition pod_id :: "pod \<Rightarrow> string \<times> string" where
  "pod_id p = (pod_namespace p, pod_name p)"

text \<open>What the other users make of the remembered decisions \<open>c\<close> from \<open>tr\<close> to \<open>tr'\<close>.\<close>

inductive drift :: "(trace \<Rightarrow> 'c \<Rightarrow> 'c) \<Rightarrow> trace \<Rightarrow> 'c \<Rightarrow> trace \<Rightarrow> 'c \<Rightarrow> bool" for seen where
  drift_stay: "extends tr tr' \<Longrightarrow> drift seen tr c tr' c"
| drift_seen: "extends tr t \<Longrightarrow> drift seen t (seen t c) tr' c' \<Longrightarrow> drift seen tr c tr' c'"

lemma drift_extends: "drift seen tr c tr' c' \<Longrightarrow> extends tr tr'"
  by (induction rule: drift.induct) (auto intro: extends_trans)

lemma drift_weaken: "drift seen tr c tr' c' \<Longrightarrow> extends t tr \<Longrightarrow> drift seen t c tr' c'"
  by (cases rule: drift.cases) (auto intro: drift.intros extends_trans)

lemma drift_trans: "drift seen tr c t c1 \<Longrightarrow> drift seen t c1 tr' c' \<Longrightarrow> drift seen tr c tr' c'"
  by (induction rule: drift.induct) (auto intro: drift_weaken drift_seen)

lemma drift_refl [simp]: "drift seen tr c tr c"
  by (simp add: drift_stay)

lemma drift_once: "extends tr t \<Longrightarrow> drift seen tr c t (seen tr c)"
  by (rule drift_seen [OF extends_refl drift_stay])

lemma drift_same: "drift (\<lambda>_ c. c) tr c tr' c' \<Longrightarrow> c' = c"
  by (induction rule: drift.induct) auto

text \<open>
  From \<open>tr\<close> to \<open>tr'\<close> exactly the pods \<open>ps\<close> are deleted, in this order, and each deletion follows directly on its
  approval. The decisions remembered at an approval are those left by the approvals before it, up to what the other users
  have made of them.
\<close>

fun approved_deletions :: "(trace \<Rightarrow> 'c \<Rightarrow> 'c)
    \<Rightarrow> ('c \<Rightarrow> trace \<Rightarrow> 'c \<Rightarrow> trace \<Rightarrow> string \<Rightarrow> string \<Rightarrow> MaxUnavailableZeroOverride \<Rightarrow> bool)
    \<Rightarrow> MaxUnavailableZeroOverride \<Rightarrow> trace \<Rightarrow> 'c \<Rightarrow> pod list \<Rightarrow> trace \<Rightarrow> 'c \<Rightarrow> bool" where
  "approved_deletions seen approved ov tr c [] tr' c' \<longleftrightarrow> drift seen tr c tr' c'"
| "approved_deletions seen approved ov tr c (p # ps) tr' c' \<longleftrightarrow>
     (\<exists>t c1 t' c2. drift seen tr c t c1 \<and> extends t t' \<and>
        approved (seen t c1) t c2 t' (pod_namespace p) (pod_name p) ov \<and>
        approved_deletions seen approved ov (t' @ [EvDeletePod (pod_namespace p) (pod_name p)]) c2 ps tr' c')"

lemma approved_deletions_Cons:
  assumes "drift seen tr c t c1" and "extends t t'" and "approved (seen t c1) t c2 t' (pod_namespace p) (pod_name p) ov"
    and "approved_deletions seen approved ov (t' @ [EvDeletePod (pod_namespace p) (pod_name p)]) c2 ps tr' c'"
  shows "approved_deletions seen approved ov tr c (p # ps) tr' c'"
  unfolding approved_deletions.simps(2)
  by (rule exI [of _ t], rule exI [of _ c1], rule exI [of _ t'], rule exI [of _ c2]) (intro conjI assms)

lemma approved_deletions_before:
  "approved_deletions seen approved ov t c1 ps tr' c' \<Longrightarrow> drift seen tr c t c1 \<Longrightarrow> approved_deletions seen approved ov tr c ps tr' c'"
  by (cases ps) (auto intro: drift_trans)

lemma approved_deletions_after:
  "approved_deletions seen approved ov tr c ps t c1 \<Longrightarrow> drift seen t c1 tr' c' \<Longrightarrow> approved_deletions seen approved ov tr c ps tr' c'"
proof (induction ps arbitrary: tr c)
  case (Cons p ps)
  from Cons.prems(1) obtain ta c1a t' c2 where step: "drift seen tr c ta c1a" "extends ta t'"
      "approved (seen ta c1a) ta c2 t' (pod_namespace p) (pod_name p) ov"
    and rest: "approved_deletions seen approved ov (t' @ [EvDeletePod (pod_namespace p) (pod_name p)]) c2 ps t c1"
    by auto
  show ?case by (rule approved_deletions_Cons [OF step Cons.IH [OF rest Cons.prems(2)]])
qed (auto intro: drift_trans)

lemma approved_deletions_extends: "approved_deletions seen approved ov tr c ps tr' c' \<Longrightarrow> extends tr tr'"
proof (induction ps arbitrary: tr c)
  case (Cons p ps)
  then obtain t t' where "extends tr t" "extends t t'" "extends (t' @ [EvDeletePod (pod_namespace p) (pod_name p)]) tr'"
    by (auto dest: drift_extends)
  then show ?case using extends_trans extends_append by blast
qed (auto dest: drift_extends)

text \<open>
  One batch of an update of \<open>sts\<close> between \<open>tr\<close> and \<open>tr'\<close>: the deleted pods \<open>ds\<close> are some of the pods listed at \<open>tr\<close> that do
  not run the update revision, none of them terminating; at most \<^const>\<open>numPodsToUpdate\<close> of them are not stuck;
  and each deletion was approved directly before it.
\<close>

definition rollout_batch :: "(trace \<Rightarrow> 'c \<Rightarrow> 'c)
    \<Rightarrow> ('c \<Rightarrow> trace \<Rightarrow> 'c \<Rightarrow> trace \<Rightarrow> string \<Rightarrow> string \<Rightarrow> MaxUnavailableZeroOverride \<Rightarrow> bool) \<Rightarrow> env \<Rightarrow> string \<Rightarrow> statefulset
    \<Rightarrow> trace \<Rightarrow> 'c \<Rightarrow> (string \<times> string) list \<Rightarrow> trace \<Rightarrow> 'c \<Rightarrow> bool" where
  "rollout_batch seen approved E namespace sts tr c ds tr' c' \<longleftrightarrow>
     (\<exists>outdated tr1 picked m. podsNotMatchingUpdateRevision E namespace tr sts = (Ok outdated, tr1) \<and>
        subseq picked outdated \<and> ds = map pod_id picked \<and> m \<in> {1, getMaxUnavailableForStatefulSet sts} \<and>
        (\<forall>p\<in>set picked. pod_deletion_timestamp p = None) \<and>
        approved_deletions seen approved (NewMaxUnavailableZeroOverride m) tr1 c picked tr' c' \<and>
        int (length (filter (\<lambda>p. \<not> isPodStuck p) picked)) \<le> numPodsToUpdate sts outdated)"

lemma rollout_batch_after:
  assumes "rollout_batch seen approved E ns sts tr c ds t c1" and "drift seen t c1 tr' c'"
  shows "rollout_batch seen approved E ns sts tr c ds tr' c'"
  using assms(1) unfolding rollout_batch_def
  by (elim exE conjE) (intro exI conjI, assumption+, rule approved_deletions_after [OF _ assms(2)])

lemma quiet_listPods: "listPods E ns tr sel = (r, tr') \<Longrightarrow> quiet tr tr'"
  by (auto simp: listPods_def)

lemma quiet_listPodsByStatefulSet: "listPodsByStatefulSet E ns tr sts = (r, tr') \<Longrightarrow> quiet tr tr'"
  by (auto simp: listPodsByStatefulSet_def dest: quiet_listPods split: res.splits)

lemma quiet_hasNotReady: "hasStatefulSetNotReadyPods E ns tr sts = (r, tr') \<Longrightarrow> quiet tr tr'"
  by (auto simp: hasStatefulSetNotReadyPods_def dest: quiet_listPodsByStatefulSet split: res.splits prod.splits if_splits)

lemma quiet_podsNotMatching: "podsNotMatchingUpdateRevision E ns tr sts = (r, tr') \<Longrightarrow> quiet tr tr'"
  by (auto simp: podsNotMatchingUpdateRevision_def Let_def dest: quiet_listPods split: res.splits prod.splits if_splits)

lemma quiet_finishStatefulSet: "finishStatefulSet E ns tr sts = (r, tr') \<Longrightarrow> quiet tr tr'"
  by (auto simp: finishStatefulSet_def Let_def dest!: quiet_hasNotReady intro: quiet_snocI
      split: res.splits prod.splits if_splits bool.splits reply.splits)

lemma numPodsToUpdate_nonneg [simp]: "0 \<le> numPodsToUpdate sts pods"
  by (simp add: numPodsToUpdate_def Let_def)

text \<open>The two ways an update of outdated pods ends: nothing to delete, or the deletion loop with its override.\<close>

lemma updateOutdatedPods_cases:
  assumes "updateOutdatedPods zc E tr z sts outdated = (r, z', tr')"
  obtains "tr' = tr" and "z' = z" and "r \<noteq> Ok False"
  | q m where "deletePods zc E (NewMaxUnavailableZeroOverride m) tr z
        (selectPodsToDelete 0 (numPodsToUpdate sts outdated) outdated) = (q, z', tr')"
      and "m \<in> {1, getMaxUnavailableForStatefulSet sts}" and "r \<noteq> Ok False"
proof (cases "selectPodsToDelete 0 (numPodsToUpdate sts outdated) outdated")
  case Nil
  with assms that(1) show ?thesis by (auto simp: updateOutdatedPods_def)
next
  case (Cons p ps)
  show ?thesis
  proof (cases "\<exists>b. zc_HasPartitionAwarePdb zc tr z p = Ok b")
    case True
    then obtain b where Ok: "zc_HasPartitionAwarePdb zc tr z p = Ok b" by blast
    let ?m = "if b then 1 else getMaxUnavailableForStatefulSet sts"
    obtain q z1 tr1 where d: "deletePods zc E (NewMaxUnavailableZeroOverride ?m) tr z (p # ps) = (q, z1, tr1)"
      by (metis prod_cases3)
    with assms Cons Ok have "z' = z1" "tr' = tr1" "r \<noteq> Ok False"
      by (auto simp: updateOutdatedPods_def Let_def simp del: deletePods.simps split: res.splits)
    with d Cons show ?thesis by (intro that(2) [of ?m q]) (simp_all del: deletePods.simps)
  next
    case False
    with assms Cons have "tr' = tr \<and> z' = z \<and> r \<noteq> Ok False"
      by (auto simp: updateOutdatedPods_def Let_def simp del: deletePods.simps split: res.splits)
    with that(1) show ?thesis by blast
  qed
qed

lemma subseq_filter_length: "subseq xs ys \<Longrightarrow> length (filter P xs) \<le> length (filter P ys)"
  by (intro list_emb_length [of "(=)"] subseq_filter)

context zpdb_controller
begin

lemma deletePods_approved:
  assumes "deletePods zc E ov tr z ps = (r, z', tr')"
  shows "\<exists>picked. subseq picked ps \<and> deletions tr' = deletions tr @ map pod_id picked \<and>
    replica_patches tr' = replica_patches tr \<and> approved_deletions seen approved ov tr (held z) picked tr' (held z')"
  using assms
proof (induction ps arbitrary: tr z)
  case Nil
  then show ?case by (intro exI [of _ "[]"]) simp
next
  case (Cons p ps)
  obtain q z1 tr1 where m: "zc_MarkPodAsDeleted zc tr z (pod_namespace p) (pod_name p) ''rollout-controller'' ov = (q, z1, tr1)"
    by (metis prod_cases3)
  note qt = mark_quiet [OF m]
  note ext = quiet_extends [OF qt]
  let ?tr2 = "tr1 @ [EvDeletePod (pod_namespace p) (pod_name p)]"
  from Cons.prems m consider (panic) "tr' = tr1" "z' = z1" "q \<noteq> Ok ()"
    | (denied) "deletePods zc E ov tr1 z1 ps = (r, z', tr')" "q \<noteq> Ok ()"
    | (deleted) "q = Ok ()" "tr' = ?tr2 \<and> z' = z1 \<or> deletePods zc E ov ?tr2 z1 ps = (r, z', tr')"
    by (auto simp: Let_def split: res.splits reply.splits)
  then show ?case
  proof cases
    case panic
    have "drift seen tr (held z) tr1 (held z1)" using mark_refused [OF m panic(3)] drift_once [OF ext] by metis
    then show ?thesis using qt panic by (intro exI [of _ "[]"]) (simp add: quiet_def)
  next
    case denied
    from Cons.IH [OF this(1)] obtain picked where pk: "subseq picked ps" "deletions tr' = deletions tr1 @ map pod_id picked"
      "replica_patches tr' = replica_patches tr1" "approved_deletions seen approved ov tr1 (held z1) picked tr' (held z')" by blast
    have "drift seen tr (held z) tr1 (held z1)" using mark_refused [OF m denied(2)] drift_once [OF ext] by metis
    from approved_deletions_before [OF pk(4) this] pk qt show ?thesis by (intro exI [of _ picked]) (auto simp: quiet_def)
  next
    case deleted
    have ap: "approved (seen tr (held z)) tr (held z1) tr1 (pod_namespace p) (pod_name p) ov"
      using m deleted(1) by (auto intro: mark_approved)
    have "\<exists>picked. subseq picked ps \<and> deletions tr' = deletions ?tr2 @ map pod_id picked \<and>
      replica_patches tr' = replica_patches ?tr2 \<and> approved_deletions seen approved ov ?tr2 (held z1) picked tr' (held z')"
      using deleted(2)
    proof
      assume "tr' = ?tr2 \<and> z' = z1"
      then show ?thesis by (intro exI [of _ "[]"]) simp
    qed (rule Cons.IH)
    then obtain picked where pk: "subseq picked ps" "deletions tr' = deletions ?tr2 @ map pod_id picked"
      "replica_patches tr' = replica_patches ?tr2" "approved_deletions seen approved ov ?tr2 (held z1) picked tr' (held z')" by blast
    have "approved_deletions seen approved ov tr (held z) (p # picked) tr' (held z')"
      by (rule approved_deletions_Cons [OF drift_refl ext ap pk(4)])
    with pk qt show ?thesis by (intro exI [of _ "p # picked"]) (auto simp: quiet_def pod_id_def)
  qed
qed

lemma updateOutdatedPods_batch:
  assumes "updateOutdatedPods zc E tr1 z sts outdated = (r, z', tr')"
    and "podsNotMatchingUpdateRevision E ns tr sts = (Ok outdated, tr1)"
  shows "\<exists>ds. deletions tr' = deletions tr @ ds \<and> replica_patches tr' = replica_patches tr \<and> extends tr tr' \<and>
    rollout_batch seen approved E ns sts tr (held z) ds tr' (held z') \<and> (ds = [] \<longrightarrow> drift seen tr (held z) tr' (held z')) \<and> r \<noteq> Ok False"
proof -
  let ?del = "selectPodsToDelete 0 (numPodsToUpdate sts outdated) outdated"
  have qt: "quiet tr tr1" using assms(2) by (rule quiet_podsNotMatching)
  note e1 = quiet_extends [OF qt]
  have bound: "int (length (filter (\<lambda>p. \<not> isPodStuck p) ps)) \<le> numPodsToUpdate sts outdated" if "subseq ps ?del" for ps
    using subseq_filter_length [OF that, of "\<lambda>p. \<not> isPodStuck p"]
      selectPodsToDelete_bound [of 0 "numPodsToUpdate sts outdated" outdated]
    by (simp add: max_def split: if_splits)
  obtain picked m where pk: "subseq picked ?del" "deletions tr' = deletions tr1 @ map pod_id picked"
      "replica_patches tr' = replica_patches tr1" "m \<in> {1, getMaxUnavailableForStatefulSet sts}" "r \<noteq> Ok False"
      "approved_deletions seen approved (NewMaxUnavailableZeroOverride m) tr1 (held z) picked tr' (held z')"
    using assms(1)
  proof (cases rule: updateOutdatedPods_cases)
    case 1
    then show ?thesis using that [of "[]" 1] by simp
  next
    case (2 q m)
    with deletePods_approved [OF 2(1)] that show ?thesis by blast
  qed
  have sub: "subseq picked outdated" using pk(1) selectPodsToDelete_subseq subseq_order.order_trans by blast
  have live: "\<forall>p\<in>set picked. pod_deletion_timestamp p = None"
    using pk(1) selectPodsToDelete_live by (auto dest: list_emb_set)
  have batch: "rollout_batch seen approved E ns sts tr (held z) (map pod_id picked) tr' (held z')"
    unfolding rollout_batch_def using pk sub live assms(2) bound [OF pk(1)] by blast
  have "extends tr tr'" using e1 approved_deletions_extends [OF pk(6)] by (rule extends_trans)
  moreover have "drift seen tr (held z) tr' (held z')" if "map pod_id picked = []"
    using that pk(6) drift_weaken [OF _ e1] by auto
  ultimately show ?thesis using batch pk qt by (intro exI [of _ "map pod_id picked"]) (simp add: quiet_def)
qed

text \<open>An update that is not ongoing, or that found no outdated pod, has deleted nothing.\<close>

lemma updateStatefulSetPods_batch:
  assumes "updateStatefulSetPods zc E ns tr z sts = (r, z', tr')"
  shows "\<exists>ds. deletions tr' = deletions tr @ ds \<and> replica_patches tr' = replica_patches tr \<and> extends tr tr' \<and>
    (ds = [] \<and> drift seen tr (held z) tr' (held z') \<or>
     r \<noteq> Ok False \<and> rollout_batch seen approved E ns sts tr (held z) ds tr' (held z'))"
proof -
  obtain q tr1 where l: "podsNotMatchingUpdateRevision E ns tr sts = (q, tr1)" by fastforce
  note qt = quiet_podsNotMatching [OF l]
  show ?thesis
  proof (cases "\<exists>outdated. q = Ok outdated \<and> outdated \<noteq> []")
    case True
    then obtain outdated where "q = Ok outdated" and "updateOutdatedPods zc E tr1 z sts outdated = (r, z', tr')"
      using assms l by (auto simp: updateStatefulSetPods_def)
    with updateOutdatedPods_batch l show ?thesis by blast
  next
    case False
    with assms l qt have "quiet tr tr' \<and> z' = z"
      by (auto simp: updateStatefulSetPods_def dest!: quiet_finishStatefulSet intro: quiet_trans split: res.splits prod.splits)
    then show ?thesis by (simp add: quiet_def drift_stay)
  qed
qed

end

section \<open>The number of pods taken down\<close>

lemma wrap64_le: "- (2 ^ 63) \<le> x \<Longrightarrow> wrap64 x \<le> x"
proof -
  assume "- (2 ^ 63) \<le> x"
  then have "(x + 2 ^ 63) mod 2 ^ 64 \<le> x + 2 ^ 63" by (intro zmod_le_nonneg_dividend) simp
  then show ?thesis by (simp add: wrap64_def)
qed

lemma numPodsToUpdate_bound:
  assumes "is_int32 (expectedReplicas sts)" and "0 \<le> expectedReplicas sts" and "is_int32 (sts_ready_replicas sts)" and "0 \<le> sts_ready_replicas sts"
    and "0 \<le> getMaxUnavailableForStatefulSet sts"
  shows "numPodsToUpdate sts pods + (expectedReplicas sts - sts_ready_replicas sts)
    \<le> max (getMaxUnavailableForStatefulSet sts) (expectedReplicas sts - sts_ready_replicas sts)"
proof -
  let ?d = "expectedReplicas sts - sts_ready_replicas sts" and ?m = "getMaxUnavailableForStatefulSet sts"
  have w: "wrap32 ?d = ?d" using assms by (intro wrap32_diff_nonneg)
  have "?d \<le> 2 ^ 31" using assms by (simp add: is_int32_def)
  then have "wrap64 (?m - ?d) \<le> ?m - ?d" using assms(5) by (intro wrap64_le) simp
  then have "numPodsToUpdate sts pods \<le> max 0 (?m - ?d)" by (simp add: numPodsToUpdate_def w Let_def)
  then show ?thesis by simp
qed

lemma podsNotMatching_members:
  assumes "podsNotMatchingUpdateRevision E ns tr sts = (Ok pods, tr')" and "p \<in> set pods"
  shows "pod_namespace p = ns" and "pod_labels p ''name'' = Some (mget (sts_template_labels sts) ''name'')"
    and "pod_labels p ControllerRevisionHashLabelKey \<noteq> Some (sts_update_revision sts)"
proof -
  from assms(1) obtain all where pods: "pods = SortPods (filter (\<lambda>p. pod_namespace p = ns \<and>
      sel_matches [Requirement ControllerRevisionHashLabelKey NotEquals [sts_update_revision sts],
        Requirement ''name'' Equals [mget (sts_template_labels sts) ''name'']] (pod_labels p)) all)"
    by (auto simp: podsNotMatchingUpdateRevision_def listPods_def Let_def dest!: MustNewLabelsRequirement_Ok
        split: res.splits prod.splits if_splits reply.splits)
  with assms(2) have "pod_namespace p = ns" and m: "sel_matches [Requirement ControllerRevisionHashLabelKey NotEquals [sts_update_revision sts],
        Requirement ''name'' Equals [mget (sts_template_labels sts) ''name'']] (pod_labels p)"
    by (auto simp: SortPods_def)
  then show "pod_namespace p = ns" by blast
  from m show "pod_labels p ''name'' = Some (mget (sts_template_labels sts) ''name'')"
    and "pod_labels p ControllerRevisionHashLabelKey \<noteq> Some (sts_update_revision sts)"
    by (auto simp: sel_matches_def split: option.splits)
qed

lemma podsNotMatching_listed:
  assumes "podsNotMatchingUpdateRevision E ns tr sts = (Ok pods, tr')"
  shows "\<exists>all. e_pod_lister E tr = Reply all \<and> mset pods \<subseteq># mset all"
  using assms
  by (auto simp: podsNotMatchingUpdateRevision_def listPods_def SortPods_def Let_def multiset_filter_subset
      split: res.splits prod.splits if_splits reply.splits)

lemma subseq_mset: "subseq xs ys \<Longrightarrow> mset xs \<subseteq># mset ys"
  by (induction rule: list_emb.induct) (auto intro: subset_mset.order_trans)

section \<open>Properties\<close>

text \<open>C2: an update stays within the max-unavailable setting. Whatever the eviction controller and the API server
  answer, the pods that one update of a StatefulSet deletes are pods of the operator's cache, as the lister returned them at the
  beginning of the update, each deleted once: they belong to it by their \<^verbatim>\<open>name\<close> label, do not run the
  update revision and are not terminating; and the pods it deletes that are not stuck, added to the pods that are already
  missing or not ready, are at most the configured max-unavailable (or none when that many are already missing).
  The replica counts are those of a valid StatefulSet: non-negative \<^verbatim>\<open>int32\<close> values.\<close>

theorem rollout_keeps_max_unavailable:
  assumes "updateStatefulSetPods (evictionController E cfgs evs) E namespace tr z sts = (r, z', tr')"
    and "is_int32 (expectedReplicas sts)" and "0 \<le> expectedReplicas sts"
    and "is_int32 (sts_ready_replicas sts)" and "0 \<le> sts_ready_replicas sts"
  shows "deletions tr' = deletions tr \<or>
    (\<exists>all picked. e_pod_lister E tr = Reply all \<and> mset picked \<subseteq># mset all \<and> deletions tr' = deletions tr @ map pod_id picked \<and>
      (\<forall>p\<in>set picked. pod_namespace p = namespace \<and> pod_labels p ''name'' = Some (mget (sts_template_labels sts) ''name'') \<and>
         pod_labels p ControllerRevisionHashLabelKey \<noteq> Some (sts_update_revision sts) \<and> pod_deletion_timestamp p = None) \<and>
      int (length (filter (\<lambda>p. \<not> isPodStuck p) picked)) + (expectedReplicas sts - sts_ready_replicas sts)
        \<le> max (getMaxUnavailableForStatefulSet sts) (expectedReplicas sts - sts_ready_replicas sts))"
proof -
  from ec.updateStatefulSetPods_batch [OF assms(1)] obtain ds where ds: "deletions tr' = deletions tr @ ds"
    "ds = [] \<or> rollout_batch evs (budget_approved E cfgs) E namespace sts tr (zp_evictions z) ds tr' (zp_evictions z')" by blast
  from ds(2) show ?thesis
  proof
    assume "rollout_batch evs (budget_approved E cfgs) E namespace sts tr (zp_evictions z) ds tr' (zp_evictions z')"
    then obtain outdated tr1 picked where b: "podsNotMatchingUpdateRevision E namespace tr sts = (Ok outdated, tr1)"
        "subseq picked outdated" "ds = map pod_id picked" "\<forall>p\<in>set picked. pod_deletion_timestamp p = None"
        "int (length (filter (\<lambda>p. \<not> isPodStuck p) picked)) \<le> numPodsToUpdate sts outdated"
      unfolding rollout_batch_def by blast
    from podsNotMatching_listed [OF b(1)] obtain all where all: "e_pod_lister E tr = Reply all" "mset outdated \<subseteq># mset all" by blast
    have "mset picked \<subseteq># mset all" using subseq_mset [OF b(2)] all(2) by (rule subset_mset.order_trans)
    moreover have "set picked \<subseteq> set outdated" using b(2) by (auto dest: list_emb_set)
    moreover have "numPodsToUpdate sts outdated + (expectedReplicas sts - sts_ready_replicas sts)
        \<le> max (getMaxUnavailableForStatefulSet sts) (expectedReplicas sts - sts_ready_replicas sts)"
      using assms(2-5) getMaxUnavailable_pos [of sts] by (intro numPodsToUpdate_bound) auto
    ultimately show ?thesis using ds(1) b all podsNotMatching_members [OF b(1)]
      by (intro disjI2 exI [of _ all] exI [of _ picked]) (auto simp del: max.bounded_iff)
  qed (use ds(1) in simp)
qed

definition demo_outdated :: "string \<Rightarrow> statefulset" where
  "demo_outdated n = (demo_zone n)\<lparr>sts_update_revision := ''r2''\<rparr>"

definition demo_rollout :: env where
  "demo_rollout = steady_env 0 [demo_outdated ''zone-a'', demo_outdated ''zone-b'']
     [demo_pod ''zone-a'' ''zone-a-0'', demo_pod ''zone-b'' ''zone-b-0'']"

definition demo_controller :: "zpdb_state ZPDBEvictionController" where
  "demo_controller = evictionController demo_rollout (\<lambda>_. [(''ingester'', demo_cfg ''ingester'' 3)]) (\<lambda>_ evs. evs)"

text \<open>In the demo cluster the budget allows the pod of \<^verbatim>\<open>zone-a\<close> to be deleted.\<close>

lemma demo_update:
  "\<exists>z tr. updateStatefulSetPods demo_controller demo_rollout ''ns'' [] NewEvictionController (demo_outdated ''zone-a'') = (Ok True, z, tr) \<and>
     deletions tr = [(''ns'', ''zone-a-0'')]"
proof -
  have "(case updateStatefulSetPods demo_controller demo_rollout ''ns'' [] NewEvictionController (demo_outdated ''zone-a'') of
     (r, z, tr) \<Rightarrow> r = Ok True \<and> deletions tr = [(''ns'', ''zone-a-0'')])"
    by code_simp
  then show ?thesis by (auto split: prod.splits)
qed

theorem rollout_keeps_max_unavailable_witness:
  "\<exists>z tr picked. updateStatefulSetPods demo_controller demo_rollout ''ns'' [] NewEvictionController (demo_outdated ''zone-a'') = (Ok True, z, tr) \<and>
     deletions tr = [(''ns'', ''zone-a-0'')] \<and> deletions tr = map pod_id picked \<and>
     mset picked \<subseteq># mset [demo_pod ''zone-a'' ''zone-a-0'', demo_pod ''zone-b'' ''zone-b-0''] \<and>
     int (length (filter (\<lambda>p. \<not> isPodStuck p) picked)) \<le> 1"
proof -
  obtain z tr where u: "updateStatefulSetPods demo_controller demo_rollout ''ns'' [] NewEvictionController (demo_outdated ''zone-a'') = (Ok True, z, tr)"
    and d: "deletions tr = [(''ns'', ''zone-a-0'')]"
    using demo_update by blast
  have counts: "expectedReplicas (demo_outdated ''zone-a'') = 1" "sts_ready_replicas (demo_outdated ''zone-a'') = 1"
    "getMaxUnavailableForStatefulSet (demo_outdated ''zone-a'') = 1"
    by (simp_all add: demo_outdated_def demo_zone_def demo_sts_def expectedReplicas_def getMaxUnavailableForStatefulSet_def)
  have ranges: "is_int32 (1 :: int)" "(0 :: int) \<le> 1" by (simp_all add: is_int32_def)
  have ne: "deletions tr \<noteq> deletions []" using d by simp
  from rollout_keeps_max_unavailable [OF u [unfolded demo_controller_def], unfolded counts, OF ranges ranges] ne
  obtain picked all where w: "e_pod_lister demo_rollout [] = Reply all" "mset picked \<subseteq># mset all" "deletions tr = deletions [] @ map pod_id picked"
    "int (length (filter (\<lambda>p. \<not> isPodStuck p) picked)) + (1 - 1) \<le> max 1 (1 - 1)"
    by blast
  have "all = [demo_pod ''zone-a'' ''zone-a-0'', demo_pod ''zone-b'' ''zone-b-0'']"
    using w(1) by (simp add: demo_rollout_def)
  with w have "\<exists>picked. deletions tr = map pod_id picked \<and>
     mset picked \<subseteq># mset [demo_pod ''zone-a'' ''zone-a-0'', demo_pod ''zone-b'' ''zone-b-0''] \<and>
     int (length (filter (\<lambda>p. \<not> isPodStuck p) picked)) \<le> 1" by (intro exI [of _ picked]) simp
  with u d show ?thesis by blast
qed

end
