(* ===== verification/RolloutController.thy ===== *)
theory RolloutController
  imports RolloutPods
begin

text \<open>
  The reconciliation of \<^verbatim>\<open>pkg/controller/controller.go\<close>: one rollout group, all groups, and the metrics
  per group. The loop that calls it is in \<open>RolloutLoop\<close>.
\<close>

section \<open>State\<close>

text \<open>
  The four metric vectors by the label \<^verbatim>\<open>rollout_group\<close>: counters as numbers, the histogram by its number
  of observations, the gauge by the time it was last set to (\<^term>\<open>None\<close>: never).
\<close>

record group_metrics =
  groupReconcileTotal :: "string \<rightharpoonup> nat"
  groupReconcileFailed :: "string \<rightharpoonup> nat"
  groupReconcileDuration :: "string \<rightharpoonup> nat"
  groupReconcileLastSuccess :: "string \<rightharpoonup> instant option"

record 'z RolloutController =
  shouldReconcile :: bool
  discoveredGroups :: "string set"
  rc_metrics :: group_metrics
  zpdbController :: 'z

definition no_metrics :: group_metrics where
  "no_metrics = \<lparr>groupReconcileTotal = Map.empty, groupReconcileFailed = Map.empty,
     groupReconcileDuration = Map.empty, groupReconcileLastSuccess = Map.empty\<rparr>"

definition NewRolloutController :: "'z \<Rightarrow> 'z RolloutController" where
  "NewRolloutController z =
     \<lparr>shouldReconcile = False, discoveredGroups = {}, rc_metrics = no_metrics, zpdbController = z\<rparr>"

text \<open>\<^verbatim>\<open>WithLabelValues(name)\<close> creates the series with its zero value.\<close>

definition with_label :: "'a \<Rightarrow> (string \<rightharpoonup> 'a) \<Rightarrow> string \<Rightarrow> (string \<rightharpoonup> 'a)" where
  "with_label zero m name = (case m name of None \<Rightarrow> m(name \<mapsto> zero) | Some _ \<Rightarrow> m)"

definition incr :: "(string \<rightharpoonup> nat) \<Rightarrow> string \<Rightarrow> (string \<rightharpoonup> nat)" where
  "incr m name = m(name \<mapsto> (case m name of None \<Rightarrow> 1 | Some n \<Rightarrow> Suc n))"

definition start_metrics :: "group_metrics \<Rightarrow> string \<Rightarrow> group_metrics" where
  "start_metrics m g =
     m\<lparr>groupReconcileTotal := incr (groupReconcileTotal m) g,
       groupReconcileDuration := with_label 0 (groupReconcileDuration m) g,
       groupReconcileFailed := with_label 0 (groupReconcileFailed m) g,
       groupReconcileLastSuccess := with_label None (groupReconcileLastSuccess m) g\<rparr>"

text \<open>The deferred function; \<open>now\<close> is the clock reading of \<^verbatim>\<open>SetToCurrentTime\<close>.\<close>

definition end_metrics :: "group_metrics \<Rightarrow> string \<Rightarrow> bool \<Rightarrow> instant \<Rightarrow> group_metrics" where
  "end_metrics m g failed now =
     (let m1 = m\<lparr>groupReconcileDuration := incr (groupReconcileDuration m) g\<rparr> in
      if failed then m1\<lparr>groupReconcileFailed := incr (groupReconcileFailed m1) g\<rparr>
      else m1\<lparr>groupReconcileLastSuccess := (groupReconcileLastSuccess m1)(g \<mapsto> Some now)\<rparr>)"

section \<open>One rollout group\<close>

fun findNotReadySets :: "env \<Rightarrow> string \<Rightarrow> trace \<Rightarrow> statefulset list \<Rightarrow> statefulset list res \<times> trace" where
  "findNotReadySets E namespace tr [] = (Ok [], tr)"
| "findNotReadySets E namespace tr (sts # sets) =
     (case hasStatefulSetNotReadyPods E namespace tr sts of
        (Panic m, tr1) \<Rightarrow> (Panic m, tr1)
      | (Fail e, tr1) \<Rightarrow>
          (Fail (wrapf (''unable to check if StatefulSet '' @ sts_name sts @ '' has not ready pods: '') e), tr1)
      | (Ok hasNotReadyPods, tr1) \<Rightarrow>
          (case findNotReadySets E namespace tr1 sets of
             (Ok notReady, tr2) \<Rightarrow> (Ok (if hasNotReadyPods then sts # notReady else notReady), tr2)
           | (Fail e, tr2) \<Rightarrow> (Fail e, tr2)
           | (Panic m, tr2) \<Rightarrow> (Panic m, tr2)))"

definition rolloutPaused :: "statefulset \<Rightarrow> bool" where
  "rolloutPaused sts \<longleftrightarrow> mget (sts_annotations sts) RolloutPausedAnnotationKey = RolloutPausedAnnotationValue"

fun updateSets :: "'z ZPDBEvictionController \<Rightarrow> env \<Rightarrow> string \<Rightarrow> statefulset list \<Rightarrow> trace \<Rightarrow> 'z \<Rightarrow> statefulset list
    \<Rightarrow> unit res \<times> 'z \<times> trace" where
  "updateSets zc E namespace notReadySets tr z [] = (Ok (), z, tr)"
| "updateSets zc E namespace notReadySets tr z (sts # sets) =
     (if rolloutPaused sts then
        (if length notReadySets = 1 \<and> sts_ptr (notReadySets ! 0) = sts_ptr sts then (Ok (), z, tr)
         else updateSets zc E namespace notReadySets tr z sets)
      else
        (case updateStatefulSetPods zc E namespace tr z sts of
           (Panic m, z1, tr1) \<Rightarrow> (Panic m, z1, tr1)
         | (Fail e, z1, tr1) \<Rightarrow> (Fail (wrapf (''failed to update StatefulSet '' @ sts_name sts @ '': '') e), z1, tr1)
         | (Ok ongoing, z1, tr1) \<Rightarrow>
             if ongoing then (Ok (), z1, tr1)
             else updateSets zc E namespace notReadySets tr1 z1 sets))"

text \<open>After the replicas: the update strategies, the not-ready sets, and the pods.\<close>

definition rolloutGroup :: "'z ZPDBEvictionController \<Rightarrow> env \<Rightarrow> string \<Rightarrow> trace \<Rightarrow> 'z \<Rightarrow> statefulset list
    \<Rightarrow> unit res \<times> 'z \<times> trace" where
  "rolloutGroup zc E namespace tr z sets =
     (case find (\<lambda>s. sts_update_strategy s \<noteq> OnDelete) sets of
        Some s \<Rightarrow> (Fail (Err (''StatefulSet '' @ sts_name s @ '' has '' @ sts_update_strategy s
                     @ '' update strategy while '' @ OnDelete @ '' is expected, skipping reconcile'')), z, tr)
      | None \<Rightarrow>
          (case findNotReadySets E namespace tr sets of
             (Panic m, tr1) \<Rightarrow> (Panic m, z, tr1)
           | (Fail e, tr1) \<Rightarrow> (Fail e, z, tr1)
           | (Ok notReadySets, tr1) \<Rightarrow>
               if 1 < length notReadySets then (Ok (), z, tr1)
               else updateSets zc E namespace notReadySets tr1 z
                      (if length notReadySets = 1 then MoveStatefulSetToFront sets (notReadySets ! 0) else sets)))"

definition reconcileGroupBody :: "'z ZPDBEvictionController \<Rightarrow> env \<Rightarrow> string \<Rightarrow> string \<Rightarrow> trace \<Rightarrow> 'z \<Rightarrow> statefulset list
    \<Rightarrow> unit res \<times> 'z \<times> trace" where
  "reconcileGroupBody zc E namespace clusterDomain tr z sets0 =
     (let sets = SortStatefulSets sets0 in
      case adjustStatefulSetsGroupReplicas E namespace clusterDomain tr sets of
        (Panic m, tr1) \<Rightarrow> (Panic m, z, tr1)
      | (Ok True, tr1) \<Rightarrow> (Ok (), z, tr1)
      | (Ok False, tr1) \<Rightarrow> rolloutGroup zc E namespace tr1 z sets
      | (Fail e, tr1) \<Rightarrow> rolloutGroup zc E namespace tr1 z sets)"

definition reconcileStatefulSetsGroup :: "'z ZPDBEvictionController \<Rightarrow> env \<Rightarrow> string \<Rightarrow> string \<Rightarrow> trace
    \<Rightarrow> 'z RolloutController \<Rightarrow> string \<Rightarrow> statefulset list \<Rightarrow> unit res \<times> 'z RolloutController \<times> trace" where
  "reconcileStatefulSetsGroup zc E namespace clusterDomain tr c groupName sets =
     (let c1 = c\<lparr>rc_metrics := start_metrics (rc_metrics c) groupName\<rparr> in
      case reconcileGroupBody zc E namespace clusterDomain tr (zpdbController c1) sets of
        (Panic m, z, tr1) \<Rightarrow> (Panic m, c1\<lparr>zpdbController := z\<rparr>, tr1)
      | (Fail e, z, tr1) \<Rightarrow>
          (Fail e, c1\<lparr>zpdbController := z, rc_metrics := end_metrics (rc_metrics c1) groupName True 0\<rparr>, tr1)
      | (Ok _, z, tr1) \<Rightarrow>
          (Ok (), c1\<lparr>zpdbController := z, rc_metrics := end_metrics (rc_metrics c1) groupName False (e_now E tr1)\<rparr>,
           tr1 @ [EvNow]))"

section \<open>All groups\<close>

text \<open>The selector of the StatefulSet informer, and the deep copies: fresh objects at fresh addresses.\<close>

definition statefulSetsSel :: selector where
  "statefulSetsSel = [Requirement RolloutGroupLabelKey Exists []]"

definition deep_copies :: "statefulset list \<Rightarrow> statefulset list" where
  "deep_copies sets = map (\<lambda>(i, s). s\<lparr>sts_ptr := i\<rparr>) (enumerate 0 sets)"

definition listStatefulSetsWithRolloutGroup :: "env \<Rightarrow> string \<Rightarrow> trace \<Rightarrow> statefulset list res \<times> trace" where
  "listStatefulSetsWithRolloutGroup E namespace tr =
     ((case e_sts_lister E tr of
         Error e \<Rightarrow> Fail (wrapf ''failed to list StatefulSets: '' e)
       | Reply sets \<Rightarrow>
           Ok (deep_copies (filter (\<lambda>s. sts_namespace s = namespace \<and> sel_matches statefulSetsSel (sts_labels s)) sets))),
      tr @ [EvListStatefulSets])"

text \<open>\<^verbatim>\<open>strings.Join\<close>, and the text of a \<^verbatim>\<open>multierror\<close> of \<open>es\<close>.\<close>

fun Join :: "string \<Rightarrow> string list \<Rightarrow> string" where
  "Join sep [] = ''''"
| "Join sep [s] = s"
| "Join sep (s # ss) = s @ sep @ Join sep ss"

definition multierror :: "err list \<Rightarrow> err" where
  "multierror es =
     (let nl = [CHR 0x0A]; tab = [CHR 0x09];
          points = map (\<lambda>e. ''* '' @ errmsg e) es
      in Err ((if length es = 1 then ''1 error occurred:'' else Itoa (int (length es)) @ '' errors occurred:'')
              @ nl @ tab @ Join (nl @ tab) points @ nl @ nl))"

text \<open>The loop over the map of groups, in the order \<open>names\<close> of one iteration.\<close>

fun reconcileGroups :: "'z ZPDBEvictionController \<Rightarrow> env \<Rightarrow> string \<Rightarrow> string \<Rightarrow> (string \<rightharpoonup> statefulset list)
    \<Rightarrow> trace \<Rightarrow> 'z RolloutController \<Rightarrow> string list \<Rightarrow> err list res \<times> 'z RolloutController \<times> trace" where
  "reconcileGroups zc E namespace clusterDomain groups tr c [] = (Ok [], c, tr)"
| "reconcileGroups zc E namespace clusterDomain groups tr c (g # gs) =
     (case reconcileStatefulSetsGroup zc E namespace clusterDomain tr c g (the (groups g)) of
        (Panic m, c1, tr1) \<Rightarrow> (Panic m, c1, tr1)
      | (r, c1, tr1) \<Rightarrow>
          (case reconcileGroups zc E namespace clusterDomain groups tr1 c1 gs of
             (Ok errs, c2, tr2) \<Rightarrow> (Ok (case r of Fail e \<Rightarrow> e # errs | _ \<Rightarrow> errs), c2, tr2)
           | (Fail e, c2, tr2) \<Rightarrow> (Fail e, c2, tr2)
           | (Panic m, c2, tr2) \<Rightarrow> (Panic m, c2, tr2)))"

definition delete_labels :: "(string \<rightharpoonup> 'a) \<Rightarrow> string set \<Rightarrow> (string \<rightharpoonup> 'a)" where
  "delete_labels m names = (\<lambda>n. if n \<in> names then None else m n)"

definition deleteMetricsForDecommissionedGroups :: "'z RolloutController \<Rightarrow> string list \<Rightarrow> 'z RolloutController" where
  "deleteMetricsForDecommissionedGroups c groups =
     (let gone = {n \<in> discoveredGroups c. n \<notin> set groups};
          m = rc_metrics c
      in c\<lparr>rc_metrics := m\<lparr>groupReconcileTotal := delete_labels (groupReconcileTotal m) gone,
                           groupReconcileFailed := delete_labels (groupReconcileFailed m) gone,
                           groupReconcileDuration := delete_labels (groupReconcileDuration m) gone,
                           groupReconcileLastSuccess := delete_labels (groupReconcileLastSuccess m) gone\<rparr>,
            discoveredGroups := (discoveredGroups c - gone) \<union> set groups\<rparr>)"

definition group_names :: "statefulset list \<Rightarrow> string list" where
  "group_names sets = remdups (map (\<lambda>s. mget (sts_labels s) RolloutGroupLabelKey) sets)"

text \<open>\<open>ord\<close> is the order in which the Go runtime iterates over the map of groups.\<close>

definition reconcile :: "'z ZPDBEvictionController \<Rightarrow> env \<Rightarrow> string \<Rightarrow> string \<Rightarrow> (string list \<Rightarrow> string list) \<Rightarrow> trace
    \<Rightarrow> 'z RolloutController \<Rightarrow> unit res \<times> 'z RolloutController \<times> trace" where
  "reconcile zc E namespace clusterDomain ord tr c =
     (case listStatefulSetsWithRolloutGroup E namespace tr of
        (Panic m, tr1) \<Rightarrow> (Panic m, c, tr1)
      | (Fail e, tr1) \<Rightarrow> (Fail e, c, tr1)
      | (Ok sets, tr1) \<Rightarrow>
          (let groups = GroupStatefulSetsByLabel sets RolloutGroupLabelKey Map.empty in
           case reconcileGroups zc E namespace clusterDomain groups tr1 c (ord (group_names sets)) of
             (Panic m, c1, tr2) \<Rightarrow> (Panic m, c1, tr2)
           | (Fail e, c1, tr2) \<Rightarrow> (Fail e, c1, tr2)
           | (Ok errs, c1, tr2) \<Rightarrow>
               if errs \<noteq> [] then (Fail (multierror errs), c1, tr2)
               else (Ok (), deleteMetricsForDecommissionedGroups c1 (group_names sets), tr2)))"

section \<open>A group is rolled out one StatefulSet at a time\<close>

text \<open>Between \<open>tr\<close> and \<open>t\<close>, \<open>x\<close> was checked and found without not-ready pods.\<close>

definition found_ready :: "env \<Rightarrow> string \<Rightarrow> trace \<Rightarrow> trace \<Rightarrow> statefulset \<Rightarrow> bool" where
  "found_ready E namespace tr t x \<longleftrightarrow>
     (\<exists>u u'. extends tr u \<and> extends u' t \<and> hasStatefulSetNotReadyPods E namespace u x = (Ok False, u'))"

lemma found_ready_mono:
  "found_ready E ns tr t x \<Longrightarrow> extends tr0 tr \<Longrightarrow> extends t t1 \<Longrightarrow> found_ready E ns tr0 t1 x"
  unfolding found_ready_def using extends_trans by blast

text \<open>Moreover, all its pods ran the update revision.\<close>

definition found_updated :: "env \<Rightarrow> string \<Rightarrow> trace \<Rightarrow> trace \<Rightarrow> statefulset \<Rightarrow> bool" where
  "found_updated E namespace tr t x \<longleftrightarrow>
     found_ready E namespace tr t x \<and>
     (\<exists>u u'. extends tr u \<and> extends u' t \<and> podsNotMatchingUpdateRevision E namespace u x = (Ok [], u'))"

lemma found_updated_mono:
  "found_updated E ns tr t x \<Longrightarrow> extends tr0 tr \<Longrightarrow> extends t t1 \<Longrightarrow> found_updated E ns tr0 t1 x"
  unfolding found_updated_def using extends_trans found_ready_mono by blast

text \<open>
  What the deletions \<open>ds\<close> of one group between \<open>tr\<close> and \<open>tr'\<close> satisfy: they are one batch of one StatefulSet \<open>s\<close>
  of the group, which is not paused; all StatefulSets of the group have the \<^verbatim>\<open>OnDelete\<close> strategy; and every other
  StatefulSet of the group had been found ready before. The decisions that the eviction controller remembers go from
  \<open>c\<close> to \<open>c'\<close>.
\<close>

definition group_batch :: "(trace \<Rightarrow> 'c \<Rightarrow> 'c)
    \<Rightarrow> ('c \<Rightarrow> trace \<Rightarrow> 'c \<Rightarrow> trace \<Rightarrow> string \<Rightarrow> string \<Rightarrow> MaxUnavailableZeroOverride \<Rightarrow> bool) \<Rightarrow> env \<Rightarrow> string \<Rightarrow> statefulset list
    \<Rightarrow> trace \<Rightarrow> 'c \<Rightarrow> (string \<times> string) list \<Rightarrow> trace \<Rightarrow> 'c \<Rightarrow> bool" where
  "group_batch seen approved E namespace sets tr c ds tr' c' \<longleftrightarrow>
     (\<exists>s\<in>set sets. \<exists>t c1. drift seen tr c t c1 \<and> rollout_batch seen approved E namespace s t c1 ds tr' c' \<and>
        \<not> rolloutPaused s \<and> (\<forall>x\<in>set sets. sts_update_strategy x = OnDelete) \<and>
        (\<forall>x\<in>set sets. sts_ptr x \<noteq> sts_ptr s \<longrightarrow> found_ready E namespace tr t x))"

text \<open>One group is left alone or has one batch; the groups \<open>gs\<close> follow each other in the order of the iteration.\<close>

definition group_rollout :: "(trace \<Rightarrow> 'c \<Rightarrow> 'c)
    \<Rightarrow> ('c \<Rightarrow> trace \<Rightarrow> 'c \<Rightarrow> trace \<Rightarrow> string \<Rightarrow> string \<Rightarrow> MaxUnavailableZeroOverride \<Rightarrow> bool) \<Rightarrow> env \<Rightarrow> string \<Rightarrow> statefulset list
    \<Rightarrow> trace \<Rightarrow> 'c \<Rightarrow> (string \<times> string) list \<Rightarrow> trace \<Rightarrow> 'c \<Rightarrow> bool" where
  "group_rollout seen approved E namespace sets tr c ds tr' c' \<longleftrightarrow>
     ds = [] \<and> drift seen tr c tr' c' \<or> group_batch seen approved E namespace sets tr c ds tr' c'"

fun groups_rollout :: "(trace \<Rightarrow> 'c \<Rightarrow> 'c)
    \<Rightarrow> ('c \<Rightarrow> trace \<Rightarrow> 'c \<Rightarrow> trace \<Rightarrow> string \<Rightarrow> string \<Rightarrow> MaxUnavailableZeroOverride \<Rightarrow> bool) \<Rightarrow> env \<Rightarrow> string
    \<Rightarrow> (string \<Rightarrow> statefulset list) \<Rightarrow> trace \<Rightarrow> 'c \<Rightarrow> string list \<Rightarrow> (string \<times> string) list \<Rightarrow> trace \<Rightarrow> 'c \<Rightarrow> bool" where
  "groups_rollout seen approved E namespace sets tr c [] ds tr' c' \<longleftrightarrow> ds = [] \<and> tr' = tr \<and> c' = c"
| "groups_rollout seen approved E namespace sets tr c (g # gs) ds tr' c' \<longleftrightarrow>
     (\<exists>ds1 ds2 t c1. ds = ds1 @ ds2 \<and> group_rollout seen approved E namespace (sets g) tr c ds1 t c1 \<and>
        groups_rollout seen approved E namespace sets t c1 gs ds2 tr' c')"

lemma group_rollout_before:
  assumes "group_rollout seen approved E ns sets t c1 ds tr' c'" and "drift seen tr c t c1"
  shows "group_rollout seen approved E ns sets tr c ds tr' c'"
  using assms(1) unfolding group_rollout_def
proof
  assume "group_batch seen approved E ns sets t c1 ds tr' c'"
  then obtain s t2 c2 where s: "s \<in> set sets" "drift seen t c1 t2 c2" "rollout_batch seen approved E ns s t2 c2 ds tr' c'"
      "\<not> rolloutPaused s" "\<forall>x\<in>set sets. sts_update_strategy x = OnDelete"
    and ready: "\<forall>x\<in>set sets. sts_ptr x \<noteq> sts_ptr s \<longrightarrow> found_ready E ns t t2 x"
    unfolding group_batch_def by (elim bexE exE conjE)
  have "\<forall>x\<in>set sets. sts_ptr x \<noteq> sts_ptr s \<longrightarrow> found_ready E ns tr t2 x"
    using ready found_ready_mono [OF _ drift_extends [OF assms(2)] extends_refl] by blast
  with s drift_trans [OF assms(2) s(2)] have "group_batch seen approved E ns sets tr c ds tr' c'"
    unfolding group_batch_def by (intro bexI [of _ s] exI conjI)
  then show "ds = [] \<and> drift seen tr c tr' c' \<or> group_batch seen approved E ns sets tr c ds tr' c'" by simp
qed (use drift_trans [OF assms(2)] in simp)

lemma group_rollout_after:
  assumes "group_rollout seen approved E ns sets tr c ds t c1" and "drift seen t c1 tr' c'"
  shows "group_rollout seen approved E ns sets tr c ds tr' c'"
  using assms(1) unfolding group_rollout_def
proof
  assume "group_batch seen approved E ns sets tr c ds t c1"
  then have "group_batch seen approved E ns sets tr c ds tr' c'"
    unfolding group_batch_def
    by (elim bexE exE conjE) (intro bexI exI conjI, assumption, erule rollout_batch_after [OF _ assms(2)])
  then show "ds = [] \<and> drift seen tr c tr' c' \<or> group_batch seen approved E ns sets tr c ds tr' c'" by simp
qed (use drift_trans [OF _ assms(2)] in simp)

lemma groups_rollout_stop: "groups_rollout seen approved E ns sets tr c gs [] tr c"
  by (induction gs) (simp, force simp: group_rollout_def)

lemma findNotReadySets_sound:
  assumes "findNotReadySets E ns tr sets = (r, tr')"
  shows "quiet tr tr' \<and> (\<forall>nr. r = Ok nr \<longrightarrow> subseq nr sets \<and>
           (\<forall>x\<in>set sets. x \<in> set nr \<or> found_ready E ns tr tr' x))"
  using assms
proof (induction sets arbitrary: tr r tr')
  case (Cons s sets)
  obtain q tr1 where h: "hasStatefulSetNotReadyPods E ns tr s = (q, tr1)" by fastforce
  note q1 = quiet_hasNotReady [OF h]
  obtain r2 tr2 where f: "findNotReadySets E ns tr1 sets = (r2, tr2)" by fastforce
  note IH = Cons.IH [OF f]
  show ?case
  proof (cases "\<exists>b. q = Ok b")
    case True
    then obtain b where b: "q = Ok b" by blast
    have q2: "quiet tr tr2" using q1 IH quiet_trans by blast
    have ready: "found_ready E ns tr tr2 s" if "\<not> b"
      using h b that quiet_extends IH extends_refl unfolding found_ready_def by metis
    have "tr' = tr2" using Cons.prems h b f by (cases r2) auto
    moreover have "subseq nr (s # sets) \<and> (\<forall>x\<in>set (s # sets). x \<in> set nr \<or> found_ready E ns tr tr2 x)" if nr: "r = Ok nr" for nr
    proof -
      obtain nr2 where r2: "r2 = Ok nr2" "nr = (if b then s # nr2 else nr2)"
        using Cons.prems h b f nr by (cases r2) auto
      with IH have "subseq nr2 sets" "\<forall>x\<in>set sets. x \<in> set nr2 \<or> found_ready E ns tr1 tr2 x" by auto
      with r2 ready found_ready_mono [OF _ quiet_extends [OF q1] extends_refl] show ?thesis by auto
    qed
    ultimately show ?thesis using q2 by simp
  next
    case False
    with Cons.prems h q1 show ?thesis by (cases q) auto
  qed
qed auto

lemma finish_ready:
  "finishStatefulSet E ns tr s = (Ok False, tr') \<Longrightarrow> found_ready E ns tr tr' s"
proof -
  assume "finishStatefulSet E ns tr s = (Ok False, tr')"
  then obtain tr1 where "hasStatefulSetNotReadyPods E ns tr s = (Ok False, tr1)" and "extends tr1 tr'"
    by (auto simp: finishStatefulSet_def Let_def split: prod.splits res.splits bool.splits if_splits reply.splits)
  then show "found_ready E ns tr tr' s" unfolding found_ready_def using extends_refl by blast
qed

lemma deep_copies_distinct: "distinct (map sts_ptr (deep_copies sets))"
proof -
  have "map sts_ptr (deep_copies sets) = [0..<length sets]"
    by (simp add: deep_copies_def comp_def case_prod_unfold map_fst_enumerate)
  then show ?thesis by simp
qed

lemma GroupStatefulSetsByLabel_eq:
  "GroupStatefulSetsByLabel sets label groups g =
     (let new = filter (\<lambda>s. mget (sts_labels s) label = g) sets
      in if new = [] then groups g else Some ((case groups g of None \<Rightarrow> [] | Some l \<Rightarrow> l) @ new))"
  by (induction sets arbitrary: groups) (auto simp: Let_def split: option.splits)

text \<open>The StatefulSets of one group, in the order of the listing.\<close>

definition group_sets :: "statefulset list \<Rightarrow> string \<Rightarrow> statefulset list" where
  "group_sets sets g = filter (\<lambda>s. mget (sts_labels s) RolloutGroupLabelKey = g) sets"

lemma group_lookup:
  "g \<in> set (group_names sets) \<Longrightarrow> GroupStatefulSetsByLabel sets RolloutGroupLabelKey Map.empty g = Some (group_sets sets g)"
  by (auto simp: GroupStatefulSetsByLabel_eq group_names_def group_sets_def Let_def filter_empty_conv)

lemma group_rollout_perm:
  "set sets = set sets' \<Longrightarrow>
     group_rollout seen approved E ns sets tr c ds tr' c' = group_rollout seen approved E ns sets' tr c ds tr' c'"
  by (simp add: group_rollout_def group_batch_def)

context zpdb_controller
begin

lemma update_done:
  assumes "updateStatefulSetPods zc E ns tr z s = (Ok False, z', tr')"
  shows "found_updated E ns tr tr' s"
proof -
  obtain q tr1 where l: "podsNotMatchingUpdateRevision E ns tr s = (q, tr1)" by fastforce
  have "\<not> (\<exists>outdated. updateOutdatedPods zc E tr1 z s outdated = (Ok False, z', tr'))"
    by (auto elim: updateOutdatedPods_cases)
  with assms l have f: "finishStatefulSet E ns tr1 s = (Ok False, tr')" and q: "q = Ok []"
    by (auto simp: updateStatefulSetPods_def split: res.splits if_splits prod.splits)
  from found_ready_mono [OF finish_ready [OF f] quiet_extends [OF quiet_podsNotMatching [OF l]] extends_refl]
  have "found_ready E ns tr tr' s" .
  moreover have "extends tr1 tr'" using quiet_finishStatefulSet [OF f] by (rule quiet_extends)
  ultimately show ?thesis unfolding found_updated_def using l q extends_refl by blast
qed

text \<open>
  The loop over the sets deletes pods of one of them, after every set before it was found updated and ready, or is paused and not
  the not-ready one.
\<close>

definition loop_batch :: "env \<Rightarrow> string \<Rightarrow> statefulset list \<Rightarrow> statefulset list \<Rightarrow> trace \<Rightarrow> 'c \<Rightarrow> (string \<times> string) list \<Rightarrow> trace \<Rightarrow> 'c \<Rightarrow> bool" where
  "loop_batch E ns nr sets tr c ds tr' c' \<longleftrightarrow>
     (\<exists>pre s post t c1. sets = pre @ s # post \<and> drift seen tr c t c1 \<and>
        rollout_batch seen approved E ns s t c1 ds tr' c' \<and> \<not> rolloutPaused s \<and>
        (\<forall>x\<in>set pre. found_updated E ns tr t x \<or> rolloutPaused x \<and> (\<forall>y. nr = [y] \<longrightarrow> sts_ptr y \<noteq> sts_ptr x)))"

lemma loop_batch_here:
  "rollout_batch seen approved E ns s tr c ds tr' c' \<Longrightarrow> \<not> rolloutPaused s \<Longrightarrow> loop_batch E ns nr (s # sets) tr c ds tr' c'"
  unfolding loop_batch_def
  by (rule exI [of _ "[]"], rule exI [of _ s], rule exI [of _ sets], rule exI [of _ tr], rule exI [of _ c]) simp

lemma loop_batch_Cons:
  assumes "loop_batch E ns nr sets tr1 c1 ds tr' c'" and "drift seen tr c tr1 c1"
    and "found_updated E ns tr tr1 s \<or> rolloutPaused s \<and> (\<forall>y. nr = [y] \<longrightarrow> sts_ptr y \<noteq> sts_ptr s)"
  shows "loop_batch E ns nr (s # sets) tr c ds tr' c'"
proof -
  from assms(1) obtain pre sa post t c2 where l: "sets = pre @ sa # post" "drift seen tr1 c1 t c2"
      "rollout_batch seen approved E ns sa t c2 ds tr' c'" "\<not> rolloutPaused sa"
      "\<forall>x\<in>set pre. found_updated E ns tr1 t x \<or> rolloutPaused x \<and> (\<forall>y. nr = [y] \<longrightarrow> sts_ptr y \<noteq> sts_ptr x)"
    unfolding loop_batch_def by (elim exE conjE)
  note ext = drift_extends [OF assms(2)] and ext2 = drift_extends [OF l(2)]
  have pre: "\<forall>x\<in>set (s # pre). found_updated E ns tr t x \<or> rolloutPaused x \<and> (\<forall>y. nr = [y] \<longrightarrow> sts_ptr y \<noteq> sts_ptr x)"
    using l(5) assms(3) found_updated_mono [OF _ ext extends_refl] found_updated_mono [OF _ extends_refl ext2] by auto
  show ?thesis unfolding loop_batch_def
    by (rule exI [of _ "s # pre"], rule exI [of _ sa], rule exI [of _ post], rule exI [of _ t], rule exI [of _ c2])
       (intro conjI pre l(3,4) drift_trans [OF assms(2) l(2)], simp add: l(1))
qed

lemma updateSets_batch:
  assumes "updateSets zc E ns nr tr z sets = (r, z', tr')"
  shows "\<exists>ds. deletions tr' = deletions tr @ ds \<and> replica_patches tr' = replica_patches tr \<and> extends tr tr' \<and>
    (ds = [] \<and> drift seen tr (held z) tr' (held z') \<or> loop_batch E ns nr sets tr (held z) ds tr' (held z'))"
  using assms
proof (induction sets arbitrary: tr z)
  case (Cons s sets)
  show ?case
  proof (cases "rolloutPaused s")
    case True
    show ?thesis
    proof (cases "length nr = 1 \<and> sts_ptr (nr ! 0) = sts_ptr s")
      case False
      with Cons.prems True have "updateSets zc E ns nr tr z sets = (r, z', tr')" by auto
      moreover have "rolloutPaused s \<and> (\<forall>y. nr = [y] \<longrightarrow> sts_ptr y \<noteq> sts_ptr s)" using True False by auto
      ultimately show ?thesis using Cons.IH loop_batch_Cons [OF _ drift_refl] by blast
    qed (use Cons.prems True in auto)
  next
    case False
    obtain q z1 tr1 where u: "updateStatefulSetPods zc E ns tr z s = (q, z1, tr1)" by (metis prod_cases3)
    from updateStatefulSetPods_batch [OF u] obtain ds where b: "deletions tr1 = deletions tr @ ds"
        "replica_patches tr1 = replica_patches tr" "extends tr tr1"
        "ds = [] \<and> drift seen tr (held z) tr1 (held z1) \<or> q \<noteq> Ok False \<and> rollout_batch seen approved E ns s tr (held z) ds tr1 (held z1)"
      by blast
    show ?thesis
    proof (cases "q = Ok False")
      case True
      with b(4) have none: "ds = []" and dr: "drift seen tr (held z) tr1 (held z1)" by simp_all
      have rest: "updateSets zc E ns nr tr1 z1 sets = (r, z', tr')" using Cons.prems False u True by simp
      have ready: "found_updated E ns tr tr1 s" using u True by (auto intro: update_done)
      from Cons.IH [OF rest] obtain es where es: "deletions tr' = deletions tr1 @ es" "replica_patches tr' = replica_patches tr1"
          "extends tr1 tr'" "es = [] \<and> drift seen tr1 (held z1) tr' (held z') \<or> loop_batch E ns nr sets tr1 (held z1) es tr' (held z')" by blast
      with loop_batch_Cons [OF _ dr] ready drift_trans [OF dr]
      have "es = [] \<and> drift seen tr (held z) tr' (held z') \<or> loop_batch E ns nr (s # sets) tr (held z) es tr' (held z')" by blast
      with es b none extends_trans [OF b(3) es(3)] show ?thesis by (intro exI [of _ es]) simp
    next
      case ne: False
      with Cons.prems False u have tr': "tr' = tr1" "z' = z1" by (auto split: res.splits bool.splits if_splits)
      with b loop_batch_here [OF _ False] show ?thesis by blast
    qed
  qed
qed simp

lemma rolloutGroup_batch:
  assumes "rolloutGroup zc E ns tr z sets = (r, z', tr')" and "distinct (map sts_ptr sets)"
  shows "\<exists>ds. deletions tr' = deletions tr @ ds \<and> replica_patches tr' = replica_patches tr \<and> extends tr tr' \<and>
    group_rollout seen approved E ns sets tr (held z) ds tr' (held z')"
proof (cases "find (\<lambda>s. sts_update_strategy s \<noteq> OnDelete) sets")
  case none: None
  then have od: "\<forall>x\<in>set sets. sts_update_strategy x = OnDelete" by (simp add: find_None_iff)
  obtain q tr1 where f: "findNotReadySets E ns tr sets = (q, tr1)" by fastforce
  from findNotReadySets_sound [OF f] have q1: "quiet tr tr1" by blast
  have d1: "drift seen tr (held z) tr1 (held z)" using quiet_extends [OF q1] by (rule drift_stay)
  show ?thesis
  proof (cases "\<exists>nr. q = Ok nr \<and> length nr \<le> 1")
    case False
    with assms(1) none f have "tr' = tr1" "z' = z" by (auto simp: rolloutGroup_def split: res.splits if_splits)
    with q1 d1 show ?thesis by (simp add: quiet_def group_rollout_def)
  next
    case True
    then obtain nr where nr: "q = Ok nr" "length nr \<le> 1" by blast
    let ?sets = "if length nr = 1 then MoveStatefulSetToFront sets (nr ! 0) else sets"
    have u: "updateSets zc E ns nr tr1 z ?sets = (r, z', tr')"
      using assms(1) none f nr by (simp add: rolloutGroup_def)
    from findNotReadySets_sound [OF f] nr have sub: "subseq nr sets"
      and ready: "\<forall>x\<in>set sets. x \<in> set nr \<or> found_ready E ns tr tr1 x" by auto
    from updateSets_batch [OF u] obtain ds where ds: "deletions tr' = deletions tr1 @ ds"
        "replica_patches tr' = replica_patches tr1" "extends tr1 tr'"
        "ds = [] \<and> drift seen tr1 (held z) tr' (held z') \<or> loop_batch E ns nr ?sets tr1 (held z) ds tr' (held z')" by blast
    have "group_batch seen approved E ns sets tr (held z) ds tr' (held z')"
      if lb: "loop_batch E ns nr ?sets tr1 (held z) ds tr' (held z')"
    proof -
      from lb obtain pre s post t c1 where l: "?sets = pre @ s # post" "drift seen tr1 (held z) t c1"
        "rollout_batch seen approved E ns s t c1 ds tr' (held z')" "\<not> rolloutPaused s"
        "\<forall>x\<in>set pre. found_updated E ns tr1 t x \<or> rolloutPaused x \<and> (\<forall>y. nr = [y] \<longrightarrow> sts_ptr y \<noteq> sts_ptr x)"
        unfolding loop_batch_def by (elim exE conjE)
      have nrs: "nr = [] \<or> (\<exists>y. nr = [y] \<and> y \<in> set sets)"
        using nr(2) sub by (cases nr) (auto dest: list_emb_set)
      have s: "s \<in> set sets" using l(1) nrs
        by (auto simp: MoveStatefulSetToFront_def split: if_splits) (metis (no_types, lifting) Cons_eq_append_conv
          filter_is_subset in_set_conv_decomp list.sel(1) set_ConsD subsetD)+
      have "found_ready E ns tr t x" if x: "x \<in> set sets" "sts_ptr x \<noteq> sts_ptr s" for x
      proof (cases "x \<in> set nr")
        case False
        with ready x have "found_ready E ns tr tr1 x" by blast
        from found_ready_mono [OF this extends_refl drift_extends [OF l(2)]] show ?thesis .
      next
        case True
        with nrs have nx: "nr = [x]" by auto
        then have "pre @ s # post = x # filter (\<lambda>y. sts_ptr y \<noteq> sts_ptr x) sets"
          using l(1) by (simp add: MoveStatefulSetToFront_def)
        with x(2) have "x \<in> set pre" by (cases pre) auto
        with l(5) nx have "found_ready E ns tr1 t x" by (auto simp: found_updated_def)
        from found_ready_mono [OF this quiet_extends [OF q1] extends_refl] show ?thesis .
      qed
      then show ?thesis unfolding group_batch_def
        by (intro bexI [OF _ s] exI [of _ t] exI [of _ c1] conjI drift_trans [OF d1 l(2)] l(3,4) od) blast
    qed
    with ds(4) drift_trans [OF d1] have "group_rollout seen approved E ns sets tr (held z) ds tr' (held z')"
      unfolding group_rollout_def by blast
    with ds q1 extends_trans [OF quiet_extends [OF q1] ds(3)] show ?thesis by (intro exI [of _ ds]) (simp add: quiet_def)
  qed
qed (use assms(1) in \<open>simp add: rolloutGroup_def group_rollout_def\<close>)

lemma reconcileGroupBody_batch:
  assumes "reconcileGroupBody zc E ns cd tr z sets = (r, z', tr')" and "distinct (map sts_ptr sets)"
  shows "\<exists>ds. deletions tr' = deletions tr @ ds \<and> group_rollout seen approved E ns sets tr (held z) ds tr' (held z')"
proof -
  let ?sets = "SortStatefulSets sets"
  obtain q tr1 where a: "adjustStatefulSetsGroupReplicas E ns cd tr ?sets = (q, tr1)" by fastforce
  from adjust_once [OF a, of False] have ext: "extends tr tr1" and del: "deletions tr1 = deletions tr"
    by (auto simp: adjusted_once_def quiet_def)
  have d1: "drift seen tr (held z) tr1 (held z)" using ext by (rule drift_stay)
  have same: "set ?sets = set sets" and dist: "distinct (map sts_ptr ?sets)"
    using assms(2) by (simp_all add: SortStatefulSets_def)
  from assms(1) a consider "tr' = tr1" "z' = z" | "rolloutGroup zc E ns tr1 z ?sets = (r, z', tr')"
    by (auto simp: reconcileGroupBody_def Let_def split: res.splits bool.splits)
  then show ?thesis
  proof cases
    case 1
    with d1 del show ?thesis by (simp add: group_rollout_def)
  next
    case 2
    from rolloutGroup_batch [OF this dist] obtain ds where ds: "deletions tr' = deletions tr1 @ ds"
      "group_rollout seen approved E ns ?sets tr1 (held z) ds tr' (held z')" by blast
    from group_rollout_before [OF ds(2) [unfolded group_rollout_perm [OF same]] d1] ds(1) del show ?thesis by auto
  qed
qed

lemma reconcileStatefulSetsGroup_batch:
  assumes "reconcileStatefulSetsGroup zc E ns cd tr c g sets = (r, c', tr')" and "distinct (map sts_ptr sets)"
  shows "\<exists>ds. deletions tr' = deletions tr @ ds \<and>
    group_rollout seen approved E ns sets tr (held (zpdbController c)) ds tr' (held (zpdbController c'))"
proof -
  obtain q z1 tr1 where b: "reconcileGroupBody zc E ns cd tr (zpdbController c) sets = (q, z1, tr1)" by (metis prod_cases3)
  from reconcileGroupBody_batch [OF b assms(2)] obtain ds where ds: "deletions tr1 = deletions tr @ ds"
    "group_rollout seen approved E ns sets tr (held (zpdbController c)) ds tr1 (held z1)" by blast
  have "(tr' = tr1 \<or> tr' = tr1 @ [EvNow]) \<and> zpdbController c' = z1"
    using assms(1) b by (auto simp: reconcileStatefulSetsGroup_def Let_def split: res.splits)
  then have "deletions tr' = deletions tr1" and z: "zpdbController c' = z1" and e: "extends tr1 tr'" by auto
  with ds group_rollout_after [OF ds(2) drift_stay [OF e]] show ?thesis by (intro exI [of _ ds]) simp
qed

text \<open>All groups: the deletions are those of the groups in the order of the iteration, each of them safe.\<close>

lemma reconcileGroups_batches:
  assumes "reconcileGroups zc E ns cd (GroupStatefulSetsByLabel sets RolloutGroupLabelKey Map.empty) tr c names = (r, c', tr')"
    and "distinct (map sts_ptr sets)" and "set names \<subseteq> set (group_names sets)"
  shows "\<exists>ds. deletions tr' = deletions tr @ ds \<and> groups_rollout seen approved E ns (group_sets sets) tr (held (zpdbController c)) names ds
    tr' (held (zpdbController c'))"
  using assms(1,3)
proof (induction names arbitrary: tr c r)
  case (Cons g names)
  let ?groups = "GroupStatefulSetsByLabel sets RolloutGroupLabelKey Map.empty"
  obtain q c1 tr1 where one: "reconcileStatefulSetsGroup zc E ns cd tr c g (group_sets sets g) = (q, c1, tr1)"
    by (metis prod_cases3)
  have g: "the (?groups g) = group_sets sets g" using Cons.prems(2) by (simp add: group_lookup)
  have "distinct (map sts_ptr (group_sets sets g))"
    using assms(2) unfolding group_sets_def by (rule distinct_map_filter)
  from reconcileStatefulSetsGroup_batch [OF one this] obtain ds where ds: "deletions tr1 = deletions tr @ ds"
    "group_rollout seen approved E ns (group_sets sets g) tr (held (zpdbController c)) ds tr1 (held (zpdbController c1))" by blast
  have "\<exists>es. deletions tr' = deletions tr1 @ es \<and> groups_rollout seen approved E ns (group_sets sets) tr1 (held (zpdbController c1)) names es
      tr' (held (zpdbController c'))"
  proof (cases "tr' = tr1 \<and> c' = c1")
    case True
    then show ?thesis using groups_rollout_stop by auto
  next
    case False
    with Cons.prems(1) one g obtain q2 where "reconcileGroups zc E ns cd ?groups tr1 c1 names = (q2, c', tr')"
      by (auto split: res.splits prod.splits)
    from Cons.IH [OF this] Cons.prems(2) show ?thesis by simp
  qed
  then obtain es where "deletions tr' = deletions tr1 @ es"
    "groups_rollout seen approved E ns (group_sets sets) tr1 (held (zpdbController c1)) names es tr' (held (zpdbController c'))" by blast
  with ds show ?case unfolding groups_rollout.simps
    by (intro exI [of _ "ds @ es"] conjI exI [of _ ds] exI [of _ es] exI [of _ tr1] exI) simp_all
qed auto

lemma reconcile_batches:
  assumes "reconcile zc E ns cd ord tr c = (r, c', tr')" and "\<forall>ks. mset (ord ks) = mset ks"
  shows "\<exists>ds. deletions tr' = deletions tr @ ds \<and>
    (ds = [] \<or> (\<exists>sets. fst (listStatefulSetsWithRolloutGroup E ns tr) = Ok sets \<and> distinct (ord (group_names sets)) \<and>
       groups_rollout seen approved E ns (group_sets sets) (tr @ [EvListStatefulSets]) (held (zpdbController c)) (ord (group_names sets)) ds
         tr' (held (zpdbController c'))))"
proof -
  obtain q tr1 where l: "listStatefulSetsWithRolloutGroup E ns tr = (q, tr1)" by fastforce
  then have tr1: "tr1 = tr @ [EvListStatefulSets]" by (auto simp: listStatefulSetsWithRolloutGroup_def)
  show ?thesis
  proof (cases "\<exists>sets. q = Ok sets")
    case False
    with assms(1) l have "tr' = tr1" by (cases q) (auto simp: reconcile_def)
    with tr1 show ?thesis by simp
  next
    case True
    then obtain sets where sets: "q = Ok sets" by blast
    let ?names = "ord (group_names sets)"
    obtain q2 c2 where g: "reconcileGroups zc E ns cd (GroupStatefulSetsByLabel sets RolloutGroupLabelKey Map.empty) tr1 c ?names = (q2, c2, tr')"
      and z: "zpdbController c' = zpdbController c2"
      using assms(1) l sets
      by (auto simp: reconcile_def Let_def deleteMetricsForDecommissionedGroups_def split: prod.splits res.splits if_splits)
    have dist: "distinct (map sts_ptr sets)"
      using l sets deep_copies_distinct by (auto simp: listStatefulSetsWithRolloutGroup_def split: reply.splits)
    have names: "distinct ?names" "set ?names = set (group_names sets)"
      using assms(2) mset_eq_imp_distinct_iff [of ?names "group_names sets"] mset_eq_setD [of ?names "group_names sets"]
      by (simp_all add: group_names_def)
    from reconcileGroups_batches [OF g dist] names(2) obtain ds where ds: "deletions tr' = deletions tr1 @ ds"
      "groups_rollout seen approved E ns (group_sets sets) tr1 (held (zpdbController c)) ?names ds tr' (held (zpdbController c2))" by auto
    with names(1) l sets tr1 z show ?thesis
      by (intro exI [of _ ds] conjI disjI2 exI [of _ sets]) simp_all
  qed
qed

end

section \<open>Metrics\<close>

lemma reconcileStatefulSetsGroup_frame:
  assumes "reconcileStatefulSetsGroup zc E ns cd tr c g sets = (r, c', tr')"
  shows "shouldReconcile c' = shouldReconcile c" and "discoveredGroups c' = discoveredGroups c"
    and "\<forall>m. r \<noteq> Panic m \<Longrightarrow> \<exists>now. rc_metrics c' = end_metrics (start_metrics (rc_metrics c) g) g (r \<noteq> Ok ()) now"
  using assms by (auto simp: reconcileStatefulSetsGroup_def Let_def split: prod.splits res.splits)

text \<open>The four series of one group.\<close>

definition series :: "group_metrics \<Rightarrow> string \<Rightarrow> nat option \<times> nat option \<times> nat option \<times> instant option option" where
  "series m g = (groupReconcileTotal m g, groupReconcileFailed m g, groupReconcileDuration m g, groupReconcileLastSuccess m g)"

definition count_of :: "nat option \<Rightarrow> nat" where
  "count_of v = (case v of None \<Rightarrow> 0 | Some n \<Rightarrow> n)"

text \<open>After a successful reconcile at \<open>now\<close>: one reconcile and one duration more, no failure more, and the time of the success.\<close>

definition after_success :: "group_metrics \<Rightarrow> string \<Rightarrow> instant \<Rightarrow> nat option \<times> nat option \<times> nat option \<times> instant option option" where
  "after_success m g now =
     (Some (Suc (count_of (groupReconcileTotal m g))), Some (count_of (groupReconcileFailed m g)),
      Some (Suc (count_of (groupReconcileDuration m g))), Some (Some now))"

lemma series_success:
  "series (end_metrics (start_metrics m g) g False now) h = (if h = g then after_success m g now else series m h)"
  by (auto simp: series_def after_success_def count_of_def end_metrics_def start_metrics_def incr_def with_label_def Let_def
      split: option.splits)

lemma after_success_cong: "series m g = series m' g \<Longrightarrow> after_success m g now = after_success m' g now"
  by (simp add: series_def after_success_def)

lemma reconcileGroups_frame:
  "reconcileGroups zc E ns cd groups tr c names = (r, c', tr') \<Longrightarrow>
     shouldReconcile c' = shouldReconcile c \<and> discoveredGroups c' = discoveredGroups c"
proof (induction names arbitrary: tr c r)
  case (Cons g names)
  obtain q c1 tr1 where one: "reconcileStatefulSetsGroup zc E ns cd tr c g (the (groups g)) = (q, c1, tr1)" by (metis prod_cases3)
  from Cons.prems one consider "c' = c1" | q2 where "reconcileGroups zc E ns cd groups tr1 c1 names = (q2, c', tr')"
    by (auto split: res.splits prod.splits)
  then show ?case using Cons.IH reconcileStatefulSetsGroup_frame(1,2) [OF one] by cases auto
qed auto

context zpdb_controller
begin

lemma group_rollout_extends: "group_rollout seen approved E ns sets tr c ds tr' c' \<Longrightarrow> extends tr tr'"
  unfolding group_rollout_def group_batch_def rollout_batch_def
  by (elim disjE conjE bexE exE)
     (blast dest: drift_extends approved_deletions_extends quiet_extends [OF quiet_podsNotMatching] intro: extends_trans)+

lemma group_success:
  assumes "reconcileStatefulSetsGroup zc E ns cd tr c g sets = (Ok (), c', tr')" and "distinct (map sts_ptr sets)"
  shows "\<exists>t. extends tr t \<and> tr' = t @ [EvNow] \<and> rc_metrics c' = end_metrics (start_metrics (rc_metrics c) g) g False (e_now E t)"
proof -
  obtain q z1 t where b: "reconcileGroupBody zc E ns cd tr (zpdbController c) sets = (q, z1, t)" by (metis prod_cases3)
  have "extends tr t" using reconcileGroupBody_batch [OF b assms(2)] group_rollout_extends by blast
  moreover have "tr' = t @ [EvNow] \<and> rc_metrics c' = end_metrics (start_metrics (rc_metrics c) g) g False (e_now E t)"
    using assms(1) b by (auto simp: reconcileStatefulSetsGroup_def Let_def split: res.splits)
  ultimately show ?thesis by blast
qed

text \<open>When all groups succeed, each has its series updated once, at a clock reading of its own.\<close>

lemma reconcileGroups_series:
  assumes "reconcileGroups zc E ns cd groups tr c names = (Ok [], c', tr')" and "distinct names"
    and "\<forall>g\<in>set names. distinct (map sts_ptr (the (groups g)))"
  shows "extends tr tr' \<and> (\<forall>h. if h \<in> set names
     then \<exists>t. extends tr t \<and> extends (t @ [EvNow]) tr' \<and> series (rc_metrics c') h = after_success (rc_metrics c) h (e_now E t)
     else series (rc_metrics c') h = series (rc_metrics c) h)"
  using assms
proof (induction names arbitrary: tr c)
  case (Cons g names)
  obtain q c1 tr1 where one: "reconcileStatefulSetsGroup zc E ns cd tr c g (the (groups g)) = (q, c1, tr1)" by (metis prod_cases3)
  from Cons.prems(1) one have q: "q = Ok ()" and rest: "reconcileGroups zc E ns cd groups tr1 c1 names = (Ok [], c', tr')"
    by (auto split: res.splits prod.splits)
  have "distinct (map sts_ptr (the (groups g)))" using Cons.prems(3) by simp
  from group_success [OF one [unfolded q] this] obtain t where t: "extends tr t" "tr1 = t @ [EvNow]"
    "rc_metrics c1 = end_metrics (start_metrics (rc_metrics c) g) g False (e_now E t)" by blast
  have e1: "extends tr tr1" using t(1,2) by (simp add: extends_snoc)
  from Cons.IH [OF rest] Cons.prems(2,3) have ext: "extends tr1 tr'"
    and IH: "\<And>h. if h \<in> set names
     then \<exists>u. extends tr1 u \<and> extends (u @ [EvNow]) tr' \<and> series (rc_metrics c') h = after_success (rc_metrics c1) h (e_now E u)
     else series (rc_metrics c') h = series (rc_metrics c1) h" by simp_all
  have other: "series (rc_metrics c1) h = series (rc_metrics c) h" if "h \<noteq> g" for h
    using that by (simp add: t(3) series_success)
  have "if h \<in> set (g # names)
     then \<exists>u. extends tr u \<and> extends (u @ [EvNow]) tr' \<and> series (rc_metrics c') h = after_success (rc_metrics c) h (e_now E u)
     else series (rc_metrics c') h = series (rc_metrics c) h" for h
  proof (cases "h = g")
    case True
    with IH [of h] Cons.prems(2) have "series (rc_metrics c') h = after_success (rc_metrics c) h (e_now E t)"
      by (simp add: t(3) series_success)
    with True t(1,2) ext show ?thesis by auto
  next
    case False
    have "after_success (rc_metrics c1) h now = after_success (rc_metrics c) h now" for now
      using other [OF False] by (rule after_success_cong)
    with IH [of h] other [OF False] False extends_trans [OF e1] show ?thesis by (auto split: if_splits)
  qed
  with extends_trans [OF e1 ext] show ?case by blast
qed simp

end

lemma reconcile_keeps_flag:
  "reconcile zc E ns cd ord tr c = (r, c', tr') \<Longrightarrow> shouldReconcile c' = shouldReconcile c"
  by (auto simp: reconcile_def Let_def deleteMetricsForDecommissionedGroups_def dest!: reconcileGroups_frame
      split: prod.splits res.splits if_splits)

section \<open>Properties\<close>

text \<open>C1: one StatefulSet of a group at a time, within the budget. The pods deleted by a reconcile fall into at most one batch per
  listed rollout group, in the order in which the groups are visited. Each batch takes pods of a single StatefulSet of the group
  that is not paused; all StatefulSets of the
  group have the \<^verbatim>\<open>OnDelete\<close> strategy; every other StatefulSet of the group was found without not-ready or missing
  pods before. Each deletion directly follows its approval by the eviction controller: with the configurations cached and the
  evictions recorded at that point, the pod was outside every budget, did not count any more, or the budget was met
  at listings made for this decision and the eviction is recorded for the decisions after it. The evictions recorded at the first
  decision are those of the state before the reconcile, and each decision leaves what the next one starts from, up to
  the changes of the other users of the eviction controller. This holds for every behaviour of the API server, the caches and the
  other users, and for every iteration order of the map of groups.\<close>

theorem one_statefulset_at_a_time:
  assumes "reconcile (evictionController E cfgs evs) E namespace clusterDomain ord tr c = (r, c', tr')"
    and "\<forall>ks. mset (ord ks) = mset ks"
  shows "\<exists>ds. deletions tr' = deletions tr @ ds \<and>
    (ds = [] \<or> (\<exists>sets. fst (listStatefulSetsWithRolloutGroup E namespace tr) = Ok sets \<and> distinct (ord (group_names sets)) \<and>
       groups_rollout evs (budget_approved E cfgs) E namespace (group_sets sets) (tr @ [EvListStatefulSets])
         (zp_evictions (zpdbController c)) (ord (group_names sets)) ds tr' (zp_evictions (zpdbController c'))))"
  using ec.reconcile_batches [OF assms] .

lemma demo_reconcile:
  "\<exists>c tr. reconcile demo_controller demo_rollout ''ns'' ''cluster.local'' rev [] (NewRolloutController NewEvictionController) = (Ok (), c, tr) \<and>
     deletions tr = [(''ns'', ''zone-a-0'')]"
proof -
  have "(case reconcile demo_controller demo_rollout ''ns'' ''cluster.local'' rev [] (NewRolloutController NewEvictionController) of
     (r, c, tr) \<Rightarrow> r = Ok () \<and> deletions tr = [(''ns'', ''zone-a-0'')])"
    by code_simp
  then show ?thesis by (auto split: prod.splits)
qed

theorem one_statefulset_at_a_time_witness:
  "\<exists>c tr sets. reconcile demo_controller demo_rollout ''ns'' ''cluster.local'' rev [] (NewRolloutController NewEvictionController) = (Ok (), c, tr) \<and>
     fst (listStatefulSetsWithRolloutGroup demo_rollout ''ns'' []) = Ok sets \<and>
     groups_rollout (\<lambda>_ evs. evs) (budget_approved demo_rollout (\<lambda>_. [(''ingester'', demo_cfg ''ingester'' 3)])) demo_rollout ''ns'' (group_sets sets)
       [EvListStatefulSets] newPodEvictionCache (rev (group_names sets)) [(''ns'', ''zone-a-0'')] tr (zp_evictions (zpdbController c))"
proof -
  obtain c tr where u: "reconcile demo_controller demo_rollout ''ns'' ''cluster.local'' rev [] (NewRolloutController NewEvictionController) = (Ok (), c, tr)"
    and d: "deletions tr = [(''ns'', ''zone-a-0'')]"
    using demo_reconcile by blast
  have z: "zp_evictions (zpdbController (NewRolloutController NewEvictionController)) = newPodEvictionCache"
    by (simp add: NewRolloutController_def NewEvictionController_def)
  from one_statefulset_at_a_time [OF u [unfolded demo_controller_def], unfolded z] obtain sets where
    "fst (listStatefulSetsWithRolloutGroup demo_rollout ''ns'' []) = Ok sets"
    "groups_rollout (\<lambda>_ evs. evs) (budget_approved demo_rollout (\<lambda>_. [(''ingester'', demo_cfg ''ingester'' 3)])) demo_rollout ''ns'' (group_sets sets)
       [EvListStatefulSets] newPodEvictionCache (rev (group_names sets)) [(''ns'', ''zone-a-0'')] tr (zp_evictions (zpdbController c))"
    using d by auto
  with u show ?thesis by blast
qed

text \<open>C27: the metrics after a successful reconcile. For every rollout group that was listed, the reconciles and the durations count
  one more, the failures are those of before, and the last success is at a clock reading of this reconcile; exactly
  the listed groups are remembered as discovered. For a group that is not listed, all four series are gone if the group was
  discovered by an earlier successful reconcile, and all four are unchanged if not: a group that was only ever
  seen by failing reconciles keeps its series although it is gone.\<close>

theorem metrics_after_success:
  assumes "reconcile (evictionController E cfgs evs) E namespace clusterDomain ord tr c = (Ok (), c', tr')"
    and "\<forall>ks. mset (ord ks) = mset ks"
  shows "\<exists>sets. fst (listStatefulSetsWithRolloutGroup E namespace tr) = Ok sets \<and>
    discoveredGroups c' = set (group_names sets) \<and>
    (\<forall>g. if g \<in> set (group_names sets) then
            (\<exists>t. extends tr t \<and> extends (t @ [EvNow]) tr' \<and>
               series (rc_metrics c') g =
                 (Some (Suc (count_of (groupReconcileTotal (rc_metrics c) g))), Some (count_of (groupReconcileFailed (rc_metrics c) g)),
                  Some (Suc (count_of (groupReconcileDuration (rc_metrics c) g))), Some (Some (e_now E t))))
         else if g \<in> discoveredGroups c then series (rc_metrics c') g = (None, None, None, None)
         else series (rc_metrics c') g = series (rc_metrics c) g)"
proof -
  let ?zc = "evictionController E cfgs evs"
  obtain q tr1 where l: "listStatefulSetsWithRolloutGroup E namespace tr = (q, tr1)" by fastforce
  with assms(1) obtain sets where sets: "q = Ok sets" by (cases q) (auto simp: reconcile_def)
  let ?names = "ord (group_names sets)" and ?groups = "GroupStatefulSetsByLabel sets RolloutGroupLabelKey Map.empty"
  obtain q2 c1 tr2 where g: "reconcileGroups ?zc E namespace clusterDomain ?groups tr1 c ?names = (q2, c1, tr2)" by (metis prod_cases3)
  with assms(1) l sets have q2: "q2 = Ok []" and tr2: "tr2 = tr'"
    and c': "c' = deleteMetricsForDecommissionedGroups c1 (group_names sets)"
    by (auto simp: reconcile_def split: res.splits if_splits)
  have names: "distinct ?names" "set ?names = set (group_names sets)"
    using assms(2) mset_eq_imp_distinct_iff [of ?names "group_names sets"] mset_eq_setD [of ?names "group_names sets"]
    by (simp_all add: group_names_def)
  have dist: "distinct (map sts_ptr sets)"
    using l sets deep_copies_distinct by (auto simp: listStatefulSetsWithRolloutGroup_def split: reply.splits)
  have gs: "\<forall>g\<in>set ?names. distinct (map sts_ptr (the (?groups g)))"
    unfolding names(2) using distinct_map_filter [OF dist] by (simp add: group_lookup group_sets_def)
  have ext: "extends tr tr1" using l by (auto simp: listStatefulSetsWithRolloutGroup_def)
  have disc: "discoveredGroups c1 = discoveredGroups c" using reconcileGroups_frame [OF g] by blast
  note step = ec.reconcileGroups_series [OF g [unfolded q2 tr2] names(1) gs, unfolded names(2), THEN conjunct2, rule_format]
  have del: "series (rc_metrics c') g = (if g \<in> discoveredGroups c - set (group_names sets) then (None, None, None, None) else series (rc_metrics c1) g)"
    for g by (simp add: c' disc deleteMetricsForDecommissionedGroups_def delete_labels_def series_def Let_def)
  have "discoveredGroups c' = set (group_names sets)"
    by (auto simp: c' deleteMetricsForDecommissionedGroups_def Let_def)
  moreover have "if g \<in> set (group_names sets) then
            (\<exists>t. extends tr t \<and> extends (t @ [EvNow]) tr' \<and> series (rc_metrics c') g = after_success (rc_metrics c) g (e_now E t))
         else if g \<in> discoveredGroups c then series (rc_metrics c') g = (None, None, None, None)
         else series (rc_metrics c') g = series (rc_metrics c) g" for g
    using step [of g] del [of g] extends_trans [OF ext] by (auto split: if_splits)
  ultimately show ?thesis unfolding after_success_def by (intro exI [of _ sets] conjI allI) (use l sets in simp_all)
qed

theorem metrics_after_success_witness:
  "\<exists>c tr. reconcile demo_controller demo_rollout ''ns'' ''cluster.local'' rev [] (NewRolloutController NewEvictionController) = (Ok (), c, tr) \<and>
     (\<exists>sets. fst (listStatefulSetsWithRolloutGroup demo_rollout ''ns'' []) = Ok sets \<and> discoveredGroups c = set (group_names sets) \<and>
        series (rc_metrics c) ''no-such-group'' = (None, None, None, None))"
proof -
  have "(case reconcile demo_controller demo_rollout ''ns'' ''cluster.local'' rev [] (NewRolloutController NewEvictionController) of
     (r, c, tr) \<Rightarrow> r = Ok () \<and> series (rc_metrics c) ''no-such-group'' = (None, None, None, None))"
    by code_simp
  then obtain c tr where u: "reconcile demo_controller demo_rollout ''ns'' ''cluster.local'' rev [] (NewRolloutController NewEvictionController) = (Ok (), c, tr)"
    and s: "series (rc_metrics c) ''no-such-group'' = (None, None, None, None)"
    by (auto split: prod.splits)
  from metrics_after_success [OF u [unfolded demo_controller_def]] u s show ?thesis by auto
qed

end
