(* ===== verification/RolloutLoop.thy ===== *)
theory RolloutLoop
  imports RolloutController
begin

text \<open>
  What drives the reconciliation: the loop of \<^verbatim>\<open>Run\<close> with the flag \<^verbatim>\<open>shouldReconcile\<close> that informer
  handlers set (\<^verbatim>\<open>controller.go\<close>), as a step relation, and the observer of the ReplicaTemplate resource
  (\<^verbatim>\<open>replica_template_observer.go\<close>) with its readiness gauge.
\<close>

section \<open>The run loop\<close>

text \<open>Informer handlers; deleting a StatefulSet does not request a reconcile.\<close>

definition enqueueReconcile :: "'z RolloutController \<Rightarrow> 'z RolloutController" where
  "enqueueReconcile c = c\<lparr>shouldReconcile := True\<rparr>"

definition onAdded :: "'z RolloutController \<Rightarrow> 'z RolloutController" where
  "onAdded c = enqueueReconcile c"

definition onUpdated :: "'z RolloutController \<Rightarrow> 'z RolloutController" where
  "onUpdated c = enqueueReconcile c"

definition onDeleted :: "'z RolloutController \<Rightarrow> 'z RolloutController" where
  "onDeleted c = c"

text \<open>
  The goroutine of \<^verbatim>\<open>Run\<close> and the handlers beside it. The loop tests the flag, reconciles, and waits for
  the interval or the stop channel; a handler may set the flag at any moment, also while a reconcile runs
  (which never reads it). A panic ends the process: no step follows.
\<close>

datatype run_phase = Testing | Reconciling | Waiting | Returned

record 'z run_state =
  run_phase :: run_phase
  run_controller :: "'z RolloutController"
  run_trace :: trace
  run_stopped :: bool

datatype run_event = Enqueue | SetDeleted | Begin | Skip | Succeed | FailWith err | Tick | StopCall | Return

inductive run_step :: "'z ZPDBEvictionController \<Rightarrow> env \<Rightarrow> string \<Rightarrow> string \<Rightarrow> (string list \<Rightarrow> string list)
    \<Rightarrow> 'z run_state \<Rightarrow> run_event \<Rightarrow> 'z run_state \<Rightarrow> bool"
  for zc :: "'z ZPDBEvictionController" and E ns cd ord where
  enqueue: "run_step zc E ns cd ord s Enqueue (s\<lparr>run_controller := onUpdated (run_controller s)\<rparr>)"
| set_deleted: "run_step zc E ns cd ord s SetDeleted (s\<lparr>run_controller := onDeleted (run_controller s)\<rparr>)"
| begin_reconcile: "run_phase s = Testing \<Longrightarrow> shouldReconcile (run_controller s) \<Longrightarrow>
    run_step zc E ns cd ord s Begin
      (s\<lparr>run_phase := Reconciling, run_controller := (run_controller s)\<lparr>shouldReconcile := False\<rparr>\<rparr>)"
| skip: "run_phase s = Testing \<Longrightarrow> \<not> shouldReconcile (run_controller s) \<Longrightarrow>
    run_step zc E ns cd ord s Skip (s\<lparr>run_phase := Waiting\<rparr>)"
| succeed: "run_phase s = Reconciling \<Longrightarrow>
    reconcile zc E ns cd ord (run_trace s) (run_controller s) = (Ok (), c', tr') \<Longrightarrow>
    run_step zc E ns cd ord s Succeed (s\<lparr>run_phase := Waiting, run_controller := c', run_trace := tr'\<rparr>)"
| fail: "run_phase s = Reconciling \<Longrightarrow>
    reconcile zc E ns cd ord (run_trace s) (run_controller s) = (Fail e, c', tr') \<Longrightarrow>
    run_step zc E ns cd ord s (FailWith e)
      (s\<lparr>run_phase := Waiting, run_controller := c'\<lparr>shouldReconcile := True\<rparr>, run_trace := tr'\<rparr>)"
| tick: "run_phase s = Waiting \<Longrightarrow> run_step zc E ns cd ord s Tick (s\<lparr>run_phase := Testing\<rparr>)"
| stop_call: "\<not> run_stopped s \<Longrightarrow> run_step zc E ns cd ord s StopCall (s\<lparr>run_stopped := True\<rparr>)"
| return: "run_phase s = Waiting \<Longrightarrow> run_stopped s \<Longrightarrow>
    run_step zc E ns cd ord s Return (s\<lparr>run_phase := Returned\<rparr>)"

inductive_cases run_step_cases: "run_step zc E ns cd ord s e s'"

definition run_init :: "'z \<Rightarrow> 'z run_state" where
  "run_init z = \<lparr>run_phase = Testing, run_controller = NewRolloutController z, run_trace = [], run_stopped = False\<rparr>"

text \<open>\<open>runs z h s\<close>: the events \<open>h\<close>, newest first, lead from the start to \<open>s\<close>.\<close>

inductive runs :: "'z ZPDBEvictionController \<Rightarrow> env \<Rightarrow> string \<Rightarrow> string \<Rightarrow> (string list \<Rightarrow> string list)
    \<Rightarrow> 'z \<Rightarrow> run_event list \<Rightarrow> 'z run_state \<Rightarrow> bool"
  for zc :: "'z ZPDBEvictionController" and E ns cd ord z where
  start: "runs zc E ns cd ord z [] (run_init z)"
| more: "runs zc E ns cd ord z h s \<Longrightarrow> run_step zc E ns cd ord s e s' \<Longrightarrow> runs zc E ns cd ord z (e # h) s'"

text \<open>The specification: a reconcile is owed when a request or a failure has happened since the last one began.\<close>

fun owed :: "run_event list \<Rightarrow> bool" where
  "owed [] = False"
| "owed (Enqueue # h) = True"
| "owed (FailWith e # h) = True"
| "owed (Begin # h) = False"
| "owed (_ # h) = owed h"

lemma flag_is_owed: "runs zc E ns cd ord z h s \<Longrightarrow> shouldReconcile (run_controller s) \<longleftrightarrow> owed h"
proof (induction rule: runs.induct)
  case (more h s e s')
  from more.hyps(2) more.IH show ?case
    by (cases rule: run_step_cases) (auto simp: onUpdated_def onDeleted_def enqueueReconcile_def dest: reconcile_keeps_flag)
qed (simp add: run_init_def NewRolloutController_def)

text \<open>C9: no request is lost. Whatever the interleaving of informer handlers with the loop, the flag says
  exactly whether a reconcile is owed: a handler asked for one, or a reconcile failed, since the last one
  began. When the loop next tests the flag with a reconcile owed, its only possible step is to begin one.\<close>

theorem no_request_lost:
  assumes "runs zc E ns cd ord z h s"
  shows "(shouldReconcile (run_controller s) \<longleftrightarrow> owed h) \<and>
    (run_phase s = Testing \<longrightarrow> owed h \<longrightarrow> run_step zc E ns cd ord s e s' \<longrightarrow> e \<in> {Enqueue, SetDeleted, StopCall, Begin})"
  using flag_is_owed [OF assms] by (auto elim: run_step_cases)

theorem no_request_lost_witness:
  "\<exists>s. runs demo_controller demo_rollout ''ns'' ''cluster.local'' rev NewEvictionController [Enqueue, SetDeleted] s \<and>
     shouldReconcile (run_controller s) \<and>
     (\<forall>e s'. run_step demo_controller demo_rollout ''ns'' ''cluster.local'' rev s e s' \<longrightarrow> e \<in> {Enqueue, SetDeleted, StopCall, Begin})"
proof -
  let ?s0 = "run_init NewEvictionController"
  let ?s1 = "?s0\<lparr>run_controller := onDeleted (run_controller ?s0)\<rparr>"
  let ?s2 = "?s1\<lparr>run_controller := onUpdated (run_controller ?s1)\<rparr>"
  have r: "runs demo_controller demo_rollout ''ns'' ''cluster.local'' rev NewEvictionController [Enqueue, SetDeleted] ?s2"
    by (rule runs.more [OF runs.more [OF runs.start run_step.set_deleted] run_step.enqueue])
  have t: "run_phase ?s2 = Testing" by (simp add: run_init_def)
  from no_request_lost [OF r] t have "shouldReconcile (run_controller ?s2) \<and>
     (\<forall>e s'. run_step demo_controller demo_rollout ''ns'' ''cluster.local'' rev ?s2 e s' \<longrightarrow> e \<in> {Enqueue, SetDeleted, StopCall, Begin})"
    by simp
  with r show ?thesis by blast
qed

section \<open>The observer of ReplicaTemplates\<close>

text \<open>
  The observer's fields. \<open>rt_informer\<close> is \<^term>\<open>None\<close> without \<^verbatim>\<open>WatchReplicaTemplates\<close>, and otherwise whether the
  informer has synced; \<open>rt_ready\<close> is the gauge; \<open>rt_discovered_enqueues\<close> tells which of the two functions
  \<^verbatim>\<open>onReplicaTemplateDiscovered\<close> is, and \<open>rt_startup_waits\<close> which \<^verbatim>\<open>replicaTemplateStartupSynced\<close> is.
\<close>

record rt_observer =
  rt_available :: bool
  rt_watch_healthy :: bool
  rt_informer :: "bool option"
  rt_ready :: bool
  rt_discovered_enqueues :: bool
  rt_startup_waits :: bool

definition newReplicaTemplateObserver :: rt_observer where
  "newReplicaTemplateObserver = \<lparr>rt_available = False, rt_watch_healthy = False, rt_informer = None, rt_ready = False,
     rt_discovered_enqueues = False, rt_startup_waits = True\<rparr>"

definition updateReplicaTemplateReadinessLocked :: "rt_observer \<Rightarrow> rt_observer" where
  "updateReplicaTemplateReadinessLocked o1 =
     o1\<lparr>rt_ready := rt_available o1 \<and>
          (case rt_informer o1 of None \<Rightarrow> True | Some synced \<Rightarrow> rt_watch_healthy o1 \<and> synced)\<rparr>"

definition setReplicaTemplateWatchHealthy :: "rt_observer \<Rightarrow> bool \<Rightarrow> rt_observer" where
  "setReplicaTemplateWatchHealthy o1 healthy = updateReplicaTemplateReadinessLocked (o1\<lparr>rt_watch_healthy := healthy\<rparr>)"

text \<open>The informer is created before \<^verbatim>\<open>Init\<close>; its list and watch calls report to the observer.\<close>

definition WatchReplicaTemplates :: "rt_observer \<Rightarrow> rt_observer" where
  "WatchReplicaTemplates o1 = o1\<lparr>rt_informer := Some False\<rparr>"

definition replicaTemplateListed :: "rt_observer \<Rightarrow> unit reply \<Rightarrow> rt_observer" where
  "replicaTemplateListed o1 result =
     (case result of Error e \<Rightarrow> setReplicaTemplateWatchHealthy o1 False | Reply _ \<Rightarrow> o1)"

definition replicaTemplateWatched :: "rt_observer \<Rightarrow> unit reply \<Rightarrow> rt_observer" where
  "replicaTemplateWatched o1 result =
     setReplicaTemplateWatchHealthy o1 (case result of Error e \<Rightarrow> False | Reply _ \<Rightarrow> True)"

definition AllowMissingCRDs :: "rt_observer \<Rightarrow> rt_observer" where
  "AllowMissingCRDs o1 = o1\<lparr>rt_startup_waits := False, rt_discovered_enqueues := True\<rparr>"

definition replicaTemplateStartupSynced :: "rt_observer \<Rightarrow> bool" where
  "replicaTemplateStartupSynced o1 \<longleftrightarrow>
     \<not> rt_startup_waits o1 \<or> (case rt_informer o1 of None \<Rightarrow> True | Some synced \<Rightarrow> synced)"

text \<open>\<open>resources\<close> are the resource names that discovery lists for the group version.\<close>

definition updateReplicaTemplateDiscovery :: "rt_observer \<Rightarrow> 'z RolloutController \<Rightarrow> string list reply
    \<Rightarrow> rt_observer \<times> 'z RolloutController" where
  "updateReplicaTemplateDiscovery o1 c resources =
     (let available = (case resources of
                         Error e \<Rightarrow> False
                       | Reply names \<Rightarrow> ''replicatemplates'' \<in> set names \<and> ''replicatemplates/scale'' \<in> set names);
          discovered = available \<and> \<not> rt_available o1;
          o2 = updateReplicaTemplateReadinessLocked (o1\<lparr>rt_available := available\<rparr>)
      in (o2, if discovered \<and> rt_discovered_enqueues o1 then enqueueReconcile c else c))"

definition onReplicaTemplateUpdated :: "'z RolloutController \<Rightarrow> jval informer_obj \<Rightarrow> jval informer_obj \<Rightarrow> 'z RolloutController" where
  "onReplicaTemplateUpdated c old new =
     (case (old, new) of
        (Object oldTemplate, Object newTemplate) \<Rightarrow>
          if GetGeneration oldTemplate \<noteq> GetGeneration newTemplate then enqueueReconcile c else c
      | _ \<Rightarrow> c)"

text \<open>The steps of the observer: discovery rounds, list and watch results, and the informer's first sync.\<close>

datatype rt_event = Discovered "string list reply" | Listed "unit reply" | Watched "unit reply" | WatchError | Synced

fun rt_step :: "rt_observer \<times> 'z RolloutController \<Rightarrow> rt_event \<Rightarrow> rt_observer \<times> 'z RolloutController" where
  "rt_step (o1, c) (Discovered resources) = updateReplicaTemplateDiscovery o1 c resources"
| "rt_step (o1, c) (Listed result) = (replicaTemplateListed o1 result, c)"
| "rt_step (o1, c) (Watched result) = (replicaTemplateWatched o1 result, c)"
| "rt_step (o1, c) WatchError = (setReplicaTemplateWatchHealthy o1 False, c)"
| "rt_step (o1, c) Synced =
     (updateReplicaTemplateReadinessLocked (o1\<lparr>rt_informer := map_option (\<lambda>_. True) (rt_informer o1)\<rparr>), c)"

definition rt_consistent :: "rt_observer \<Rightarrow> bool" where
  "rt_consistent o1 \<longleftrightarrow>
     rt_ready o1 = (rt_available o1 \<and>
       (case rt_informer o1 of None \<Rightarrow> True | Some synced \<Rightarrow> rt_watch_healthy o1 \<and> synced))"

lemma rt_step_consistent: "rt_consistent o1 \<Longrightarrow> rt_consistent (fst (rt_step (o1, c) e))"
  by (cases e) (auto simp: rt_consistent_def updateReplicaTemplateDiscovery_def updateReplicaTemplateReadinessLocked_def
      replicaTemplateListed_def replicaTemplateWatched_def setReplicaTemplateWatchHealthy_def Let_def
      split: reply.splits option.splits)

text \<open>the readiness gauge of the ReplicaTemplate observer. Started with or without the watch, after any sequence of
  discovery rounds, list and watch results and the informer's sync, the gauge is set exactly when discovery last found
  both the resource and its scale subresource and, with the watch, the informer has synced and the last
  watch report was not a failure.\<close>

theorem replica_template_gauge:
  "rt_consistent (fst (fold (\<lambda>e st. rt_step st e) es (newReplicaTemplateObserver, c))) \<and>
   rt_consistent (fst (fold (\<lambda>e st. rt_step st e) es (WatchReplicaTemplates newReplicaTemplateObserver, c)))"
proof -
  have "rt_consistent (fst (fold (\<lambda>e st. rt_step st e) es st))" if "rt_consistent (fst st)" for st :: "rt_observer \<times> 'a RolloutController"
    using that
  proof (induction es arbitrary: st)
    case (Cons e es)
    then show ?case using rt_step_consistent [of "fst st" "snd st" e] by simp
  qed simp
  then show ?thesis by (simp add: rt_consistent_def newReplicaTemplateObserver_def WatchReplicaTemplates_def)
qed

end
