(* ===== verification/RolloutStatus.thy ===== *)
theory RolloutStatus
  imports RolloutController
begin

text \<open>
  The status view: \<^verbatim>\<open>pkg/controller/status.go\<close>, \<^verbatim>\<open>pkg/status/model.go\<close>. A snapshot is computed from the informer caches
  and shows, per rollout group, the phase of each StatefulSet, with the gating the reconciler applies.
\<close>

section \<open>Data\<close>

datatype Phase = PhaseComplete | PhaseProgressing | PhaseWaiting | PhasePaused | PhaseDegraded | PhaseUnknown

record ConfigurationEntry =
  ce_Source :: string
  ce_Name :: string
  ce_Value :: string

record Member =
  mb_Name :: string
  mb_DesiredReplicas :: int
  mb_ReadyReplicas :: int
  mb_CurrentRevision :: string
  mb_UpdateRevision :: string
  mb_UpdatedPods :: nat
  mb_TotalPods :: nat
  mb_Paused :: bool
  mb_NotReady :: bool
  mb_UpdateStrategy :: string
  mb_Phase :: Phase
  mb_Reason :: string

record Group =
  gr_Name :: string
  gr_Phase :: Phase
  gr_Reason :: string
  gr_Members :: "Member list"

record Snapshot =
  sn_Namespace :: string
  sn_ObservedAt :: instant
  sn_Groups :: "Group list"
  sn_Configurations :: "string \<rightharpoonup> ConfigurationEntry list"

section \<open>Configuration entries\<close>

definition rolloutLabelKeys :: "string list" where
  "rolloutLabelKeys =
     [RolloutGroupLabelKey, NoDownscaleLabelKey, PrepareDownscaleLabelKey, MinTimeBetweenZonesDownscaleLabelKey]"

definition rolloutAnnotationKeys :: "string list" where
  "rolloutAnnotationKeys =
     [RolloutMaxUnavailableAnnotationKey, RolloutDownscaleLeaderAnnotationKey, RolloutLeaderReadyAnnotationKey,
      RolloutMirrorReplicasFromResourceNameAnnotationKey, RolloutMirrorReplicasFromResourceKindAnnotationKey,
      RolloutMirrorReplicasFromResourceAPIVersionAnnotationKey, RolloutMirrorReplicasFromResourceWriteBackStatusReplicas,
      RolloutDelayedDownscaleAnnotationKey, RolloutDelayedDownscalePrepareUrlAnnotationKey,
      RolloutForceReplicasAnnotationKey, RolloutPausedAnnotationKey, MinTimeBetweenZonesDownscaleAnnotationKey,
      PrepareDownscalePathAnnotationKey, PrepareDownscalePortAnnotationKey, LastDownscaleAnnotationKey]"

definition present_entries :: "string \<Rightarrow> strmap \<Rightarrow> string list \<Rightarrow> ConfigurationEntry list" where
  "present_entries source m keys =
     List.map_filter (\<lambda>k. map_option (\<lambda>v. \<lparr>ce_Source = source, ce_Name = k, ce_Value = v\<rparr>) (m k)) keys"

definition desired_replicas :: "statefulset \<Rightarrow> int" where
  "desired_replicas sts = (case sts_replicas sts of None \<Rightarrow> 0 | Some n \<Rightarrow> n)"

definition statefulSetConfiguration :: "statefulset \<Rightarrow> ConfigurationEntry list" where
  "statefulSetConfiguration sts =
     [\<lparr>ce_Source = ''spec'', ce_Name = ''replicas'', ce_Value = Itoa (desired_replicas sts)\<rparr>,
      \<lparr>ce_Source = ''spec'', ce_Name = ''updateStrategy.type'', ce_Value = sts_update_strategy sts\<rparr>]
     @ present_entries ''label'' (sts_labels sts) rolloutLabelKeys
     @ present_entries ''annotation'' (sts_annotations sts) rolloutAnnotationKeys"

section \<open>The status of a StatefulSet\<close>

definition statefulSetHasNotReadyPods :: "statefulset \<Rightarrow> pod list \<Rightarrow> bool" where
  "statefulSetHasNotReadyPods sts pods =
     (if expectedReplicas sts \<noteq> sts_ready_replicas sts then True
      else if int (length pods) < expectedReplicas sts then True
      else notRunningAndReady pods \<noteq> [])"

text \<open>The member before its phase is known.\<close>

definition base_member :: "statefulset \<Rightarrow> pod list \<Rightarrow> Member" where
  "base_member sts pods =
     \<lparr>mb_Name = sts_name sts, mb_DesiredReplicas = desired_replicas sts, mb_ReadyReplicas = sts_ready_replicas sts,
      mb_CurrentRevision = sts_current_revision sts, mb_UpdateRevision = sts_update_revision sts,
      mb_UpdatedPods = length (filter (\<lambda>p. mget (pod_labels p) ControllerRevisionHashLabelKey = sts_update_revision sts) pods),
      mb_TotalPods = length pods, mb_Paused = rolloutPaused sts, mb_NotReady = False,
      mb_UpdateStrategy = sts_update_strategy sts, mb_Phase = PhaseUnknown, mb_Reason = ''''\<rparr>"

definition member_of :: "statefulset \<Rightarrow> pod list \<Rightarrow> Member" where
  "member_of sts pods =
     (let m = base_member sts pods; updateRev = sts_update_revision sts; updated = mb_UpdatedPods m in
      if sts_update_strategy sts \<noteq> OnDelete then
        m\<lparr>mb_Phase := PhaseDegraded, mb_Reason := ''update strategy is '' @ sts_update_strategy sts @ ''; OnDelete is required''\<rparr>
      else
        (let hasNotReady = statefulSetHasNotReadyPods sts pods;
             m1 = m\<lparr>mb_NotReady := hasNotReady\<rparr>;
             needsUpdate = updateRev \<noteq> '''' \<and> updated < length pods
         in if needsUpdate \<and> mb_Paused m then m1\<lparr>mb_Phase := PhasePaused, mb_Reason := ''rollout paused''\<rparr>
            else if needsUpdate then
              m1\<lparr>mb_Phase := PhaseProgressing,
                 mb_Reason := Itoa (int updated) @ '' of '' @ Itoa (int (length pods)) @ '' pods updated''\<rparr>
            else if hasNotReady then
              m1\<lparr>mb_Phase := PhaseWaiting, mb_Reason := ''waiting for pods to become Ready''\<rparr>
            else if mb_DesiredReplicas m \<noteq> sts_ready_replicas sts then
              m1\<lparr>mb_Phase := PhaseWaiting, mb_Reason := ''waiting for replicas to reach the desired count''\<rparr>
            else if sts_current_revision sts \<noteq> '''' \<and> updateRev \<noteq> '''' \<and> sts_current_revision sts \<noteq> updateRev then
              m1\<lparr>mb_Phase := PhaseComplete, mb_Reason := ''pods updated; current revision pending''\<rparr>
            else m1\<lparr>mb_Phase := PhaseComplete, mb_Reason := ''''\<rparr>))"

definition memberStatus :: "env \<Rightarrow> string \<Rightarrow> trace \<Rightarrow> statefulset \<Rightarrow> Member res \<times> trace" where
  "memberStatus E namespace tr sts =
     (case listPodsByStatefulSet E namespace tr sts of
        (Fail e, tr1) \<Rightarrow> (Fail e, tr1)
      | (Panic m, tr1) \<Rightarrow> (Panic m, tr1)
      | (Ok pods, tr1) \<Rightarrow> (Ok (member_of sts pods), tr1))"

section \<open>Gating and aggregation\<close>

definition multipleNotReadyReason :: string where
  "multipleNotReadyReason = ''multiple StatefulSets have not-Ready pods''"

definition gated :: "string \<Rightarrow> Member \<Rightarrow> Member" where
  "gated reason m =
     (if mb_Phase m = PhaseProgressing then m\<lparr>mb_Phase := PhaseWaiting, mb_Reason := reason\<rparr> else m)"

fun gate_loop :: "string \<Rightarrow> Member list \<Rightarrow> Member list" where
  "gate_loop blocker [] = []"
| "gate_loop blocker (m # ms) =
     (if mb_Phase m \<noteq> PhaseProgressing \<and> mb_Phase m \<noteq> PhaseWaiting then m # gate_loop blocker ms
      else if mb_Phase m = PhaseWaiting \<and> \<not> mb_NotReady m then m # gate_loop blocker ms
      else if blocker = '''' then m # gate_loop (mb_Name m) ms
      else gated (''waiting for '' @ blocker) m # gate_loop blocker ms)"

definition applyZoneGating :: "Member list \<Rightarrow> Member list" where
  "applyZoneGating members =
     (let degraded = map mb_Name (filter (\<lambda>m. mb_Phase m = PhaseDegraded) members);
          notReady = map mb_Name (filter mb_NotReady members)
      in if degraded \<noteq> [] then map (gated (''rollout blocked by '' @ Join '', '' degraded)) members
         else if 1 < length notReady then map (gated multipleNotReadyReason) members
         else if length notReady = 1 then
           map (\<lambda>m. if mb_Name m = notReady ! 0 then m else gated (''waiting for '' @ notReady ! 0) m) members
         else gate_loop '''' members)"

fun first_of_phase :: "Phase list \<Rightarrow> Member list \<Rightarrow> Phase \<times> string" where
  "first_of_phase [] members = (PhaseUnknown, '''')"
| "first_of_phase (ph # phs) members =
     (case find (\<lambda>m. mb_Phase m = ph) members of
        Some m \<Rightarrow> (ph, mb_Reason m)
      | None \<Rightarrow> first_of_phase phs members)"

definition aggregateGroupPhase :: "Member list \<Rightarrow> nat \<Rightarrow> Phase \<times> string" where
  "aggregateGroupPhase members notReadyMembers =
     (if members = [] then (PhaseUnknown, ''no StatefulSets'')
      else (case find (\<lambda>m. mb_Phase m = PhaseDegraded) members of
              Some m \<Rightarrow> (PhaseDegraded, mb_Reason m)
            | None \<Rightarrow>
                if 1 < notReadyMembers then (PhaseWaiting, multipleNotReadyReason)
                else first_of_phase [PhaseProgressing, PhaseWaiting, PhasePaused, PhaseComplete] members))"

section \<open>The snapshot\<close>

text \<open>The loop over the StatefulSets of one group: members and the configuration of each.\<close>

fun membersStatus :: "env \<Rightarrow> string \<Rightarrow> trace \<Rightarrow> statefulset list \<Rightarrow> (string \<rightharpoonup> ConfigurationEntry list)
    \<Rightarrow> (Member list \<times> (string \<rightharpoonup> ConfigurationEntry list)) res \<times> trace" where
  "membersStatus E namespace tr [] confs = (Ok ([], confs), tr)"
| "membersStatus E namespace tr (sts # sets) confs =
     (case memberStatus E namespace tr sts of
        (Fail e, tr1) \<Rightarrow> (Fail e, tr1)
      | (Panic m, tr1) \<Rightarrow> (Panic m, tr1)
      | (Ok member, tr1) \<Rightarrow>
          (case membersStatus E namespace tr1 sets (confs(sts_name sts \<mapsto> statefulSetConfiguration sts)) of
             (Ok (members, confs1), tr2) \<Rightarrow> (Ok (member # members, confs1), tr2)
           | (Fail e, tr2) \<Rightarrow> (Fail e, tr2)
           | (Panic m, tr2) \<Rightarrow> (Panic m, tr2)))"

definition group_status :: "string \<Rightarrow> Member list \<Rightarrow> Group" where
  "group_status groupName members =
     (let gatedMembers = applyZoneGating members;
          agg = aggregateGroupPhase gatedMembers (length (filter mb_NotReady members))
      in \<lparr>gr_Name = groupName, gr_Phase = fst agg, gr_Reason = snd agg, gr_Members = gatedMembers\<rparr>)"

text \<open>\<open>cancelled\<close> is \<^verbatim>\<open>ctx.Err()\<close> at a point of the trace.\<close>

fun snapshotGroups :: "(trace \<Rightarrow> err option) \<Rightarrow> env \<Rightarrow> string \<Rightarrow> statefulset list \<Rightarrow> trace \<Rightarrow> string list
    \<Rightarrow> (string \<rightharpoonup> ConfigurationEntry list) \<Rightarrow> (Group list \<times> (string \<rightharpoonup> ConfigurationEntry list)) res \<times> trace" where
  "snapshotGroups cancelled E namespace sets tr [] confs = (Ok ([], confs), tr)"
| "snapshotGroups cancelled E namespace sets tr (g # gs) confs =
     (case cancelled tr of
        Some e \<Rightarrow> (Fail e, tr)
      | None \<Rightarrow>
          (case membersStatus E namespace tr
                  (SortStatefulSets (the (GroupStatefulSetsByLabel sets RolloutGroupLabelKey Map.empty g))) confs of
             (Fail e, tr1) \<Rightarrow> (Fail e, tr1)
           | (Panic m, tr1) \<Rightarrow> (Panic m, tr1)
           | (Ok (members, confs1), tr1) \<Rightarrow>
               (case snapshotGroups cancelled E namespace sets tr1 gs confs1 of
                  (Ok (groups, confs2), tr2) \<Rightarrow> (Ok (group_status g members # groups, confs2), tr2)
                | (Fail e, tr2) \<Rightarrow> (Fail e, tr2)
                | (Panic m, tr2) \<Rightarrow> (Panic m, tr2))))"

definition takeSnapshot :: "(trace \<Rightarrow> err option) \<Rightarrow> env \<Rightarrow> string \<Rightarrow> trace \<Rightarrow> Snapshot res \<times> trace" where
  "takeSnapshot cancelled E namespace tr =
     (case cancelled tr of
        Some e \<Rightarrow> (Fail e, tr)
      | None \<Rightarrow>
          (let tr1 = tr @ [EvListStatefulSets] in
           case e_sts_lister E tr of
             Error e \<Rightarrow> (Fail (wrapf ''failed to list StatefulSets: '' e), tr1)
           | Reply all \<Rightarrow>
               (let sets = filter (\<lambda>s. sts_namespace s = namespace \<and> sel_matches statefulSetsSel (sts_labels s)) all;
                    now = e_now E tr1; tr2 = tr1 @ [EvNow]
                in case snapshotGroups cancelled E namespace sets tr2 (sort (group_names sets)) Map.empty of
                     (Ok (groups, confs), tr3) \<Rightarrow>
                       (Ok \<lparr>sn_Namespace = namespace, sn_ObservedAt = now, sn_Groups = groups, sn_Configurations = confs\<rparr>, tr3)
                   | (Fail e, tr3) \<Rightarrow> (Fail e, tr3)
                   | (Panic m, tr3) \<Rightarrow> (Panic m, tr3))))"

text \<open>The holder: the reader bound after the informers are initialised.\<close>

definition HolderSnapshot :: "(trace \<Rightarrow> Snapshot res \<times> trace) option \<Rightarrow> trace \<Rightarrow> Snapshot res \<times> trace" where
  "HolderSnapshot holder tr =
     (case holder of
        None \<Rightarrow> (Fail (Err ''status unavailable''), tr)
      | Some reader \<Rightarrow> reader tr)"

section \<open>Gating\<close>

lemma gated_not_progressing [simp]: "mb_Phase (gated r m) \<noteq> PhaseProgressing"
  by (simp add: gated_def)

lemma gated_name [simp]: "mb_Name (gated r m) = mb_Name m"
  by (simp add: gated_def)

lemma gate_loop_blocked: "b \<noteq> '''' \<Longrightarrow> filter (\<lambda>m. mb_Phase m = PhaseProgressing) (gate_loop b ms) = []"
  by (induction ms) auto

text \<open>Without a blocker, the first member that is progressing or not ready blocks all later ones.\<close>

lemma gate_loop_first:
  assumes "\<forall>m\<in>set ms. mb_Name m \<noteq> ''''"
  shows "length (filter (\<lambda>m. mb_Phase m = PhaseProgressing) (gate_loop '''' ms)) \<le> 1"
  using assms by (induction ms) (auto simp: gate_loop_blocked)

lemma gate_loop_skip:
  "\<forall>m\<in>set pre. mb_Phase m \<noteq> PhaseProgressing \<and> \<not> (mb_Phase m = PhaseWaiting \<and> mb_NotReady m) \<Longrightarrow>
     gate_loop b (pre @ ms) = pre @ gate_loop b ms"
  by (induction pre) auto

lemma at_most_one_name:
  assumes "distinct (map mb_Name ms)" and "\<forall>m\<in>set ms. P m \<longrightarrow> mb_Name m = n"
  shows "length (filter P ms) \<le> 1"
proof -
  have "distinct (map mb_Name (filter P ms))" using assms(1) by (rule distinct_map_filter)
  moreover have "set (map mb_Name (filter P ms)) \<subseteq> {n}" using assms(2) by auto
  ultimately show ?thesis using distinct_card [of "map mb_Name (filter P ms)"] card_mono [of "{n}" "set (map mb_Name (filter P ms))"]
    by auto
qed

lemma gating_at_most_one:
  assumes "distinct (map mb_Name ms)" and "\<forall>m\<in>set ms. mb_Name m \<noteq> ''''"
  shows "length (filter (\<lambda>m. mb_Phase m = PhaseProgressing) (applyZoneGating ms)) \<le> 1"
proof -
  let ?nr = "map mb_Name (filter mb_NotReady ms)"
  let ?P = "\<lambda>m. mb_Phase m = PhaseProgressing"
  have none: "filter ?P (map (gated r) ms) = []" for r by (auto simp: filter_empty_conv)
  consider (deg) "filter (\<lambda>m. mb_Phase m = PhaseDegraded) ms \<noteq> []"
    | (many) "filter (\<lambda>m. mb_Phase m = PhaseDegraded) ms = []" "1 < length ?nr"
    | (one) "filter (\<lambda>m. mb_Phase m = PhaseDegraded) ms = []" "length ?nr = 1"
    | (zero) "filter (\<lambda>m. mb_Phase m = PhaseDegraded) ms = []" "length ?nr = 0"
    by linarith
  then show ?thesis
  proof cases
    case one
    let ?ms = "map (\<lambda>m. if mb_Name m = ?nr ! 0 then m else gated (''waiting for '' @ ?nr ! 0) m) ms"
    have "map mb_Name ?ms = map mb_Name ms" by simp
    then have "distinct (map mb_Name ?ms)" using assms(1) by metis
    then have "length (filter ?P ?ms) \<le> 1" by (rule at_most_one_name [where n = "?nr ! 0"]) auto
    with one show ?thesis by (simp add: applyZoneGating_def)
  next
    case zero
    with gate_loop_first [OF assms(2)] show ?thesis by (simp add: applyZoneGating_def)
  qed (simp_all add: applyZoneGating_def none)
qed

section \<open>What a snapshot has looked at\<close>

lemma memberStatus_Ok:
  assumes "memberStatus E ns tr s = (Ok m, tr')"
  obtains pods where "listPodsByStatefulSet E ns tr s = (Ok pods, tr')" and "m = member_of s pods"
  using assms by (auto simp: memberStatus_def split: prod.splits res.splits)

lemma membersStatus_Cons:
  assumes "membersStatus E ns tr (s # sets) confs = (Ok (members, confs'), tr')"
  obtains pods tr1 ms confs1 where "listPodsByStatefulSet E ns tr s = (Ok pods, tr1)" and "members = member_of s pods # ms"
    and "membersStatus E ns tr1 sets confs1 = (Ok (ms, confs'), tr')"
proof -
  obtain q tr1 where one: "memberStatus E ns tr s = (q, tr1)" by fastforce
  with assms obtain m where q: "q = Ok m" by (cases q) auto
  with assms one obtain ms where ms: "membersStatus E ns tr1 sets (confs(sts_name s \<mapsto> statefulSetConfiguration s)) = (Ok (ms, confs'), tr')"
    "members = m # ms"
    by (auto split: res.splits prod.splits)
  obtain pods where "listPodsByStatefulSet E ns tr s = (Ok pods, tr1)" "m = member_of s pods"
    using one [unfolded q] by (rule memberStatus_Ok)
  with ms that show ?thesis by simp
qed

lemma membersStatus_extends:
  "membersStatus E ns tr sets confs = (Ok (members, confs'), tr') \<Longrightarrow> extends tr tr'"
proof (induction sets arbitrary: tr confs members)
  case (Cons s sets)
  from Cons.prems show ?case
  proof (rule membersStatus_Cons)
    fix pods tr1 ms confs1
    assume l: "listPodsByStatefulSet E ns tr s = (Ok pods, tr1)" and ms: "membersStatus E ns tr1 sets confs1 = (Ok (ms, confs'), tr')"
    have "extends tr tr1" using quiet_listPodsByStatefulSet [OF l] by (rule quiet_extends)
    with Cons.IH [OF ms] show ?thesis by (blast intro: extends_trans)
  qed
qed simp

text \<open>Each member is computed from a listing of the pods of its StatefulSet.\<close>

definition member_at :: "env \<Rightarrow> string \<Rightarrow> trace \<Rightarrow> trace \<Rightarrow> statefulset \<Rightarrow> Member \<Rightarrow> bool" where
  "member_at E ns tr tr' s m \<longleftrightarrow>
     (\<exists>t t' pods. listPodsByStatefulSet E ns t s = (Ok pods, t') \<and> extends tr t \<and> extends t' tr' \<and> m = member_of s pods)"

lemma member_at_mono: "member_at E ns tr1 tr' s m \<Longrightarrow> extends tr tr1 \<Longrightarrow> extends tr' tr2 \<Longrightarrow> member_at E ns tr tr2 s m"
  unfolding member_at_def using extends_trans by blast

lemma membersStatus_members:
  "membersStatus E ns tr sets confs = (Ok (members, confs'), tr') \<Longrightarrow> list_all2 (member_at E ns tr tr') sets members"
proof (induction sets arbitrary: tr confs members)
  case (Cons s sets)
  from Cons.prems obtain pods tr1 ms confs1 where l: "listPodsByStatefulSet E ns tr s = (Ok pods, tr1)"
    and members: "members = member_of s pods # ms"
    and rest: "membersStatus E ns tr1 sets confs1 = (Ok (ms, confs'), tr')" by (rule membersStatus_Cons)
  have e: "extends tr tr1" using quiet_listPodsByStatefulSet [OF l] by (rule quiet_extends)
  have "list_all2 (member_at E ns tr tr') sets ms"
    using Cons.IH [OF rest] by (rule list_all2_mono) (rule member_at_mono [OF _ e extends_refl])
  moreover have "member_at E ns tr tr' s (member_of s pods)"
    unfolding member_at_def using l membersStatus_extends [OF rest] extends_refl by blast
  ultimately show ?case using members by simp
qed simp

lemma member_of_name [simp]: "mb_Name (member_of s pods) = sts_name s"
  by (simp add: member_of_def base_member_def Let_def)

lemma membersStatus_names:
  assumes "membersStatus E ns tr sets confs = (Ok (members, confs'), tr')"
  shows "map mb_Name members = map sts_name sets"
proof -
  have "mb_Name m = sts_name s" if "member_at E ns tr tr' s m" for s m using that by (auto simp: member_at_def)
  with membersStatus_members [OF assms] show ?thesis
    by (simp add: list_all2_conv_all_nth list_eq_iff_nth_eq)
qed

definition group_at :: "env \<Rightarrow> string \<Rightarrow> statefulset list \<Rightarrow> trace \<Rightarrow> trace \<Rightarrow> string \<Rightarrow> Group \<Rightarrow> bool" where
  "group_at E ns sets tr tr' n g \<longleftrightarrow>
     (\<exists>members t t' c c'. membersStatus E ns t (SortStatefulSets (group_sets sets n)) c = (Ok (members, c'), t') \<and>
        extends tr t \<and> extends t' tr' \<and> g = group_status n members)"

lemma group_at_mono: "group_at E ns sets tr1 tr' n g \<Longrightarrow> extends tr tr1 \<Longrightarrow> group_at E ns sets tr tr' n g"
  unfolding group_at_def using extends_trans by blast

lemma snapshotGroups_groups:
  assumes "snapshotGroups cancelled E ns sets tr names confs = (Ok (groups, confs'), tr')"
    and "set names \<subseteq> set (group_names sets)"
  shows "list_all2 (group_at E ns sets tr tr') names groups \<and> extends tr tr'"
  using assms
proof (induction names arbitrary: tr confs groups)
  case (Cons n names)
  let ?sets = "SortStatefulSets (group_sets sets n)"
  obtain q tr1 where m: "membersStatus E ns tr ?sets confs = (q, tr1)" by fastforce
  have g: "the (GroupStatefulSetsByLabel sets RolloutGroupLabelKey Map.empty n) = group_sets sets n"
    using Cons.prems(2) by (simp add: group_lookup)
  from Cons.prems(1) m g obtain members confs1 where q: "q = Ok (members, confs1)"
    by (cases q) (auto split: option.splits)
  with Cons.prems(1) m g obtain gs where rest: "snapshotGroups cancelled E ns sets tr1 names confs1 = (Ok (gs, confs'), tr')"
    and groups: "groups = group_status n members # gs"
    by (auto split: option.splits res.splits prod.splits)
  have e1: "extends tr tr1" using m q membersStatus_extends by blast
  from Cons.IH [OF rest] Cons.prems(2) have IH: "list_all2 (group_at E ns sets tr1 tr') names gs" and e2: "extends tr1 tr'" by auto
  have "list_all2 (group_at E ns sets tr tr') names gs"
    using IH by (rule list_all2_mono) (rule group_at_mono [OF _ e1])
  moreover have "group_at E ns sets tr tr' n (group_status n members)"
    unfolding group_at_def using m q e2 extends_refl by blast
  ultimately show ?case using groups extends_trans [OF e1 e2] by simp
qed simp

text \<open>Every group of a snapshot is the status of the members of one listed rollout group.\<close>

definition listed_sets :: "string \<Rightarrow> statefulset list \<Rightarrow> statefulset list" where
  "listed_sets ns all = filter (\<lambda>s. sts_namespace s = ns \<and> sel_matches statefulSetsSel (sts_labels s)) all"

lemma takeSnapshot_group:
  assumes "takeSnapshot cancelled E ns tr = (Ok sn, tr')" and "g \<in> set (sn_Groups sn)"
  shows "\<exists>all. e_sts_lister E tr = Reply all \<and> gr_Name g \<in> set (group_names (listed_sets ns all)) \<and>
    group_at E ns (listed_sets ns all) tr tr' (gr_Name g) g"
proof -
  from assms(1) obtain all where all: "e_sts_lister E tr = Reply all"
    by (auto simp: takeSnapshot_def Let_def split: option.splits reply.splits)
  let ?sets = "listed_sets ns all" and ?tr2 = "(tr @ [EvListStatefulSets]) @ [EvNow]"
  from assms(1) all obtain groups confs where
      s: "snapshotGroups cancelled E ns ?sets ?tr2 (sort (group_names ?sets)) Map.empty = (Ok (groups, confs), tr')"
    and gs: "sn_Groups sn = groups"
    by (auto simp: takeSnapshot_def listed_sets_def Let_def split: option.splits prod.splits res.splits)
  from snapshotGroups_groups [OF s] have "list_all2 (group_at E ns ?sets ?tr2 tr') (sort (group_names ?sets)) groups" by simp
  with assms(2) gs obtain n where n: "n \<in> set (sort (group_names ?sets))" "group_at E ns ?sets ?tr2 tr' n g"
    by (metis list_all2_conv_all_nth in_set_conv_nth)
  have "gr_Name g = n" using n(2) by (auto simp: group_at_def group_status_def Let_def)
  moreover have "group_at E ns ?sets tr tr' n g" using n(2) by (rule group_at_mono) simp
  ultimately show ?thesis using all n(1) by auto
qed

section \<open>Phases\<close>

lemma gating_phases:
  "list_all2 (\<lambda>m m'. mb_Phase m' = mb_Phase m \<or> mb_Phase m = PhaseProgressing \<and> mb_Phase m' = PhaseWaiting) ms (applyZoneGating ms)"
proof -
  have loop: "list_all2 (\<lambda>m m'. mb_Phase m' = mb_Phase m \<or> mb_Phase m = PhaseProgressing \<and> mb_Phase m' = PhaseWaiting) ms (gate_loop b ms)" for b
    by (induction ms arbitrary: b) (auto simp: gated_def)
  show ?thesis
    by (auto simp: applyZoneGating_def Let_def loop list_all2_map2 list_all2_same gated_def)
qed

lemma aggregate_complete:
  assumes "fst (aggregateGroupPhase ms n) = PhaseComplete" and "m \<in> set ms"
  shows "mb_Phase m \<in> {PhaseComplete, PhaseUnknown}"
  using assms
  by (cases "mb_Phase m") (auto simp: aggregateGroupPhase_def find_None_iff split: if_splits option.splits)

lemma member_of_complete:
  assumes "mb_Phase (member_of s pods) = PhaseComplete"
  shows "sts_update_strategy s = OnDelete" and "\<not> statefulSetHasNotReadyPods s pods" and "desired_replicas s = sts_ready_replicas s"
    and "sts_update_revision s \<noteq> '''' \<Longrightarrow> p \<in> set pods \<Longrightarrow> mget (pod_labels p) ControllerRevisionHashLabelKey = sts_update_revision s"
proof -
  let ?upd = "filter (\<lambda>p. mget (pod_labels p) ControllerRevisionHashLabelKey = sts_update_revision s) pods"
  from assms show "sts_update_strategy s = OnDelete" "\<not> statefulSetHasNotReadyPods s pods" "desired_replicas s = sts_ready_replicas s"
    by (auto simp: member_of_def base_member_def Let_def split: if_splits)
  assume "sts_update_revision s \<noteq> ''''" and p: "p \<in> set pods"
  with assms have "\<not> length ?upd < length pods"
    by (auto simp: member_of_def base_member_def Let_def split: if_splits)
  with p show "mget (pod_labels p) ControllerRevisionHashLabelKey = sts_update_revision s"
    using length_filter_less [OF p, of "\<lambda>p. mget (pod_labels p) ControllerRevisionHashLabelKey = sts_update_revision s"] by blast
qed

lemma member_of_known: "mb_Phase (member_of s pods) \<noteq> PhaseUnknown"
  by (auto simp: member_of_def base_member_def Let_def)

lemma not_ready_iff:
  "\<not> statefulSetHasNotReadyPods s pods \<longleftrightarrow>
     expectedReplicas s = sts_ready_replicas s \<and> expectedReplicas s \<le> int (length pods) \<and> (\<forall>p\<in>set pods. IsPodRunningAndReady p)"
  by (auto simp: statefulSetHasNotReadyPods_def notRunningAndReady_def SortPods_def filter_empty_conv)

lemma group_complete_members:
  assumes "gr_Phase (group_status n members) = PhaseComplete" and "m \<in> set members" and "mb_Phase m \<noteq> PhaseUnknown"
  shows "mb_Phase m = PhaseComplete"
proof -
  obtain i where i: "i < length members" "members ! i = m" using assms(2) by (auto simp: in_set_conv_nth)
  let ?m' = "applyZoneGating members ! i"
  have "i < length (applyZoneGating members)" and ph: "mb_Phase ?m' = mb_Phase m \<or> mb_Phase m = PhaseProgressing \<and> mb_Phase ?m' = PhaseWaiting"
    using gating_phases [of members] i by (auto simp: list_all2_conv_all_nth)
  then have "mb_Phase ?m' \<in> {PhaseComplete, PhaseUnknown}"
    using assms(1) by (intro aggregate_complete) (auto simp: group_status_def Let_def)
  with ph assms(3) show ?thesis by auto
qed

section \<open>Properties\<close>

text \<open>the status view and the reconciler agree on readiness. Whenever the reconciler's check of a StatefulSet
  gives an answer, and for every listing of its pods that equals the one the check has read, the copy of the check in the
  status view gives the same answer.\<close>

theorem not_ready_views_agree:
  assumes "hasStatefulSetNotReadyPods E namespace tr sts = (Ok b, tr')"
    and "listPodsByStatefulSet E namespace tr sts = (Ok pods, tr1)"
  shows "statefulSetHasNotReadyPods sts pods = b"
  using assms by (auto simp: hasStatefulSetNotReadyPods_def statefulSetHasNotReadyPods_def split: if_splits)

lemma name_label_key: "IsLabelKey ''name''"
  by code_simp

theorem not_ready_views_agree_witness:
  "statefulSetHasNotReadyPods (demo_outdated ''zone-a'') [demo_pod ''zone-a'' ''zone-a-0''] = False"
proof -
  have "hasStatefulSetNotReadyPods demo_rollout ''ns'' [] (demo_outdated ''zone-a'') = (Ok False, [EvListPods])"
    and "listPodsByStatefulSet demo_rollout ''ns'' [] (demo_outdated ''zone-a'') = (Ok [demo_pod ''zone-a'' ''zone-a-0''], [EvListPods])"
    by (simp_all add: hasStatefulSetNotReadyPods_def listPodsByStatefulSet_def listPods_def demo_rollout_def demo_outdated_def
        demo_zone_def demo_sts_def demo_pod_def expectedReplicas_def MustNewLabelsRequirement_def NewRequirement_def demo_label name_label_key
        sel_matches_def config_keys ControllerRevisionHashLabelKey_def notRunningAndReady_def SortPods_def IsPodRunningAndReady_def PodRunning_def)
  then show ?thesis by (rule not_ready_views_agree)
qed

text \<open>a snapshot shows at most one active zone per group. When the StatefulSets listed in a namespace have distinct, non-empty
  names, at most one member of each group of a snapshot is in the phase \<^verbatim>\<open>progressing\<close>.\<close>

theorem snapshot_one_active_zone:
  assumes "takeSnapshot cancelled E namespace tr = (Ok sn, tr')" and "g \<in> set (sn_Groups sn)"
    and "\<forall>t all. e_sts_lister E t = Reply all \<longrightarrow>
           distinct (map sts_name (listed_sets namespace all)) \<and> '''' \<notin> sts_name ` set all"
  shows "length (filter (\<lambda>m. mb_Phase m = PhaseProgressing) (gr_Members g)) \<le> 1"
proof -
  from takeSnapshot_group [OF assms(1,2)] obtain all where all: "e_sts_lister E tr = Reply all"
    and "group_at E namespace (listed_sets namespace all) tr tr' (gr_Name g) g" by blast
  then obtain members t t' c c' where m: "membersStatus E namespace t (SortStatefulSets (group_sets (listed_sets namespace all) (gr_Name g))) c = (Ok (members, c'), t')"
    and g: "g = group_status (gr_Name g) members"
    unfolding group_at_def by blast
  let ?sets = "SortStatefulSets (group_sets (listed_sets namespace all) (gr_Name g))"
  have names: "map mb_Name members = map sts_name ?sets" using m by (rule membersStatus_names)
  have "distinct (map sts_name ?sets)"
    using assms(3) all by (auto simp: SortStatefulSets_def group_sets_def intro: distinct_map_filter)
  then have "distinct (map mb_Name members)" using names by metis
  moreover have "\<forall>m\<in>set members. mb_Name m \<noteq> ''''"
  proof
    fix m assume "m \<in> set members"
    then have "mb_Name m \<in> sts_name ` set ?sets" using names by (metis image_eqI image_set)
    moreover have "'''' \<notin> sts_name ` set all" using assms(3) all by blast
    ultimately show "mb_Name m \<noteq> ''''" by (auto simp: SortStatefulSets_def group_sets_def listed_sets_def)
  qed
  ultimately have "length (filter (\<lambda>m. mb_Phase m = PhaseProgressing) (applyZoneGating members)) \<le> 1"
    by (rule gating_at_most_one)
  with g show ?thesis by (metis Group.select_convs(4) group_status_def)
qed

text \<open>C17: a group shown as complete is rolled out. When a snapshot shows a group in the phase \<^verbatim>\<open>complete\<close>, then every
  StatefulSet of the group, at the listing of its pods made for the snapshot, has the \<^verbatim>\<open>OnDelete\<close> strategy, as many ready
  replicas as its specification asks for, at least as many pods as it should have, all of them running and
  ready and (once an update revision is known) all of them at that revision.\<close>

theorem complete_group_is_rolled_out:
  assumes "takeSnapshot cancelled E namespace tr = (Ok sn, tr')" and "g \<in> set (sn_Groups sn)" and "gr_Phase g = PhaseComplete"
  shows "\<exists>all. e_sts_lister E tr = Reply all \<and>
    (\<forall>s\<in>set (group_sets (listed_sets namespace all) (gr_Name g)).
       \<exists>t t' pods. extends tr t \<and> extends t' tr' \<and> listPodsByStatefulSet E namespace t s = (Ok pods, t') \<and>
         sts_update_strategy s = OnDelete \<and> desired_replicas s = sts_ready_replicas s \<and> expectedReplicas s \<le> int (length pods) \<and>
         (\<forall>p\<in>set pods. IsPodRunningAndReady p \<and>
            (sts_update_revision s = '''' \<or> mget (pod_labels p) ControllerRevisionHashLabelKey = sts_update_revision s)))"
proof -
  from takeSnapshot_group [OF assms(1,2)] obtain all where all: "e_sts_lister E tr = Reply all"
    and "group_at E namespace (listed_sets namespace all) tr tr' (gr_Name g) g" by blast
  then obtain members t0 t1 c c' where m: "membersStatus E namespace t0 (SortStatefulSets (group_sets (listed_sets namespace all) (gr_Name g))) c = (Ok (members, c'), t1)"
    and e: "extends tr t0" "extends t1 tr'" and g: "g = group_status (gr_Name g) members"
    unfolding group_at_def by blast
  let ?sets = "SortStatefulSets (group_sets (listed_sets namespace all) (gr_Name g))"
  have "\<exists>t t' pods. extends tr t \<and> extends t' tr' \<and> listPodsByStatefulSet E namespace t s = (Ok pods, t') \<and>
      mb_Phase (member_of s pods) = PhaseComplete" if s: "s \<in> set ?sets" for s
  proof -
    obtain i where i: "i < length ?sets" "?sets ! i = s" using s by (metis in_set_conv_nth)
    with membersStatus_members [OF m] have mi: "members ! i \<in> set members" and ma: "member_at E namespace t0 t1 s (members ! i)"
      by (auto simp: list_all2_conv_all_nth)
    from ma obtain t t' pods where p: "listPodsByStatefulSet E namespace t s = (Ok pods, t')" "extends t0 t" "extends t' t1"
      "members ! i = member_of s pods" unfolding member_at_def by blast
    have "mb_Phase (members ! i) = PhaseComplete"
      using assms(3) g mi p(4) member_of_known by (metis group_complete_members)
    with p e show ?thesis by (metis extends_trans)
  qed
  then have all_sets: "\<forall>s\<in>set (group_sets (listed_sets namespace all) (gr_Name g)).
      \<exists>t t' pods. extends tr t \<and> extends t' tr' \<and> listPodsByStatefulSet E namespace t s = (Ok pods, t') \<and>
        mb_Phase (member_of s pods) = PhaseComplete"
    by (simp add: SortStatefulSets_def)
  show ?thesis
  proof (intro exI [of _ all] conjI ballI)
    fix s assume "s \<in> set (group_sets (listed_sets namespace all) (gr_Name g))"
    with all_sets obtain t t' pods where p: "extends tr t" "extends t' tr'" "listPodsByStatefulSet E namespace t s = (Ok pods, t')"
      and c: "mb_Phase (member_of s pods) = PhaseComplete" by blast
    note f = member_of_complete [OF c]
    from p f not_ready_iff [of s pods] show "\<exists>t t' pods. extends tr t \<and> extends t' tr' \<and> listPodsByStatefulSet E namespace t s = (Ok pods, t') \<and>
         sts_update_strategy s = OnDelete \<and> desired_replicas s = sts_ready_replicas s \<and> expectedReplicas s \<le> int (length pods) \<and>
         (\<forall>p\<in>set pods. IsPodRunningAndReady p \<and>
            (sts_update_revision s = '''' \<or> mget (pod_labels p) ControllerRevisionHashLabelKey = sts_update_revision s))"
      by (intro exI [of _ t] exI [of _ t'] exI [of _ pods]) auto
  qed (rule all)
qed

lemma demo_snapshot:
  "\<exists>sn tr. takeSnapshot (\<lambda>_. None) demo_rollout ''ns'' [] = (Ok sn, tr) \<and>
     map (\<lambda>g. (gr_Name g, gr_Phase g, map (\<lambda>m. (mb_Name m, mb_Phase m)) (gr_Members g))) (sn_Groups sn) =
       [(''ingester'', PhaseProgressing, [(''zone-a'', PhaseProgressing), (''zone-b'', PhaseWaiting)])]"
proof -
  have "(case takeSnapshot (\<lambda>_. None) demo_rollout ''ns'' [] of
      (Ok sn, tr) \<Rightarrow> map (\<lambda>g. (gr_Name g, gr_Phase g, map (\<lambda>m. (mb_Name m, mb_Phase m)) (gr_Members g))) (sn_Groups sn) =
       [(''ingester'', PhaseProgressing, [(''zone-a'', PhaseProgressing), (''zone-b'', PhaseWaiting)])]
    | _ \<Rightarrow> False)"
    by code_simp
  then show ?thesis by (auto split: prod.splits res.splits)
qed

theorem snapshot_one_active_zone_witness:
  "\<exists>sn tr g. takeSnapshot (\<lambda>_. None) demo_rollout ''ns'' [] = (Ok sn, tr) \<and> g \<in> set (sn_Groups sn) \<and> gr_Name g = ''ingester'' \<and>
     length (filter (\<lambda>m. mb_Phase m = PhaseProgressing) (gr_Members g)) \<le> 1"
proof -
  obtain sn tr where s: "takeSnapshot (\<lambda>_. None) demo_rollout ''ns'' [] = (Ok sn, tr)"
    and m: "map (\<lambda>g. (gr_Name g, gr_Phase g, map (\<lambda>m. (mb_Name m, mb_Phase m)) (gr_Members g))) (sn_Groups sn) =
       [(''ingester'', PhaseProgressing, [(''zone-a'', PhaseProgressing), (''zone-b'', PhaseWaiting)])]"
    using demo_snapshot by (elim exE conjE) (rule that)
  from m obtain g where g: "sn_Groups sn = [g]" "gr_Name g = ''ingester''" by auto
  have names: "\<forall>t all. e_sts_lister demo_rollout t = Reply all \<longrightarrow>
      distinct (map sts_name (listed_sets ''ns'' all)) \<and> '''' \<notin> sts_name ` set all"
    by (simp add: demo_rollout_def demo_outdated_def demo_zone_def demo_sts_def listed_sets_def statefulSetsSel_def sel_matches_def config_keys)
  from snapshot_one_active_zone [OF s _ names, of g] g have "length (filter (\<lambda>m. mb_Phase m = PhaseProgressing) (gr_Members g)) \<le> 1"
    by simp
  with s g show ?thesis by auto
qed

text \<open>The demo cluster once both zones run the update revision.\<close>

definition demo_done :: env where
  "demo_done = steady_env 0 [demo_zone ''zone-a'', demo_zone ''zone-b'']
     [demo_pod ''zone-a'' ''zone-a-0'', demo_pod ''zone-b'' ''zone-b-0'']"

theorem complete_group_is_rolled_out_witness:
  "\<exists>sn tr g all. takeSnapshot (\<lambda>_. None) demo_done ''ns'' [] = (Ok sn, tr) \<and> g \<in> set (sn_Groups sn) \<and> gr_Phase g = PhaseComplete \<and>
     e_sts_lister demo_done [] = Reply all \<and>
     (\<forall>s\<in>set (group_sets (listed_sets ''ns'' all) (gr_Name g)). desired_replicas s = sts_ready_replicas s)"
proof -
  have "(case takeSnapshot (\<lambda>_. None) demo_done ''ns'' [] of
      (Ok sn, tr) \<Rightarrow> map (\<lambda>g. (gr_Name g, gr_Phase g)) (sn_Groups sn) = [(''ingester'', PhaseComplete)]
    | _ \<Rightarrow> False)"
    by code_simp
  then obtain sn tr where s: "takeSnapshot (\<lambda>_. None) demo_done ''ns'' [] = (Ok sn, tr)"
    and m: "map (\<lambda>g. (gr_Name g, gr_Phase g)) (sn_Groups sn) = [(''ingester'', PhaseComplete)]"
    by (auto split: prod.splits res.splits)
  from m obtain g where g: "g \<in> set (sn_Groups sn)" "gr_Phase g = PhaseComplete" by auto
  from complete_group_is_rolled_out [OF s g] s g show ?thesis by blast
qed

section \<open>The displayed zone and the updated zone\<close>

text \<open>Informer caches that do not change: every listing of pods gives the same pods.\<close>

definition steady_pods :: "env \<Rightarrow> pod list \<Rightarrow> bool" where
  "steady_pods E pods \<longleftrightarrow> (\<forall>t. e_pod_lister E t = Reply pods)"

definition pods_of :: "string \<Rightarrow> pod list \<Rightarrow> statefulset \<Rightarrow> pod list" where
  "pods_of ns pods s = filter (\<lambda>p. pod_namespace p = ns \<and>
     sel_matches [Requirement ''name'' Equals [mget (sts_template_labels s) ''name'']] (pod_labels p)) pods"

lemma steady_listing:
  assumes "steady_pods E pods" and "listPodsByStatefulSet E ns t s = (Ok ps, t')"
  shows "ps = pods_of ns pods s"
  using assms by (auto simp: listPodsByStatefulSet_def listPods_def steady_pods_def pods_of_def
      dest!: MustNewLabelsRequirement_Ok split: res.splits)

lemma steady_not_ready:
  assumes "steady_pods E pods" and "hasStatefulSetNotReadyPods E ns u s = (Ok b, u')"
  shows "b = statefulSetHasNotReadyPods s (pods_of ns pods s)"
proof (cases "expectedReplicas s = sts_ready_replicas s")
  case True
  then obtain ps where l: "listPodsByStatefulSet E ns u s = (Ok ps, u')"
    using assms(2) by (auto simp: hasStatefulSetNotReadyPods_def split: if_splits res.splits prod.splits)
  then have "b = statefulSetHasNotReadyPods s ps"
    using assms(2) by (auto simp: hasStatefulSetNotReadyPods_def statefulSetHasNotReadyPods_def split: if_splits)
  with steady_listing [OF assms(1) l] show ?thesis by simp
qed (use assms in \<open>auto simp: hasStatefulSetNotReadyPods_def statefulSetHasNotReadyPods_def\<close>)

lemma steady_found_ready:
  "steady_pods E pods \<Longrightarrow> found_ready E ns tr t s \<Longrightarrow> \<not> statefulSetHasNotReadyPods s (pods_of ns pods s)"
  by (auto simp: found_ready_def dest: steady_not_ready)

lemma steady_findNotReady:
  assumes "steady_pods E pods" and "findNotReadySets E ns tr sets = (Ok nr, tr')"
  shows "nr = filter (\<lambda>s. statefulSetHasNotReadyPods s (pods_of ns pods s)) sets"
  using assms(2)
proof (induction sets arbitrary: tr nr)
  case (Cons s sets)
  obtain q tr1 where h: "hasStatefulSetNotReadyPods E ns tr s = (q, tr1)" by fastforce
  with Cons.prems obtain b where q: "q = Ok b" by (cases q) auto
  with Cons.prems h obtain nr1 where "findNotReadySets E ns tr1 sets = (Ok nr1, tr')" "nr = (if b then s # nr1 else nr1)"
    by (auto split: res.splits prod.splits if_splits)
  with Cons.IH steady_not_ready [OF assms(1) h [unfolded q]] show ?case by auto
qed simp

lemma steady_outdated:
  assumes "steady_pods E pods" and "podsNotMatchingUpdateRevision E ns t s = (Ok outdated, t')"
  shows "sts_update_revision s \<noteq> ''''"
    and "set outdated = {p \<in> set (pods_of ns pods s). mget (pod_labels p) ControllerRevisionHashLabelKey \<noteq> sts_update_revision s}"
proof -
  show ne: "sts_update_revision s \<noteq> ''''"
    using assms(2) by (auto simp: podsNotMatchingUpdateRevision_def Let_def split: if_splits)
  have "outdated = SortPods (filter (\<lambda>p. pod_namespace p = ns \<and>
      sel_matches [Requirement ControllerRevisionHashLabelKey NotEquals [sts_update_revision s],
        Requirement ''name'' Equals [mget (sts_template_labels s) ''name'']] (pod_labels p)) pods)"
    using assms by (auto simp: podsNotMatchingUpdateRevision_def listPods_def steady_pods_def Let_def
        dest!: MustNewLabelsRequirement_Ok split: res.splits prod.splits if_splits)
  then show "set outdated = {p \<in> set (pods_of ns pods s). mget (pod_labels p) ControllerRevisionHashLabelKey \<noteq> sts_update_revision s}"
    using ne by (auto simp: SortPods_def pods_of_def sel_matches_def mget_def split: option.splits)
qed

lemma length_filter_less_iff: "length (filter P xs) < length xs \<longleftrightarrow> (\<exists>x\<in>set xs. \<not> P x)"
  by (induction xs) (auto simp: less_Suc_eq_le)

lemma member_of_progressing:
  "mb_Phase (member_of s pods) = PhaseProgressing \<longleftrightarrow>
     sts_update_strategy s = OnDelete \<and> \<not> rolloutPaused s \<and> sts_update_revision s \<noteq> '''' \<and>
     (\<exists>p\<in>set pods. mget (pod_labels p) ControllerRevisionHashLabelKey \<noteq> sts_update_revision s)"
proof -
  let ?P = "\<lambda>p. mget (pod_labels p) ControllerRevisionHashLabelKey = sts_update_revision s"
  have "length (filter ?P pods) < length pods \<longleftrightarrow> (\<exists>p\<in>set pods. \<not> ?P p)"
    by (rule length_filter_less_iff)
  then show ?thesis by (auto simp: member_of_def base_member_def Let_def)
qed

lemma member_of_NotReady:
  "sts_update_strategy s = OnDelete \<Longrightarrow> mb_NotReady (member_of s pods) = statefulSetHasNotReadyPods s pods"
  by (simp add: member_of_def Let_def)

lemma member_of_degraded: "mb_Phase (member_of s pods) = PhaseDegraded \<longleftrightarrow> sts_update_strategy s \<noteq> OnDelete"
  by (simp add: member_of_def base_member_def Let_def)

text \<open>
  The gating decides as the reconciler does: among the sets \<open>pre @ s # post\<close> with \<open>s\<close> progressing and every other set ready,
  the sets before \<open>s\<close> not progressing unless \<open>s\<close> is not ready, only \<open>s\<close> is shown as progressing.
\<close>

lemma gating_shows:
  assumes "members = map f (pre @ s # post)" and "distinct (map sts_name (pre @ s # post))" and "\<forall>x. mb_Name (f x) = sts_name x"
    and "\<forall>m\<in>set members. mb_Phase m \<noteq> PhaseDegraded" and "mb_Phase (f s) = PhaseProgressing" and "sts_name s \<noteq> ''''"
    and "\<forall>x\<in>set (pre @ post). \<not> mb_NotReady (f x)"
    and "\<not> mb_NotReady (f s) \<Longrightarrow> \<forall>x\<in>set pre. mb_Phase (f x) \<noteq> PhaseProgressing"
  shows "map mb_Name (filter (\<lambda>m. mb_Phase m = PhaseProgressing) (applyZoneGating members)) = [sts_name s]"
proof -
  have nodeg: "filter (\<lambda>m. mb_Phase m = PhaseDegraded) members = []" using assms(4) by (simp add: filter_empty_conv)
  have nr: "filter mb_NotReady members = (if mb_NotReady (f s) then [f s] else [])"
    using assms(1,7) by (simp add: filter_map filter_empty_conv comp_def)
  show ?thesis
  proof (cases "mb_NotReady (f s)")
    case True
    let ?h = "\<lambda>m. if mb_Name m = sts_name s then m else gated (''waiting for '' @ sts_name s) m"
    have "applyZoneGating members = map ?h members" using nodeg nr True assms(3) by (simp add: applyZoneGating_def)
    moreover have "filter (\<lambda>m. mb_Phase m = PhaseProgressing) (map ?h (map f xs)) = []" if "set xs \<subseteq> set (pre @ post)" for xs
    proof -
      have "\<forall>x\<in>set (pre @ post). sts_name x \<noteq> sts_name s" using assms(2) by (force simp: image_iff)
      then have "\<forall>x\<in>set xs. sts_name x \<noteq> sts_name s" using that by blast
      then show ?thesis using assms(3) by (auto simp: filter_empty_conv)
    qed
    ultimately show ?thesis using assms(1,3,5) by simp
  next
    case False
    have "applyZoneGating members = gate_loop '''' members" using nodeg nr False by (simp add: applyZoneGating_def)
    also have "\<dots> = map f pre @ f s # gate_loop (sts_name s) (map f post)"
      using assms(1,3,5,6,7) False assms(8) by (simp add: gate_loop_skip)
    finally show ?thesis
      using assms(3,5,6) False assms(8) gate_loop_blocked [OF assms(6)] by (simp add: filter_empty_conv filter_map comp_def)
  qed
qed

context zpdb_controller
begin

text \<open>Under steady caches the loop stops at the not-ready set if there is one, else at the first set that is progressing.\<close>

lemma steady_loop_order:
  assumes st: "steady_pods E pods" and nrf: "nr = filter (\<lambda>s. statefulSetHasNotReadyPods s (pods_of ns pods s)) sets"
    and "length nr \<le> 1"
    and "loop_batch E ns nr (if length nr = 1 then MoveStatefulSetToFront sets (nr ! 0) else sets) tr c ds tr' c'"
  obtains s t c1 p1 p2 where "sets = p1 @ s # p2" and "drift seen tr c t c1" and "rollout_batch seen approved E ns s t c1 ds tr' c'" and "\<not> rolloutPaused s"
    and "nr = [] \<longrightarrow> (\<forall>x\<in>set p1. mb_Phase (member_of x (pods_of ns pods x)) \<noteq> PhaseProgressing)" and "\<forall>x\<in>set nr. x = s"
proof -
  let ?sets = "if length nr = 1 then MoveStatefulSetToFront sets (nr ! 0) else sets"
  from assms(4) obtain pre s post t c1 where l: "?sets = pre @ s # post" "rollout_batch seen approved E ns s t c1 ds tr' c'" "\<not> rolloutPaused s"
      "\<forall>x\<in>set pre. found_updated E ns tr t x \<or> rolloutPaused x \<and> (\<forall>y. nr = [y] \<longrightarrow> sts_ptr y \<noteq> sts_ptr x)"
    and dr: "drift seen tr c t c1"
    unfolding loop_batch_def by (elim exE conjE)
  show ?thesis
  proof (cases nr)
    case Nil
    have "mb_Phase (member_of x (pods_of ns pods x)) \<noteq> PhaseProgressing" if "x \<in> set pre" for x
    proof -
      from l(4) that Nil have "rolloutPaused x \<or> (\<exists>u u'. podsNotMatchingUpdateRevision E ns u x = (Ok [], u'))"
        by (auto simp: found_updated_def)
      then show ?thesis using steady_outdated(2) [OF st] by (fastforce simp: member_of_progressing)
    qed
    with that [OF _ dr l(2,3)] l(1) Nil show ?thesis by simp
  next
    case (Cons y ys)
    with assms(3) have y: "nr = [y]" by simp
    then have mem: "y \<in> set sets" "statefulSetHasNotReadyPods y (pods_of ns pods y)" using nrf by (auto simp: filter_eq_Cons_iff)
    have front: "pre @ s # post = y # filter (\<lambda>x. sts_ptr x \<noteq> sts_ptr y) sets"
      using l(1) y by (simp add: MoveStatefulSetToFront_def)
    have "pre = []"
    proof (rule ccontr)
      assume "pre \<noteq> []"
      with front have "y \<in> set pre" by (cases pre) auto
      with l(4) y have "found_ready E ns tr t y" by (auto simp: found_updated_def)
      with steady_found_ready [OF st] mem(2) show False by blast
    qed
    with front have "s = y" by simp
    moreover obtain p1 p2 where "sets = p1 @ y # p2" using mem(1) by (meson split_list)
    ultimately show ?thesis using that [OF _ dr l(2,3)] y by simp
  qed
qed

lemma rolloutGroup_displayed:
  assumes st: "steady_pods E pods" and "rolloutGroup zc E ns tr z sets = (r, z', tr')" and "deletions tr' \<noteq> deletions tr"
    and names: "distinct (map sts_name sets)" "'''' \<notin> sts_name ` set sets" and "distinct (map sts_ptr sets)"
  shows "\<exists>s\<in>set sets. \<exists>t c1 ds. deletions tr' = deletions tr @ ds \<and> ds \<noteq> [] \<and>
    drift seen tr (held z) t c1 \<and> rollout_batch seen approved E ns s t c1 ds tr' (held z') \<and>
    map mb_Name (filter (\<lambda>m. mb_Phase m = PhaseProgressing) (applyZoneGating (map (\<lambda>s. member_of s (pods_of ns pods s)) sets))) = [sts_name s]"
proof -
  let ?f = "\<lambda>s. member_of s (pods_of ns pods s)" and ?nready = "\<lambda>s. statefulSetHasNotReadyPods s (pods_of ns pods s)"
  from rolloutGroup_batch [OF assms(2,6)] assms(3) obtain ds where ds: "deletions tr' = deletions tr @ ds" "ds \<noteq> []"
    and gb: "group_batch seen approved E ns sets tr (held z) ds tr' (held z')" by (auto simp: group_rollout_def)
  from gb have od: "\<forall>x\<in>set sets. sts_update_strategy x = OnDelete" unfolding group_batch_def by (elim bexE exE conjE)
  obtain q tr1 where f: "findNotReadySets E ns tr sets = (q, tr1)" by fastforce
  have q1: "quiet tr tr1" using findNotReadySets_sound [OF f] by blast
  have none: "find (\<lambda>s. sts_update_strategy s \<noteq> OnDelete) sets = None" using od by (simp add: find_None_iff)
  obtain nr where nr: "q = Ok nr" "length nr \<le> 1"
    and u: "updateSets zc E ns nr tr1 z (if length nr = 1 then MoveStatefulSetToFront sets (nr ! 0) else sets) = (r, z', tr')"
    using assms(2,3) none f q1 by (auto simp: rolloutGroup_def quiet_def split: res.splits if_splits)
  have nrf: "nr = filter ?nready sets" using steady_findNotReady [OF st f [unfolded nr(1)]] .
  have d1: "drift seen tr (held z) tr1 (held z)" using quiet_extends [OF q1] by (rule drift_stay)
  have "loop_batch E ns nr (if length nr = 1 then MoveStatefulSetToFront sets (nr ! 0) else sets) tr1 (held z) ds tr' (held z')"
    using updateSets_batch [OF u] ds q1 by (auto simp: quiet_def)
  then obtain s t c1 p1 p2 where p: "sets = p1 @ s # p2" and dr: "drift seen tr1 (held z) t c1"
    and rb: "rollout_batch seen approved E ns s t c1 ds tr' (held z')" and np: "\<not> rolloutPaused s"
    and first: "nr = [] \<longrightarrow> (\<forall>x\<in>set p1. mb_Phase (?f x) \<noteq> PhaseProgressing)" and only: "\<forall>x\<in>set nr. x = s"
    by (rule steady_loop_order [OF st nrf nr(2)])
  have s: "s \<in> set sets" using p by simp
  have nready: "mb_NotReady (?f x) \<longleftrightarrow> x \<in> set nr" if "x \<in> set sets" for x
    using that od nrf by (simp add: member_of_NotReady)
  from rb ds(2) obtain outdated t1 where o1: "podsNotMatchingUpdateRevision E ns t s = (Ok outdated, t1)" "outdated \<noteq> []"
    unfolding rollout_batch_def by (metis list_emb_Nil2 map_is_Nil_conv)
  have "map mb_Name (filter (\<lambda>m. mb_Phase m = PhaseProgressing) (applyZoneGating (map ?f sets))) = [sts_name s]"
  proof (rule gating_shows [where f = ?f, OF _ names(1) [unfolded p]])
    show "map ?f sets = map ?f (p1 @ s # p2)" using p by simp
    show "\<forall>m\<in>set (map ?f sets). mb_Phase m \<noteq> PhaseDegraded" using od by (auto simp: member_of_degraded)
    show "\<forall>x\<in>set (p1 @ p2). \<not> mb_NotReady (?f x)"
    proof
      fix x assume x: "x \<in> set (p1 @ p2)"
      have "s \<notin> set (p1 @ p2)" using names(1) p by (auto simp: image_iff)
      with x only have "x \<notin> set nr" by metis
      with x p show "\<not> mb_NotReady (?f x)" by (subst nready) auto
    qed
    show "\<forall>x\<in>set p1. mb_Phase (?f x) \<noteq> PhaseProgressing" if "\<not> mb_NotReady (?f s)"
      using that nready [OF s] only by (intro first [THEN mp]) (cases nr, auto)
    show "mb_Phase (?f s) = PhaseProgressing"
      using o1(2) steady_outdated [OF st o1(1)] s od np by (cases outdated) (auto simp: member_of_progressing)
    show "sts_name s \<noteq> ''''" using names(2) s by (metis image_eqI)
  qed simp
  then show ?thesis
    by (intro bexI [of _ s] exI [of _ t] exI [of _ c1] exI [of _ ds] conjI ds rb s drift_trans [OF d1 dr])
qed

end

lemma steady_members:
  assumes "steady_pods E pods" and "membersStatus E ns tr sets c = (Ok (members, c'), tr')"
  shows "members = map (\<lambda>s. member_of s (pods_of ns pods s)) sets"
proof -
  have "m = member_of s (pods_of ns pods s)" if "member_at E ns tr tr' s m" for s m
    using that steady_listing [OF assms(1)] by (auto simp: member_at_def)
  with membersStatus_members [OF assms(2)] show ?thesis
    by (auto simp: list_all2_conv_all_nth intro!: nth_equalityI)
qed

text \<open>C16: the active zone that the status view shows is the one the controller updates. As long as the pod cache does not
  change, if a reconcile of a group deletes pods, then they are a batch of one StatefulSet, and a snapshot of
  the same StatefulSets shows exactly this one as \<^verbatim>\<open>progressing\<close>. (Names are distinct and not empty.)\<close>

theorem displayed_zone_is_updated_zone:
  assumes "steady_pods E pods"
    and "rolloutGroup (evictionController E cfgs evs) E namespace tr z sets = (r, z', tr')" and "deletions tr' \<noteq> deletions tr"
    and "membersStatus E namespace t0 sets c = (Ok (members, c'), t1)"
    and "distinct (map sts_name sets)" and "'''' \<notin> sts_name ` set sets" and "distinct (map sts_ptr sets)"
  shows "\<exists>s\<in>set sets.
    (\<exists>t c1 ds. deletions tr' = deletions tr @ ds \<and> ds \<noteq> [] \<and> drift evs tr (zp_evictions z) t c1 \<and>
       rollout_batch evs (budget_approved E cfgs) E namespace s t c1 ds tr' (zp_evictions z')) \<and>
    map mb_Name (filter (\<lambda>m. mb_Phase m = PhaseProgressing) (applyZoneGating members)) = [sts_name s]"
  using ec.rolloutGroup_displayed [OF assms(1-3,5-7)] unfolding steady_members [OF assms(1,4)]
  by (elim bexE exE conjE) (intro bexI exI conjI)

theorem displayed_zone_is_updated_zone_witness:
  "\<exists>z tr members c t1. rolloutGroup demo_controller demo_rollout ''ns'' [] NewEvictionController
       (deep_copies [demo_outdated ''zone-a'', demo_outdated ''zone-b'']) = (Ok (), z, tr) \<and> deletions tr = [(''ns'', ''zone-a-0'')] \<and>
     membersStatus demo_rollout ''ns'' [] (deep_copies [demo_outdated ''zone-a'', demo_outdated ''zone-b'']) Map.empty = (Ok (members, c), t1) \<and>
     length (filter (\<lambda>m. mb_Phase m = PhaseProgressing) (applyZoneGating members)) = 1"
proof -
  let ?sets = "deep_copies [demo_outdated ''zone-a'', demo_outdated ''zone-b'']"
  have "(case rolloutGroup demo_controller demo_rollout ''ns'' [] NewEvictionController ?sets of
      (r, z, tr) \<Rightarrow> r = Ok () \<and> deletions tr = [(''ns'', ''zone-a-0'')])"
    by code_simp
  then obtain z tr where u: "rolloutGroup demo_controller demo_rollout ''ns'' [] NewEvictionController ?sets = (Ok (), z, tr)"
    and d: "deletions tr = [(''ns'', ''zone-a-0'')]" by (auto split: prod.splits)
  have "is_ok (fst (membersStatus demo_rollout ''ns'' [] ?sets Map.empty))" by code_simp
  then obtain members c t1 where m: "membersStatus demo_rollout ''ns'' [] ?sets Map.empty = (Ok (members, c), t1)"
    by (metis is_ok_iff prod.collapse)
  have st: "steady_pods demo_rollout [demo_pod ''zone-a'' ''zone-a-0'', demo_pod ''zone-b'' ''zone-b-0'']"
    by (simp add: steady_pods_def demo_rollout_def)
  have names: "distinct (map sts_name ?sets)" "'''' \<notin> sts_name ` set ?sets" "distinct (map sts_ptr ?sets)"
    by (simp_all add: deep_copies_def demo_outdated_def demo_zone_def demo_sts_def)
  from displayed_zone_is_updated_zone [OF st u [unfolded demo_controller_def] _ m names] d
  have "length (map mb_Name (filter (\<lambda>m. mb_Phase m = PhaseProgressing) (applyZoneGating members))) = 1" by auto
  with u d m show ?thesis by auto
qed

end
