(* ===== verification/Admission.thy ===== *)
theory Admission
  imports ZpdbEviction
begin

text \<open>
  \<^verbatim>\<open>pkg/admission/no_downscale.go\<close> and \<^verbatim>\<open>zpdb_validating_webhook.go\<close>: the webhook that refuses the
  downscale of a protected workload, the webhook that validates a disruption budget, and the types
  and helpers they share with the prepare-downscale webhook.

  The deserializer of the Kubernetes API machinery is a parameter \<open>dec\<close>: it maps raw bytes to an object and
  its printed group, version and kind, or to an error.
\<close>

section \<open>Reading and writing\<close>

text \<open>The events that change something outside the operator, and traces that grow by the others only.\<close>

fun is_write :: "event \<Rightarrow> bool" where
  "is_write (EvDeletePod _ _) = True"
| "is_write (EvUpdateStatus _ _ _) = True"
| "is_write (EvPatchReplicas _ _ _) = True"
| "is_write (EvPatchStatusReplicas _ _ _ _) = True"
| "is_write (EvHttp _ _) = True"
| "is_write (EvPatchAnnotation _ _ _ _) = True"
| "is_write (EvCreateConfigMap _ _ _) = True"
| "is_write (EvUpdateConfigMap _ _ _) = True"
| "is_write _ = False"

definition reads :: "trace \<Rightarrow> trace \<Rightarrow> bool" where
  "reads a b \<longleftrightarrow> (\<exists>evs. b = a @ evs \<and> (\<forall>e\<in>set evs. \<not> is_write e))"

lemma reads_refl [simp]: "reads a a"
  by (simp add: reads_def)

lemma reads_trans: "reads a b \<Longrightarrow> reads b c \<Longrightarrow> reads a c"
  by (auto simp: reads_def)

lemma reads_snoc [simp]: "reads a (a @ [e]) \<longleftrightarrow> \<not> is_write e"
  by (simp add: reads_def)

lemma reads_extends: "reads a b \<Longrightarrow> extends a b"
  by (auto simp: reads_def extends_def)

section \<open>Reviews and decoded objects\<close>

record adm_request =
  ar_uid :: string
  ar_kind :: string
  ar_resource :: string
  ar_subResource :: string
  ar_requestKind :: string
  ar_requestResource :: string
  ar_requestSubResource :: string
  ar_name :: string
  ar_namespace :: string
  ar_operation :: string
  ar_userInfo :: string
  ar_object :: string
  ar_oldObject :: string
  ar_dryRun :: "bool option"
  ar_options :: string

text \<open>
  What the deserializer returns: of a Deployment and a ReplicaSet the code reads the labels and the optional
  \<^verbatim>\<open>Spec.Replicas\<close>; a Scale always has a replica count; any other object is known by its Go type.
\<close>

datatype runtime_object =
    Deployment strmap "int option"
  | StatefulSet statefulset
  | ReplicaSet strmap "int option"
  | Scale int
  | OtherType string

type_synonym decoder = "string \<Rightarrow> (runtime_object \<times> string) reply"

definition replicas :: "runtime_object \<Rightarrow> string \<Rightarrow> int option res" where
  "replicas obj gvk =
     (case obj of
        Deployment ls r \<Rightarrow> Ok r
      | StatefulSet s \<Rightarrow> Ok (sts_replicas s)
      | ReplicaSet ls r \<Rightarrow> Ok r
      | Scale r \<Rightarrow> Ok (Some r)
      | OtherType t \<Rightarrow> Fail (Err (''unsupported type '' @ gvk @ '' (go type '' @ t @ '')'')))"

section \<open>Responses\<close>

definition allowed_response :: adm_response where
  "allowed_response = \<lparr>adm_allowed = True, adm_uid = '''', adm_message = '''', adm_code = 0, adm_warnings = []\<rparr>"

definition allowWarn :: "string \<Rightarrow> adm_response" where
  "allowWarn warn = allowed_response\<lparr>adm_warnings := [warn]\<rparr>"

definition allowErr :: "string \<Rightarrow> err \<Rightarrow> adm_response" where
  "allowErr msg e = allowed_response\<lparr>adm_warnings := [msg @ '', err: '' @ errmsg e]\<rparr>"

definition allowBecauseCannotGetResource :: "adm_request \<Rightarrow> err \<Rightarrow> adm_response" where
  "allowBecauseCannotGetResource r e =
     allowed_response\<lparr>adm_warnings :=
       [''can't get '' @ ar_resource r @ ''/'' @ ar_name r @ '' in namespace '' @ ar_namespace r
        @ '', allowing the change: '' @ errmsg e]\<rparr>"

text \<open>\<^verbatim>\<open>deny\<close> of \<^verbatim>\<open>prep_downscale.go\<close>; the no-downscale webhook builds the same response in place.\<close>

definition deny :: "string \<Rightarrow> adm_response" where
  "deny msg = \<lparr>adm_allowed = False, adm_uid = '''', adm_message = msg, adm_code = 0, adm_warnings = []\<rparr>"

lemma response_allowed [simp]:
  "adm_allowed allowed_response" "adm_allowed (allowWarn w)" "adm_allowed (allowErr m e)"
  "adm_allowed (allowBecauseCannotGetResource r e)" "\<not> adm_allowed (deny m)"
  by (simp_all add: allowed_response_def allowWarn_def allowErr_def allowBecauseCannotGetResource_def deny_def)

section \<open>The no-downscale webhook\<close>

text \<open>On an error the client returns an empty object beside it, so reading its labels does not panic.\<close>

definition getResourceLabels :: "env \<Rightarrow> trace \<Rightarrow> adm_request \<Rightarrow> strmap reply \<times> trace" where
  "getResourceLabels E tr r =
     (if ar_resource r = ''statefulsets'' then
        ((case e_get_sts E tr (ar_namespace r) (ar_name r) of Reply s \<Rightarrow> Reply (sts_labels s) | Error e \<Rightarrow> Error e),
         tr @ [EvGetStatefulSet (ar_namespace r) (ar_name r)])
      else if ar_resource r = ''deployments'' then
        (e_get_deployment E tr (ar_namespace r) (ar_name r), tr @ [EvGetDeployment (ar_namespace r) (ar_name r)])
      else if ar_resource r = ''replicasets'' then
        (e_get_replicaset E tr (ar_namespace r) (ar_name r), tr @ [EvGetReplicaSet (ar_namespace r) (ar_name r)])
      else (Error (Err (''unsupported resource '' @ ar_resource r)), tr))"

text \<open>The check of the labels, once the request is known to be a downscale.\<close>

definition checkNoDownscaleLabel :: "adm_request \<Rightarrow> int \<Rightarrow> int \<Rightarrow> strmap \<Rightarrow> adm_response" where
  "checkNoDownscaleLabel r oldReplicas newReplicas lbls =
     (case lbls NoDownscaleLabelKey of
        None \<Rightarrow> allowed_response
      | Some val \<Rightarrow>
          if val \<noteq> NoDownscaleLabelValue then allowed_response
          else deny (''downscale of '' @ ar_resource r @ ''/'' @ ar_name r @ '' in '' @ ar_namespace r
                     @ '' from '' @ Itoa oldReplicas @ '' to '' @ Itoa newReplicas
                     @ '' replicas is not allowed because it has the label '' @ CHR 0x27 # NoDownscaleLabelKey
                     @ ''='' @ NoDownscaleLabelValue @ [CHR 0x27]))"

definition NoDownscale :: "env \<Rightarrow> decoder \<Rightarrow> trace \<Rightarrow> adm_request option \<Rightarrow> adm_response res \<times> trace" where
  "NoDownscale E dec tr ar =
     (case ar of
        None \<Rightarrow> (Panic ''nil pointer dereference'', tr)
      | Some r \<Rightarrow>
          (case dec (ar_oldObject r) of
             Error e \<Rightarrow> (Ok (allowErr ''can't decode old object, allowing the change'' e), tr)
           | Reply (oldObj, oldGVK) \<Rightarrow>
               (case replicas oldObj oldGVK of
                  Panic m \<Rightarrow> (Panic m, tr)
                | Fail e \<Rightarrow> (Ok (allowErr ''can't get old replicas, allowing the change'' e), tr)
                | Ok oldReplicas \<Rightarrow>
                    (case dec (ar_object r) of
                       Error e \<Rightarrow> (Ok (allowErr ''can't decode new object, allowing the change'' e), tr)
                     | Reply (newObj, newGVK) \<Rightarrow>
                         (case replicas newObj newGVK of
                            Panic m \<Rightarrow> (Panic m, tr)
                          | Fail e \<Rightarrow> (Ok (allowErr ''can't get new replicas, allowing the change'' e), tr)
                          | Ok newReplicas \<Rightarrow>
                              (case (oldReplicas, newReplicas) of
                                 (None, None) \<Rightarrow> (Ok allowed_response, tr)
                               | (Some old, Some new) \<Rightarrow>
                                   if old < new then (Ok allowed_response, tr)
                                   else if old = new then (Ok allowed_response, tr)
                                   else
                                     (case oldObj of
                                        Deployment ls _ \<Rightarrow> (Ok (checkNoDownscaleLabel r old new ls), tr)
                                      | StatefulSet s \<Rightarrow> (Ok (checkNoDownscaleLabel r old new (sts_labels s)), tr)
                                      | ReplicaSet ls _ \<Rightarrow> (Ok (checkNoDownscaleLabel r old new ls), tr)
                                      | Scale _ \<Rightarrow>
                                          (case getResourceLabels E tr r of
                                             (Error e, tr1) \<Rightarrow> (Ok (allowBecauseCannotGetResource r e), tr1)
                                           | (Reply ls, tr1) \<Rightarrow> (Ok (checkNoDownscaleLabel r old new ls), tr1))
                                      | OtherType t \<Rightarrow>
                                          (Ok (allowWarn (''unsupported type '' @ t @ '', allowing the change'')), tr))
                               | _ \<Rightarrow> (Ok (allowWarn ''old/new replicas is nil, allowing the change''), tr)))))))"

section \<open>The validating webhook of disruption budgets\<close>

text \<open>
  \<^verbatim>\<open>json.Unmarshal\<close> into an unstructured object is the parameter \<open>unmarshal\<close>, the regexp compiler the
  parameter \<open>compile\<close> of \<^const>\<open>ParseAndValidate\<close>.
\<close>

definition zpdb_parse :: "(string \<Rightarrow> regexp reply) \<Rightarrow> (string \<Rightarrow> jval reply) \<Rightarrow> adm_request \<Rightarrow> (int \<times> err option) res" where
  "zpdb_parse compile unmarshal r =
     (case unmarshal (ar_object r) of
        Error e \<Rightarrow> Ok (400, Some e)
      | Reply obj \<Rightarrow>
          (case ParseAndValidate compile obj of
             Panic m \<Rightarrow> Panic m
           | Fail e \<Rightarrow> Ok (400, Some e)
           | Ok c \<Rightarrow> Ok (0, None)))"

definition zpdb_allow :: "adm_request \<Rightarrow> adm_response" where
  "zpdb_allow r = allowed_response\<lparr>adm_uid := ar_uid r\<rparr>"

definition zpdb_deny :: "adm_request \<Rightarrow> string \<Rightarrow> int \<Rightarrow> adm_response" where
  "zpdb_deny r reason httpStatusCode =
     \<lparr>adm_allowed = False, adm_uid = ar_uid r, adm_message = reason, adm_code = httpStatusCode, adm_warnings = []\<rparr>"

definition ZoneAwarePdbValidatingWebhookHandler ::
    "(string \<Rightarrow> regexp reply) \<Rightarrow> (string \<Rightarrow> jval reply) \<Rightarrow> adm_request option \<Rightarrow> adm_response res" where
  "ZoneAwarePdbValidatingWebhookHandler compile unmarshal ar =
     (case ar of
        None \<Rightarrow> Panic ''nil pointer dereference''
      | Some r \<Rightarrow>
          (case zpdb_parse compile unmarshal r of
             Panic m \<Rightarrow> Panic m
           | Fail e \<Rightarrow> Fail e
           | Ok (httpStatusCode, Some e) \<Rightarrow> Ok (zpdb_deny r (errmsg e) httpStatusCode)
           | Ok (httpStatusCode, None) \<Rightarrow> Ok (zpdb_allow r)))"

section \<open>Properties\<close>

text \<open>
  What the no-downscale webhook is for, stated on the decoded objects and the answers of the API server: the request lowers the
  replica count of a workload whose labels carry the protection. The labels of a Scale are those of the StatefulSet, Deployment or
  ReplicaSet of the request's namespace and name, as the API server returns it.
\<close>

definition workload_labels :: "env \<Rightarrow> trace \<Rightarrow> adm_request \<Rightarrow> runtime_object \<Rightarrow> strmap \<Rightarrow> bool" where
  "workload_labels E tr r obj ls \<longleftrightarrow>
     (\<exists>n. obj = Deployment ls n) \<or> (\<exists>s. obj = StatefulSet s \<and> ls = sts_labels s) \<or> (\<exists>n. obj = ReplicaSet ls n) \<or>
     (\<exists>n. obj = Scale n \<and>
        (ar_resource r = ''statefulsets'' \<and> (\<exists>s. e_get_sts E tr (ar_namespace r) (ar_name r) = Reply s \<and> ls = sts_labels s) \<or>
         ar_resource r = ''deployments'' \<and> e_get_deployment E tr (ar_namespace r) (ar_name r) = Reply ls \<or>
         ar_resource r = ''replicasets'' \<and> e_get_replicaset E tr (ar_namespace r) (ar_name r) = Reply ls))"

text \<open>The replica count an object carries, if it has one.\<close>

definition object_replicas :: "runtime_object \<Rightarrow> int option" where
  "object_replicas obj =
     (case obj of
        Deployment _ n \<Rightarrow> n
      | StatefulSet s \<Rightarrow> sts_replicas s
      | ReplicaSet _ n \<Rightarrow> n
      | Scale n \<Rightarrow> Some n
      | OtherType _ \<Rightarrow> None)"

definition decoded_replicas :: "decoder \<Rightarrow> string \<Rightarrow> (runtime_object \<times> int) option" where
  "decoded_replicas dec raw =
     (case dec raw of Error _ \<Rightarrow> None | Reply (obj, gvk) \<Rightarrow> map_option (Pair obj) (object_replicas obj))"

lemma decoded_replicas_alt:
  "decoded_replicas dec raw =
     (case dec raw of
        Error _ \<Rightarrow> None
      | Reply (obj, gvk) \<Rightarrow> (case replicas obj gvk of Ok (Some n) \<Rightarrow> Some (obj, n) | _ \<Rightarrow> None))"
  by (auto simp: decoded_replicas_def object_replicas_def replicas_def split: reply.splits prod.splits runtime_object.splits option.splits)

definition protected_downscale :: "env \<Rightarrow> decoder \<Rightarrow> trace \<Rightarrow> adm_request \<Rightarrow> bool" where
  "protected_downscale E dec tr r \<longleftrightarrow>
     (\<exists>obj obj' old new ls. decoded_replicas dec (ar_oldObject r) = Some (obj, old) \<and>
        decoded_replicas dec (ar_object r) = Some (obj', new) \<and> new < old \<and>
        workload_labels E tr r obj ls \<and> ls NoDownscaleLabelKey = Some NoDownscaleLabelValue)"

lemma checkNoDownscaleLabel_allowed:
  "adm_allowed (checkNoDownscaleLabel r a b ls) \<longleftrightarrow> ls NoDownscaleLabelKey \<noteq> Some NoDownscaleLabelValue"
  by (simp add: checkNoDownscaleLabel_def split: option.splits)

lemma replicas_no_panic [simp]: "replicas obj gvk \<noteq> Panic m"
  by (simp add: replicas_def split: runtime_object.splits)

text \<open>C24: the no-downscale webhook answers every request, refuses exactly the downscales of protected
  workloads, and changes nothing in the cluster: whatever it cannot decode, does not know or cannot look
  up is allowed.\<close>

theorem no_downscale_decides:
  "\<exists>resp tr'. NoDownscale E dec tr (Some r) = (Ok resp, tr') \<and>
     (adm_allowed resp \<longleftrightarrow> \<not> protected_downscale E dec tr r) \<and>
     reads tr tr'"
proof (cases "dec (ar_oldObject r)")
  case (Reply old)
  obtain oldObj oldGVK where old: "old = (oldObj, oldGVK)" by (cases old)
  show ?thesis
  proof (cases "replicas oldObj oldGVK")
    case o: (Ok oldReplicas)
    show ?thesis
    proof (cases "dec (ar_object r)")
      case new: (Reply new)
      obtain newObj newGVK where "new = (newObj, newGVK)" by (cases new)
      then show ?thesis
        using Reply old o new
        by (cases "replicas newObj newGVK"; cases oldReplicas)
           (auto simp: NoDownscale_def protected_downscale_def decoded_replicas_alt workload_labels_def
              checkNoDownscaleLabel_allowed getResourceLabels_def
              split: option.splits runtime_object.splits reply.splits prod.splits)
    qed (use Reply old o in \<open>simp add: NoDownscale_def protected_downscale_def decoded_replicas_alt split: option.splits\<close>)
  qed (use Reply old in \<open>simp_all add: NoDownscale_def protected_downscale_def decoded_replicas_alt\<close>)
qed (simp add: NoDownscale_def protected_downscale_def decoded_replicas_alt)

text \<open>Parsing a configuration never panics.\<close>

lemma nested_no_panic [simp]:
  "NestedFieldNoCopy v path \<noteq> Panic m" "string_values kvs \<noteq> Panic m" "map_res f (string_values kvs) \<noteq> Panic m"
proof -
  show "NestedFieldNoCopy v path \<noteq> Panic m"
    by (induction v path rule: NestedFieldNoCopy.induct) (auto split: jval.splits option.splits)
  have sv: "string_values kvs \<noteq> Panic m" for m
    by (induction kvs rule: string_values.induct) (auto split: jval.splits res.splits)
  then show "string_values kvs \<noteq> Panic m" .
  show "map_res f (string_values kvs) \<noteq> Panic m" using sv by (cases "string_values kvs") auto
qed

lemma config_fields_no_panic [simp]:
  "NestedMap obj path \<noteq> Panic m" "NestedStringMap obj path \<noteq> Panic m" "max_unavailable_fields spec \<noteq> Panic m"
  "valueAsRegex compile spec f g \<noteq> Panic m" "eviction_delay_field spec \<noteq> Panic m"
  by (auto simp: NestedMap_def NestedStringMap_def max_unavailable_fields_def valueAsRegex_def
      eviction_delay_field_def Let_def split: res.splits option.splits jval.splits if_splits prod.splits reply.splits)

lemma ParseAndValidate_no_panic [simp]: "ParseAndValidate compile obj \<noteq> Panic m"
  by (auto simp: ParseAndValidate_def split: res.splits option.splits if_splits prod.splits)

text \<open>C25: the validating webhook and the operator's cache agree on what a valid budget is. The webhook answers
  every request with the UID of the request. A budget it admits is well formed, and when the informer delivers it the
  cache holds it from then on, unless it already has a version that is as new. A budget it refuses is refused
  with code 400, and would leave the cache as it is.\<close>

theorem admitted_budget_is_cached:
  assumes "unmarshal (ar_object r) = Reply obj"
  shows "\<exists>resp. ZoneAwarePdbValidatingWebhookHandler compile unmarshal (Some r) = Ok resp \<and> adm_uid resp = ar_uid r \<and>
     (adm_allowed resp \<longrightarrow>
        (\<exists>c. wf_config c \<and>
           (\<forall>entries. (\<forall>old. map_of entries (cfg_name c) = Some old \<longrightarrow> cfg_generation old < cfg_generation c) \<longrightarrow>
              map_of (fst (onPdbAdded compile entries (Object obj))) (cfg_name c) = Some c))) \<and>
     (\<not> adm_allowed resp \<longrightarrow>
        adm_code resp = 400 \<and> (\<forall>entries. onPdbAdded compile entries (Object obj) = (entries, ''invalid'')))"
proof (cases "ParseAndValidate compile obj")
  case (Ok c)
  have "map_of (fst (onPdbAdded compile entries (Object obj))) (cfg_name c) = Some c"
    if "\<forall>old. map_of entries (cfg_name c) = Some old \<longrightarrow> cfg_generation old < cfg_generation c" for entries
    using that Ok
    by (auto simp: onPdbAdded_def observer_addOrUpdate_def addOrUpdateRaw_def addOrUpdate_def update_conv'
        split: option.splits if_splits)
  then show ?thesis
    using Ok assms ParseAndValidate_wf [OF Ok]
    by (auto simp: ZoneAwarePdbValidatingWebhookHandler_def zpdb_parse_def zpdb_allow_def allowed_response_def)
next
  case (Fail e)
  then show ?thesis
    using assms
    by (auto simp: ZoneAwarePdbValidatingWebhookHandler_def zpdb_parse_def zpdb_deny_def onPdbAdded_def
        observer_addOrUpdate_def addOrUpdateRaw_def)
qed simp

section \<open>Witnesses\<close>

definition demo_request :: adm_request where
  "demo_request =
     \<lparr>ar_uid = ''uid-1'', ar_kind = ''Scale'', ar_resource = ''statefulsets'', ar_subResource = ''scale'', ar_requestKind = '''',
      ar_requestResource = '''', ar_requestSubResource = '''', ar_name = ''zone-a'', ar_namespace = ''ns'',
      ar_operation = ''UPDATE'', ar_userInfo = '''', ar_object = ''new'', ar_oldObject = ''old'',
      ar_dryRun = Some False, ar_options = ''''\<rparr>"

theorem admitted_budget_is_cached_witness:
  "\<exists>c. wf_config c \<and> map_of (fst (onPdbAdded (\<lambda>_. Error (Err ''unused'')) [] (Object demo_resource))) (cfg_name c) = Some c"
  using admitted_budget_is_cached [of "\<lambda>_. Reply demo_resource" demo_request demo_resource "\<lambda>_. Error (Err ''unused'')"]
    demo_resource_parsed
  by (auto simp: ZoneAwarePdbValidatingWebhookHandler_def zpdb_parse_def zpdb_allow_def allowed_response_def)

end
