(* ===== verification/AdmissionServe.thy ===== *)
theory AdmissionServe
  imports Admission
begin

text \<open>
  \<^verbatim>\<open>pkg/admission/serve.go\<close> and \<^verbatim>\<open>convert.go\<close>: the HTTP side of every admission webhook. A handler is
  a function of the request that passes an arbitrary state through (the trace, the caches). Decoding of the
  body, encoding of the answer and the handler are parameters, so the theorems hold for each of the
  operator's handlers.
\<close>

section \<open>The two versions of a review\<close>

record beta_request =
  br_uid :: string
  br_kind :: string
  br_resource :: string
  br_subResource :: string
  br_requestKind :: string
  br_requestResource :: string
  br_requestSubResource :: string
  br_name :: string
  br_namespace :: string
  br_operation :: string
  br_userInfo :: string
  br_object :: string
  br_oldObject :: string
  br_dryRun :: "bool option"
  br_options :: string

text \<open>
  The response of a handler with the fields no handler of the operator sets, and its version
  \<^verbatim>\<open>v1beta1\<close>. The patch type is a string in both versions.
\<close>

record v1_response = adm_response +
  rsp_auditAnnotations :: "(string \<times> string) list"
  rsp_patch :: string
  rsp_patchType :: "string option"

record beta_response =
  bp_uid :: string
  bp_allowed :: bool
  bp_message :: string
  bp_code :: int
  bp_warnings :: "string list"
  bp_auditAnnotations :: "(string \<times> string) list"
  bp_patch :: string
  bp_patchType :: "string option"

definition convertAdmissionRequestToV1 :: "beta_request \<Rightarrow> adm_request" where
  "convertAdmissionRequestToV1 r =
     \<lparr>ar_uid = br_uid r, ar_kind = br_kind r, ar_resource = br_resource r, ar_subResource = br_subResource r,
      ar_requestKind = br_requestKind r, ar_requestResource = br_requestResource r,
      ar_requestSubResource = br_requestSubResource r, ar_name = br_name r, ar_namespace = br_namespace r,
      ar_operation = br_operation r, ar_userInfo = br_userInfo r, ar_object = br_object r,
      ar_oldObject = br_oldObject r, ar_dryRun = br_dryRun r, ar_options = br_options r\<rparr>"

definition convertAdmissionResponseToV1beta1 :: "v1_response \<Rightarrow> beta_response" where
  "convertAdmissionResponseToV1beta1 r =
     (let pt = (case rsp_patchType r of None \<Rightarrow> None | Some t \<Rightarrow> Some t)
      in \<lparr>bp_uid = adm_uid r, bp_allowed = adm_allowed r, bp_message = adm_message r, bp_code = adm_code r,
          bp_warnings = adm_warnings r, bp_auditAnnotations = rsp_auditAnnotations r, bp_patch = rsp_patch r,
          bp_patchType = pt\<rparr>)"

text \<open>A handler of the operator leaves the remaining fields at their zero values.\<close>

definition full_response :: "adm_response \<Rightarrow> v1_response" where
  "full_response r = adm_response.extend r \<lparr>rsp_auditAnnotations = [], rsp_patch = '''', rsp_patchType = None\<rparr>"

section \<open>Serving a request\<close>

record gvk =
  gvk_group :: string
  gvk_version :: string
  gvk_kind :: string

definition v1beta1_review :: gvk where
  "v1beta1_review = \<lparr>gvk_group = ''admission.k8s.io'', gvk_version = ''v1beta1'', gvk_kind = ''AdmissionReview''\<rparr>"

definition v1_review :: gvk where
  "v1_review = \<lparr>gvk_group = ''admission.k8s.io'', gvk_version = ''v1'', gvk_kind = ''AdmissionReview''\<rparr>"

text \<open>The printed form \<^verbatim>\<open>group/version, Kind=kind\<close>.\<close>

definition gvk_string :: "gvk \<Rightarrow> string" where
  "gvk_string g = gvk_group g @ ''/'' @ gvk_version g @ '', Kind='' @ gvk_kind g"

text \<open>A decoded body: a review of either version, with an optional request, or any other object.\<close>

datatype review_object = BetaReview "beta_request option" | V1Review "adm_request option" | NoReview

datatype review_answer = BetaAnswer gvk beta_response | V1Answer gvk v1_response

text \<open>\<open>hr_body\<close> is empty when there is no body or reading it fails.\<close>

record http_request_in =
  hr_contentType :: string
  hr_body :: string

record http_answer =
  ha_status :: int
  ha_contentType :: string
  ha_body :: string

text \<open>What a handler that writes nothing answers, and \<^verbatim>\<open>http.Error\<close>.\<close>

definition empty_answer :: http_answer where
  "empty_answer = \<lparr>ha_status = 200, ha_contentType = '''', ha_body = ''''\<rparr>"

definition http_Error :: "string \<Rightarrow> int \<Rightarrow> http_answer" where
  "http_Error msg code =
     \<lparr>ha_status = code, ha_contentType = ''text/plain; charset=utf-8'', ha_body = msg @ [CHR 0x0A]\<rparr>"

type_synonym 's admit = "'s \<Rightarrow> adm_request option \<Rightarrow> v1_response res \<times> 's"

definition delegateV1beta1AdmitToV1 :: "'s admit \<Rightarrow> 's \<Rightarrow> beta_request \<Rightarrow> beta_response res \<times> 's" where
  "delegateV1beta1AdmitToV1 f s r =
     (case f s (Some (convertAdmissionRequestToV1 r)) of
        (out, s1) \<Rightarrow> (map_res convertAdmissionResponseToV1beta1 out, s1))"

text \<open>The switch over the version: the answer object, or the reply that ends the request early.\<close>

definition review :: "'s admit \<Rightarrow> 's \<Rightarrow> gvk \<Rightarrow> review_object \<Rightarrow> (review_answer + http_answer) res \<times> 's" where
  "review admit s g obj =
     (if g = v1beta1_review then
        (case obj of
           BetaReview None \<Rightarrow> (Panic ''nil pointer dereference'', s)
         | BetaReview (Some r) \<Rightarrow>
             (case delegateV1beta1AdmitToV1 admit s r of
                (out, s1) \<Rightarrow> (map_res (\<lambda>p. Inl (BetaAnswer g (p\<lparr>bp_uid := br_uid r\<rparr>))) out, s1))
         | _ \<Rightarrow> (Ok (Inr empty_answer), s))
      else if g = v1_review then
        (case obj of
           V1Review None \<Rightarrow> (Panic ''nil pointer dereference'', s)
         | V1Review (Some r) \<Rightarrow>
             (case admit s (Some r) of
                (out, s1) \<Rightarrow> (map_res (\<lambda>p. Inl (V1Answer g (p\<lparr>adm_uid := ar_uid r\<rparr>))) out, s1))
         | _ \<Rightarrow> (Ok (Inr empty_answer), s))
      else (Ok (Inr (http_Error (''Unsupported group version kind: '' @ gvk_string g) 400)), s))"

definition Serve :: "(string \<Rightarrow> (gvk \<times> review_object) reply) \<Rightarrow> (review_answer \<Rightarrow> string reply) \<Rightarrow> 's admit
    \<Rightarrow> 's \<Rightarrow> http_request_in \<Rightarrow> http_answer res \<times> 's" where
  "Serve decode marshal admit s hr =
     (if hr_contentType hr \<noteq> ''application/json'' then (Ok (http_Error ''wrong content type'' 400), s)
      else
        (case decode (hr_body hr) of
           Error e \<Rightarrow> (Ok (http_Error (''Request could not be decoded: '' @ errmsg e) 400), s)
         | Reply (g, obj) \<Rightarrow>
             (case review admit s g obj of
                (Panic m, s1) \<Rightarrow> (Panic m, s1)
              | (Fail e, s1) \<Rightarrow> (Fail e, s1)
              | (Ok (Inr answer), s1) \<Rightarrow> (Ok answer, s1)
              | (Ok (Inl responseObj), s1) \<Rightarrow>
                  (case marshal responseObj of
                     Error e \<Rightarrow> (Ok (http_Error (errmsg e) 500), s1)
                   | Reply respBytes \<Rightarrow>
                       (Ok \<lparr>ha_status = 200, ha_contentType = ''application/json'', ha_body = respBytes\<rparr>, s1)))))"

section \<open>Properties\<close>

text \<open>The parts of an answer a caller acts on.\<close>

fun answer_uid :: "review_answer \<Rightarrow> string" where
  "answer_uid (BetaAnswer g p) = bp_uid p"
| "answer_uid (V1Answer g p) = adm_uid p"

text \<open>The same request in the two versions, and the same response, field by field.\<close>

definition same_request :: "beta_request \<Rightarrow> adm_request \<Rightarrow> bool" where
  "same_request r q \<longleftrightarrow>
     br_uid r = ar_uid q \<and> br_kind r = ar_kind q \<and> br_resource r = ar_resource q \<and> br_subResource r = ar_subResource q \<and>
     br_requestKind r = ar_requestKind q \<and> br_requestResource r = ar_requestResource q \<and>
     br_requestSubResource r = ar_requestSubResource q \<and> br_name r = ar_name q \<and> br_namespace r = ar_namespace q \<and>
     br_operation r = ar_operation q \<and> br_userInfo r = ar_userInfo q \<and> br_object r = ar_object q \<and>
     br_oldObject r = ar_oldObject q \<and> br_dryRun r = ar_dryRun q \<and> br_options r = ar_options q"

definition same_response :: "beta_response \<Rightarrow> v1_response \<Rightarrow> bool" where
  "same_response b v \<longleftrightarrow>
     bp_uid b = adm_uid v \<and> bp_allowed b = adm_allowed v \<and> bp_message b = adm_message v \<and> bp_code b = adm_code v \<and>
     bp_warnings b = adm_warnings v \<and> bp_auditAnnotations b = rsp_auditAnnotations v \<and> bp_patch b = rsp_patch v \<and>
     bp_patchType b = rsp_patchType v"

text \<open>C29: the two versions of the admission API are served alike. Whatever the handler, a \<^verbatim>\<open>v1beta1\<close> review and
  a \<^verbatim>\<open>v1\<close> review whose requests agree in every field lead to the same run of the handler and the same final state; when the handler
  answers the \<^verbatim>\<open>v1\<close> request, both reviews are answered, each in the version it was asked in, both answers carry the UID of the request and agree in every
  field, and the rest of the answer is the handler's.\<close>

theorem both_versions_decide_alike:
  assumes "same_request r q" and "admit s (Some q) = (Ok resp, s')"
  shows "\<exists>b v. review admit s v1beta1_review (BetaReview (Some r)) = (Ok (Inl (BetaAnswer v1beta1_review b)), s') \<and>
     review admit s v1_review (V1Review (Some q)) = (Ok (Inl (V1Answer v1_review v)), s') \<and>
     same_response b v \<and> bp_uid b = br_uid r \<and> v = resp\<lparr>adm_uid := ar_uid q\<rparr>"
proof -
  have "convertAdmissionRequestToV1 r = q"
    using assms(1) by (simp add: same_request_def convertAdmissionRequestToV1_def)
  with assms show ?thesis
    by (simp add: review_def delegateV1beta1AdmitToV1_def v1beta1_review_def v1_review_def same_response_def same_request_def
        convertAdmissionResponseToV1beta1_def Let_def split: option.splits)
qed

text \<open>the handler is consulted only for a well-formed request. A body with another content type, one that cannot be
  decoded and one of an unknown kind are answered with status 400 and leave the state as it is; a success with a JSON
  body is the encoding of an answer with the request's UID to a review that was decoded from the body.\<close>

theorem serve_guards:
  assumes "Serve decode marshal admit s hr = (Ok answer, s')"
  shows "(ha_status answer = 400 \<longrightarrow> s' = s) \<and>
     (ha_contentType answer = ''application/json'' \<longrightarrow>
        hr_contentType hr = ''application/json'' \<and> ha_status answer = 200 \<and>
        (\<exists>g obj a. decode (hr_body hr) = Reply (g, obj) \<and> review admit s g obj = (Ok (Inl a), s') \<and>
           marshal a = Reply (ha_body answer) \<and>
           ((\<exists>r. obj = BetaReview (Some r) \<and> answer_uid a = br_uid r) \<or>
            (\<exists>r. obj = V1Review (Some r) \<and> answer_uid a = ar_uid r)))) \<and>
     (hr_contentType hr \<noteq> ''application/json'' \<longrightarrow> ha_status answer = 400)"
proof (cases "hr_contentType hr = ''application/json''")
  case ct: True
  show ?thesis
  proof (cases "decode (hr_body hr)")
    case (Reply x)
    obtain g obj where x: "x = (g, obj)" by (cases x)
    obtain q s1 where rev: "review admit s g obj = (q, s1)" by (metis surj_pair)
    have uid: "(\<exists>r. obj = BetaReview (Some r) \<and> answer_uid a = br_uid r) \<or>
        (\<exists>r. obj = V1Review (Some r) \<and> answer_uid a = ar_uid r)" if "q = Ok (Inl a)" for a
      using rev that
      by (auto simp: review_def map_res_Ok_iff split: if_splits review_object.splits option.splits prod.splits)
    have early: "s1 = s \<and> (ans = empty_answer \<or> (\<exists>m. ans = http_Error m 400))" if "q = Ok (Inr ans)" for ans
      using rev that
      by (auto simp: review_def map_res_Ok_iff split: if_splits review_object.splits option.splits prod.splits)
    show ?thesis
    proof (cases q)
      case (Ok y)
      show ?thesis
      proof (cases y)
        case (Inl a)
        then show ?thesis using assms ct Reply x rev Ok uid
          by (cases "marshal a") (auto simp: Serve_def http_Error_def)
      next
        case (Inr ans)
        then show ?thesis using assms ct Reply x rev Ok early
          by (auto simp: Serve_def http_Error_def empty_answer_def)
      qed
    qed (use assms ct Reply x rev in \<open>auto simp: Serve_def\<close>)
  qed (use assms ct in \<open>auto simp: Serve_def http_Error_def\<close>)
qed (use assms in \<open>auto simp: Serve_def http_Error_def\<close>)

section \<open>Witnesses\<close>

definition demo_beta_request :: beta_request where
  "demo_beta_request =
     \<lparr>br_uid = ''uid-1'', br_kind = ''Scale'', br_resource = ''statefulsets'', br_subResource = ''scale'', br_requestKind = '''',
      br_requestResource = '''', br_requestSubResource = '''', br_name = ''zone-a'', br_namespace = ''ns'',
      br_operation = ''UPDATE'', br_userInfo = '''', br_object = ''new'', br_oldObject = ''old'',
      br_dryRun = Some False, br_options = ''''\<rparr>"

text \<open>The validating webhook as a handler, on a budget it admits.\<close>

definition demo_admit :: "unit admit" where
  "demo_admit s ar =
     (map_res full_response
        (ZoneAwarePdbValidatingWebhookHandler (\<lambda>_. Error (Err ''unused'')) (\<lambda>_. Reply demo_resource) ar), s)"

lemma demo_admitted:
  "demo_admit () (Some demo_request) = (Ok (full_response (zpdb_allow demo_request)), ())"
  using demo_resource_parsed
  by (simp add: demo_admit_def ZoneAwarePdbValidatingWebhookHandler_def zpdb_parse_def)

theorem both_versions_decide_alike_witness:
  "\<exists>b. review demo_admit () v1beta1_review (BetaReview (Some demo_beta_request)) = (Ok (Inl (BetaAnswer v1beta1_review b)), ()) \<and>
       bp_uid b = ''uid-1'' \<and> bp_allowed b"
proof -
  have "same_request demo_beta_request demo_request"
    by (simp add: same_request_def demo_beta_request_def demo_request_def)
  from both_versions_decide_alike [of demo_beta_request demo_request demo_admit "()", OF this demo_admitted] show ?thesis
    by (auto simp: full_response_def zpdb_allow_def allowed_response_def adm_response.defs demo_beta_request_def same_response_def)
qed

definition demo_http :: http_request_in where
  "demo_http = \<lparr>hr_contentType = ''application/json'', hr_body = ''review''\<rparr>"

lemma demo_uid: "ar_uid demo_request = ''uid-1''"
  by (simp add: demo_request_def)

lemma demo_served:
  "Serve (\<lambda>_. Reply (v1_review, V1Review (Some demo_request))) (\<lambda>a. Reply (answer_uid a)) demo_admit () demo_http
     = (Ok \<lparr>ha_status = 200, ha_contentType = ''application/json'', ha_body = ''uid-1''\<rparr>, ())"
  by (simp add: Serve_def demo_http_def review_def v1_review_def v1beta1_review_def demo_admitted demo_uid)

theorem serve_guards_witness:
  "\<exists>a. fst (review demo_admit () v1_review (V1Review (Some demo_request))) = Ok (Inl a) \<and> answer_uid a = ''uid-1''"
  using serve_guards [OF demo_served] by (auto simp: demo_uid)

end
