(* ===== verification/ErrGroup.thy ===== *)
theory ErrGroup
  imports Kube
begin

text \<open>
  \<^verbatim>\<open>golang.org/x/sync/errgroup\<close> as the admission webhooks use it: a group with a limit on the number
  of goroutines, whose context is cancelled by the first error. The calling goroutine starts one
  goroutine per item, in order, and blocks while the limit is reached; a started goroutine may test
  the context before it does its work; \<^verbatim>\<open>Wait\<close> returns the first error.

  The scheduler is a list of choices. Every choice that is not enabled is skipped, and after the
  last choice the group runs on in a fixed order, so each list of choices gives one
  interleaving and every interleaving is given by some list. A group that can never go on (its limit is 0 and a goroutine
  has to be started) gives no result.
\<close>

section \<open>The group\<close>

text \<open>
  \<open>eg_queue\<close>: items whose goroutine is not started; \<open>eg_created\<close>: started, before the test of the
  context; \<open>eg_running\<close>: past the test; \<open>eg_err\<close>: the first error; \<open>eg_ctx\<close>: the error of the group's
  context, set by the first error or when the caller's deadline expires; \<open>eg_expired\<close>: the caller's deadline has passed, so the
  caller's own context has ended.
\<close>

record 'a errgroup =
  eg_queue :: "'a list"
  eg_created :: "'a list"
  eg_running :: "'a list"
  eg_err :: "err option"
  eg_ctx :: "err option"
  eg_expired :: bool

text \<open>Spawn the next item, test the context, return from the work, or let the caller's deadline pass.\<close>

datatype choice = Spawn | Enter nat | Return nat | Expire

definition remove_at :: "nat \<Rightarrow> 'a list \<Rightarrow> 'a list" where
  "remove_at i xs = take i xs @ drop (Suc i) xs"

definition deadline_exceeded :: err where
  "deadline_exceeded = Err ''context deadline exceeded''"

definition eg_start :: "bool \<Rightarrow> 'a list \<Rightarrow> 'a errgroup" where
  "eg_start expired items =
     \<lparr>eg_queue = items, eg_created = [], eg_running = [], eg_err = None,
      eg_ctx = (if expired then Some deadline_exceeded else None), eg_expired = expired\<rparr>"

text \<open>The bookkeeping of a goroutine that returns an error: the first one is kept and cancels the context.\<close>

definition eg_fail :: "err \<Rightarrow> 'a errgroup \<Rightarrow> 'a errgroup" where
  "eg_fail e g =
     g\<lparr>eg_err := (case eg_err g of None \<Rightarrow> Some e | Some e0 \<Rightarrow> Some e0),
       eg_ctx := (case eg_ctx g of None \<Rightarrow> Some (Err ''context canceled'') | Some e0 \<Rightarrow> Some e0)\<rparr>"

type_synonym 'a job = "trace \<Rightarrow> 'a \<Rightarrow> err option \<times> trace"

text \<open>
  \<open>stopped\<close>: does a goroutine that is about to start its work return at once, and with which result? The requests of a goroutine
  are made on the context that \<open>stopped\<close> tests; a request on a context that has ended is not sent.
\<close>

fun eg_step :: "nat \<Rightarrow> ('a errgroup \<Rightarrow> err option option) \<Rightarrow> 'a job \<Rightarrow> choice \<Rightarrow> 'a errgroup \<times> trace \<Rightarrow> 'a errgroup \<times> trace" where
  "eg_step limit stopped job Spawn (g, tr) =
     (case eg_queue g of
        [] \<Rightarrow> (g, tr)
      | x # xs \<Rightarrow>
          if length (eg_created g) + length (eg_running g) < limit
          then (g\<lparr>eg_queue := xs, eg_created := eg_created g @ [x]\<rparr>, tr)
          else (g, tr))"
| "eg_step limit stopped job (Enter i) (g, tr) =
     (if i < length (eg_created g) then
        (let x = eg_created g ! i; g1 = g\<lparr>eg_created := remove_at i (eg_created g)\<rparr> in
         case stopped g of
           Some (Some e) \<Rightarrow> (eg_fail e g1, tr)
         | Some None \<Rightarrow> (g1, tr)
         | None \<Rightarrow> (g1\<lparr>eg_running := eg_running g @ [x]\<rparr>, tr))
      else (g, tr))"
| "eg_step limit stopped job (Return i) (g, tr) =
     (if i < length (eg_running g) then
        (let x = eg_running g ! i; g1 = g\<lparr>eg_running := remove_at i (eg_running g)\<rparr> in
         case job tr x of
           (None, tr1) \<Rightarrow> (g1, tr1)
         | (Some e, tr1) \<Rightarrow> (eg_fail e g1, tr1))
      else (g, tr))"
| "eg_step limit stopped job Expire (g, tr) =
     (g\<lparr>eg_ctx := (case eg_ctx g of None \<Rightarrow> Some deadline_exceeded | Some e \<Rightarrow> Some e), eg_expired := True\<rparr>, tr)"

fun eg_sched :: "nat \<Rightarrow> ('a errgroup \<Rightarrow> err option option) \<Rightarrow> 'a job \<Rightarrow> choice list \<Rightarrow> 'a errgroup \<times> trace \<Rightarrow> 'a errgroup \<times> trace" where
  "eg_sched limit stopped job [] s = s"
| "eg_sched limit stopped job (c # cs) s = eg_sched limit stopped job cs (eg_step limit stopped job c s)"

text \<open>The choice the final run takes, if the group has anything left to do.\<close>

definition eg_next :: "'a errgroup \<Rightarrow> choice option" where
  "eg_next g =
     (if eg_running g \<noteq> [] then Some (Return 0)
      else if eg_created g \<noteq> [] then Some (Enter 0)
      else if eg_queue g \<noteq> [] then Some Spawn
      else None)"

definition eg_weight :: "'a errgroup \<Rightarrow> nat" where
  "eg_weight g = 3 * length (eg_queue g) + 2 * length (eg_created g) + length (eg_running g)"

lemma length_remove_at [simp]: "i < length xs \<Longrightarrow> length (remove_at i xs) = length xs - 1"
  by (simp add: remove_at_def)

lemma eg_fail_simps [simp]:
  "eg_queue (eg_fail e g) = eg_queue g" "eg_created (eg_fail e g) = eg_created g"
  "eg_running (eg_fail e g) = eg_running g" "eg_err (eg_fail e g) \<noteq> None" "eg_ctx (eg_fail e g) \<noteq> None"
  "eg_expired (eg_fail e g) = eg_expired g"
  by (auto simp: eg_fail_def split: option.splits)

partial_function (option) eg_drain :: "nat \<Rightarrow> ('a errgroup \<Rightarrow> err option option) \<Rightarrow> 'a job \<Rightarrow> 'a errgroup \<times> trace
    \<Rightarrow> ('a errgroup \<times> trace) option" where
  "eg_drain limit stopped job s =
     (case eg_next (fst s) of
        None \<Rightarrow> Some s
      | Some c \<Rightarrow> eg_drain limit stopped job (eg_step limit stopped job c s))"

declare eg_drain.simps [code]

text \<open>The result of \<^verbatim>\<open>Wait\<close>, and whether the caller's deadline has passed by then.\<close>

definition eg_run :: "nat \<Rightarrow> ('a errgroup \<Rightarrow> err option option) \<Rightarrow> 'a job \<Rightarrow> choice list \<Rightarrow> bool \<Rightarrow> trace \<Rightarrow> 'a list
    \<Rightarrow> (err option \<times> bool \<times> trace) option" where
  "eg_run limit stopped job sched expired tr items =
     map_option (\<lambda>(g, tr'). (eg_err g, eg_expired g, tr'))
       (eg_drain limit stopped job (eg_sched limit stopped job sched (eg_start expired items, tr)))"

section \<open>When a group ends\<close>

text \<open>With a positive limit every step the final run takes makes the weight smaller, so the group ends.\<close>

lemma eg_next_decreases:
  assumes "eg_next g = Some c" and "0 < limit"
  shows "eg_weight (fst (eg_step limit stopped job c (g, tr))) < eg_weight g"
  using assms
  by (cases "eg_running g"; cases "eg_created g"; cases "eg_queue g")
     (auto simp: eg_next_def eg_weight_def remove_at_def Let_def split: option.splits prod.splits if_splits)

lemma eg_drain_returns:
  assumes "0 < limit"
  shows "\<exists>g' tr'. eg_drain limit stopped job (g, tr) = Some (g', tr')"
proof (induction "eg_weight g" arbitrary: g tr rule: less_induct)
  case less
  show ?case
  proof (cases "eg_next g")
    case None
    then show ?thesis by (subst eg_drain.simps) simp
  next
    case (Some c)
    obtain g1 tr1 where s: "eg_step limit stopped job c (g, tr) = (g1, tr1)" by (metis surj_pair)
    have "eg_weight g1 < eg_weight g" using eg_next_decreases [OF Some assms, of stopped job tr] s by simp
    from less.hyps [OF this] Some s show ?thesis by (subst eg_drain.simps) simp
  qed
qed

lemma eg_run_returns: "0 < limit \<Longrightarrow> \<exists>e x tr'. eg_run limit stopped job sched expired tr items = Some (e, x, tr')"
  using eg_drain_returns [of limit stopped job] unfolding eg_run_def
  by (metis (no_types, lifting) case_prod_conv option.simps(9) surj_pair)

text \<open>Induction over the steps of a final run that ends.\<close>

lemma eg_drain_induct:
  assumes "eg_drain limit stopped job s = Some y" and "\<And>s. eg_next (fst s) = None \<Longrightarrow> P s s"
    and "\<And>s c y. eg_next (fst s) = Some c \<Longrightarrow> P (eg_step limit stopped job c s) y \<Longrightarrow> P s y"
  shows "P s y"
proof -
  have "l = limit \<longrightarrow> st = stopped \<longrightarrow> jb = job \<longrightarrow> P s y" if "eg_drain l st jb s = Some y" for l st jb s y
  proof (rule eg_drain.raw_induct [where P = "\<lambda>l st jb s y. l = limit \<longrightarrow> st = stopped \<longrightarrow> jb = job \<longrightarrow> P s y", OF _ that], intro impI)
    fix drain l st jb s y
    assume IH: "\<And>l st jb s y. drain l st jb s = Some y \<Longrightarrow> l = limit \<longrightarrow> st = stopped \<longrightarrow> jb = job \<longrightarrow> P s y"
      and step: "(case eg_next (fst s) of None \<Rightarrow> Some s | Some c \<Rightarrow> drain l st jb (eg_step l st jb c s)) = Some y"
      and same: "l = limit" "st = stopped" "jb = job"
    show "P s y"
    proof (cases "eg_next (fst s)")
      case None
      with step assms(2) show ?thesis by simp
    next
      case (Some c)
      with step same have "P (eg_step limit stopped job c s) y" using IH by simp
      with assms(3) [OF Some] show ?thesis .
    qed
  qed
  with assms(1) show ?thesis by blast
qed

text \<open>With the limit 0 the caller waits for ever for its first goroutine.\<close>

lemma eg_run_blocks:
  assumes "items \<noteq> []"
  shows "eg_run 0 stopped job sched expired tr items = None"
proof -
  let ?stuck = "\<lambda>s. eg_queue (fst s) \<noteq> [] \<and> eg_created (fst s) = [] \<and> eg_running (fst s) = []"
  have step: "?stuck (eg_step 0 stopped job c s)" if "?stuck s" for c s
    using that by (cases s; cases c) (auto split: list.splits)
  have "?stuck (eg_sched 0 stopped job sched s)" if "?stuck s" for s
    using that by (induction sched arbitrary: s) (simp, metis eg_sched.simps(2) step)
  then have start: "?stuck (eg_sched 0 stopped job sched (eg_start expired items, tr))"
    using assms by (simp add: eg_start_def)
  have "\<not> ?stuck s" if "eg_drain 0 stopped job s = Some y" for s y
    using that
  proof (rule eg_drain_induct)
    show "\<not> ?stuck s" if "\<not> ?stuck (eg_step 0 stopped job c s)" for s c using that step by blast
  qed (simp add: eg_next_def split: if_splits)
  then have "eg_drain 0 stopped job (eg_sched 0 stopped job sched (eg_start expired items, tr)) \<noteq> Some y" for y
    using start by blast
  then show ?thesis by (cases "eg_drain 0 stopped job (eg_sched 0 stopped job sched (eg_start expired items, tr))") (auto simp: eg_run_def)
qed

section \<open>Invariants of a run\<close>

text \<open>
  An invariant of the group that every step keeps holds at the end of every schedule, where the
  group is empty.
\<close>

lemma eg_sched_invariant:
  assumes "\<And>c g tr. I g tr \<Longrightarrow> (case eg_step limit stopped job c (g, tr) of (g', tr') \<Rightarrow> I g' tr')"
    and "I g tr"
  shows "case eg_sched limit stopped job cs (g, tr) of (g', tr') \<Rightarrow> I g' tr'"
  using assms(2)
proof (induction cs arbitrary: g tr)
  case (Cons c cs)
  obtain g1 tr1 where s: "eg_step limit stopped job c (g, tr) = (g1, tr1)" by (metis surj_pair)
  with assms(1) [OF Cons.prems, of c] have "I g1 tr1" by simp
  from Cons.IH [OF this] show ?case by (simp only: eg_sched.simps s)
qed simp

lemma eg_drain_invariant:
  assumes "\<And>c g tr. I g tr \<Longrightarrow> (case eg_step limit stopped job c (g, tr) of (g', tr') \<Rightarrow> I g' tr')"
    and "eg_drain limit stopped job (g, tr) = Some (g', tr')" and "I g tr"
  shows "I g' tr' \<and> eg_next g' = None"
proof -
  have "I (fst s) (snd s) \<longrightarrow> I (fst y) (snd y) \<and> eg_next (fst y) = None"
    if "eg_drain limit stopped job s = Some y" for s y
    using that
  proof (rule eg_drain_induct)
    show "I (fst s) (snd s) \<longrightarrow> I (fst y) (snd y) \<and> eg_next (fst y) = None"
      if "I (fst (eg_step limit stopped job c s)) (snd (eg_step limit stopped job c s)) \<longrightarrow> I (fst y) (snd y) \<and> eg_next (fst y) = None"
      for s c y using that assms(1) [of "fst s" "snd s" c] by (simp add: case_prod_beta)
  qed simp
  from this [OF assms(2)] assms(3) show ?thesis by simp
qed

lemma eg_run_invariant:
  assumes "\<And>c g tr. I g tr \<Longrightarrow> (case eg_step limit stopped job c (g, tr) of (g', tr') \<Rightarrow> I g' tr')"
    and "I (eg_start expired items) tr"
    and "eg_run limit stopped job sched expired tr items = Some (e, x, tr')"
  obtains g where "I g tr'" and "eg_err g = e" and "eg_expired g = x" and "eg_queue g = []" and "eg_created g = []" and "eg_running g = []"
proof -
  obtain g1 tr1 where s: "eg_sched limit stopped job sched (eg_start expired items, tr) = (g1, tr1)" by (metis surj_pair)
  have "I g1 tr1" using eg_sched_invariant [of I, OF assms(1) assms(2), of sched] s by simp
  moreover obtain g2 where d: "eg_drain limit stopped job (g1, tr1) = Some (g2, tr')" and "e = eg_err g2" "x = eg_expired g2"
    using assms(3) s by (auto simp: eg_run_def)
  ultimately have "I g2 tr'" and "eg_next g2 = None"
    using eg_drain_invariant [of I, OF assms(1) d \<open>I g1 tr1\<close>] by simp_all
  with \<open>e = eg_err g2\<close> \<open>x = eg_expired g2\<close> show thesis using that by (auto simp: eg_next_def split: if_splits)
qed

text \<open>The caller's deadline has passed at the end exactly when it had at the start, or the schedule lets it pass.\<close>

lemma eg_step_expired: "eg_expired (fst (eg_step limit stopped job c (g, tr))) \<longleftrightarrow> eg_expired g \<or> c = Expire"
  by (cases c) (auto simp: Let_def split: list.splits option.splits prod.splits)

lemma eg_sched_expired: "eg_expired (fst (eg_sched limit stopped job cs s)) \<longleftrightarrow> eg_expired (fst s) \<or> Expire \<in> set cs"
proof (induction cs arbitrary: s)
  case (Cons c cs)
  then show ?case using eg_step_expired [of limit stopped job c "fst s" "snd s"] by auto
qed simp

lemma eg_run_expired:
  assumes "eg_run limit stopped job sched expired tr items = Some (e, x, tr')"
  shows "x \<longleftrightarrow> expired \<or> Expire \<in> set sched"
proof -
  let ?s = "eg_sched limit stopped job sched (eg_start expired items, tr)"
  have "eg_expired (fst y) \<longleftrightarrow> eg_expired (fst s)" if "eg_drain limit stopped job s = Some y" for s y
    using that
  proof (rule eg_drain_induct)
    show "eg_expired (fst y) \<longleftrightarrow> eg_expired (fst s)"
      if "eg_next (fst s) = Some c" "eg_expired (fst y) \<longleftrightarrow> eg_expired (fst (eg_step limit stopped job c s))" for s c y
    proof -
      have "c \<noteq> Expire" using that(1) by (auto simp: eg_next_def split: if_splits)
      with that(2) eg_step_expired [of limit stopped job c "fst s" "snd s"] show ?thesis by simp
    qed
  qed simp
  moreover obtain y where "eg_drain limit stopped job ?s = Some y" "x = eg_expired (fst y)"
    using assms by (auto simp: eg_run_def)
  ultimately show ?thesis by (simp add: eg_sched_expired eg_start_def)
qed

section \<open>What a group achieves\<close>

text \<open>The items whose goroutine has not returned, and the three kinds of step.\<close>

definition eg_waiting :: "'a errgroup \<Rightarrow> 'a set" where
  "eg_waiting g = set (eg_queue g) \<union> set (eg_created g) \<union> set (eg_running g)"

lemma remove_at_cover: "i < length xs \<Longrightarrow> set xs = insert (xs ! i) (set (remove_at i xs))"
  using id_take_nth_drop [of i xs] by (metis remove_at_def set_append list.set(2) Un_insert_right)

lemma eg_step_cases:
  assumes "eg_step limit stopped job c (g, tr) = (g', tr')"
  obtains (moved) "eg_waiting g' = eg_waiting g" and "eg_err g' = eg_err g" and "tr' = tr"
    | (cancelled) x e where "stopped g = Some e" and "eg_waiting g = insert x (eg_waiting g')" and "tr' = tr"
        and "eg_err g' = None \<longleftrightarrow> eg_err g = None \<and> e = None"
    | (worked) x e where "job tr x = (e, tr')" and "eg_waiting g = insert x (eg_waiting g')"
        and "eg_err g' = None \<longleftrightarrow> eg_err g = None \<and> e = None"
proof (cases c)
  case Spawn
  then show thesis using assms moved by (auto simp: eg_waiting_def split: list.splits if_splits)
next
  case Expire
  then show thesis using assms moved by (auto simp: eg_waiting_def)
next
  case (Enter i)
  show thesis
  proof (cases "i < length (eg_created g)")
    case True
    note cover = remove_at_cover [OF True]
    show thesis
    proof (cases "stopped g")
      case None
      then have "g' = g\<lparr>eg_created := remove_at i (eg_created g), eg_running := eg_running g @ [eg_created g ! i]\<rparr>" "tr' = tr"
        using assms Enter True by (auto simp: Let_def)
      then show thesis using cover by (intro moved) (auto simp: eg_waiting_def)
    next
      case (Some e)
      then have "g' = (case e of None \<Rightarrow> g\<lparr>eg_created := remove_at i (eg_created g)\<rparr>
          | Some e0 \<Rightarrow> eg_fail e0 (g\<lparr>eg_created := remove_at i (eg_created g)\<rparr>))" "tr' = tr"
        using assms Enter True by (auto simp: Let_def split: option.splits)
      then show thesis using cover Some
        by (intro cancelled [of e "eg_created g ! i"]) (auto simp: eg_waiting_def eg_fail_def split: option.splits)
    qed
  qed (use assms Enter moved in auto)
next
  case (Return i)
  show thesis
  proof (cases "i < length (eg_running g)")
    case True
    note cover = remove_at_cover [OF True]
    obtain e t where j: "job tr (eg_running g ! i) = (e, t)" by (metis surj_pair)
    have "t = tr'" and "g' = (case e of None \<Rightarrow> g\<lparr>eg_running := remove_at i (eg_running g)\<rparr>
        | Some e0 \<Rightarrow> eg_fail e0 (g\<lparr>eg_running := remove_at i (eg_running g)\<rparr>))"
      using assms Return True j by (auto simp: Let_def split: option.splits)
    then show thesis using cover j
      by (intro worked [of "eg_running g ! i" e]) (auto simp: eg_waiting_def eg_fail_def split: option.splits)
  qed (use assms Return moved in auto)
qed

text \<open>
  The contract of the work of one goroutine in a group started on the trace \<open>start\<close>: \<open>good\<close> holds of an item once its
  work has returned no error, \<open>tried\<close> once its work has returned, both for ever after; \<open>frame\<close> relates the
  traces before and after the work.
\<close>

locale errgroup_work =
  fixes job :: "'a job" and start :: trace and good tried :: "trace \<Rightarrow> 'a \<Rightarrow> bool"
    and frame :: "trace \<Rightarrow> trace \<Rightarrow> bool"
  assumes job_good: "frame start tr \<Longrightarrow> job tr x = (None, tr') \<Longrightarrow> good tr' x"
    and job_tried: "frame start tr \<Longrightarrow> job tr x = (e, tr') \<Longrightarrow> tried tr' x"
    and job_frame: "job tr x = (e, tr') \<Longrightarrow> frame tr tr'"
    and frame_refl: "frame tr tr"
    and frame_trans: "frame a b \<Longrightarrow> frame b c \<Longrightarrow> frame a c"
    and good_mono: "good a x \<Longrightarrow> frame a b \<Longrightarrow> good b x"
    and tried_mono: "tried a x \<Longrightarrow> frame a b \<Longrightarrow> tried b x"
begin

lemma step_frame: "eg_step limit stopped job c (g, tr) = (g', tr') \<Longrightarrow> frame tr tr'"
  by (erule eg_step_cases) (auto simp: frame_refl dest: job_frame)

text \<open>No error: the work of every item was done, if being stopped is an error.\<close>

lemma step_good:
  assumes "eg_step limit stopped job c (g, tr) = (g', tr')" and "eg_err g' = None" and "frame start tr" and "\<And>g. stopped g \<noteq> Some None"
  shows "eg_err g = None" and "\<forall>x\<in>eg_waiting g. x \<in> eg_waiting g' \<or> good tr' x"
  using assms(2) assms(4) [of g] job_good [OF assms(3)] by (cases rule: eg_step_cases [OF assms(1)]; auto)+

lemma step_tried:
  assumes "eg_step limit stopped job c (g, tr) = (g', tr')" and "frame start tr" and "stopped g = None"
  shows "\<forall>x\<in>eg_waiting g. x \<in> eg_waiting g' \<or> tried tr' x"
  using assms(3) job_tried [OF assms(2)] by (cases rule: eg_step_cases [OF assms(1)]) auto

lemma run_good:
  assumes "eg_run limit stopped job sched expired start items = Some (None, x, tr')" and "\<And>g. stopped g \<noteq> Some None"
  shows "\<forall>x\<in>set items. good tr' x"
proof -
  let ?I = "\<lambda>g t. frame start t \<and> (eg_err g = None \<longrightarrow> (\<forall>x\<in>set items. x \<in> eg_waiting g \<or> good t x))"
  have "case eg_step limit stopped job c (g, t) of (g', t') \<Rightarrow> ?I g' t'" if i: "?I g t" for c g t
  proof (cases "eg_step limit stopped job c (g, t)")
    case (Pair g' t')
    have "frame start t'" using i step_frame [OF Pair] frame_trans by blast
    moreover have "\<forall>x\<in>set items. x \<in> eg_waiting g' \<or> good t' x" if "eg_err g' = None"
      using i step_good [OF Pair that _ assms(2)] step_frame [OF Pair] good_mono by metis
    ultimately show ?thesis by (simp add: Pair)
  qed
  then show ?thesis
    by (rule eg_run_invariant [where I = ?I, OF _ _ assms(1)])
       (auto simp: eg_waiting_def eg_start_def frame_refl)
qed

text \<open>The deadline has not passed: the work of every item was tried, if only the deadline stops goroutines.\<close>

lemma run_tried:
  assumes "eg_run limit stopped job sched expired start items = Some (e, False, tr')"
    and "\<And>g. \<not> eg_expired g \<Longrightarrow> stopped g = None"
  shows "\<forall>x\<in>set items. tried tr' x"
proof -
  let ?I = "\<lambda>g t. frame start t \<and> (\<not> eg_expired g \<longrightarrow> (\<forall>x\<in>set items. x \<in> eg_waiting g \<or> tried t x))"
  have "case eg_step limit stopped job c (g, t) of (g', t') \<Rightarrow> ?I g' t'" if i: "?I g t" for c g t
  proof (cases "eg_step limit stopped job c (g, t)")
    case (Pair g' t')
    have "frame start t'" using i step_frame [OF Pair] frame_trans by blast
    moreover have "\<forall>x\<in>set items. x \<in> eg_waiting g' \<or> tried t' x" if "\<not> eg_expired g'"
    proof -
      have live: "\<not> eg_expired g" using that eg_step_expired [of limit stopped job c g t] Pair by simp
      show ?thesis using i live step_tried [OF Pair _ assms(2) [OF live]] step_frame [OF Pair] tried_mono by metis
    qed
    ultimately show ?thesis by (simp add: Pair)
  qed
  then show ?thesis
    by (rule eg_run_invariant [where I = ?I, OF _ _ assms(1)])
       (auto simp: eg_waiting_def eg_start_def frame_refl)
qed

lemma run_frame:
  assumes "eg_run limit stopped job sched expired tr items = Some (e, x, tr')"
  shows "frame tr tr'"
proof -
  have "case eg_step limit stopped job c (g, t) of (g', t') \<Rightarrow> frame tr t'" if "frame tr t" for c g t
    using that step_frame frame_trans by (cases "eg_step limit stopped job c (g, t)") fastforce
  then show ?thesis
    by (rule eg_run_invariant [where I = "\<lambda>g t. frame tr t", OF _ _ assms(1)]) (auto simp: frame_refl)
qed

end

text \<open>The deadline had passed before the group began: no work is done, if the deadline stops goroutines.\<close>

lemma eg_run_expired_idle:
  assumes "eg_run limit stopped job sched True tr items = Some (e, x, tr')" and "\<And>g. eg_expired g \<Longrightarrow> stopped g \<noteq> None"
  shows "tr' = tr"
proof -
  let ?I = "\<lambda>g t. eg_expired g \<and> eg_running g = [] \<and> t = tr"
  have "case eg_step limit stopped job c (g, t) of (g', t') \<Rightarrow> ?I g' t'" if "?I g t" for c g t
    using that assms(2) [of g] by (cases c) (auto simp: Let_def split: list.splits option.splits)
  then show ?thesis
    by (rule eg_run_invariant [where I = ?I, OF _ _ assms(1)]) (auto simp: eg_start_def)
qed

text \<open>The limit: whatever the schedule, never more than \<open>limit\<close> goroutines of the group exist at once.\<close>

lemma eg_step_limit:
  assumes "length (eg_created g) + length (eg_running g) \<le> limit"
    and "eg_step limit stopped job c (g, tr) = (g', tr')"
  shows "length (eg_created g') + length (eg_running g') \<le> limit"
  using assms by (cases c) (auto simp: Let_def split: list.splits if_splits option.splits prod.splits)

lemma eg_sched_limit:
  assumes "eg_sched limit stopped job cs (eg_start expired items, tr) = (g, tr')"
  shows "length (eg_created g) + length (eg_running g) \<le> limit"
  using eg_sched_invariant [of "\<lambda>g tr. length (eg_created g) + length (eg_running g) \<le> limit" limit stopped job "eg_start expired items" tr cs]
    eg_step_limit assms
  by (fastforce simp: eg_start_def)

end
