(* ===== verification/PrepareDownscale.thy ===== *)
theory PrepareDownscale
  imports Admission ErrGroup ReplicasPolicy
begin

text \<open>
  \<^verbatim>\<open>pkg/admission/prep_downscale.go\<close>: the webhook that prepares the pods a downscale is about to remove.
  Every such pod is sent a POST; if all accept, the time of the downscale is written to an annotation of the
  StatefulSet and the downscale is allowed, otherwise all of them are sent a DELETE and it is refused. In a
  rollout group a downscale also waits for the other StatefulSets.

  The requests to the pods are sent by an \<open>errgroup\<close>; \<open>sched\<close> holds the schedules of the two groups a call may
  start (POST, then DELETE), and the theorems hold for every schedule.
\<close>

section \<open>The request\<close>

record objectInfo =
  oi_obj :: runtime_object
  oi_gvk :: string
  oi_replicas :: "int option"

definition decodeAndReplicas :: "decoder \<Rightarrow> string \<Rightarrow> objectInfo res" where
  "decodeAndReplicas dec raw =
     (case dec raw of
        Error e \<Rightarrow> Fail e
      | Reply (obj, gvk) \<Rightarrow>
          (case replicas obj gvk of
             Fail e \<Rightarrow> Fail e
           | Panic m \<Rightarrow> Panic m
           | Ok n \<Rightarrow> Ok \<lparr>oi_obj = obj, oi_gvk = gvk, oi_replicas = n\<rparr>))"

text \<open>\<^term>\<open>None\<close> is the nil response: the change is a downscale.\<close>

definition checkReplicasChange :: "objectInfo \<Rightarrow> objectInfo \<Rightarrow> adm_response option" where
  "checkReplicasChange oldInfo newInfo =
     (case (oi_replicas oldInfo, oi_replicas newInfo) of
        (None, None) \<Rightarrow> Some allowed_response
      | (Some old, Some new) \<Rightarrow>
          if old < new then Some allowed_response
          else if old = new then Some allowed_response
          else None
      | _ \<Rightarrow> Some (allowWarn ''old/new replicas is nil, allowing the change''))"

record statefulSetPrepareInfo =
  pi_prepareDownscale :: bool
  pi_port :: string
  pi_path :: string
  pi_rolloutGroup :: string
  pi_serviceName :: string

definition getStatefulSet :: "env \<Rightarrow> trace \<Rightarrow> adm_request \<Rightarrow> statefulset res \<times> trace" where
  "getStatefulSet E tr r =
     (if ar_resource r = ''statefulsets'' then
        ((case e_get_sts E tr (ar_namespace r) (ar_name r) of Error e \<Rightarrow> Fail e | Reply obj \<Rightarrow> Ok obj),
         tr @ [EvGetStatefulSet (ar_namespace r) (ar_name r)])
      else (Fail (Err (''unsupported resource '' @ ar_resource r)), tr))"

definition prepareInfo :: "statefulset \<Rightarrow> statefulSetPrepareInfo" where
  "prepareInfo sts =
     \<lparr>pi_prepareDownscale = (mget (sts_labels sts) PrepareDownscaleLabelKey = PrepareDownscaleLabelValue),
      pi_port = mget (sts_annotations sts) PrepareDownscalePortAnnotationKey,
      pi_path = mget (sts_annotations sts) PrepareDownscalePathAnnotationKey,
      pi_rolloutGroup = mget (sts_labels sts) RolloutGroupLabelKey,
      pi_serviceName = sts_service_name sts\<rparr>"

text \<open>The verb \<^verbatim>\<open>%T\<close>.\<close>

fun go_type :: "runtime_object \<Rightarrow> string" where
  "go_type (Deployment ls r) = ''*v1.Deployment''"
| "go_type (StatefulSet s) = ''*v1.StatefulSet''"
| "go_type (ReplicaSet ls r) = ''*v1.ReplicaSet''"
| "go_type (Scale n) = ''*v1.Scale''"
| "go_type (OtherType t) = t"

definition getStatefulSetPrepareInfo ::
    "env \<Rightarrow> trace \<Rightarrow> adm_request \<Rightarrow> objectInfo \<Rightarrow> statefulSetPrepareInfo res \<times> trace" where
  "getStatefulSetPrepareInfo E tr r info =
     (case oi_obj info of
        StatefulSet s \<Rightarrow> (Ok (prepareInfo s), tr)
      | Scale _ \<Rightarrow>
          (case getStatefulSet E tr r of
             (Ok s, tr1) \<Rightarrow> (Ok (prepareInfo s), tr1)
           | (Fail e, tr1) \<Rightarrow> (Fail e, tr1)
           | (Panic m, tr1) \<Rightarrow> (Panic m, tr1))
      | obj \<Rightarrow> (Fail (Err (''unsupported type '' @ oi_gvk info @ '' (go type '' @ go_type obj @ '')'')), tr))"

text \<open>The text every refusal starts with.\<close>

definition downscale_msg :: "adm_request \<Rightarrow> int \<Rightarrow> int \<Rightarrow> string \<Rightarrow> string" where
  "downscale_msg r old new reason =
     ''downscale of '' @ ar_resource r @ ''/'' @ ar_name r @ '' in '' @ ar_namespace r @ '' from '' @ Itoa old
     @ '' to '' @ Itoa new @ '' replicas is not allowed because '' @ reason"

definition denied :: "adm_request \<Rightarrow> int \<Rightarrow> int \<Rightarrow> string \<Rightarrow> adm_response" where
  "denied r old new reason = deny (downscale_msg r old new reason)"

text \<open>
  The first half of the handler, down to the checks of the annotations: an early response (\<^const>\<open>Inl\<close>), or what a
  downscale that has to be prepared needs. \<^verbatim>\<open>*ar.Request.DryRun\<close> is dereferenced without a test.
\<close>

definition downscale_preamble :: "env \<Rightarrow> decoder \<Rightarrow> trace \<Rightarrow> adm_request option
    \<Rightarrow> (adm_response + adm_request \<times> int \<times> int \<times> statefulSetPrepareInfo) res \<times> trace" where
  "downscale_preamble E dec tr ar =
     (case ar of
        None \<Rightarrow> (Panic ''nil pointer dereference'', tr)
      | Some r \<Rightarrow>
     (case ar_dryRun r of
        None \<Rightarrow> (Panic ''nil pointer dereference'', tr)
      | Some True \<Rightarrow> (Ok (Inl allowed_response), tr)
      | Some False \<Rightarrow>
     (case decodeAndReplicas dec (ar_oldObject r) of
        Panic m \<Rightarrow> (Panic m, tr)
      | Fail e \<Rightarrow> (Ok (Inl (allowErr ''can't decode old object, allowing the change'' e)), tr)
      | Ok oldInfo \<Rightarrow>
     (case decodeAndReplicas dec (ar_object r) of
        Panic m \<Rightarrow> (Panic m, tr)
      | Fail e \<Rightarrow> (Ok (Inl (allowErr ''can't decode new object, allowing the change'' e)), tr)
      | Ok newInfo \<Rightarrow>
     (case checkReplicasChange oldInfo newInfo of
        Some response \<Rightarrow> (Ok (Inl response), tr)
      | None \<Rightarrow>
     (case getStatefulSetPrepareInfo E tr r oldInfo of
        (Panic m, tr1) \<Rightarrow> (Panic m, tr1)
      | (Fail e, tr1) \<Rightarrow> (Ok (Inl (allowWarn (errmsg e @ '', allowing the change''))), tr1)
      | (Ok info, tr1) \<Rightarrow>
          if \<not> pi_prepareDownscale info then (Ok (Inl allowed_response), tr1)
          else
            (case (oi_replicas oldInfo, oi_replicas newInfo) of
               (Some old, Some new) \<Rightarrow>
                 if pi_port info = '''' then
                   (Ok (Inl (denied r old new (''the '' @ PrepareDownscalePortAnnotationKey
                                               @ '' annotation is not set or empty.''))), tr1)
                 else if pi_path info = '''' then
                   (Ok (Inl (denied r old new (''the '' @ PrepareDownscalePathAnnotationKey
                                               @ '' annotation is not set or empty.''))), tr1)
                 else if pi_serviceName info = '''' then
                   (Ok (Inl (denied r old new ''the serviceName is not set or empty.'')), tr1)
                 else (Ok (Inr (r, old, new, info)), tr1)
             | _ \<Rightarrow> (Panic ''nil pointer dereference'', tr1))))))))"

section \<open>The other StatefulSets of the rollout group\<close>

definition findStatefulSetsForRolloutGroup :: "env \<Rightarrow> trace \<Rightarrow> string \<Rightarrow> string \<Rightarrow> statefulset list res \<times> trace" where
  "findStatefulSetsForRolloutGroup E tr namespace rolloutGroup =
     (case NewRequirement RolloutGroupLabelKey Equals [rolloutGroup] of
        Fail e \<Rightarrow> (Fail e, tr)
      | Panic m \<Rightarrow> (Panic m, tr)
      | Ok groupReq \<Rightarrow>
          ((case e_list_sts E tr namespace of
              Error e \<Rightarrow> Fail e
            | Reply items \<Rightarrow> Ok (filter (\<lambda>s. sel_matches [groupReq] (sts_labels s)) items)),
           tr @ [EvListStatefulSetsAPI namespace]))"

record statefulSetDownscale =
  sd_name :: string
  sd_waitTime :: duration
  sd_lastDownscaleTime :: instant
  sd_nonReadyReplicas :: int
  sd_nonUpdatedReplicas :: int

text \<open>
  The loop of \<^verbatim>\<open>findDownscalesDoneMinTimeAgo\<close>; the last downscale of a StatefulSet is looked up by \<open>lastDown\<close>
  (here its annotation, in the zone tracker its zone).
\<close>

fun find_recent :: "(statefulset \<Rightarrow> string option) \<Rightarrow> (statefulset \<Rightarrow> string) \<Rightarrow> env \<Rightarrow> trace \<Rightarrow> statefulset list \<Rightarrow> string
    \<Rightarrow> statefulSetDownscale option res \<times> trace" where
  "find_recent lastDown badTime E tr [] exclude = (Ok None, tr)"
| "find_recent lastDown badTime E tr (sts # items) exclude =
     (if sts_name sts = exclude then find_recent lastDown badTime E tr items exclude
      else
        (case lastDown sts of
           None \<Rightarrow> find_recent lastDown badTime E tr items exclude
         | Some lastStr \<Rightarrow>
             (case ParseRFC3339 lastStr of
                None \<Rightarrow> (Fail (Err (badTime sts)), tr)
              | Some lastDownscale \<Rightarrow>
                  (case GetMinTimeBetweenZonesDownscale (sts_annotations sts) (sts_labels sts) of
                     None \<Rightarrow> find_recent lastDown badTime E tr items exclude
                   | Some timeBetween \<Rightarrow>
                       (case ParseDuration timeBetween of
                          None \<Rightarrow> (Fail (Err (''can't parse annotation or label ''
                                     @ MinTimeBetweenZonesDownscaleAnnotationKey @ '' of '' @ sts_name sts)), tr)
                        | Some minTime \<Rightarrow>
                            if time_sub (e_now E tr) lastDownscale < minTime
                            then (Ok (Some \<lparr>sd_name = sts_name sts, sd_waitTime = minTime,
                                            sd_lastDownscaleTime = lastDownscale, sd_nonReadyReplicas = 0,
                                            sd_nonUpdatedReplicas = 0\<rparr>), tr @ [EvNow])
                            else find_recent lastDown badTime E (tr @ [EvNow]) items exclude)))))"

definition last_annotation :: "statefulset \<Rightarrow> string option" where
  "last_annotation sts = sts_annotations sts LastDownscaleAnnotationKey"

definition findDownscalesDoneMinTimeAgo ::
    "env \<Rightarrow> trace \<Rightarrow> statefulset list \<Rightarrow> string \<Rightarrow> statefulSetDownscale option res \<times> trace" where
  "findDownscalesDoneMinTimeAgo E tr items exclude =
     find_recent last_annotation
       (\<lambda>sts. ''can't parse '' @ LastDownscaleAnnotationKey @ '' annotation of '' @ sts_name sts) E tr items exclude"

definition findPodsForStatefulSet :: "env \<Rightarrow> trace \<Rightarrow> string \<Rightarrow> statefulset \<Rightarrow> pod list res \<times> trace" where
  "findPodsForStatefulSet E tr namespace sts =
     (case MustNewLabelsRequirement ''name'' Equals [mget (sts_template_labels sts) ''name''] of
        Fail e \<Rightarrow> (Fail e, tr)
      | Panic m \<Rightarrow> (Panic m, tr)
      | Ok req \<Rightarrow>
          ((case e_list_pods E tr namespace of
              Error e \<Rightarrow> Fail e
            | Reply items \<Rightarrow> Ok (filter (\<lambda>p. sel_matches [req] (pod_labels p)) items)),
           tr @ [EvListPodsAPI namespace]))"

definition countRunningAndReadyPods :: "env \<Rightarrow> trace \<Rightarrow> string \<Rightarrow> statefulset \<Rightarrow> int res \<times> trace" where
  "countRunningAndReadyPods E tr namespace sts =
     (case findPodsForStatefulSet E tr namespace sts of
        (pods, tr1) \<Rightarrow> (map_res (\<lambda>items. int (length (filter IsPodRunningAndReady items))) pods, tr1))"

fun findStatefulSetWithNonUpdatedReplicas ::
    "env \<Rightarrow> trace \<Rightarrow> string \<Rightarrow> statefulset list \<Rightarrow> string \<Rightarrow> statefulSetDownscale option res \<times> trace" where
  "findStatefulSetWithNonUpdatedReplicas E tr namespace [] exclude = (Ok None, tr)"
| "findStatefulSetWithNonUpdatedReplicas E tr namespace (sts # items) exclude =
     (if sts_name sts = exclude then findStatefulSetWithNonUpdatedReplicas E tr namespace items exclude
      else
        (case countRunningAndReadyPods E tr namespace sts of
           (Fail e, tr1) \<Rightarrow> (Fail e, tr1)
         | (Panic m, tr1) \<Rightarrow> (Panic m, tr1)
         | (Ok readyPods, tr1) \<Rightarrow>
             if sts_status_replicas sts \<noteq> readyPods \<or> sts_updated_replicas sts \<noteq> readyPods
             then (Ok (Some \<lparr>sd_name = sts_name sts, sd_waitTime = 0, sd_lastDownscaleTime = 0,
                             sd_nonReadyReplicas = wrap64 (sts_status_replicas sts - readyPods),
                             sd_nonUpdatedReplicas = wrap32 (sts_status_replicas sts - sts_updated_replicas sts)\<rparr>), tr1)
             else findStatefulSetWithNonUpdatedReplicas E tr1 namespace items exclude))"

text \<open>
  The two refusals that follow a search. The time and the duration that the first one also prints are left
  out of its text.
\<close>

definition recent_reason :: "statefulSetDownscale \<Rightarrow> string" where
  "recent_reason d = ''statefulset '' @ sd_name d @ '' was downscaled recently''"

definition non_updated_reason :: "statefulSetDownscale \<Rightarrow> string" where
  "non_updated_reason d =
     ''statefulset '' @ sd_name d @ '' has '' @ Itoa (sd_nonUpdatedReplicas d) @ '' non-updated replicas and ''
     @ Itoa (sd_nonReadyReplicas d) @ '' non-ready replicas''"

text \<open>The checks of a rollout group: \<^term>\<open>Ok None\<close> lets the downscale go on.\<close>

definition check_rollout_group ::
    "env \<Rightarrow> trace \<Rightarrow> adm_request \<Rightarrow> int \<Rightarrow> int \<Rightarrow> string \<Rightarrow> adm_response option res \<times> trace" where
  "check_rollout_group E tr r old new rolloutGroup =
     (case findStatefulSetsForRolloutGroup E tr (ar_namespace r) rolloutGroup of
        (Panic m, tr1) \<Rightarrow> (Panic m, tr1)
      | (Fail e, tr1) \<Rightarrow> (Ok (Some (denied r old new ''finding other statefulsets failed.'')), tr1)
      | (Ok stsList, tr1) \<Rightarrow>
     (case findDownscalesDoneMinTimeAgo E tr1 stsList (ar_name r) of
        (Panic m, tr2) \<Rightarrow> (Panic m, tr2)
      | (Fail e, tr2) \<Rightarrow> (Ok (Some (denied r old new ''parsing downscale annotations failed.'')), tr2)
      | (Ok (Some foundSts), tr2) \<Rightarrow> (Ok (Some (denied r old new (recent_reason foundSts))), tr2)
      | (Ok None, tr2) \<Rightarrow>
     (case findStatefulSetWithNonUpdatedReplicas E tr2 (ar_namespace r) stsList (ar_name r) of
        (Panic m, tr3) \<Rightarrow> (Panic m, tr3)
      | (Fail e, tr3) \<Rightarrow>
          (Ok (Some (denied r old new
             ''an error occurred while checking whether StatefulSets have non-updated replicas'')), tr3)
      | (Ok (Some foundSts), tr3) \<Rightarrow> (Ok (Some (denied r old new (non_updated_reason foundSts))), tr3)
      | (Ok None, tr3) \<Rightarrow> (Ok None, tr3))))"

section \<open>Requests to the pods\<close>

record shutdown_endpoint =
  se_url :: string
  se_index :: int

definition prepareDownscalePath :: "string \<Rightarrow> string" where
  "prepareDownscalePath p = (if \<not> HasPrefix p ''/'' then ''/'' @ p else p)"

definition shutdown_endpoint_of :: "adm_request \<Rightarrow> statefulSetPrepareInfo \<Rightarrow> string \<Rightarrow> int \<Rightarrow> shutdown_endpoint" where
  "shutdown_endpoint_of r info clusterDomain index =
     \<lparr>se_url = StatefulSetPodFQDN (ar_namespace r) (ar_name r) index (pi_serviceName info) clusterDomain @ '':''
               @ pi_port info @ prepareDownscalePath (pi_path info),
      se_index = index\<rparr>"

text \<open>\<^verbatim>\<open>diff\<close> is an \<^verbatim>\<open>int32\<close>; \<^verbatim>\<open>make\<close> panics on a negative length.\<close>

definition createEndpoints ::
    "adm_request \<Rightarrow> int \<Rightarrow> int \<Rightarrow> statefulSetPrepareInfo \<Rightarrow> string \<Rightarrow> shutdown_endpoint list res" where
  "createEndpoints r old new info clusterDomain =
     (let diff = wrap32 (old - new) in
      if diff < 0 then Panic ''makeslice: len out of range''
      else Ok (map (\<lambda>i. shutdown_endpoint_of r info clusterDomain (old - i - 1)) [0..diff - 1]))"

text \<open>\<^verbatim>\<open>errors.Join(err, readError)\<close> keeps the error whether or not the body could be read.\<close>

definition invokePrepareShutdown :: "env \<Rightarrow> http_method \<Rightarrow> trace \<Rightarrow> shutdown_endpoint \<Rightarrow> err option \<times> trace" where
  "invokePrepareShutdown E method tr ep =
     (case e_url_parse E (''http://'' @ se_url ep) of
        Error e \<Rightarrow> (Some e, tr)
      | Reply u \<Rightarrow>
          (let tr1 = tr @ [EvHttp method u] in
           case e_http E tr method u of
             Error e \<Rightarrow> (Some e, tr1)
           | Reply resp \<Rightarrow>
               if resp_status resp div 100 \<noteq> 2 then
                 (let e = ''HTTP '' @ (case method of POST \<Rightarrow> ''POST'' | DELETE \<Rightarrow> ''DELETE'')
                          @ '' request returned non-2xx status code'' in
                  (Some (Err (case resp_body_err resp of None \<Rightarrow> e | Some re \<Rightarrow> e @ [CHR 0x0A] @ errmsg re)), tr1))
               else (None, tr1)))"

definition maxPrepareGoroutines :: nat where "maxPrepareGoroutines = 32"

text \<open>
  The choices of the scheduler in the group of the POSTs and in the group of the DELETEs. \<^const>\<open>Expire\<close> is the end of the
  context of the whole request, by its deadline or because the connection was closed.
\<close>

type_synonym schedules = "choice list \<times> choice list"

text \<open>The goroutines of the first group test the context of the group, which is also the context of their requests.\<close>

definition group_ended :: "'a errgroup \<Rightarrow> err option option" where
  "group_ended g = map_option Some (eg_ctx g)"

definition sendPrepareShutdownRequests ::
    "env \<Rightarrow> choice list \<Rightarrow> trace \<Rightarrow> shutdown_endpoint list \<Rightarrow> (err option \<times> bool \<times> trace) option" where
  "sendPrepareShutdownRequests E sched tr eps =
     (if eps = [] then Some (None, False, tr)
      else eg_run maxPrepareGoroutines group_ended (invokePrepareShutdown E POST) sched False tr eps)"

text \<open>
  The goroutines of the second group test nothing and swallow their errors, but their requests are made on the context of the whole
  request: once it has ended, \<^verbatim>\<open>client.Do\<close> returns an error without sending anything.
\<close>

definition undo_one :: "env \<Rightarrow> trace \<Rightarrow> shutdown_endpoint \<Rightarrow> err option \<times> trace" where
  "undo_one E tr ep = (None, snd (invokePrepareShutdown E DELETE tr ep))"

definition request_ended :: "'a errgroup \<Rightarrow> err option option" where
  "request_ended g = (if eg_expired g then Some None else None)"

definition undoPrepareShutdownRequests :: "env \<Rightarrow> choice list \<Rightarrow> bool \<Rightarrow> trace \<Rightarrow> shutdown_endpoint list \<Rightarrow> trace option" where
  "undoPrepareShutdownRequests E sched expired tr eps =
     (if eps = [] then Some tr
      else map_option (\<lambda>(e, x, tr'). tr') (eg_run maxPrepareGoroutines request_ended (undo_one E) sched expired tr eps))"

definition addDownscaledAnnotationToStatefulSet :: "env \<Rightarrow> trace \<Rightarrow> string \<Rightarrow> string \<Rightarrow> err option \<times> trace" where
  "addDownscaledAnnotationToStatefulSet E tr namespace stsName =
     (let v = FormatRFC3339 (e_now E tr); tr1 = tr @ [EvNow] in
      ((case e_patch_annotation E tr1 namespace stsName LastDownscaleAnnotationKey v of
          Reply _ \<Rightarrow> None
        | Error e \<Rightarrow> Some e),
       tr1 @ [EvPatchAnnotation namespace stsName LastDownscaleAnnotationKey v]))"

section \<open>The handler\<close>

text \<open>
  The second half of the handler: prepare the pods, then record the downscale with \<open>record_downscale\<close> (the annotation here,
  the ConfigMap in the zone tracker; \<open>failure\<close> is the text of its refusal), undoing the preparation when either fails.
  \<open>s\<close> is the state recording may change. There is no result if a group never ends.
\<close>

definition prepared_response :: "adm_request \<Rightarrow> int \<Rightarrow> int \<Rightarrow> adm_response" where
  "prepared_response r old new =
     allowed_response\<lparr>adm_message :=
       ''downscale of '' @ ar_resource r @ ''/'' @ ar_name r @ '' in '' @ ar_namespace r @ '' from '' @ Itoa old
       @ '' to '' @ Itoa new @ '' replicas is allowed -- all pods successfully prepared for shutdown.''\<rparr>"

definition prepare_pods :: "env \<Rightarrow> schedules \<Rightarrow> 's \<Rightarrow> trace \<Rightarrow> adm_request \<Rightarrow> int \<Rightarrow> int \<Rightarrow> statefulSetPrepareInfo \<Rightarrow> string
    \<Rightarrow> ('s \<Rightarrow> trace \<Rightarrow> err option \<times> 's \<times> trace) \<Rightarrow> string \<Rightarrow> (adm_response res \<times> 's \<times> trace) option" where
  "prepare_pods E sched s tr r old new info clusterDomain record_downscale failure =
     (case createEndpoints r old new info clusterDomain of
        Panic m \<Rightarrow> Some (Panic m, s, tr)
      | Fail e \<Rightarrow> Some (Fail e, s, tr)
      | Ok eps \<Rightarrow>
          (case sendPrepareShutdownRequests E (fst sched) tr eps of
             None \<Rightarrow> None
           | Some (Some e, expired, tr1) \<Rightarrow>
               map_option (\<lambda>tr2. (Ok (denied r old new ''one or more pods failed to prepare for shutdown.''), s, tr2))
                 (undoPrepareShutdownRequests E (snd sched) expired tr1 eps)
           | Some (None, expired, tr1) \<Rightarrow>
               (case record_downscale s tr1 of
                  (Some e, s1, tr2) \<Rightarrow>
                    map_option (\<lambda>tr3. (Ok (denied r old new failure), s1, tr3))
                      (undoPrepareShutdownRequests E (snd sched) expired tr2 eps)
                | (None, s1, tr2) \<Rightarrow> Some (Ok (prepared_response r old new), s1, tr2))))"

definition annotate :: "env \<Rightarrow> adm_request \<Rightarrow> unit \<Rightarrow> trace \<Rightarrow> err option \<times> unit \<times> trace" where
  "annotate E r s tr =
     (case addDownscaledAnnotationToStatefulSet E tr (ar_namespace r) (ar_name r) of (e, tr1) \<Rightarrow> (e, s, tr1))"

definition prepareDownscale :: "env \<Rightarrow> decoder \<Rightarrow> schedules \<Rightarrow> trace \<Rightarrow> adm_request option \<Rightarrow> string
    \<Rightarrow> (adm_response res \<times> trace) option" where
  "prepareDownscale E dec sched tr ar clusterDomain =
     (case downscale_preamble E dec tr ar of
        (Panic m, tr1) \<Rightarrow> Some (Panic m, tr1)
      | (Fail e, tr1) \<Rightarrow> Some (Fail e, tr1)
      | (Ok (Inl response), tr1) \<Rightarrow> Some (Ok response, tr1)
      | (Ok (Inr (r, old, new, info)), tr1) \<Rightarrow>
          (case (if pi_rolloutGroup info \<noteq> '''' then check_rollout_group E tr1 r old new (pi_rolloutGroup info)
                 else (Ok None, tr1)) of
             (Panic m, tr2) \<Rightarrow> Some (Panic m, tr2)
           | (Fail e, tr2) \<Rightarrow> Some (Fail e, tr2)
           | (Ok (Some response), tr2) \<Rightarrow> Some (Ok response, tr2)
           | (Ok None, tr2) \<Rightarrow>
               map_option (\<lambda>(response, _, tr3). (response, tr3))
                 (prepare_pods E sched () tr2 r old new info clusterDomain (annotate E r)
                    ''adding an annotation to the statefulset failed.'')))"

section \<open>What the requests achieve\<close>

text \<open>The URL of an endpoint parses, and its pod answered the request with a 2xx status at some point after \<open>start\<close>.\<close>

definition accepted :: "env \<Rightarrow> http_method \<Rightarrow> trace \<Rightarrow> trace \<Rightarrow> shutdown_endpoint \<Rightarrow> bool" where
  "accepted E m start tr ep \<longleftrightarrow>
     (\<exists>u pre post resp. e_url_parse E (''http://'' @ se_url ep) = Reply u \<and> tr = pre @ EvHttp m u # post \<and>
        extends start pre \<and> e_http E pre m u = Reply resp \<and> resp_status resp div 100 = 2)"

text \<open>The request was sent after \<open>start\<close>, if the URL of the endpoint parses at all.\<close>

definition requested :: "env \<Rightarrow> http_method \<Rightarrow> trace \<Rightarrow> trace \<Rightarrow> shutdown_endpoint \<Rightarrow> bool" where
  "requested E m start tr ep \<longleftrightarrow>
     (\<forall>u. e_url_parse E (''http://'' @ se_url ep) = Reply u \<longrightarrow>
        (\<exists>pre post. tr = pre @ EvHttp m u # post \<and> extends start pre))"

definition only_requests :: "http_method \<Rightarrow> trace \<Rightarrow> trace \<Rightarrow> bool" where
  "only_requests m a b \<longleftrightarrow> (\<exists>us. b = a @ map (EvHttp m) us)"

lemma only_requests_refl: "only_requests m a a"
  unfolding only_requests_def by (rule exI [of _ "[]"]) simp

lemma only_requests_trans: "only_requests m a b \<Longrightarrow> only_requests m b c \<Longrightarrow> only_requests m a c"
  unfolding only_requests_def by (elim exE) (metis append_assoc map_append)

lemma only_requests_extends: "only_requests m a b \<Longrightarrow> extends a b"
  by (auto simp: only_requests_def extends_def)

lemma accepted_extends: "accepted E m start a ep \<Longrightarrow> extends a b \<Longrightarrow> accepted E m start b ep"
  unfolding accepted_def extends_def by (elim exE conjE) (metis append.assoc append_Cons)

lemma requested_extends: "requested E m start a ep \<Longrightarrow> extends a b \<Longrightarrow> requested E m start b ep"
  unfolding requested_def extends_def by (metis append.assoc append_Cons)

lemma invoke_cases:
  assumes "invokePrepareShutdown E m tr ep = (e, tr')"
  obtains (unparsed) msg where "e_url_parse E (''http://'' @ se_url ep) = Error msg" and "tr' = tr" and "e \<noteq> None"
    | (sent) u where "e_url_parse E (''http://'' @ se_url ep) = Reply u" and "tr' = tr @ [EvHttp m u]"
        and "e = None \<longleftrightarrow> (\<exists>resp. e_http E tr m u = Reply resp \<and> resp_status resp div 100 = 2)"
proof (cases "e_url_parse E (''http://'' @ se_url ep)")
  case (Reply u)
  show thesis
  proof (rule sent [OF Reply])
    show "tr' = tr @ [EvHttp m u]"
      using assms Reply by (auto simp: invokePrepareShutdown_def Let_def split: reply.splits if_splits)
    show "e = None \<longleftrightarrow> (\<exists>resp. e_http E tr m u = Reply resp \<and> resp_status resp div 100 = 2)"
      using assms Reply by (cases "e_http E tr m u") (auto simp: invokePrepareShutdown_def Let_def split: if_splits)
  qed
next
  case (Error msg)
  then show thesis using assms by (intro unparsed) (auto simp: invokePrepareShutdown_def)
qed

interpretation shutdown: errgroup_work "invokePrepareShutdown E m" start "accepted E m start" "requested E m start" "only_requests m"
  for E m start
proof
  fix tr tr' :: trace and ep e
  assume fr: "only_requests m start tr"
  show "accepted E m start tr' ep" if "invokePrepareShutdown E m tr ep = (None, tr')"
    using that by (rule invoke_cases) (use only_requests_extends [OF fr] in \<open>auto simp: accepted_def\<close>)
  show "requested E m start tr' ep" if "invokePrepareShutdown E m tr ep = (e, tr')"
    using that by (rule invoke_cases) (use only_requests_extends [OF fr] in \<open>auto simp: requested_def\<close>)
next
  fix tr tr' :: trace and ep e
  assume "invokePrepareShutdown E m tr ep = (e, tr')"
  then show "only_requests m tr tr'"
    by (rule invoke_cases) (auto simp: only_requests_refl only_requests_def intro: exI [of _ "[_]"])
qed (auto simp: only_requests_refl intro: only_requests_trans accepted_extends requested_extends only_requests_extends)

lemma undo_one_requests:
  assumes "undo_one E tr ep = (e, tr')"
  shows "only_requests DELETE tr tr'" and "only_requests DELETE start tr \<Longrightarrow> requested E DELETE start tr' ep"
  using assms shutdown.job_frame [of E DELETE tr ep] shutdown.job_tried [of DELETE start tr E ep]
  by (cases "invokePrepareShutdown E DELETE tr ep"; simp add: undo_one_def)+

interpretation undo: errgroup_work "undo_one E" start "requested E DELETE start" "requested E DELETE start" "only_requests DELETE"
  for E start
  by unfold_locales
    (auto simp: only_requests_refl dest: undo_one_requests
       intro: only_requests_trans requested_extends only_requests_extends)

lemma sent_to_all:
  assumes "sendPrepareShutdownRequests E sched tr eps = Some (e, x, tr')"
  shows "only_requests POST tr tr'" and "e = None \<Longrightarrow> ep \<in> set eps \<Longrightarrow> accepted E POST tr tr' ep"
    and "eps \<noteq> [] \<Longrightarrow> x \<longleftrightarrow> Expire \<in> set sched"
proof -
  show "only_requests POST tr tr'"
    using assms shutdown.run_frame only_requests_refl
    by (auto simp: sendPrepareShutdownRequests_def split: if_splits)
  show "accepted E POST tr tr' ep" if "e = None" and "ep \<in> set eps"
    using assms shutdown.run_good [of maxPrepareGoroutines group_ended E POST sched False tr eps x tr'] that
    by (auto simp: sendPrepareShutdownRequests_def group_ended_def split: if_splits)
  show "x \<longleftrightarrow> Expire \<in> set sched" if "eps \<noteq> []"
    using assms that eg_run_expired by (fastforce simp: sendPrepareShutdownRequests_def)
qed

lemma undone_for_all:
  assumes "undoPrepareShutdownRequests E sched expired tr eps = Some tr'"
  shows "only_requests DELETE tr tr'"
    and "\<not> expired \<Longrightarrow> Expire \<notin> set sched \<Longrightarrow> ep \<in> set eps \<Longrightarrow> requested E DELETE tr tr' ep"
    and "expired \<Longrightarrow> tr' = tr"
proof -
  from assms consider "eps = []" "tr' = tr"
    | e x where "eg_run maxPrepareGoroutines request_ended (undo_one E) sched expired tr eps = Some (e, x, tr')"
    by (auto simp: undoPrepareShutdownRequests_def split: if_splits)
  note c = this
  show "only_requests DELETE tr tr'" using c by cases (auto simp: only_requests_refl dest: undo.run_frame)
  show "requested E DELETE tr tr' ep" if "\<not> expired" "Expire \<notin> set sched" "ep \<in> set eps"
    using c
  proof cases
    case (2 e x)
    then have "\<not> x" using eg_run_expired that by fastforce
    with 2 undo.run_tried [of maxPrepareGoroutines request_ended E sched expired tr eps e tr'] that(3) show ?thesis
      by (auto simp: request_ended_def)
  qed (use that in simp)
  show "tr' = tr" if expired
    using c
  proof cases
    case (2 e x)
    with that have "eg_run maxPrepareGoroutines request_ended (undo_one E) sched True tr eps = Some (e, x, tr')" by simp
    then show ?thesis by (rule eg_run_expired_idle) (simp add: request_ended_def)
  qed
qed

lemma requests_end:
  shows "\<exists>e x tr'. sendPrepareShutdownRequests E sched tr eps = Some (e, x, tr')"
    and "\<exists>tr'. undoPrepareShutdownRequests E sched expired tr eps = Some tr'"
proof -
  have l: "0 < maxPrepareGoroutines" by (simp add: maxPrepareGoroutines_def)
  show "\<exists>e x tr'. sendPrepareShutdownRequests E sched tr eps = Some (e, x, tr')"
    using eg_run_returns [OF l, of group_ended "invokePrepareShutdown E POST" sched False tr eps]
    by (cases "eps = []") (auto simp: sendPrepareShutdownRequests_def)
  show "\<exists>tr'. undoPrepareShutdownRequests E sched expired tr eps = Some tr'"
    using eg_run_returns [OF l, of request_ended "undo_one E" sched expired tr eps]
    by (cases "eps = []") (auto simp: undoPrepareShutdownRequests_def)
qed

section \<open>Downscales the webhook manages\<close>

text \<open>
  The request is not a dry run and lowers the replica count of a StatefulSet, or of a Scale of one, that carries the
  prepare-downscale label; \<open>info\<close> is what the webhook reads of the StatefulSet.
\<close>

definition managed_downscale ::
    "env \<Rightarrow> decoder \<Rightarrow> trace \<Rightarrow> adm_request \<Rightarrow> int \<Rightarrow> int \<Rightarrow> statefulSetPrepareInfo \<Rightarrow> bool" where
  "managed_downscale E dec tr r old new info \<longleftrightarrow>
     ar_dryRun r = Some False \<and>
     (\<exists>obj obj'. decoded_replicas dec (ar_oldObject r) = Some (obj, old) \<and>
        decoded_replicas dec (ar_object r) = Some (obj', new) \<and> new < old \<and>
        (case obj of
           StatefulSet s \<Rightarrow> info = prepareInfo s
         | Scale _ \<Rightarrow>
             ar_resource r = ''statefulsets'' \<and>
             (\<exists>s. e_get_sts E tr (ar_namespace r) (ar_name r) = Reply s \<and> info = prepareInfo s)
         | _ \<Rightarrow> False)) \<and>
     pi_prepareDownscale info"

definition configured :: "statefulSetPrepareInfo \<Rightarrow> bool" where
  "configured info \<longleftrightarrow> pi_port info \<noteq> '''' \<and> pi_path info \<noteq> '''' \<and> pi_serviceName info \<noteq> ''''"

lemma decodeAndReplicas_Some:
  assumes "decoded_replicas dec raw = Some (obj, n)"
  obtains g where "decodeAndReplicas dec raw = Ok \<lparr>oi_obj = obj, oi_gvk = g, oi_replicas = Some n\<rparr>"
  using assms
  by (auto simp: decoded_replicas_alt decodeAndReplicas_def split: reply.splits res.splits option.splits prod.splits)

lemma preamble_managed:
  assumes "managed_downscale E dec tr r old new info"
  obtains tr1 msg where "reads tr tr1"
    and "downscale_preamble E dec tr (Some r) =
           (Ok (if configured info then Inr (r, old, new, info) else Inl (deny msg)), tr1)"
proof -
  from assms obtain obj obj' where d: "ar_dryRun r = Some False" "pi_prepareDownscale info" "new < old"
      "decoded_replicas dec (ar_oldObject r) = Some (obj, old)" "decoded_replicas dec (ar_object r) = Some (obj', new)"
    and obj: "case obj of StatefulSet s \<Rightarrow> info = prepareInfo s
       | Scale _ \<Rightarrow> ar_resource r = ''statefulsets'' \<and>
           (\<exists>s. e_get_sts E tr (ar_namespace r) (ar_name r) = Reply s \<and> info = prepareInfo s)
       | _ \<Rightarrow> False"
    by (auto simp: managed_downscale_def)
  obtain g where o: "decodeAndReplicas dec (ar_oldObject r) = Ok \<lparr>oi_obj = obj, oi_gvk = g, oi_replicas = Some old\<rparr>"
    using d(4) by (rule decodeAndReplicas_Some)
  obtain g' where n: "decodeAndReplicas dec (ar_object r) = Ok \<lparr>oi_obj = obj', oi_gvk = g', oi_replicas = Some new\<rparr>"
    using d(5) by (rule decodeAndReplicas_Some)
  obtain tr1 where i: "getStatefulSetPrepareInfo E tr r \<lparr>oi_obj = obj, oi_gvk = g, oi_replicas = Some old\<rparr> = (Ok info, tr1)"
    and reads: "reads tr tr1"
    using obj by (auto simp: getStatefulSetPrepareInfo_def getStatefulSet_def split: runtime_object.splits)
  have "downscale_preamble E dec tr (Some r) =
      (Ok (if configured info then Inr (r, old, new, info)
           else Inl (deny (downscale_msg r old new
             (if pi_port info = '''' then ''the '' @ PrepareDownscalePortAnnotationKey @ '' annotation is not set or empty.''
              else if pi_path info = '''' then ''the '' @ PrepareDownscalePathAnnotationKey @ '' annotation is not set or empty.''
              else ''the serviceName is not set or empty.'')))), tr1)"
    using d(1-3) o n i by (simp add: downscale_preamble_def checkReplicasChange_def configured_def denied_def)
  with that reads show thesis by blast
qed

text \<open>The other direction: whatever goes on to the preparation is managed.\<close>

lemma preamble_Inr:
  assumes "downscale_preamble E dec tr ar = (Ok (Inr (r, old, new, info)), tr1)"
  shows "ar = Some r" and "managed_downscale E dec tr r old new info" and "configured info" and "reads tr tr1"
proof -
  from assms obtain oldInfo newInfo where ar: "ar = Some r" "ar_dryRun r = Some False"
    and o: "decodeAndReplicas dec (ar_oldObject r) = Ok oldInfo" and n: "decodeAndReplicas dec (ar_object r) = Ok newInfo"
    and c: "checkReplicasChange oldInfo newInfo = None"
    and i: "getStatefulSetPrepareInfo E tr r oldInfo = (Ok info, tr1)" and p: "pi_prepareDownscale info" "configured info"
    and s: "oi_replicas oldInfo = Some old" "oi_replicas newInfo = Some new"
    by (auto simp: downscale_preamble_def configured_def
        split: option.splits bool.splits res.splits prod.splits if_splits)
  have d: "decoded_replicas dec raw = Some (oi_obj oi, k)" if "decodeAndReplicas dec raw = Ok oi" "oi_replicas oi = Some k"
    for raw oi k
    using that by (auto simp: decodeAndReplicas_def decoded_replicas_alt split: reply.splits res.splits prod.splits)
  have lt: "new < old" using c s by (auto simp: checkReplicasChange_def split: if_splits)
  show "ar = Some r" by (rule ar)
  show "configured info" by (rule p)
  show "reads tr tr1" using i
    by (auto simp: getStatefulSetPrepareInfo_def getStatefulSet_def split: runtime_object.splits if_splits reply.splits)
  show "managed_downscale E dec tr r old new info"
    using ar(2) p(1) lt d [OF o s(1)] d [OF n s(2)] i
    unfolding managed_downscale_def
    by (auto simp: getStatefulSetPrepareInfo_def getStatefulSet_def split: runtime_object.splits if_splits reply.splits)
qed

section \<open>What the checks of a rollout group establish\<close>

text \<open>
  Between the traces \<open>a\<close> and \<open>b\<close> the StatefulSet was seen settled: if it records a downscale and a waiting time, the
  time had passed; its pods were listed, and the running and ready ones were as many as its status has replicas
  and updated replicas.
\<close>

definition waited_for :: "(statefulset \<Rightarrow> string option) \<Rightarrow> env \<Rightarrow> trace \<Rightarrow> trace \<Rightarrow> statefulset \<Rightarrow> bool" where
  "waited_for lastDown E a b s \<longleftrightarrow>
     (\<forall>str last v m. lastDown s = Some str \<longrightarrow> ParseRFC3339 str = Some last \<longrightarrow>
        GetMinTimeBetweenZonesDownscale (sts_annotations s) (sts_labels s) = Some v \<longrightarrow> ParseDuration v = Some m \<longrightarrow>
        (\<exists>t. extends a t \<and> extends t b \<and> m \<le> time_sub (e_now E t) last))"

definition all_updated :: "env \<Rightarrow> string \<Rightarrow> trace \<Rightarrow> trace \<Rightarrow> statefulset \<Rightarrow> bool" where
  "all_updated E namespace a b s \<longleftrightarrow>
     (\<exists>t pods. extends a t \<and> extends t b \<and> e_list_pods E t namespace = Reply pods \<and>
        sts_status_replicas s = int (length (filter IsPodRunningAndReady (sts_pods s pods))) \<and>
        sts_updated_replicas s = sts_status_replicas s)"

lemma waited_for_mono:
  "waited_for lastDown E a b s \<Longrightarrow> extends a' a \<Longrightarrow> extends b b' \<Longrightarrow> waited_for lastDown E a' b' s"
  unfolding waited_for_def by (meson extends_trans)

lemma all_updated_mono:
  "all_updated E ns a b s \<Longrightarrow> extends a' a \<Longrightarrow> extends b b' \<Longrightarrow> all_updated E ns a' b' s"
  unfolding all_updated_def by (meson extends_trans)

lemma find_recent_reads: "find_recent lastDown bad E tr items ex = (q, tr') \<Longrightarrow> reads tr tr'"
proof (induction items arbitrary: tr)
  case (Cons s items)
  then show ?case
    by (auto split: if_splits option.splits) (metis reads_trans reads_snoc is_write.simps(9))
qed simp

lemma find_recent_None:
  assumes "find_recent lastDown bad E tr items ex = (Ok None, tr')" and "s \<in> set items" and "sts_name s \<noteq> ex"
  shows "waited_for lastDown E tr tr' s"
  using assms
proof (induction items arbitrary: tr)
  case (Cons x items)
  have later: "waited_for lastDown E t tr' s" if "find_recent lastDown bad E t items ex = (Ok None, tr')" "s \<in> set items" for t
    using Cons.IH [OF that] Cons.prems(3) by blast
  have snoc: "extends tr (tr @ [EvNow])" by simp
  show ?case
  proof (cases "s \<in> set items")
    case True
    show ?thesis
      using Cons.prems(1) later [OF _ True] waited_for_mono [OF later [OF _ True] snoc extends_refl]
      by (auto split: if_splits option.splits)
  next
    case False
    then have x: "x = s" using Cons.prems(2) by simp
    have "extends tr tr'" using reads_extends [OF find_recent_reads [OF Cons.prems(1)]] .
    then show ?thesis
      using Cons.prems(1,3) unfolding x waited_for_def
      by (auto split: if_splits option.splits intro!: exI [of _ tr])
  qed
qed simp

lemma sts_pods_listed:
  assumes "findPodsForStatefulSet E tr ns s = (Ok pods, tr')"
  obtains all where "e_list_pods E tr ns = Reply all" and "pods = sts_pods s all" and "tr' = tr @ [EvListPodsAPI ns]"
  using assms
  by (auto simp: findPodsForStatefulSet_def sts_pods_def dest!: MustNewLabelsRequirement_Ok
      split: res.splits reply.splits)

lemma non_updated_reads:
  "findStatefulSetWithNonUpdatedReplicas E tr ns items ex = (q, tr') \<Longrightarrow> reads tr tr'"
proof (induction items arbitrary: tr)
  case (Cons s items)
  obtain c tr1 where c: "countRunningAndReadyPods E tr ns s = (c, tr1)" by (metis surj_pair)
  then have "reads tr tr1"
    by (auto simp: countRunningAndReadyPods_def findPodsForStatefulSet_def split: res.splits)
  with Cons c show ?case by (auto split: if_splits res.splits intro: reads_trans)
qed simp

lemma non_updated_None:
  assumes "findStatefulSetWithNonUpdatedReplicas E tr ns items ex = (Ok None, tr')" and "s \<in> set items"
    and "sts_name s \<noteq> ex"
  shows "all_updated E ns tr tr' s"
  using assms
proof (induction items arbitrary: tr)
  case (Cons x items)
  show ?case
  proof (cases "sts_name x = ex")
    case True
    then have "s \<in> set items" using Cons.prems(2,3) by auto
    then show ?thesis using Cons.IH [of tr] Cons.prems True by simp
  next
    case False
    obtain ready tr1 where c: "countRunningAndReadyPods E tr ns x = (Ok ready, tr1)"
      and eq: "sts_status_replicas x = ready" "sts_updated_replicas x = ready"
      and rest: "findStatefulSetWithNonUpdatedReplicas E tr1 ns items ex = (Ok None, tr')"
      using Cons.prems(1) False by (auto split: res.splits prod.splits if_splits)
    from c obtain all where l: "e_list_pods E tr ns = Reply all" "tr1 = tr @ [EvListPodsAPI ns]"
        "ready = int (length (filter IsPodRunningAndReady (sts_pods x all)))"
      by (auto simp: countRunningAndReadyPods_def map_res_Ok_iff split: prod.splits elim!: sts_pods_listed)
    have ext: "extends tr tr1" using l(2) by simp
    have ext': "extends tr tr'" using ext reads_extends [OF non_updated_reads [OF rest]] extends_trans by blast
    show ?thesis
    proof (cases "x = s")
      case True
      then show ?thesis unfolding all_updated_def
        using l(1,3) eq ext' by (intro exI [of _ tr] exI [of _ all]) simp
    next
      case False
      then show ?thesis
        using Cons.IH [OF rest] Cons.prems(2,3) all_updated_mono [OF _ ext extends_refl] by auto
    qed
  qed
qed simp

text \<open>The group as the webhook lists it, and what a passed check says of its other members.\<close>

definition group_settled ::
    "(statefulset \<Rightarrow> string option) \<Rightarrow> env \<Rightarrow> adm_request \<Rightarrow> string \<Rightarrow> trace \<Rightarrow> trace \<Rightarrow> bool" where
  "group_settled lastDown E r rolloutGroup a b \<longleftrightarrow>
     (\<exists>t items. extends a t \<and> extends t b \<and> e_list_sts E t (ar_namespace r) = Reply items \<and>
        (\<forall>s\<in>set items. sts_labels s RolloutGroupLabelKey = Some rolloutGroup \<longrightarrow> sts_name s \<noteq> ar_name r \<longrightarrow>
           waited_for lastDown E a b s \<and> all_updated E (ar_namespace r) a b s))"

lemma group_settled_mono:
  assumes "group_settled lastDown E r g a b" and "extends a' a" and "extends b b'"
  shows "group_settled lastDown E r g a' b'"
proof -
  from assms(1) obtain t items where t: "extends a t" "extends t b" "e_list_sts E t (ar_namespace r) = Reply items"
    and s: "\<forall>s\<in>set items. sts_labels s RolloutGroupLabelKey = Some g \<longrightarrow> sts_name s \<noteq> ar_name r \<longrightarrow>
           waited_for lastDown E a b s \<and> all_updated E (ar_namespace r) a b s"
    unfolding group_settled_def by metis
  have "extends a' t" "extends t b'" using t assms extends_trans by blast+
  then show ?thesis
    unfolding group_settled_def
    using t(3) s waited_for_mono [OF _ assms(2,3)] all_updated_mono [OF _ assms(2,3)] by metis
qed

lemma group_listed:
  assumes "findStatefulSetsForRolloutGroup E tr ns g = (Ok items, tr')"
  obtains all where "e_list_sts E tr ns = Reply all" and "tr' = tr @ [EvListStatefulSetsAPI ns]"
    and "items = filter (\<lambda>s. sts_labels s RolloutGroupLabelKey = Some g) all"
proof -
  from assms obtain all where "e_list_sts E tr ns = Reply all" "tr' = tr @ [EvListStatefulSetsAPI ns]"
    and i: "items = filter (\<lambda>s. sel_matches [Requirement RolloutGroupLabelKey Equals [g]] (sts_labels s)) all"
    by (auto simp: findStatefulSetsForRolloutGroup_def NewRequirement_def split: if_splits reply.splits)
  moreover have "sel_matches [Requirement RolloutGroupLabelKey Equals [g]] ls \<longleftrightarrow> ls RolloutGroupLabelKey = Some g" for ls
    by (simp add: sel_matches_def split: option.splits)
  ultimately show thesis using that by simp
qed

lemma findStatefulSetsForRolloutGroup_reads:
  "findStatefulSetsForRolloutGroup E tr ns g = (q, tr') \<Longrightarrow> reads tr tr'"
  by (auto simp: findStatefulSetsForRolloutGroup_def split: res.splits)

lemma check_reads: "check_rollout_group E tr r old new g = (q, tr') \<Longrightarrow> reads tr tr'"
  by (auto simp: check_rollout_group_def findDownscalesDoneMinTimeAgo_def
      dest!: findStatefulSetsForRolloutGroup_reads find_recent_reads non_updated_reads
      split: res.splits option.splits prod.splits intro: reads_trans)

lemma check_denies: "check_rollout_group E tr r old new g = (Ok (Some resp), tr') \<Longrightarrow> \<not> adm_allowed resp"
  by (auto simp: check_rollout_group_def denied_def split: res.splits option.splits prod.splits)

text \<open>The three searches of a passed check, put together.\<close>

lemma group_settledI:
  assumes l: "findStatefulSetsForRolloutGroup E tr (ar_namespace r) g = (Ok stsList, tr1)" and t: "extends tr1 ta"
    and f: "find_recent lastDown bad E ta stsList (ar_name r) = (Ok None, tr2)"
    and n: "findStatefulSetWithNonUpdatedReplicas E tr2 (ar_namespace r) stsList (ar_name r) = (Ok None, tr')"
  shows "group_settled lastDown E r g tr tr'"
proof -
  from l obtain all where all: "e_list_sts E tr (ar_namespace r) = Reply all"
      "stsList = filter (\<lambda>s. sts_labels s RolloutGroupLabelKey = Some g) all"
    by (rule group_listed)
  have e: "extends tr ta" "extends ta tr2" "extends tr2 tr'"
    using findStatefulSetsForRolloutGroup_reads [OF l] t find_recent_reads [OF f] non_updated_reads [OF n]
    by (auto intro: reads_extends extends_trans)
  have "waited_for lastDown E tr tr' s \<and> all_updated E (ar_namespace r) tr tr' s"
    if "s \<in> set stsList" and "sts_name s \<noteq> ar_name r" for s
    using waited_for_mono [OF find_recent_None [OF f that] e(1,3)]
      all_updated_mono [OF non_updated_None [OF n that] extends_trans [OF e(1,2)] extends_refl] by simp
  moreover have "extends tr tr'" using e extends_trans by blast
  ultimately show ?thesis
    unfolding group_settled_def using all by (intro exI [of _ tr] exI [of _ all]) simp
qed

lemma check_passed:
  assumes "check_rollout_group E tr r old new g = (Ok None, tr')"
  shows "group_settled last_annotation E r g tr tr'"
proof -
  from assms obtain stsList tr1 tr2 where
      l: "findStatefulSetsForRolloutGroup E tr (ar_namespace r) g = (Ok stsList, tr1)"
    and f: "findDownscalesDoneMinTimeAgo E tr1 stsList (ar_name r) = (Ok None, tr2)"
    and n: "findStatefulSetWithNonUpdatedReplicas E tr2 (ar_namespace r) stsList (ar_name r) = (Ok None, tr')"
    by (auto simp: check_rollout_group_def split: res.splits option.splits prod.splits)
  then show ?thesis
    unfolding findDownscalesDoneMinTimeAgo_def by (intro group_settledI [OF l extends_refl])
qed

section \<open>Outcomes of the handler\<close>

lemma created_endpoints:
  assumes "createEndpoints r old new info cd = Ok eps" and "new < old" and "is_int32 old" and "is_int32 new"
  shows "set eps = shutdown_endpoint_of r info cd ` {new..<old}"
proof -
  have "wrap32 (old - new) = old - new"
  proof (cases "old - new < 2 ^ 31")
    case False
    have "(old - new + 2 ^ 31) mod 2 ^ 32 = (old - new + 2 ^ 31 - 2 ^ 32) mod 2 ^ 32" by (simp only: minus_mod_self2)
    also have "\<dots> = old - new + 2 ^ 31 - 2 ^ 32"
      using False assms(3,4) by (intro mod_pos_pos_trivial) (auto simp: is_int32_def)
    finally have "wrap32 (old - new) = old - new - 2 ^ 32" by (simp add: wrap32_def)
    then have "wrap32 (old - new) < 0" using assms(3,4) by (simp add: is_int32_def)
    then show ?thesis using assms(1) by (simp add: createEndpoints_def)
  qed (use assms(2) in \<open>auto intro!: wrap32_id simp: is_int32_def\<close>)
  then have "set eps = (\<lambda>i. shutdown_endpoint_of r info cd (old - i - 1)) ` {0..old - new - 1}"
    using assms(1,2) by (auto simp: createEndpoints_def Let_def)
  also have "\<dots> = shutdown_endpoint_of r info cd ` {new..<old}"
  proof -
    have "k \<in> (\<lambda>i. old - i - 1) ` {0..old - new - 1}" if "k \<in> {new..<old}" for k
      using that by (intro image_eqI [of _ _ "old - k - 1"]) auto
    then have "(\<lambda>i. old - i - 1) ` {0..old - new - 1} = {new..<old}" by auto
    then show ?thesis by (metis (no_types, lifting) image_cong image_image)
  qed
  finally show ?thesis .
qed

lemma prepare_pods_cases:
  assumes "prepare_pods E sched s tr r old new info cd rec failure = Some (Ok resp, s', tr')"
  obtains (prepared) eps tr1 where "createEndpoints r old new info cd = Ok eps" and "only_requests POST tr tr1"
      and "\<forall>ep\<in>set eps. accepted E POST tr tr1 ep" and "rec s tr1 = (None, s', tr')" and "resp = prepared_response r old new"
    | (undone) eps tr1 tr2 where "createEndpoints r old new info cd = Ok eps" and "only_requests POST tr tr1"
      and "tr2 = tr1 \<or> (\<exists>e. rec s tr1 = (Some e, s', tr2))" and "\<not> adm_allowed resp" and "only_requests DELETE tr2 tr'"
      and "eps \<noteq> [] \<Longrightarrow> if Expire \<in> set (fst sched) then tr' = tr2
           else Expire \<notin> set (snd sched) \<longrightarrow> (\<forall>ep\<in>set eps. requested E DELETE tr2 tr' ep)"
proof -
  from assms obtain eps where eps: "createEndpoints r old new info cd = Ok eps"
    by (auto simp: prepare_pods_def split: res.splits)
  with assms obtain e x tr1 where s: "sendPrepareShutdownRequests E (fst sched) tr eps = Some (e, x, tr1)"
    by (auto simp: prepare_pods_def split: option.splits)
  obtain e' s1 tr2 where rec: "rec s tr1 = (e', s1, tr2)" by (metis surj_pair)
  note post = sent_to_all [OF s]
  have undo: "only_requests DELETE t tr' \<and> (eps \<noteq> [] \<longrightarrow> (if Expire \<in> set (fst sched) then tr' = t
      else Expire \<notin> set (snd sched) \<longrightarrow> (\<forall>ep\<in>set eps. requested E DELETE t tr' ep)))"
    if "undoPrepareShutdownRequests E (snd sched) x t eps = Some tr'" for t
    using undone_for_all [OF that] post(3) by auto
  show thesis
  proof (cases e)
    case (Some err)
    then have "resp = denied r old new ''one or more pods failed to prepare for shutdown.''"
      and u: "undoPrepareShutdownRequests E (snd sched) x tr1 eps = Some tr'"
      using assms eps s by (auto simp: prepare_pods_def)
    then show thesis using undo [OF u] post(1) by (intro undone [OF eps]) (auto simp: denied_def)
  next
    case none: None
    show thesis
    proof (cases e')
      case None
      then show thesis using assms eps s none rec post by (intro prepared [OF eps]) (auto simp: prepare_pods_def)
    next
      case (Some err)
      then have "resp = denied r old new failure" "s' = s1" and u: "undoPrepareShutdownRequests E (snd sched) x tr2 eps = Some tr'"
        using assms eps s none rec by (auto simp: prepare_pods_def)
      then show thesis using undo [OF u] post(1) rec Some by (intro undone [OF eps, of tr1 tr2]) (auto simp: denied_def)
    qed
  qed
qed

text \<open>A managed downscale is refused early, or reaches the preparation with its group settled.\<close>

lemma prepareDownscale_cases:
  assumes "prepareDownscale E dec sched tr (Some r) cd = Some (Ok resp, tr')"
    and "managed_downscale E dec tr r old new info"
  obtains (early) "reads tr tr'" and "\<not> adm_allowed resp"
    | (prepare) tr2 where "reads tr tr2"
        and "pi_rolloutGroup info \<noteq> '''' \<Longrightarrow> group_settled last_annotation E r (pi_rolloutGroup info) tr tr2"
        and "prepare_pods E sched () tr2 r old new info cd (annotate E r)
               ''adding an annotation to the statefulset failed.'' = Some (Ok resp, (), tr')"
proof -
  obtain tr1 msg where reads: "reads tr tr1"
    and pre: "downscale_preamble E dec tr (Some r) =
           (Ok (if configured info then Inr (r, old, new, info) else Inl (deny msg)), tr1)"
    using assms(2) by (rule preamble_managed)
  show thesis
  proof (cases "configured info")
    case False
    then show thesis using assms(1) pre reads by (intro early) (auto simp: prepareDownscale_def)
  next
    case conf: True
    show thesis
    proof (cases "pi_rolloutGroup info = ''''")
      case True
      then show thesis using assms(1) pre conf reads by (intro prepare [of tr1]) (auto simp: prepareDownscale_def split: prod.splits)
    next
      case False
      obtain q tr2 where q: "check_rollout_group E tr1 r old new (pi_rolloutGroup info) = (q, tr2)" by (metis surj_pair)
      note reads2 = reads_trans [OF reads check_reads [OF q]]
      have run: "prepareDownscale E dec sched tr (Some r) cd =
          (case q of Panic m \<Rightarrow> Some (Panic m, tr2) | Fail e \<Rightarrow> Some (Fail e, tr2) | Ok (Some response) \<Rightarrow> Some (Ok response, tr2)
           | Ok None \<Rightarrow> map_option (\<lambda>(response, _, tr3). (response, tr3)) (prepare_pods E sched () tr2 r old new info cd (annotate E r)
               ''adding an annotation to the statefulset failed.''))"
        using pre conf False q by (auto simp: prepareDownscale_def split: res.splits option.splits)
      show thesis
      proof (cases q)
        case (Ok x)
        show thesis
        proof (cases x)
          case None
          then have "group_settled last_annotation E r (pi_rolloutGroup info) tr tr2"
            using q Ok reads by (auto intro: group_settled_mono [OF check_passed] reads_extends)
          then show thesis using prepare [OF reads2] assms(1) run Ok None by (auto split: prod.splits)
        next
          case (Some y)
          then show thesis using early assms(1) run Ok reads2 check_denies q by auto
        qed
      qed (use assms(1) run in auto)
    qed
  qed
qed

lemma annotation_written:
  assumes "annotate E r s t = (None, s', tr')"
  shows "tr' = t @ [EvNow, EvPatchAnnotation (ar_namespace r) (ar_name r) LastDownscaleAnnotationKey (FormatRFC3339 (e_now E t))]"
    and "e_patch_annotation E (t @ [EvNow]) (ar_namespace r) (ar_name r) LastDownscaleAnnotationKey (FormatRFC3339 (e_now E t)) = Reply ()"
  using assms by (auto simp: annotate_def addDownscaledAnnotationToStatefulSet_def Let_def split: reply.splits)

text \<open>An allowed managed downscale: the facts behind the properties.\<close>

lemma allowed_managed:
  assumes "prepareDownscale E dec sched tr (Some r) cd = Some (Ok resp, tr')" and "adm_allowed resp"
    and "managed_downscale E dec tr r old new info"
  obtains eps t where "createEndpoints r old new info cd = Ok eps" and "\<forall>ep\<in>set eps. accepted E POST tr t ep"
    and "extends tr t"
    and "tr' = t @ [EvNow, EvPatchAnnotation (ar_namespace r) (ar_name r) LastDownscaleAnnotationKey (FormatRFC3339 (e_now E t))]"
    and "e_patch_annotation E (t @ [EvNow]) (ar_namespace r) (ar_name r) LastDownscaleAnnotationKey (FormatRFC3339 (e_now E t)) = Reply ()"
    and "pi_rolloutGroup info \<noteq> '''' \<Longrightarrow> group_settled last_annotation E r (pi_rolloutGroup info) tr tr'"
  using assms(1,3)
proof (cases rule: prepareDownscale_cases)
  case early
  then show ?thesis using assms(2) by simp
next
  case (prepare tr2)
  have e2: "extends tr tr2" using prepare(1) by (rule reads_extends)
  from prepare(3) show ?thesis
  proof (cases rule: prepare_pods_cases)
    case (prepared eps tr1)
    have e1: "extends tr2 tr1" using prepared(2) by (rule only_requests_extends)
    note w = annotation_written [OF prepared(4)]
    have acc: "\<forall>ep\<in>set eps. accepted E POST tr tr1 ep"
    proof
      fix ep assume "ep \<in> set eps"
      with prepared(3) have "accepted E POST tr2 tr1 ep" by simp
      then show "accepted E POST tr tr1 ep" unfolding accepted_def using e2 by (metis extends_trans)
    qed
    have grp: "group_settled last_annotation E r (pi_rolloutGroup info) tr tr'" if "pi_rolloutGroup info \<noteq> ''''"
      using prepare(2) [OF that] e1 w(1) by (auto intro: group_settled_mono extends_trans extends_snoc)
    show ?thesis by (rule that [OF prepared(1) acc extends_trans [OF e2 e1] w grp])
  next
    case undone
    then show ?thesis using assms(2) by simp
  qed
qed

lemma decodeAndReplicas_no_panic [simp]: "decodeAndReplicas dec raw \<noteq> Panic m"
  by (auto simp: decodeAndReplicas_def split: reply.splits res.splits)

text \<open>The first half of the handler answers or goes on, and what it does not manage it allows.\<close>

lemma getInfo_total:
  "\<exists>z t. getStatefulSetPrepareInfo E tr r oi = (z, t) \<and> reads tr t \<and> (\<forall>m. z \<noteq> Panic m)"
  by (auto simp: getStatefulSetPrepareInfo_def getStatefulSet_def split: runtime_object.splits reply.splits)

lemma preamble_goes_on:
  assumes "ar_dryRun r = Some False" and "decodeAndReplicas dec (ar_oldObject r) = Ok o1"
    and "decodeAndReplicas dec (ar_object r) = Ok o2" and "checkReplicasChange o1 o2 = None"
    and "getStatefulSetPrepareInfo E tr r o1 = (Ok info, t)" and "pi_prepareDownscale info"
  shows "\<exists>old new. managed_downscale E dec tr r old new info"
proof -
  have d: "decoded_replicas dec raw = Some (oi_obj oi, k)" if "decodeAndReplicas dec raw = Ok oi" "oi_replicas oi = Some k"
    for raw oi k
    using that by (auto simp: decodeAndReplicas_def decoded_replicas_alt split: reply.splits res.splits prod.splits)
  from assms(4) obtain old new where s: "oi_replicas o1 = Some old" "oi_replicas o2 = Some new" "new < old"
    by (auto simp: checkReplicasChange_def split: option.splits if_splits)
  have "managed_downscale E dec tr r old new info"
    using assms(1,5,6) s(3) d [OF assms(2) s(1)] d [OF assms(3) s(2)]
    unfolding managed_downscale_def
    by (auto simp: getStatefulSetPrepareInfo_def getStatefulSet_def split: runtime_object.splits if_splits reply.splits)
  then show ?thesis by blast
qed

lemma preamble_unmanaged:
  assumes "ar_dryRun r \<noteq> None" and "\<nexists>old new info. managed_downscale E dec tr r old new info"
  shows "\<exists>resp tr1. downscale_preamble E dec tr (Some r) = (Ok (Inl resp), tr1) \<and> adm_allowed resp \<and> reads tr tr1"
proof (cases "ar_dryRun r = Some True")
  case True
  then show ?thesis by (simp add: downscale_preamble_def)
next
  case False
  then have dry: "ar_dryRun r = Some False" using assms(1) by auto
  show ?thesis
  proof (cases "decodeAndReplicas dec (ar_oldObject r)")
    case o: (Ok o1)
    show ?thesis
    proof (cases "decodeAndReplicas dec (ar_object r)")
      case n: (Ok o2)
      obtain z t where z: "getStatefulSetPrepareInfo E tr r o1 = (z, t)" "reads tr t" "\<forall>m. z \<noteq> Panic m"
        using getInfo_total by metis
      show ?thesis
      proof (cases "checkReplicasChange o1 o2")
        case None
        then have "\<not> pi_prepareDownscale info" if "z = Ok info" for info
          using preamble_goes_on [OF dry o n None] z(1) that assms(2) by metis
        then show ?thesis
          using dry o n z None by (cases z) (auto simp: downscale_preamble_def)
      next
        case (Some resp)
        then have "adm_allowed resp" by (auto simp: checkReplicasChange_def split: option.splits if_splits)
        then show ?thesis using dry o n Some by (simp add: downscale_preamble_def)
      qed
    qed (use dry o in \<open>simp_all add: downscale_preamble_def\<close>)
  qed (use dry in \<open>simp_all add: downscale_preamble_def\<close>)
qed

section \<open>Properties\<close>

text \<open>C4: an allowed downscale is prepared. When the webhook allows a downscale it manages, then, whatever the order in which
  its concurrent requests were sent and answered: every pod the downscale removes answered the POST to its
  endpoint with a 2xx status during this call; the time of the downscale, read after the last answer, has been written to the
  annotation of the StatefulSet; and if the StatefulSet is in a rollout group, every other StatefulSet the webhook listed
  for the group had waited out its time since its last downscale and had all its replicas updated, running and ready.\<close>

theorem allowed_downscale_is_prepared:
  assumes "prepareDownscale E dec sched tr (Some r) clusterDomain = Some (Ok resp, tr')" and "adm_allowed resp"
    and "managed_downscale E dec tr r old new info" and "is_int32 old" and "is_int32 new"
  shows "(\<forall>i. new \<le> i \<and> i < old \<longrightarrow> accepted E POST tr tr' (shutdown_endpoint_of r info clusterDomain i)) \<and>
     (\<exists>t. extends tr t \<and>
        tr' = t @ [EvNow, EvPatchAnnotation (ar_namespace r) (ar_name r) LastDownscaleAnnotationKey (FormatRFC3339 (e_now E t))] \<and>
        e_patch_annotation E (t @ [EvNow]) (ar_namespace r) (ar_name r) LastDownscaleAnnotationKey
          (FormatRFC3339 (e_now E t)) = Reply ()) \<and>
     (pi_rolloutGroup info \<noteq> '''' \<longrightarrow> group_settled last_annotation E r (pi_rolloutGroup info) tr tr')"
proof -
  have lt: "new < old" using assms(3) by (auto simp: managed_downscale_def)
  from assms(1-3) show ?thesis
  proof (rule allowed_managed)
    fix eps t
    assume a: "createEndpoints r old new info clusterDomain = Ok eps" "\<forall>ep\<in>set eps. accepted E POST tr t ep" "extends tr t"
      "tr' = t @ [EvNow, EvPatchAnnotation (ar_namespace r) (ar_name r) LastDownscaleAnnotationKey (FormatRFC3339 (e_now E t))]"
      "e_patch_annotation E (t @ [EvNow]) (ar_namespace r) (ar_name r) LastDownscaleAnnotationKey
         (FormatRFC3339 (e_now E t)) = Reply ()"
      "pi_rolloutGroup info \<noteq> '''' \<Longrightarrow> group_settled last_annotation E r (pi_rolloutGroup info) tr tr'"
    have "accepted E POST tr tr' (shutdown_endpoint_of r info clusterDomain i)" if "new \<le> i \<and> i < old" for i
      using a(2) created_endpoints [OF a(1) lt assms(4,5)] that accepted_extends [of E POST tr t _ tr'] a(4) by auto
    with a(3-6) show ?thesis by blast
  qed
qed

text \<open>C14: a failed preparation is undone, unless the request has run out of time. When the webhook refuses a managed downscale after it has
  sent anything, nothing follows the undoing. If the context of the request has not ended, every endpoint of a pod that was to be
  removed (and whose URL parses) has been sent a DELETE, after all
  the POSTs of the call, whether or not its POST had been sent. If it ended before the POSTs were done, no DELETE is sent to any
  pod: pods that accepted their POST stay prepared for shutdown although the downscale is refused.\<close>

theorem failed_preparation_is_undone:
  assumes "prepareDownscale E dec sched tr (Some r) clusterDomain = Some (Ok resp, tr')" and "\<not> adm_allowed resp"
    and "managed_downscale E dec tr r old new info" and "is_int32 old" and "is_int32 new" and "\<not> reads tr tr'"
  shows "\<exists>t. extends tr t \<and> only_requests DELETE t tr' \<and> (\<forall>u. EvHttp DELETE u \<notin> set (drop (length tr) t)) \<and>
     (if Expire \<in> set (fst sched) then tr' = t
      else Expire \<notin> set (snd sched) \<longrightarrow>
        (\<forall>i. new \<le> i \<and> i < old \<longrightarrow> requested E DELETE t tr' (shutdown_endpoint_of r info clusterDomain i)))"
proof -
  have lt: "new < old" using assms(3) by (auto simp: managed_downscale_def)
  from assms(1,3) show ?thesis
  proof (cases rule: prepareDownscale_cases)
    case (prepare tr2)
    from prepare(3) show ?thesis
    proof (cases rule: prepare_pods_cases)
      case (undone eps tr1 t)
      note eps = created_endpoints [OF undone(1) lt assms(4,5)]
      have ne: "eps \<noteq> []" using eps lt by auto
      have t: "t = tr1 \<or> (\<exists>v. t = tr1 @ [EvNow, EvPatchAnnotation (ar_namespace r) (ar_name r) LastDownscaleAnnotationKey v])"
        using undone(3) by (auto simp: annotate_def addDownscaledAnnotationToStatefulSet_def Let_def)
      obtain evs1 evs2 us where ev: "tr2 = tr @ evs1" "\<forall>e\<in>set evs1. \<not> is_write e" "tr1 = tr2 @ map (EvHttp POST) us" "t = tr1 @ evs2"
        "\<forall>u. EvHttp DELETE u \<notin> set evs2"
        using prepare(1) undone(2) t unfolding reads_def only_requests_def by auto
      have "extends tr t" using ev(1,3,4) by (simp add: extends_def)
      moreover have "\<forall>u. EvHttp DELETE u \<notin> set (drop (length tr) t)" using ev by auto
      moreover have "if Expire \<in> set (fst sched) then tr' = t
        else Expire \<notin> set (snd sched) \<longrightarrow>
          (\<forall>i. new \<le> i \<and> i < old \<longrightarrow> requested E DELETE t tr' (shutdown_endpoint_of r info clusterDomain i))"
        using undone(6) [OF ne] eps by auto
      ultimately show ?thesis using undone(5) by blast
    qed (use assms(2) in \<open>simp add: prepared_response_def\<close>)
  qed (use assms(6) in simp)
qed

text \<open>everything else is allowed. A dry run, a change that cannot be decoded, that is not a downscale, of an unknown kind, or of a
  StatefulSet without the prepare-downscale label is allowed, and nothing in the cluster is changed by the call.\<close>

theorem unmanaged_change_is_allowed:
  assumes "ar_dryRun r \<noteq> None" and "\<nexists>old new info. managed_downscale E dec tr r old new info"
  shows "\<exists>resp tr'. prepareDownscale E dec sched tr (Some r) clusterDomain = Some (Ok resp, tr') \<and> adm_allowed resp \<and> reads tr tr'"
proof -
  from preamble_unmanaged [OF assms] obtain resp tr1 where
    "downscale_preamble E dec tr (Some r) = (Ok (Inl resp), tr1)" "adm_allowed resp" "reads tr tr1"
    by metis
  then show ?thesis by (simp add: prepareDownscale_def)
qed

text \<open>C6: two zones of a rollout group are not downscaled within the waiting time. Suppose the webhook has allowed a downscale of one
  StatefulSet, and \<open>v\<close> is the annotation it wrote then, at a time not before \<open>T\<close>. A later request to downscale another StatefulSet of
  the group is refused as long as the API server lists the first StatefulSet with that annotation and a waiting time \<open>m\<close>, and the clock
  has not passed \<open>T + m\<close> less one second (the resolution of the annotation).\<close>

theorem second_zone_is_refused:
  assumes "prepareDownscale E1 dec1 sched1 tr1 (Some r1) clusterDomain = Some (Ok resp1, tr1')" and "adm_allowed resp1"
    and "managed_downscale E1 dec1 tr1 r1 old1 new1 info1"
    and "last tr1' = EvPatchAnnotation (ar_namespace r1) (ar_name r1) LastDownscaleAnnotationKey v"
    and "\<forall>t. extends tr1 t \<longrightarrow> T \<le> e_now E1 t \<and> writable_time (e_now E1 t)"
    and "prepareDownscale E2 dec2 sched2 tr2 (Some r2) clusterDomain = Some (Ok resp2, tr2')"
    and "managed_downscale E2 dec2 tr2 r2 old2 new2 info2" and "pi_rolloutGroup info2 \<noteq> ''''" and "ar_name r1 \<noteq> ar_name r2"
    and "\<forall>t items. extends tr2 t \<longrightarrow> e_list_sts E2 t (ar_namespace r2) = Reply items \<longrightarrow>
           (\<exists>s\<in>set items. sts_name s = ar_name r1 \<and> sts_labels s RolloutGroupLabelKey = Some (pi_rolloutGroup info2) \<and>
              sts_annotations s LastDownscaleAnnotationKey = Some v \<and>
              GetMinTimeBetweenZonesDownscale (sts_annotations s) (sts_labels s) = Some w)"
    and "ParseDuration w = Some m" and "0 < m" and "\<forall>t. extends tr2 t \<longrightarrow> e_now E2 t \<le> T + m - second"
  shows "\<not> adm_allowed resp2"
proof
  assume allowed: "adm_allowed resp2"
  obtain t1 where t1: "extends tr1 t1" and "tr1' = t1 @ [EvNow, EvPatchAnnotation (ar_namespace r1) (ar_name r1)
      LastDownscaleAnnotationKey (FormatRFC3339 (e_now E1 t1))]"
    using assms(1-3) by (rule allowed_managed)
  then have v: "v = FormatRFC3339 (e_now E1 t1)" using assms(4) by simp
  define u where "u = e_now E1 t1 - e_now E1 t1 mod 1000000000"
  have now1: "T \<le> e_now E1 t1" and parse: "ParseRFC3339 v = Some u"
    using assms(5) t1 by (auto simp: v u_def ParseRFC3339_FormatRFC3339)
  have "e_now E1 t1 mod 1000000000 < 1000000000" by simp
  then have u: "T - second < u" using now1 by (simp add: u_def second_def)
  have "group_settled last_annotation E2 r2 (pi_rolloutGroup info2) tr2 tr2'"
    using allowed_managed [OF assms(6) allowed assms(7)] assms(8) by metis
  then obtain t items where "extends tr2 t" "e_list_sts E2 t (ar_namespace r2) = Reply items"
    and all: "\<forall>s\<in>set items. sts_labels s RolloutGroupLabelKey = Some (pi_rolloutGroup info2) \<longrightarrow>
       sts_name s \<noteq> ar_name r2 \<longrightarrow> waited_for last_annotation E2 tr2 tr2' s \<and> all_updated E2 (ar_namespace r2) tr2 tr2' s"
    unfolding group_settled_def by metis
  with assms(10) obtain s where "s \<in> set items" "sts_name s = ar_name r1"
      "sts_labels s RolloutGroupLabelKey = Some (pi_rolloutGroup info2)" "last_annotation s = Some v"
      "GetMinTimeBetweenZonesDownscale (sts_annotations s) (sts_labels s) = Some w"
    unfolding last_annotation_def by metis
  with all assms(9) parse assms(11) obtain t2 where t2: "extends tr2 t2" "m \<le> time_sub (e_now E2 t2) u"
    unfolding waited_for_def by metis
  have "e_now E2 t2 - u < m" using assms(13) t2(1) u by fastforce
  then have "time_sub (e_now E2 t2) u < m"
    using time_sub_less_iff [OF ParseDuration_range [OF assms(11)]] assms(12) by simp
  with t2(2) show False by simp
qed

lemma find_recent_no_panic [simp]: "find_recent lastDown bad E tr items ex \<noteq> (Panic m, t)"
  by (induction items arbitrary: tr) (auto split: option.splits)

lemma non_updated_no_panic:
  assumes "\<forall>s\<in>set items. IsLabelValue (mget (sts_template_labels s) ''name'')"
  shows "findStatefulSetWithNonUpdatedReplicas E tr ns items ex \<noteq> (Panic m, t)"
  using assms
  by (induction items arbitrary: tr)
     (auto simp: countRunningAndReadyPods_def findPodsForStatefulSet_def name_requirement
        split: res.splits reply.splits prod.splits)

lemma check_answers:
  assumes "\<forall>t items. e_list_sts E t (ar_namespace r) = Reply items \<longrightarrow>
             (\<forall>s\<in>set items. IsLabelValue (mget (sts_template_labels s) ''name''))"
  shows "\<exists>x t. check_rollout_group E tr r old new g = (Ok x, t)"
proof -
  obtain q tr1 where l: "findStatefulSetsForRolloutGroup E tr (ar_namespace r) g = (q, tr1)" by (metis surj_pair)
  show ?thesis
  proof (cases q)
    case (Ok items)
    have "\<forall>s\<in>set items. IsLabelValue (mget (sts_template_labels s) ''name'')"
      using l [unfolded Ok] assms by (auto elim!: group_listed)
    note np = non_updated_no_panic [OF this]
    obtain f tr2 where f: "findDownscalesDoneMinTimeAgo E tr1 items (ar_name r) = (f, tr2)" by (metis surj_pair)
    moreover obtain n tr3 where "findStatefulSetWithNonUpdatedReplicas E tr2 (ar_namespace r) items (ar_name r) = (n, tr3)"
      by (metis surj_pair)
    ultimately show ?thesis
      using l Ok np find_recent_no_panic
      by (auto simp: check_rollout_group_def findDownscalesDoneMinTimeAgo_def split: res.splits option.splits)
  next
    case (Panic m)
    then show ?thesis using l by (auto simp: findStatefulSetsForRolloutGroup_def NewRequirement_def split: if_splits reply.splits)
  qed (use l in \<open>simp add: check_rollout_group_def\<close>)
qed

lemma prepare_pods_answers:
  assumes "createEndpoints r old new info cd = Ok eps"
  shows "\<exists>resp s' t. prepare_pods E sched s tr r old new info cd rec failure = Some (Ok resp, s', t)"
proof -
  obtain e x tr1 where s: "sendPrepareShutdownRequests E (fst sched) tr eps = Some (e, x, tr1)" using requests_end(1) by metis
  obtain e' s1 tr2 where rec: "rec s tr1 = (e', s1, tr2)" by (metis surj_pair)
  obtain t1 t2 where "undoPrepareShutdownRequests E (snd sched) x tr1 eps = Some t1" "undoPrepareShutdownRequests E (snd sched) x tr2 eps = Some t2"
    using requests_end(2) by metis
  with assms s rec show ?thesis by (cases e; cases e') (auto simp: prepare_pods_def)
qed

text \<open>C18: the webhook answers. For every schedule of its goroutines, every answer of the pods and of the API server and every end of the
  request's context, a request that says whether it is a dry run gets a response, provided the replica counts that are decoded are
  non-negative \<^verbatim>\<open>int32\<close> values and the name labels in the pod templates are valid label values (which the API server enforces). Nothing
  panics, and neither group of goroutines waits for ever for one to be started: that needs their limit to be positive. Every single
  request to a pod or to the API server ends, by an answer or by an error.\<close>

theorem prepare_downscale_answers:
  assumes "ar_dryRun r \<noteq> None"
    and "\<forall>raw obj n. decoded_replicas dec raw = Some (obj, n) \<longrightarrow> 0 \<le> n \<and> is_int32 n"
    and "\<forall>t items. e_list_sts E t (ar_namespace r) = Reply items \<longrightarrow>
           (\<forall>s\<in>set items. IsLabelValue (mget (sts_template_labels s) ''name''))"
  shows "\<exists>resp tr'. prepareDownscale E dec sched tr (Some r) clusterDomain = Some (Ok resp, tr')"
proof (cases "\<exists>old new info. managed_downscale E dec tr r old new info")
  case False
  with preamble_unmanaged [OF assms(1), of E dec tr] show ?thesis by (auto simp: prepareDownscale_def)
next
  case True
  then obtain old new info where m: "managed_downscale E dec tr r old new info" by blast
  obtain tr1 msg where pre: "downscale_preamble E dec tr (Some r) =
      (Ok (if configured info then Inr (r, old, new, info) else Inl (deny msg)), tr1)"
    using m by (rule preamble_managed)
  have "0 \<le> old" "is_int32 old" "0 \<le> new" "is_int32 new" "new < old"
    using m assms(2) unfolding managed_downscale_def by blast+
  then obtain eps where "createEndpoints r old new info clusterDomain = Ok eps"
    by (auto simp: createEndpoints_def wrap32_diff_nonneg)
  note pods = prepare_pods_answers [OF this]
  obtain x t where check: "(if pi_rolloutGroup info \<noteq> '''' then check_rollout_group E tr1 r old new (pi_rolloutGroup info)
      else (Ok None, tr1)) = (Ok x, t)"
    using check_answers [OF assms(3), of tr1 old new "pi_rolloutGroup info"] by (cases "pi_rolloutGroup info = ''''") auto
  show ?thesis
  proof (cases "configured info")
    case True
    then have "prepareDownscale E dec sched tr (Some r) clusterDomain =
        (case x of Some response \<Rightarrow> Some (Ok response, t)
         | None \<Rightarrow> map_option (\<lambda>(response, _, tr3). (response, tr3)) (prepare_pods E sched () t r old new info clusterDomain (annotate E r)
             ''adding an annotation to the statefulset failed.''))"
      using pre check by (simp add: prepareDownscale_def split: option.splits)
    moreover obtain resp s' t' where "prepare_pods E sched () t r old new info clusterDomain (annotate E r)
        ''adding an annotation to the statefulset failed.'' = Some (Ok resp, s', t')"
      using pods by metis
    ultimately show ?thesis by (cases x) auto
  qed (use pre in \<open>simp add: prepareDownscale_def\<close>)
qed

text \<open>the webhook never floods the pods. At every moment of every run of the group that sends the POSTs, however the
  scheduler interleaves its goroutines, at most 32 of them exist; in particular at most 32 requests are in flight.\<close>

theorem prepare_requests_bounded:
  assumes "eg_sched maxPrepareGoroutines group_ended (invokePrepareShutdown E POST) moments (eg_start False eps, tr) = (g, tr')"
  shows "length (eg_created g) + length (eg_running g) \<le> 32"
  using eg_sched_limit [OF assms] by (simp add: maxPrepareGoroutines_def)

section \<open>Witnesses\<close>

definition demo_prep :: "string \<Rightarrow> int \<Rightarrow> strmap \<Rightarrow> statefulset" where
  "demo_prep name n extra =
     (demo_sts name n
        ([PrepareDownscalePortAnnotationKey \<mapsto> ''80'', PrepareDownscalePathAnnotationKey \<mapsto> ''prepare'',
          MinTimeBetweenZonesDownscaleAnnotationKey \<mapsto> ''12h''] ++ extra))
       \<lparr>sts_labels := [RolloutGroupLabelKey \<mapsto> ''ingester'', PrepareDownscaleLabelKey \<mapsto> PrepareDownscaleLabelValue]\<rparr>"

definition demo_pods :: "pod list" where
  "demo_pods = [demo_pod ''zone-a'' ''zone-a-0'', demo_pod ''zone-a'' ''zone-a-1'', demo_pod ''zone-b'' ''zone-b-0'']"

text \<open>The API server before and after the downscale of \<open>zone-a\<close>; the pods accept or refuse.\<close>

definition demo_before :: "int \<Rightarrow> env" where
  "demo_before status = (steady_env 1000000000000000000 [demo_prep ''zone-a'' 2 Map.empty, demo_prep ''zone-b'' 1 Map.empty] demo_pods)
     \<lparr>e_http := (\<lambda>_ _ _. Reply \<lparr>resp_status = status, resp_body_err = None, resp_timestamp = Reply 1\<rparr>)\<rparr>"

definition demo_after :: "instant \<Rightarrow> env" where
  "demo_after t = steady_env t
     [demo_prep ''zone-a'' 1 [LastDownscaleAnnotationKey \<mapsto> FormatRFC3339 1000000000000000000], demo_prep ''zone-b'' 1 Map.empty] demo_pods"

definition demo_dec :: "string \<Rightarrow> int \<Rightarrow> int \<Rightarrow> decoder" where
  "demo_dec name old new raw =
     Reply (StatefulSet (demo_prep name (if raw = ''old'' then old else new) Map.empty), ''apps/v1, Kind=StatefulSet'')"

lemma demo_managed:
  "managed_downscale E (demo_dec name 2 1) tr demo_request 2 1 (prepareInfo (demo_prep name 2 Map.empty))"
  "managed_downscale E (demo_dec name 1 0) tr (demo_request\<lparr>ar_name := n\<rparr>) 1 0 (prepareInfo (demo_prep name 1 Map.empty))"
  by (simp_all add: managed_downscale_def demo_dec_def demo_request_def decoded_replicas_alt replicas_def demo_prep_def
      demo_sts_def prepareInfo_def config_keys)

lemma demo_prepared:
  "case prepareDownscale (demo_before 200) (demo_dec ''zone-a'' 2 1) ([Spawn, Enter 0], []) [] (Some demo_request) ''cluster.local.'' of
     Some (Ok resp, tr') \<Rightarrow> adm_allowed resp \<and>
       tr' = [EvListStatefulSetsAPI ''ns'', EvListPodsAPI ''ns'',
              EvHttp POST \<lparr>url_scheme = ''http'', url_host = ''http://zone-a-1.zone-a.ns.svc.cluster.local.:80/prepare'', url_path = ''/''\<rparr>,
              EvNow, EvPatchAnnotation ''ns'' ''zone-a'' LastDownscaleAnnotationKey (FormatRFC3339 1000000000000000000)]
   | _ \<Rightarrow> False"
  by code_simp

lemma demo_refused:
  "case prepareDownscale (demo_before 500) (demo_dec ''zone-a'' 2 1) ([], []) [] (Some demo_request) ''cluster.local.'' of
     Some (Ok resp, tr') \<Rightarrow> \<not> adm_allowed resp \<and> \<not> list_all (\<lambda>e. \<not> is_write e) tr' | _ \<Rightarrow> False"
  by code_simp

lemma demo_second_zone:
  "case prepareDownscale (demo_after (1000000000000000000 + 11 * hour)) (demo_dec ''zone-b'' 1 0) ([], []) []
       (Some (demo_request\<lparr>ar_name := ''zone-b''\<rparr>)) ''cluster.local.'' of
     Some (Ok resp, tr') \<Rightarrow> True | _ \<Rightarrow> False"
  by code_simp

lemma demo_prepared_run:
  obtains resp tr' where
    "prepareDownscale (demo_before 200) (demo_dec ''zone-a'' 2 1) ([Spawn, Enter 0], []) [] (Some demo_request) ''cluster.local.'' = Some (Ok resp, tr')"
    and "adm_allowed resp"
    and "last tr' = EvPatchAnnotation (ar_namespace demo_request) (ar_name demo_request) LastDownscaleAnnotationKey
           (FormatRFC3339 1000000000000000000)"
  using demo_prepared by (auto simp: demo_request_def split: option.splits prod.splits res.splits)

theorem allowed_downscale_is_prepared_witness:
  "\<exists>tr'. accepted (demo_before 200) POST [] tr'
           (shutdown_endpoint_of demo_request (prepareInfo (demo_prep ''zone-a'' 2 Map.empty)) ''cluster.local.'' 1) \<and>
         group_settled last_annotation (demo_before 200) demo_request ''ingester'' [] tr'"
proof -
  obtain resp tr' where run:
    "prepareDownscale (demo_before 200) (demo_dec ''zone-a'' 2 1) ([Spawn, Enter 0], []) [] (Some demo_request) ''cluster.local.'' = Some (Ok resp, tr')"
    and al: "adm_allowed resp"
    by (rule demo_prepared_run)
  note w = allowed_downscale_is_prepared [OF run al demo_managed(1)]
  have "pi_rolloutGroup (prepareInfo (demo_prep ''zone-a'' 2 Map.empty)) = ''ingester''"
    by (simp add: prepareInfo_def demo_prep_def demo_sts_def config_keys)
  with w show ?thesis by (intro exI [of _ tr']) (simp add: is_int32_def)
qed

lemma demo_out_of_time:
  "case prepareDownscale (demo_before 200) (demo_dec ''zone-a'' 3 1) ([Spawn, Spawn, Enter 0, Return 0, Expire], []) [] (Some demo_request) ''cluster.local.'' of
     Some (Ok resp, tr') \<Rightarrow> \<not> adm_allowed resp \<and>
       tr' = [EvListStatefulSetsAPI ''ns'', EvListPodsAPI ''ns'',
              EvHttp POST \<lparr>url_scheme = ''http'', url_host = ''http://zone-a-2.zone-a.ns.svc.cluster.local.:80/prepare'', url_path = ''/''\<rparr>]
   | _ \<Rightarrow> False"
  by code_simp

text \<open>The pod refuses and is sent a DELETE; with three replicas, the request ends after one of two pods was prepared.\<close>

theorem failed_preparation_is_undone_witness:
  "(\<exists>t tr'. requested (demo_before 500) DELETE t tr'
     (shutdown_endpoint_of demo_request (prepareInfo (demo_prep ''zone-a'' 2 Map.empty)) ''cluster.local.'' 1)) \<and>
   (\<exists>resp tr'. prepareDownscale (demo_before 200) (demo_dec ''zone-a'' 3 1) ([Spawn, Spawn, Enter 0, Return 0, Expire], []) [] (Some demo_request)
      ''cluster.local.'' = Some (Ok resp, tr') \<and> \<not> adm_allowed resp)"
proof
  obtain resp tr' where run:
      "prepareDownscale (demo_before 500) (demo_dec ''zone-a'' 2 1) ([], []) [] (Some demo_request) ''cluster.local.'' = Some (Ok resp, tr')"
    and d: "\<not> adm_allowed resp" and s: "\<not> list_all (\<lambda>e. \<not> is_write e) tr'"
    using demo_refused by (auto split: option.splits prod.splits res.splits)
  have "\<not> reads [] tr'" using s by (auto simp: reads_def list_all_iff)
  from failed_preparation_is_undone [OF run d demo_managed(1) _ _ this] obtain t where
    "\<forall>i. 1 \<le> i \<and> i < 2 \<longrightarrow> requested (demo_before 500) DELETE t tr'
       (shutdown_endpoint_of demo_request (prepareInfo (demo_prep ''zone-a'' 2 Map.empty)) ''cluster.local.'' i)"
    by (auto simp: is_int32_def)
  then show "\<exists>t tr'. requested (demo_before 500) DELETE t tr'
     (shutdown_endpoint_of demo_request (prepareInfo (demo_prep ''zone-a'' 2 Map.empty)) ''cluster.local.'' 1)"
    by (intro exI [of _ t] exI [of _ tr']) simp
  show "\<exists>resp tr'. prepareDownscale (demo_before 200) (demo_dec ''zone-a'' 3 1) ([Spawn, Spawn, Enter 0, Return 0, Expire], []) [] (Some demo_request)
      ''cluster.local.'' = Some (Ok resp, tr') \<and> \<not> adm_allowed resp"
    using demo_out_of_time by (auto split: option.splits prod.splits res.splits)
qed

theorem unmanaged_change_is_allowed_witness:
  "\<exists>resp tr'. prepareDownscale (demo_before 200) (demo_dec ''zone-a'' 2 1) ([], []) []
     (Some (demo_request\<lparr>ar_dryRun := Some True\<rparr>)) ''cluster.local.'' = Some (Ok resp, tr') \<and> adm_allowed resp \<and> reads [] tr'"
  by (rule unmanaged_change_is_allowed) (simp_all add: managed_downscale_def)

theorem second_zone_is_refused_witness:
  "\<exists>resp tr'. prepareDownscale (demo_after (1000000000000000000 + 11 * hour)) (demo_dec ''zone-b'' 1 0) ([], []) []
     (Some (demo_request\<lparr>ar_name := ''zone-b''\<rparr>)) ''cluster.local.'' = Some (Ok resp, tr') \<and> \<not> adm_allowed resp"
proof -
  obtain resp1 tr1' where run1:
    "prepareDownscale (demo_before 200) (demo_dec ''zone-a'' 2 1) ([Spawn, Enter 0], []) [] (Some demo_request) ''cluster.local.'' = Some (Ok resp1, tr1')"
    and al: "adm_allowed resp1"
    and last: "last tr1' = EvPatchAnnotation (ar_namespace demo_request) (ar_name demo_request) LastDownscaleAnnotationKey
           (FormatRFC3339 1000000000000000000)"
    by (rule demo_prepared_run)
  obtain resp2 tr2' where run2:
    "prepareDownscale (demo_after (1000000000000000000 + 11 * hour)) (demo_dec ''zone-b'' 1 0) ([], []) []
       (Some (demo_request\<lparr>ar_name := ''zone-b''\<rparr>)) ''cluster.local.'' = Some (Ok resp2, tr2')"
    using demo_second_zone by (auto split: option.splits prod.splits res.splits)
  have "\<not> adm_allowed resp2"
  proof (rule second_zone_is_refused [OF run1 al demo_managed(1) last _ run2 demo_managed(2) _ _ _ demo_half_day])
    show "\<forall>t. extends [] t \<longrightarrow> 1000000000000000000 \<le> e_now (demo_before 200) t \<and> writable_time (e_now (demo_before 200) t)"
      using demo_time by (simp add: demo_before_def)
  qed (simp_all add: demo_request_def demo_after_def demo_prep_def demo_sts_def prepareInfo_def config_keys
      GetMinTimeBetweenZonesDownscale_def hour_def minute_def second_def)
  with run2 show ?thesis by blast
qed

theorem prepare_downscale_answers_witness:
  "\<exists>resp tr'. prepareDownscale (demo_before 500) (demo_dec ''zone-a'' 2 1) ([Spawn, Expire, Enter 0], [Return 3, Spawn]) []
     (Some demo_request) ''cluster.local.'' = Some (Ok resp, tr')"
proof (rule prepare_downscale_answers)
  show "\<forall>t items. e_list_sts (demo_before 500) t (ar_namespace demo_request) = Reply items \<longrightarrow>
      (\<forall>s\<in>set items. IsLabelValue (mget (sts_template_labels s) ''name''))"
    using demo_label by (auto simp: demo_before_def demo_request_def demo_prep_def demo_sts_def)
  show "\<forall>raw obj n. decoded_replicas (demo_dec ''zone-a'' 2 1) raw = Some (obj, n) \<longrightarrow> 0 \<le> n \<and> is_int32 n"
    by (auto simp: decoded_replicas_alt demo_dec_def replicas_def demo_prep_def demo_sts_def is_int32_def)
qed (simp add: demo_request_def)

theorem prepare_requests_bounded_witness:
  "\<exists>g tr'. eg_sched maxPrepareGoroutines group_ended (invokePrepareShutdown (demo_before 200) POST) (replicate 40 Spawn)
       (eg_start False (replicate 40 \<lparr>se_url = ''a'', se_index = 0\<rparr>), []) = (g, tr') \<and>
     length (eg_created g) + length (eg_running g) \<le> 32"
  using prepare_requests_bounded by (metis surj_pair)

end
