(* ===== verification/ZoneTracker.thy ===== *)
theory ZoneTracker
  imports PrepareDownscale
begin

text \<open>
  \<^verbatim>\<open>pkg/admission/zone_tracker.go\<close>: the variant of the prepare-downscale webhook that keeps the time of the last
  downscale of every zone in one ConfigMap instead of an annotation, and the entry point \<^verbatim>\<open>PrepareDownscale\<close> that chooses
  between the two.

  \<^verbatim>\<open>json.Marshal\<close> and \<^verbatim>\<open>json.Unmarshal\<close> of the value of a zone are the two fields of \<open>json_codec\<close>; where a theorem
  relies on them it assumes that the second undoes the first.
\<close>

section \<open>State\<close>

record zoneInfo =
  zi_LastDownscaled :: string

record json_codec =
  jc_marshal :: "zoneInfo \<Rightarrow> string reply"
  jc_unmarshal :: "string \<Rightarrow> zoneInfo reply"

text \<open>\<open>zt_inProgress\<close> is the concurrent map \<^verbatim>\<open>rolloutGroupDownscalingInProgress\<close>.\<close>

record zoneTracker =
  zt_zones :: "(string \<times> zoneInfo) list"
  zt_clusterDomain :: string
  zt_namespace :: string
  zt_configMapName :: string
  zt_inProgress :: "(string \<times> string) list"

definition newZoneTracker :: "string \<Rightarrow> string \<Rightarrow> string \<Rightarrow> zoneTracker" where
  "newZoneTracker clusterDomain namespace configMapName =
     \<lparr>zt_zones = [], zt_clusterDomain = clusterDomain, zt_namespace = namespace, zt_configMapName = configMapName,
      zt_inProgress = []\<rparr>"

section \<open>The ConfigMap\<close>

fun marshal_zones :: "json_codec \<Rightarrow> (string \<times> zoneInfo) list \<Rightarrow> config_data reply" where
  "marshal_zones J [] = Reply []"
| "marshal_zones J ((zone, zi) # zs) =
     (case jc_marshal J zi of
        Error e \<Rightarrow> Error e
      | Reply b \<Rightarrow> (case marshal_zones J zs of Error e \<Rightarrow> Error e | Reply data \<Rightarrow> Reply ((zone, b) # data)))"

fun default_zones :: "zoneInfo \<Rightarrow> statefulset list \<Rightarrow> (string \<times> zoneInfo) list \<Rightarrow> (string \<times> zoneInfo) list" where
  "default_zones defaultInfo [] zones = zones"
| "default_zones defaultInfo (sts # items) zones =
     default_zones defaultInfo items
       (case map_of zones (sts_name sts) of None \<Rightarrow> AList.update (sts_name sts) defaultInfo zones | Some _ \<Rightarrow> zones)"

definition createConfigMap :: "env \<Rightarrow> json_codec \<Rightarrow> trace \<Rightarrow> zoneTracker \<Rightarrow> statefulset list \<Rightarrow> config_data reply \<times> trace" where
  "createConfigMap E J tr zt items =
     (let defaultInfo = \<lparr>zi_LastDownscaled = FormatRFC3339 (e_now E tr)\<rparr>; tr1 = tr @ [EvNow] in
      case marshal_zones J (default_zones defaultInfo items []) of
        Error e \<Rightarrow> (Error e, tr1)
      | Reply data \<Rightarrow>
          (e_create_config_map E tr1 (zt_namespace zt) (zt_configMapName zt) data,
           tr1 @ [EvCreateConfigMap (zt_namespace zt) (zt_configMapName zt) data]))"

definition getConfigMap :: "env \<Rightarrow> trace \<Rightarrow> zoneTracker \<Rightarrow> config_data option reply \<times> trace" where
  "getConfigMap E tr zt =
     ((case e_get_config_map E tr (zt_namespace zt) (zt_configMapName zt) of
         Error (NotFound m) \<Rightarrow> Reply None
       | Error e \<Rightarrow> Error e
       | Reply cm \<Rightarrow> Reply (Some cm)),
      tr @ [EvGetConfigMap (zt_namespace zt) (zt_configMapName zt)])"

definition getOrCreateConfigMap ::
    "env \<Rightarrow> json_codec \<Rightarrow> trace \<Rightarrow> zoneTracker \<Rightarrow> statefulset list \<Rightarrow> config_data reply \<times> trace" where
  "getOrCreateConfigMap E J tr zt items =
     (case getConfigMap E tr zt of
        (Error e, tr1) \<Rightarrow> (Error e, tr1)
      | (Reply (Some cm), tr1) \<Rightarrow> (Reply cm, tr1)
      | (Reply None, tr1) \<Rightarrow> createConfigMap E J tr1 zt items)"

fun load_entries :: "json_codec \<Rightarrow> config_data \<Rightarrow> (string \<times> zoneInfo) list \<Rightarrow> err option \<times> (string \<times> zoneInfo) list" where
  "load_entries J [] zones = (None, zones)"
| "load_entries J ((zone, data) # rest) zones =
     (case jc_unmarshal J data of
        Error e \<Rightarrow> (Some e, zones)
      | Reply zi \<Rightarrow> load_entries J rest (AList.update zone zi zones))"

definition loadZones ::
    "env \<Rightarrow> json_codec \<Rightarrow> trace \<Rightarrow> zoneTracker \<Rightarrow> statefulset list \<Rightarrow> err option \<times> zoneTracker \<times> trace" where
  "loadZones E J tr zt items =
     (case getOrCreateConfigMap E J tr zt items of
        (Error e, tr1) \<Rightarrow> (Some e, zt, tr1)
      | (Reply cm, tr1) \<Rightarrow>
          (case load_entries J cm (zt_zones zt) of (e, zones) \<Rightarrow> (e, zt\<lparr>zt_zones := zones\<rparr>, tr1)))"

definition saveZones :: "env \<Rightarrow> json_codec \<Rightarrow> trace \<Rightarrow> zoneTracker \<Rightarrow> err option \<times> trace" where
  "saveZones E J tr zt =
     (case marshal_zones J (zt_zones zt) of
        Error e \<Rightarrow> (Some e, tr)
      | Reply data \<Rightarrow>
          ((case e_update_config_map E tr (zt_namespace zt) (zt_configMapName zt) data of
              Error e \<Rightarrow> Some e
            | Reply _ \<Rightarrow> None),
           tr @ [EvUpdateConfigMap (zt_namespace zt) (zt_configMapName zt) data]))"

definition lastDownscaled :: "zoneTracker \<Rightarrow> string \<Rightarrow> string option" where
  "lastDownscaled zt zone = map_option zi_LastDownscaled (map_of (zt_zones zt) zone)"

text \<open>Both branches of the code, for a known and for a new zone, store the same value.\<close>

definition setDownscaled :: "env \<Rightarrow> json_codec \<Rightarrow> string \<Rightarrow> zoneTracker \<Rightarrow> trace \<Rightarrow> err option \<times> zoneTracker \<times> trace" where
  "setDownscaled E J zone zt tr =
     (let v = FormatRFC3339 (e_now E tr); tr1 = tr @ [EvNow];
          info = (case map_of (zt_zones zt) zone of
                    None \<Rightarrow> \<lparr>zi_LastDownscaled = v\<rparr>
                  | Some zi \<Rightarrow> zi\<lparr>zi_LastDownscaled := v\<rparr>);
          zt1 = zt\<lparr>zt_zones := AList.update zone info (zt_zones zt)\<rparr>
      in (case saveZones E J tr1 zt1 of (e, tr2) \<Rightarrow> (e, zt1, tr2)))"

definition zt_findDownscalesDoneMinTimeAgo ::
    "env \<Rightarrow> trace \<Rightarrow> zoneTracker \<Rightarrow> statefulset list \<Rightarrow> string \<Rightarrow> statefulSetDownscale option res \<times> trace" where
  "zt_findDownscalesDoneMinTimeAgo E tr zt items stsName =
     find_recent (\<lambda>s. lastDownscaled zt (sts_name s))
       (\<lambda>s. ''can't parse last downscale time of '' @ sts_name s) E tr items stsName"

section \<open>The handler\<close>

text \<open>\<^verbatim>\<open>LoadOrStore\<close> of the lock of a rollout group: the holder, if there is one, and the map after it.\<close>

definition LoadOrStore :: "(string \<times> string) list \<Rightarrow> string \<Rightarrow> string \<Rightarrow> string option \<times> (string \<times> string) list" where
  "LoadOrStore m key v = (case map_of m key of Some h \<Rightarrow> (Some h, m) | None \<Rightarrow> (None, AList.update key v m))"

definition zt_searches :: "env \<Rightarrow> json_codec \<Rightarrow> trace \<Rightarrow> zoneTracker \<Rightarrow> adm_request \<Rightarrow> int \<Rightarrow> int \<Rightarrow> string
    \<Rightarrow> adm_response option res \<times> zoneTracker \<times> trace" where
  "zt_searches E J tr zt r old new rolloutGroup =
     (case findStatefulSetsForRolloutGroup E tr (ar_namespace r) rolloutGroup of
        (Panic m, tr1) \<Rightarrow> (Panic m, zt, tr1)
      | (Fail e, tr1) \<Rightarrow> (Ok (Some (denied r old new ''finding other statefulsets failed.'')), zt, tr1)
      | (Ok stsList, tr1) \<Rightarrow>
     (case loadZones E J tr1 zt stsList of
        (Some e, zt1, tr2) \<Rightarrow> (Ok (Some (denied r old new ''loading zones failed.'')), zt1, tr2)
      | (None, zt1, tr2) \<Rightarrow>
     (case zt_findDownscalesDoneMinTimeAgo E tr2 zt1 stsList (ar_name r) of
        (Panic m, tr3) \<Rightarrow> (Panic m, zt1, tr3)
      | (Fail e, tr3) \<Rightarrow>
          (Ok (Some (denied r old new ''parsing parsing downscale timestamps from the zone ConfigMap failed.'')), zt1, tr3)
      | (Ok (Some foundSts), tr3) \<Rightarrow> (Ok (Some (denied r old new (recent_reason foundSts))), zt1, tr3)
      | (Ok None, tr3) \<Rightarrow>
     (case findStatefulSetWithNonUpdatedReplicas E tr3 (ar_namespace r) stsList (ar_name r) of
        (Panic m, tr4) \<Rightarrow> (Panic m, zt1, tr4)
      | (Fail e, tr4) \<Rightarrow>
          (Ok (Some (denied r old new
             ''an error occurred while checking whether StatefulSets have non-updated replicas'')), zt1, tr4)
      | (Ok (Some foundSts), tr4) \<Rightarrow> (Ok (Some (denied r old new (non_updated_reason foundSts))), zt1, tr4)
      | (Ok None, tr4) \<Rightarrow> (Ok None, zt1, tr4)))))"

text \<open>The lock is taken after the searches and released when the handler returns.\<close>

definition zt_check_rollout_group :: "env \<Rightarrow> json_codec \<Rightarrow> trace \<Rightarrow> zoneTracker \<Rightarrow> adm_request \<Rightarrow> int \<Rightarrow> int \<Rightarrow> string
    \<Rightarrow> adm_response option res \<times> zoneTracker \<times> trace" where
  "zt_check_rollout_group E J tr zt r old new rolloutGroup =
     (case zt_searches E J tr zt r old new rolloutGroup of
        (Ok None, zt1, tr1) \<Rightarrow>
          (case LoadOrStore (zt_inProgress zt1) rolloutGroup (ar_name r) of
             (Some lockedFor, m) \<Rightarrow>
               (Ok (Some (denied r old new (''statefulset '' @ lockedFor @ '' is already in process of updating replicas''))),
                zt1, tr1)
           | (None, m) \<Rightarrow> (Ok None, zt1\<lparr>zt_inProgress := m\<rparr>, tr1))
      | other \<Rightarrow> other)"

definition zt_unlock :: "string \<Rightarrow> zoneTracker \<Rightarrow> zoneTracker" where
  "zt_unlock rolloutGroup zt =
     (if rolloutGroup = '''' then zt else zt\<lparr>zt_inProgress := AList.delete rolloutGroup (zt_inProgress zt)\<rparr>)"

definition zt_prepareDownscale :: "env \<Rightarrow> decoder \<Rightarrow> json_codec \<Rightarrow> schedules \<Rightarrow> zoneTracker \<Rightarrow> trace \<Rightarrow> adm_request option
    \<Rightarrow> (adm_response res \<times> zoneTracker \<times> trace) option" where
  "zt_prepareDownscale E dec J sched zt tr ar =
     (case downscale_preamble E dec tr ar of
        (Panic m, tr1) \<Rightarrow> Some (Panic m, zt, tr1)
      | (Fail e, tr1) \<Rightarrow> Some (Fail e, zt, tr1)
      | (Ok (Inl response), tr1) \<Rightarrow> Some (Ok response, zt, tr1)
      | (Ok (Inr (r, old, new, info)), tr1) \<Rightarrow>
          (case (if pi_rolloutGroup info \<noteq> '''' then zt_check_rollout_group E J tr1 zt r old new (pi_rolloutGroup info)
                 else (Ok None, zt, tr1)) of
             (Panic m, zt1, tr2) \<Rightarrow> Some (Panic m, zt1, tr2)
           | (Fail e, zt1, tr2) \<Rightarrow> Some (Fail e, zt1, tr2)
           | (Ok (Some response), zt1, tr2) \<Rightarrow> Some (Ok response, zt1, tr2)
           | (Ok None, zt1, tr2) \<Rightarrow>
               map_option (\<lambda>(response, zt2, tr3). (response, zt_unlock (pi_rolloutGroup info) zt2, tr3))
                 (prepare_pods E sched zt1 tr2 r old new info (zt_clusterDomain zt) (setDownscaled E J (ar_name r))
                    ''setting downscale timestamp in the zone ConfigMap failed.'')))"

text \<open>The entry point builds a new tracker for every request; \<^verbatim>\<open>ar.Request.Namespace\<close> is read first.\<close>

definition PrepareDownscaleWebhook :: "env \<Rightarrow> decoder \<Rightarrow> json_codec \<Rightarrow> schedules \<Rightarrow> trace \<Rightarrow> adm_request option
    \<Rightarrow> bool \<Rightarrow> string \<Rightarrow> string \<Rightarrow> (adm_response res \<times> trace) option" where
  "PrepareDownscaleWebhook E dec J sched tr ar useZoneTracker zoneTrackerConfigMapName clusterDomain =
     (if useZoneTracker then
        (case ar of
           None \<Rightarrow> Some (Panic ''nil pointer dereference'', tr)
         | Some r \<Rightarrow>
             map_option (\<lambda>(response, zt, tr1). (response, tr1))
               (zt_prepareDownscale E dec J sched
                  (newZoneTracker clusterDomain (ar_namespace r) zoneTrackerConfigMapName) tr ar))
      else prepareDownscale E dec sched tr ar clusterDomain)"

section \<open>Zones in the ConfigMap\<close>

definition codec_inverse :: "json_codec \<Rightarrow> bool" where
  "codec_inverse J \<longleftrightarrow> (\<forall>zi b. jc_marshal J zi = Reply b \<longrightarrow> jc_unmarshal J b = Reply zi)"

lemma marshal_zones_keys: "marshal_zones J zs = Reply data \<Longrightarrow> map fst data = map fst zs"
  by (induction zs arbitrary: data rule: marshal_zones.induct) (auto split: reply.splits)

lemma marshal_zones_lookup:
  "marshal_zones J zs = Reply data \<Longrightarrow>
   (case map_of zs k of
      None \<Rightarrow> map_of data k = None
    | Some zi \<Rightarrow> \<exists>b. map_of data k = Some b \<and> jc_marshal J zi = Reply b)"
  by (induction zs arbitrary: data rule: marshal_zones.induct) (auto split: reply.splits option.splits)

text \<open>What the loop over the data leaves in the zones, in whatever order it visits them.\<close>

lemma load_entries_lookup:
  assumes "load_entries J data zones = (None, zones')" and "distinct (map fst data)"
  shows "map_of zones' k =
     (case map_of data k of
        None \<Rightarrow> map_of zones k
      | Some b \<Rightarrow> (case jc_unmarshal J b of Reply zi \<Rightarrow> Some zi | Error e \<Rightarrow> None))"
  using assms
proof (induction J data zones rule: load_entries.induct)
  case (2 J zone b rest zones)
  then obtain zi where zi: "jc_unmarshal J b = Reply zi"
    and rest: "load_entries J rest (AList.update zone zi zones) = (None, zones')"
    by (auto split: reply.splits)
  have "map_of rest zone = None" using 2(3) by (auto simp: map_of_eq_None_iff)
  with 2(1) [OF zi rest] 2(3) zi show ?case by (auto simp: update_conv' split: option.splits)
qed simp

lemma load_entries_total:
  assumes "\<forall>b\<in>snd ` set data. \<exists>zi. jc_unmarshal J b = Reply zi"
  shows "\<exists>zones'. load_entries J data zones = (None, zones')"
  using assms by (induction J data zones rule: load_entries.induct) (auto split: reply.splits)

lemma load_entries_distinct:
  "distinct (map fst zones) \<Longrightarrow> load_entries J data zones = (e, zones') \<Longrightarrow> distinct (map fst zones')"
  by (induction J data zones rule: load_entries.induct) (auto simp: distinct_update split: reply.splits)

lemma loadZones_frame:
  assumes "loadZones E J tr zt items = (e, zt', tr')"
  shows "zt_inProgress zt' = zt_inProgress zt" and "zt_namespace zt' = zt_namespace zt"
    and "zt_configMapName zt' = zt_configMapName zt" and "extends tr tr'"
  using assms
  by (auto simp: loadZones_def getOrCreateConfigMap_def getConfigMap_def createConfigMap_def Let_def
      split: reply.splits option.splits prod.splits err.splits intro: extends_snoc)

lemma loadZones_present:
  assumes "loadZones E J tr zt items = (None, zt', tr')" and "zt_zones zt = []"
    and "e_get_config_map E tr (zt_namespace zt) (zt_configMapName zt) = Reply data" and "distinct (map fst data)"
  shows "map_of (zt_zones zt') k =
     (case map_of data k of
        None \<Rightarrow> None
      | Some b \<Rightarrow> (case jc_unmarshal J b of Reply zi \<Rightarrow> Some zi | Error e \<Rightarrow> None))"
proof -
  have "load_entries J data [] = (None, zt_zones zt')"
    using assms(1-3) by (auto simp: loadZones_def getOrCreateConfigMap_def getConfigMap_def split: prod.splits)
  from load_entries_lookup [OF this assms(4)] show ?thesis by (simp split: option.splits)
qed

text \<open>A successful recording: the zone has the time of the clock, and that value is in the data written.\<close>

lemma setDownscaled_written:
  assumes "setDownscaled E J zone zt tr = (None, zt', tr')"
  obtains data b where
      "tr' = tr @ [EvNow, EvUpdateConfigMap (zt_namespace zt) (zt_configMapName zt) data]"
    and "e_update_config_map E (tr @ [EvNow]) (zt_namespace zt) (zt_configMapName zt) data = Reply ()"
    and "map_of data zone = Some b" and "jc_marshal J \<lparr>zi_LastDownscaled = FormatRFC3339 (e_now E tr)\<rparr> = Reply b"
    and "marshal_zones J (zt_zones zt') = Reply data"
proof -
  let ?v = "\<lparr>zi_LastDownscaled = FormatRFC3339 (e_now E tr)\<rparr>"
  have info: "(case map_of (zt_zones zt) zone of None \<Rightarrow> ?v
      | Some zi \<Rightarrow> zi\<lparr>zi_LastDownscaled := FormatRFC3339 (e_now E tr)\<rparr>) = ?v"
    by (auto split: option.splits)
  from assms obtain data where zt': "zt' = zt\<lparr>zt_zones := AList.update zone ?v (zt_zones zt)\<rparr>"
    and m: "marshal_zones J (zt_zones zt') = Reply data"
    and tr': "tr' = tr @ [EvNow, EvUpdateConfigMap (zt_namespace zt) (zt_configMapName zt) data]"
    and u: "e_update_config_map E (tr @ [EvNow]) (zt_namespace zt) (zt_configMapName zt) data = Reply ()"
    by (auto simp: setDownscaled_def saveZones_def info Let_def split: reply.splits)
  have "map_of (zt_zones zt') zone = Some ?v" by (simp add: zt' update_conv')
  with marshal_zones_lookup [OF m, of zone] obtain b where "map_of data zone = Some b" "jc_marshal J ?v = Reply b"
    by auto
  with that tr' u m show thesis by blast
qed

section \<open>Outcomes of the handler\<close>

lemma zt_searches_passed:
  assumes "zt_searches E J tr zt r old new g = (Ok None, zt1, tr1)"
  shows "group_settled (\<lambda>s. lastDownscaled zt1 (sts_name s)) E r g tr tr1" and "extends tr tr1"
    and "\<exists>t stsList tr2. extends tr t \<and> loadZones E J t zt stsList = (None, zt1, tr2)"
proof -
  from assms obtain stsList ta tb tc where
      l: "findStatefulSetsForRolloutGroup E tr (ar_namespace r) g = (Ok stsList, ta)"
    and z: "loadZones E J ta zt stsList = (None, zt1, tb)"
    and f: "zt_findDownscalesDoneMinTimeAgo E tb zt1 stsList (ar_name r) = (Ok None, tc)"
    and n: "findStatefulSetWithNonUpdatedReplicas E tc (ar_namespace r) stsList (ar_name r) = (Ok None, tr1)"
    by (auto simp: zt_searches_def split: res.splits option.splits prod.splits)
  have e: "extends tr ta" using findStatefulSetsForRolloutGroup_reads [OF l] by (rule reads_extends)
  note ab = loadZones_frame(4) [OF z]
  show "group_settled (\<lambda>s. lastDownscaled zt1 (sts_name s)) E r g tr tr1"
    using group_settledI [OF l ab f [unfolded zt_findDownscalesDoneMinTimeAgo_def] n] .
  have "extends tb tc" "extends tc tr1"
    using find_recent_reads [OF f [unfolded zt_findDownscalesDoneMinTimeAgo_def]] non_updated_reads [OF n]
    by (simp_all add: reads_extends)
  with e ab show "extends tr tr1" using extends_trans by blast
  show "\<exists>t stsList tr2. extends tr t \<and> loadZones E J t zt stsList = (None, zt1, tr2)" using e z by blast
qed

lemma zt_searches_frame:
  assumes "zt_searches E J tr zt r old new g = (q, zt1, tr1)"
  shows "zt_inProgress zt1 = zt_inProgress zt" and "zt_namespace zt1 = zt_namespace zt"
    and "zt_configMapName zt1 = zt_configMapName zt" and "extends tr tr1"
proof -
  show "zt_inProgress zt1 = zt_inProgress zt"
    using assms by (auto simp: zt_searches_def dest: loadZones_frame(1) split: res.splits option.splits prod.splits)
  show "zt_namespace zt1 = zt_namespace zt"
    using assms by (auto simp: zt_searches_def dest: loadZones_frame(2) split: res.splits option.splits prod.splits)
  show "zt_configMapName zt1 = zt_configMapName zt"
    using assms by (auto simp: zt_searches_def dest: loadZones_frame(3) split: res.splits option.splits prod.splits)
  have l: "findStatefulSetsForRolloutGroup E a ns g = (z, b) \<Longrightarrow> extends a b"
    and f: "find_recent ld bad E a is ex = (z', b) \<Longrightarrow> extends a b"
    and n: "findStatefulSetWithNonUpdatedReplicas E a ns is ex = (z', b) \<Longrightarrow> extends a b" for a b ns z z' ld bad "is" ex
    by (auto dest: findStatefulSetsForRolloutGroup_reads find_recent_reads non_updated_reads intro: reads_extends)
  show "extends tr tr1"
    using assms
    by (auto simp: zt_searches_def zt_findDownscalesDoneMinTimeAgo_def dest!: l f n loadZones_frame(4)
        split: res.splits option.splits prod.splits intro: extends_trans)
qed

lemma zt_check_cases:
  assumes "zt_check_rollout_group E J tr zt r old new g = (Ok x, zt2, tr1)"
  obtains (refused) resp where "x = Some resp" and "\<not> adm_allowed resp" and "extends tr tr1"
    | (passed) zt1 m where "x = None" and "zt_searches E J tr zt r old new g = (Ok None, zt1, tr1)"
        and "zt2 = zt1\<lparr>zt_inProgress := m\<rparr>"
proof -
  obtain q zt1 t where s: "zt_searches E J tr zt r old new g = (q, zt1, t)" by (metis prod_cases3)
  note fr = zt_searches_frame(4) [OF s]
  have deny: "\<not> adm_allowed resp" if "q = Ok (Some resp)" for resp
    using s that by (auto simp: zt_searches_def denied_def split: res.splits option.splits prod.splits)
  show thesis
  proof (cases q)
    case (Ok y)
    show thesis
    proof (cases y)
      case (Some resp)
      then show thesis using assms s Ok fr deny by (intro refused [of resp]) (auto simp: zt_check_rollout_group_def)
    next
      case None
      obtain h m where l: "LoadOrStore (zt_inProgress zt1) g (ar_name r) = (h, m)" by (metis surj_pair)
      show thesis
      proof (cases h)
        case None
        then show thesis using assms s Ok \<open>y = None\<close> l by (intro passed [of zt1 m]) (auto simp: zt_check_rollout_group_def)
      next
        case (Some lockedFor)
        then show thesis using assms s Ok None l fr
          by (intro refused) (auto simp: zt_check_rollout_group_def denied_def)
      qed
    qed
  qed (use assms s in \<open>auto simp: zt_check_rollout_group_def\<close>)
qed

lemma accepted_since: "accepted E m a tr ep \<Longrightarrow> extends a' a \<Longrightarrow> accepted E m a' tr ep"
  unfolding accepted_def by (metis extends_trans)

text \<open>An allowed managed downscale: the facts behind the properties.\<close>

lemma zt_allowed_managed:
  assumes "zt_prepareDownscale E dec J sched zt tr (Some r) = Some (Ok resp, zt', tr')" and "adm_allowed resp"
    and "managed_downscale E dec tr r old new info"
  obtains eps t zt1 zt2 where "createEndpoints r old new info (zt_clusterDomain zt) = Ok eps"
    and "\<forall>ep\<in>set eps. accepted E POST tr t ep" and "extends tr t" and "setDownscaled E J (ar_name r) zt1 t = (None, zt2, tr')"
    and "zt_namespace zt1 = zt_namespace zt" and "zt_configMapName zt1 = zt_configMapName zt"
    and "pi_rolloutGroup info \<noteq> '''' \<Longrightarrow>
      \<exists>ztl a b items. extends tr a \<and> loadZones E J a zt items = (None, ztl, b) \<and>
        group_settled (\<lambda>s. lastDownscaled ztl (sts_name s)) E r (pi_rolloutGroup info) tr tr'"
proof -
  let ?G = "\<lambda>z. \<exists>ztl a b items. extends tr a \<and> loadZones E J a zt items = (None, ztl, b) \<and>
        group_settled (\<lambda>s. lastDownscaled ztl (sts_name s)) E r (pi_rolloutGroup info) tr z"
  let ?P = "\<lambda>ztc tc. prepare_pods E sched ztc tc r old new info (zt_clusterDomain zt) (setDownscaled E J (ar_name r))
                       ''setting downscale timestamp in the zone ConfigMap failed.''"
  obtain tr1 msg where reads: "reads tr tr1"
    and pre: "downscale_preamble E dec tr (Some r) =
           (Ok (if configured info then Inr (r, old, new, info) else Inl (deny msg)), tr1)"
    using assms(3) by (rule preamble_managed)
  have conf: "configured info" using assms(1,2) pre by (auto simp: zt_prepareDownscale_def split: if_splits)
  obtain ztc tc zt2 where pods: "?P ztc tc = Some (Ok resp, zt2, tr')" and ec: "extends tr tc"
    and same: "zt_namespace ztc = zt_namespace zt" "zt_configMapName ztc = zt_configMapName zt"
    and grp: "pi_rolloutGroup info \<noteq> '''' \<Longrightarrow> ?G tc"
  proof (cases "pi_rolloutGroup info = ''''")
    case True
    then obtain zt2 where "?P zt tr1 = Some (Ok resp, zt2, tr')"
      using assms(1) pre conf by (auto simp: zt_prepareDownscale_def split: prod.splits)
    then show thesis using that [of zt tr1 zt2] reads_extends [OF reads] True by simp
  next
    case False
    obtain q ztc tc where q: "zt_check_rollout_group E J tr1 zt r old new (pi_rolloutGroup info) = (q, ztc, tc)"
      by (metis prod_cases3)
    obtain x where x: "q = Ok x" using assms(1) pre conf False q
      by (cases q) (auto simp: zt_prepareDownscale_def)
    from q [unfolded x] show thesis
    proof (cases rule: zt_check_cases)
      case (refused y)
      then show thesis using assms(1,2) pre conf False q x by (auto simp: zt_prepareDownscale_def)
    next
      case (passed zt1 m)
      obtain zt2 where p: "?P ztc tc = Some (Ok resp, zt2, tr')"
        using assms(1) pre conf False q x passed(1) by (auto simp: zt_prepareDownscale_def split: prod.splits)
      note s = zt_searches_passed [OF passed(2)] and f = zt_searches_frame [OF passed(2)]
      have e1: "extends tr tr1" using reads by (rule reads_extends)
      obtain a items b where "extends tr1 a" "loadZones E J a zt items = (None, zt1, b)" using s(3) by metis
      moreover have "group_settled (\<lambda>s. lastDownscaled zt1 (sts_name s)) E r (pi_rolloutGroup info) tr tc"
        using s(1) e1 extends_refl by (rule group_settled_mono)
      ultimately have "?G tc" using e1 extends_trans by metis
      then show thesis using that [OF p extends_trans [OF e1 s(2)]] f(2,3) passed(3) by simp
    qed
  qed
  from pods show thesis
  proof (cases rule: prepare_pods_cases)
    case (prepared eps t)
    have et: "extends tc t" using prepared(2) by (rule only_requests_extends)
    have acc: "\<forall>ep\<in>set eps. accepted E POST tr t ep" using prepared(3) accepted_since [OF _ ec] by blast
    have "extends t tr'" using prepared(4) by (rule setDownscaled_written) (simp add: extends_def)
    then have "extends tc tr'" using et extends_trans by blast
    then have "?G tr'" if "pi_rolloutGroup info \<noteq> ''''"
      using grp [OF that] group_settled_mono [OF _ extends_refl] by metis
    then show thesis by (rule that [OF prepared(1) acc extends_trans [OF ec et] prepared(4) same])
  next
    case undone
    then show thesis using assms(2) by simp
  qed
qed

lemma webhook_tracker:
  assumes "PrepareDownscaleWebhook E dec J sched tr (Some r) True cm cd = Some (Ok resp, tr')"
  obtains zt' where "zt_prepareDownscale E dec J sched (newZoneTracker cd (ar_namespace r) cm) tr (Some r) = Some (Ok resp, zt', tr')"
  using assms by (auto simp: PrepareDownscaleWebhook_def split: prod.splits)

section \<open>Properties\<close>

text \<open>C19: with the zone tracker, too, an allowed downscale is prepared: every pod it removes answered its POST with a 2xx status
  during the call, and the ConfigMap was then updated, as the last thing that happened, with the time of the
  downscale under the name of the StatefulSet; the other StatefulSets of the rollout group had waited out their times (as the ConfigMap
  records them) and were up to date and ready.\<close>

theorem zone_tracker_records_downscale:
  assumes "PrepareDownscaleWebhook E dec J sched tr (Some r) True cm clusterDomain = Some (Ok resp, tr')" and "adm_allowed resp"
    and "managed_downscale E dec tr r old new info" and "is_int32 old" and "is_int32 new"
  shows "(\<forall>i. new \<le> i \<and> i < old \<longrightarrow> accepted E POST tr tr' (shutdown_endpoint_of r info clusterDomain i)) \<and>
     (\<exists>t data b. extends tr t \<and> tr' = t @ [EvNow, EvUpdateConfigMap (ar_namespace r) cm data] \<and>
        e_update_config_map E (t @ [EvNow]) (ar_namespace r) cm data = Reply () \<and>
        map_of data (ar_name r) = Some b \<and> jc_marshal J \<lparr>zi_LastDownscaled = FormatRFC3339 (e_now E t)\<rparr> = Reply b) \<and>
     (pi_rolloutGroup info \<noteq> '''' \<longrightarrow>
        (\<exists>zones :: (string \<times> zoneInfo) list. group_settled (\<lambda>s. map_option zi_LastDownscaled (map_of zones (sts_name s))) E r (pi_rolloutGroup info) tr tr'))"
proof -
  have lt: "new < old" using assms(3) by (auto simp: managed_downscale_def)
  obtain zt' where run: "zt_prepareDownscale E dec J sched (newZoneTracker clusterDomain (ar_namespace r) cm) tr (Some r) = Some (Ok resp, zt', tr')"
    using assms(1) by (rule webhook_tracker)
  obtain eps t zt1 zt2 where eps: "createEndpoints r old new info clusterDomain = Ok eps"
    and acc: "\<forall>ep\<in>set eps. accepted E POST tr t ep" and t: "extends tr t"
    and set: "setDownscaled E J (ar_name r) zt1 t = (None, zt2, tr')"
    and zt1: "zt_namespace zt1 = ar_namespace r" "zt_configMapName zt1 = cm"
    and grp: "pi_rolloutGroup info \<noteq> '''' \<Longrightarrow> \<exists>ztl a b items. extends tr a \<and>
        loadZones E J a (newZoneTracker clusterDomain (ar_namespace r) cm) items = (None, ztl, b) \<and>
        group_settled (\<lambda>s. lastDownscaled ztl (sts_name s)) E r (pi_rolloutGroup info) tr tr'"
    by (rule zt_allowed_managed [OF run assms(2,3)]) (simp_all add: newZoneTracker_def)
  obtain data b where w: "tr' = t @ [EvNow, EvUpdateConfigMap (ar_namespace r) cm data]"
      "e_update_config_map E (t @ [EvNow]) (ar_namespace r) cm data = Reply ()"
      "map_of data (ar_name r) = Some b" "jc_marshal J \<lparr>zi_LastDownscaled = FormatRFC3339 (e_now E t)\<rparr> = Reply b"
    by (rule setDownscaled_written [OF set]) (simp_all add: zt1)
  show ?thesis
  proof (intro conjI allI impI)
    show "accepted E POST tr tr' (shutdown_endpoint_of r info clusterDomain i)" if "new \<le> i \<and> i < old" for i
      using acc created_endpoints [OF eps lt assms(4,5)] that accepted_extends [of E POST tr t _ tr'] w(1) by auto
    show "\<exists>t data b. extends tr t \<and> tr' = t @ [EvNow, EvUpdateConfigMap (ar_namespace r) cm data] \<and>
        e_update_config_map E (t @ [EvNow]) (ar_namespace r) cm data = Reply () \<and>
        map_of data (ar_name r) = Some b \<and> jc_marshal J \<lparr>zi_LastDownscaled = FormatRFC3339 (e_now E t)\<rparr> = Reply b"
      using t w by (intro exI [of _ t] exI [of _ data] exI [of _ b] conjI)
    assume "pi_rolloutGroup info \<noteq> []"
    then obtain ztl where "group_settled (\<lambda>s. lastDownscaled ztl (sts_name s)) E r (pi_rolloutGroup info) tr tr'"
      using grp by auto
    then show "\<exists>zones :: (string \<times> zoneInfo) list. group_settled (\<lambda>s. map_option zi_LastDownscaled (map_of zones (sts_name s))) E r (pi_rolloutGroup info) tr tr'"
      unfolding lastDownscaled_def by (intro exI [of _ "zt_zones ztl"])
  qed
qed

text \<open>C28: the zones survive the ConfigMap. What a tracker saves, another tracker loads: after a successful save, a new tracker that
  reads the data written, in any order of iteration, has the same last downscale for every zone.\<close>

theorem saved_zones_are_loaded:
  assumes "codec_inverse J" and "distinct (map fst (zt_zones zt))"
    and "saveZones E J tr zt = (None, tr')"
    and "tr' = tr @ [EvUpdateConfigMap (zt_namespace zt) (zt_configMapName zt) data]" and "mset data' = mset data"
    and "e_get_config_map E2 tr2 (zt_namespace zt) (zt_configMapName zt) = Reply data'"
  shows "\<exists>zt' tr2'. loadZones E2 J tr2 (newZoneTracker cd (zt_namespace zt) (zt_configMapName zt)) items = (None, zt', tr2') \<and>
     (\<forall>zone. lastDownscaled zt' zone = lastDownscaled zt zone)"
proof -
  let ?new = "newZoneTracker cd (zt_namespace zt) (zt_configMapName zt)"
  have m: "marshal_zones J (zt_zones zt) = Reply data"
    using assms(3,4) by (auto simp: saveZones_def split: reply.splits)
  have d: "distinct (map fst data')" and same: "map_of data' = map_of data"
    using assms(2,5) marshal_zones_keys [OF m] map_of_inject_set mset_eq_setD [OF assms(5)] mset_map
    by (metis distinct_map mset_eq_imp_distinct_iff, metis distinct_map mset_eq_imp_distinct_iff)
  have dec: "\<exists>zi. jc_unmarshal J b = Reply zi" if b: "b \<in> snd ` set data'" for b
  proof -
    from b obtain k where "map_of data' k = Some b" using d by (auto simp: map_of_is_SomeI)
    then have "map_of data k = Some b" by (simp add: same)
    then show ?thesis using marshal_zones_lookup [OF m, of k] assms(1) by (auto simp: codec_inverse_def split: option.splits)
  qed
  obtain zones' where l: "load_entries J data' [] = (None, zones')" using load_entries_total dec by metis
  have "map_of zones' k = map_of (zt_zones zt) k" for k
    using load_entries_lookup [OF l d, of k] marshal_zones_lookup [OF m, of k] assms(1)
    by (auto simp: same codec_inverse_def split: option.splits)
  moreover have "loadZones E2 J tr2 ?new items =
      (None, ?new\<lparr>zt_zones := zones'\<rparr>, tr2 @ [EvGetConfigMap (zt_namespace zt) (zt_configMapName zt)])"
    using assms(6) l by (simp add: loadZones_def getOrCreateConfigMap_def getConfigMap_def newZoneTracker_def)
  ultimately show ?thesis by (simp add: lastDownscaled_def)
qed

text \<open>C20: the zone tracker keeps two zones of a group apart like the annotation does. Once a downscale was allowed, with the ConfigMap data
  \<open>data\<close> written at a time not before \<open>T\<close>, a request for another StatefulSet of the group is refused as long as the ConfigMap has that
  entry for the first one, the first one is listed with a waiting time \<open>m\<close>, and the clock has not passed \<open>T + m\<close> less one second.\<close>

theorem zone_tracker_second_zone_is_refused:
  assumes "codec_inverse J"
    and "PrepareDownscaleWebhook E1 dec1 J sched1 tr1 (Some r1) True cm clusterDomain = Some (Ok resp1, tr1')" and "adm_allowed resp1"
    and "managed_downscale E1 dec1 tr1 r1 old1 new1 info1"
    and "last tr1' = EvUpdateConfigMap (ar_namespace r1) cm data"
    and "\<forall>t. extends tr1 t \<longrightarrow> T \<le> e_now E1 t \<and> writable_time (e_now E1 t)"
    and "PrepareDownscaleWebhook E2 dec2 J sched2 tr2 (Some r2) True cm clusterDomain = Some (Ok resp2, tr2')"
    and "managed_downscale E2 dec2 tr2 r2 old2 new2 info2" and "pi_rolloutGroup info2 \<noteq> ''''" and "ar_name r1 \<noteq> ar_name r2"
    and "\<forall>t. extends tr2 t \<longrightarrow>
           (\<exists>data2. e_get_config_map E2 t (ar_namespace r2) cm = Reply data2 \<and> distinct (map fst data2) \<and>
              map_of data2 (ar_name r1) = map_of data (ar_name r1))"
    and "\<forall>t items. extends tr2 t \<longrightarrow> e_list_sts E2 t (ar_namespace r2) = Reply items \<longrightarrow>
           (\<exists>s\<in>set items. sts_name s = ar_name r1 \<and> sts_labels s RolloutGroupLabelKey = Some (pi_rolloutGroup info2) \<and>
              GetMinTimeBetweenZonesDownscale (sts_annotations s) (sts_labels s) = Some w)"
    and "ParseDuration w = Some m" and "0 < m" and "\<forall>t. extends tr2 t \<longrightarrow> e_now E2 t \<le> T + m - second"
  shows "\<not> adm_allowed resp2"
proof
  assume allowed: "adm_allowed resp2"
  obtain zt1' where run1: "zt_prepareDownscale E1 dec1 J sched1 (newZoneTracker clusterDomain (ar_namespace r1) cm) tr1 (Some r1) = Some (Ok resp1, zt1', tr1')"
    using assms(2) by (rule webhook_tracker)
  obtain zt2' where run2: "zt_prepareDownscale E2 dec2 J sched2 (newZoneTracker clusterDomain (ar_namespace r2) cm) tr2 (Some r2) = Some (Ok resp2, zt2', tr2')"
    using assms(7) by (rule webhook_tracker)
  obtain t1 zt1 zt2 where t1: "extends tr1 t1" and set: "setDownscaled E1 J (ar_name r1) zt1 t1 = (None, zt2, tr1')"
    by (rule zt_allowed_managed [OF run1 assms(3,4)])
  obtain b where b: "map_of data (ar_name r1) = Some b"
      "jc_marshal J \<lparr>zi_LastDownscaled = FormatRFC3339 (e_now E1 t1)\<rparr> = Reply b"
    by (rule setDownscaled_written [OF set]) (use assms(5) in simp)
  then have un: "jc_unmarshal J b = Reply \<lparr>zi_LastDownscaled = FormatRFC3339 (e_now E1 t1)\<rparr>"
    using assms(1) by (simp add: codec_inverse_def)
  define u where "u = e_now E1 t1 - e_now E1 t1 mod 1000000000"
  have now1: "T \<le> e_now E1 t1" and parse: "ParseRFC3339 (FormatRFC3339 (e_now E1 t1)) = Some u"
    using assms(6) t1 by (auto simp: u_def ParseRFC3339_FormatRFC3339)
  have "e_now E1 t1 mod 1000000000 < 1000000000" by simp
  then have u: "T - second < u" using now1 by (simp add: u_def second_def)
  obtain ztl a c items' where a: "extends tr2 a"
    and load: "loadZones E2 J a (newZoneTracker clusterDomain (ar_namespace r2) cm) items' = (None, ztl, c)"
    and grp: "group_settled (\<lambda>s. lastDownscaled ztl (sts_name s)) E2 r2 (pi_rolloutGroup info2) tr2 tr2'"
    using zt_allowed_managed [OF run2 allowed assms(8)] assms(9) by metis
  obtain data2 where data2: "e_get_config_map E2 a (ar_namespace r2) cm = Reply data2" "distinct (map fst data2)"
      "map_of data2 (ar_name r1) = Some b"
    using assms(11) a b(1) by metis
  have last: "lastDownscaled ztl (ar_name r1) = Some (FormatRFC3339 (e_now E1 t1))"
    using loadZones_present [OF load _ _ data2(2), of "ar_name r1"] data2(1,3) un
    by (simp add: newZoneTracker_def lastDownscaled_def)
  from grp obtain t items where "extends tr2 t" "e_list_sts E2 t (ar_namespace r2) = Reply items"
    and all: "\<forall>s\<in>set items. sts_labels s RolloutGroupLabelKey = Some (pi_rolloutGroup info2) \<longrightarrow> sts_name s \<noteq> ar_name r2 \<longrightarrow>
       waited_for (\<lambda>s. lastDownscaled ztl (sts_name s)) E2 tr2 tr2' s \<and> all_updated E2 (ar_namespace r2) tr2 tr2' s"
    unfolding group_settled_def by metis
  with assms(12) obtain s where s: "s \<in> set items" "sts_name s = ar_name r1"
      "sts_labels s RolloutGroupLabelKey = Some (pi_rolloutGroup info2)"
      "GetMinTimeBetweenZonesDownscale (sts_annotations s) (sts_labels s) = Some w"
    by metis
  then have "waited_for (\<lambda>s. lastDownscaled ztl (sts_name s)) E2 tr2 tr2' s" using all assms(10) by metis
  then obtain t2 where t2: "extends tr2 t2" "m \<le> time_sub (e_now E2 t2) u"
    using last parse s(2,4) assms(13) unfolding waited_for_def by metis
  have "e_now E2 t2 - u < m" using assms(15) t2(1) u by fastforce
  then have "time_sub (e_now E2 t2) u < m"
    using time_sub_less_iff [OF ParseDuration_range [OF assms(13)]] assms(14) by simp
  with t2(2) show False by simp
qed

text \<open>the lock of a rollout group never refuses a request. The entry point builds a tracker, and with it an empty lock map, for every
  request, so once the searches of a group have passed the request goes on, whatever other requests for the group are in progress.\<close>

theorem zone_lock_never_refuses:
  assumes "zt_searches E J tr (newZoneTracker clusterDomain namespace cm) r old new g = (Ok None, zt1, tr1)"
  shows "zt_check_rollout_group E J tr (newZoneTracker clusterDomain namespace cm) r old new g
           = (Ok None, zt1\<lparr>zt_inProgress := [(g, ar_name r)]\<rparr>, tr1)"
  using zt_searches_frame(1) [OF assms] assms
  by (simp add: zt_check_rollout_group_def newZoneTracker_def LoadOrStore_def)

section \<open>Witnesses\<close>

text \<open>A codec for the witnesses: the object with its one field, and the inverse that strips what surrounds the value.\<close>

definition demo_open :: string where
  "demo_open = CHR 0x7B # CHR 0x22 # ''lastDownscaled'' @ [CHR 0x22, CHR 0x3A, CHR 0x22]"

definition demo_codec :: json_codec where
  "demo_codec =
     \<lparr>jc_marshal = (\<lambda>zi. Reply (demo_open @ zi_LastDownscaled zi @ [CHR 0x22, CHR 0x7D])),
      jc_unmarshal = (\<lambda>b. Reply \<lparr>zi_LastDownscaled = take (length b - 21) (drop 19 b)\<rparr>)\<rparr>"

lemma demo_codec_inverse: "codec_inverse demo_codec"
  by (auto simp: codec_inverse_def demo_codec_def demo_open_def)

text \<open>A zone with a downscale recorded long ago, and the ConfigMap after the downscale of \<open>zone-a\<close>.\<close>

definition demo_zone_data :: "string \<Rightarrow> instant \<Rightarrow> string \<times> string" where
  "demo_zone_data n t = (n, demo_open @ FormatRFC3339 t @ [CHR 0x22, CHR 0x7D])"

definition demo_zone_before :: env where
  "demo_zone_before = (demo_before 200)
     \<lparr>e_get_config_map := (\<lambda>_ _ _. Reply [demo_zone_data ''zone-b'' 0])\<rparr>"

definition demo_zone_after :: env where
  "demo_zone_after = (demo_after (1000000000000000000 + 11 * hour))
     \<lparr>e_get_config_map := (\<lambda>_ _ _. Reply [demo_zone_data ''zone-a'' 1000000000000000000, demo_zone_data ''zone-b'' 0])\<rparr>"

lemma demo_zone_prepared:
  "case PrepareDownscaleWebhook demo_zone_before (demo_dec ''zone-a'' 2 1) demo_codec ([], []) [] (Some demo_request) True ''zones'' ''cluster.local.'' of
     Some (Ok resp, tr') \<Rightarrow> adm_allowed resp \<and>
       last tr' = EvUpdateConfigMap ''ns'' ''zones'' [demo_zone_data ''zone-b'' 0, demo_zone_data ''zone-a'' 1000000000000000000]
   | _ \<Rightarrow> False"
  by code_simp

lemma demo_zone_second:
  "case PrepareDownscaleWebhook demo_zone_after (demo_dec ''zone-b'' 1 0) demo_codec ([], []) []
       (Some (demo_request\<lparr>ar_name := ''zone-b''\<rparr>)) True ''zones'' ''cluster.local.'' of
     Some (Ok resp, tr') \<Rightarrow> True | _ \<Rightarrow> False"
  by code_simp

lemma demo_zone_searched:
  "case zt_searches demo_zone_before demo_codec [] (newZoneTracker ''cluster.local.'' ''ns'' ''zones'') demo_request 2 1 ''ingester'' of
     (Ok None, zt1, tr1) \<Rightarrow> True | _ \<Rightarrow> False"
  by code_simp

lemma demo_zone_run:
  obtains resp tr' where
    "PrepareDownscaleWebhook demo_zone_before (demo_dec ''zone-a'' 2 1) demo_codec ([], []) [] (Some demo_request) True ''zones'' ''cluster.local.'' = Some (Ok resp, tr')"
    and "adm_allowed resp"
    and "last tr' = EvUpdateConfigMap (ar_namespace demo_request) ''zones'' [demo_zone_data ''zone-b'' 0, demo_zone_data ''zone-a'' 1000000000000000000]"
  using demo_zone_prepared by (auto simp: demo_request_def split: option.splits prod.splits res.splits)

theorem zone_tracker_records_downscale_witness:
  "\<exists>tr'. accepted demo_zone_before POST [] tr'
           (shutdown_endpoint_of demo_request (prepareInfo (demo_prep ''zone-a'' 2 Map.empty)) ''cluster.local.'' 1)"
proof -
  obtain resp tr' where run:
    "PrepareDownscaleWebhook demo_zone_before (demo_dec ''zone-a'' 2 1) demo_codec ([], []) [] (Some demo_request) True ''zones'' ''cluster.local.'' = Some (Ok resp, tr')"
    and al: "adm_allowed resp"
    by (rule demo_zone_run)
  from zone_tracker_records_downscale [OF run al demo_managed(1)] show ?thesis
    by (intro exI [of _ tr']) (simp add: is_int32_def)
qed

theorem saved_zones_are_loaded_witness:
  "\<exists>zt' tr2'. loadZones (steady_env 0 [] []\<lparr>e_get_config_map := (\<lambda>_ _ _. Reply [demo_zone_data ''zone-b'' 0, demo_zone_data ''zone-a'' 0])\<rparr>)
      demo_codec [] (newZoneTracker ''cluster.local.'' ''ns'' ''zones'') [] = (None, zt', tr2') \<and>
     lastDownscaled zt' ''zone-a'' = Some (FormatRFC3339 0)"
proof -
  let ?zt = "(newZoneTracker ''cluster.local.'' ''ns'' ''zones'')
    \<lparr>zt_zones := [(''zone-a'', \<lparr>zi_LastDownscaled = FormatRFC3339 0\<rparr>), (''zone-b'', \<lparr>zi_LastDownscaled = FormatRFC3339 0\<rparr>)]\<rparr>"
  let ?data = "[demo_zone_data ''zone-a'' 0, demo_zone_data ''zone-b'' 0]"
  have s: "saveZones (steady_env 0 [] []) demo_codec [] ?zt = (None, [] @ [EvUpdateConfigMap (zt_namespace ?zt) (zt_configMapName ?zt) ?data])"
    by (simp add: saveZones_def demo_codec_def demo_zone_data_def)
  have "\<exists>zt' tr2'. loadZones (steady_env 0 [] []\<lparr>e_get_config_map := (\<lambda>_ _ _. Reply [demo_zone_data ''zone-b'' 0, demo_zone_data ''zone-a'' 0])\<rparr>)
      demo_codec [] (newZoneTracker ''cluster.local.'' (zt_namespace ?zt) (zt_configMapName ?zt)) [] = (None, zt', tr2') \<and>
     (\<forall>zone. lastDownscaled zt' zone = lastDownscaled ?zt zone)"
    by (rule saved_zones_are_loaded [OF demo_codec_inverse _ s refl]) simp_all
  moreover have "lastDownscaled ?zt ''zone-a'' = Some (FormatRFC3339 0)" by (simp add: lastDownscaled_def)
  moreover have "zt_namespace ?zt = ''ns''" "zt_configMapName ?zt = ''zones''" by (simp_all add: newZoneTracker_def)
  ultimately show ?thesis by metis
qed

theorem zone_tracker_second_zone_is_refused_witness:
  "\<exists>resp tr'. PrepareDownscaleWebhook demo_zone_after (demo_dec ''zone-b'' 1 0) demo_codec ([], []) []
     (Some (demo_request\<lparr>ar_name := ''zone-b''\<rparr>)) True ''zones'' ''cluster.local.'' = Some (Ok resp, tr') \<and> \<not> adm_allowed resp"
proof -
  obtain resp1 tr1' where run1:
    "PrepareDownscaleWebhook demo_zone_before (demo_dec ''zone-a'' 2 1) demo_codec ([], []) [] (Some demo_request) True ''zones'' ''cluster.local.'' = Some (Ok resp1, tr1')"
    and al: "adm_allowed resp1"
    and last: "last tr1' = EvUpdateConfigMap (ar_namespace demo_request) ''zones'' [demo_zone_data ''zone-b'' 0, demo_zone_data ''zone-a'' 1000000000000000000]"
    by (rule demo_zone_run)
  obtain resp2 tr2' where run2:
    "PrepareDownscaleWebhook demo_zone_after (demo_dec ''zone-b'' 1 0) demo_codec ([], []) []
       (Some (demo_request\<lparr>ar_name := ''zone-b''\<rparr>)) True ''zones'' ''cluster.local.'' = Some (Ok resp2, tr2')"
    using demo_zone_second by (auto split: option.splits prod.splits res.splits)
  have "\<not> adm_allowed resp2"
  proof (rule zone_tracker_second_zone_is_refused [OF demo_codec_inverse run1 al demo_managed(1) last _ run2 demo_managed(2) _ _ _ _ demo_half_day])
    show "\<forall>t. extends [] t \<longrightarrow> 1000000000000000000 \<le> e_now demo_zone_before t \<and> writable_time (e_now demo_zone_before t)"
      using demo_time by (simp add: demo_zone_before_def demo_before_def)
  qed (simp_all add: demo_request_def demo_zone_after_def demo_zone_data_def demo_after_def demo_prep_def demo_sts_def prepareInfo_def
      config_keys GetMinTimeBetweenZonesDownscale_def hour_def minute_def second_def)
  with run2 show ?thesis by blast
qed

theorem zone_lock_never_refuses_witness:
  "\<exists>zt2 tr1. zt_check_rollout_group demo_zone_before demo_codec [] (newZoneTracker ''cluster.local.'' ''ns'' ''zones'')
     demo_request 2 1 ''ingester'' = (Ok None, zt2, tr1)"
proof -
  obtain zt1 tr1 where "zt_searches demo_zone_before demo_codec [] (newZoneTracker ''cluster.local.'' ''ns'' ''zones'') demo_request 2 1 ''ingester''
      = (Ok None, zt1, tr1)"
    using demo_zone_searched by (auto split: prod.splits res.splits option.splits)
  from zone_lock_never_refuses [OF this] show ?thesis by blast
qed

end
