(* ===== verification/TlsCert.thy ===== *)
theory TlsCert
  imports Kube "HOL-Library.AList" "HOL-Library.Sublist"
begin

text \<open>
  \<^verbatim>\<open>pkg/tlscert\<close> and \<^verbatim>\<open>pkg/webhooks\<close>: the certificate of the webhook server, kept in a Kubernetes secret; the injection of its CA
  into the webhook configurations an informer delivers; and the collector that reports their failure policies.

  Certificates and keys are byte strings. \<^verbatim>\<open>tls.X509KeyPair\<close> (the DER blocks of a pair), \<^verbatim>\<open>x509.ParseCertificate\<close> (here the end of the
  validity of a block) and the generation of a certificate are functions of the environment, like the API server and the clock.
\<close>

section \<open>Data and environment\<close>

record Certificate =
  cert_CA :: string
  cert_Cert :: string
  cert_Key :: string

record secret =
  sec_name :: string
  sec_namespace :: string
  sec_data :: "(string \<times> string) list"

text \<open>A webhook of a configuration, and a validating or mutating configuration.\<close>

record webhook =
  wh_name :: string
  wh_CABundle :: string
  wh_FailurePolicy :: "string option"

record webhook_config =
  wc_name :: string
  wc_labels :: strmap
  wc_webhooks :: "webhook list"

datatype tls_event =
    TNow | TGetSecret string | TUpdateSecret secret | TCreateSecret secret | TProvide | TReadFile string
  | TRestartAfter duration | TPatchValidating webhook_config | TPatchMutating webhook_config

type_synonym tls_trace = "tls_event list"

record tls_env =
  t_now :: "tls_trace \<Rightarrow> instant"
  t_get_secret :: "tls_trace \<Rightarrow> string \<Rightarrow> secret reply"
  t_update_secret :: "tls_trace \<Rightarrow> secret \<Rightarrow> secret reply"
  t_create_secret :: "tls_trace \<Rightarrow> secret \<Rightarrow> secret reply"
  t_provider :: "tls_trace \<Rightarrow> Certificate reply"
  t_read_file :: "tls_trace \<Rightarrow> string \<Rightarrow> string reply"
  t_X509KeyPair :: "string \<Rightarrow> string \<Rightarrow> string list reply"
  t_ParseCertificate :: "string \<Rightarrow> instant reply"
  t_marshal :: "webhook_config \<Rightarrow> string reply"
  t_patch_validating :: "tls_trace \<Rightarrow> webhook_config \<Rightarrow> unit reply"
  t_patch_mutating :: "tls_trace \<Rightarrow> webhook_config \<Rightarrow> unit reply"

section \<open>The certificate in the secret\<close>

definition checkSecretDataFields :: "secret \<Rightarrow> string \<Rightarrow> string \<Rightarrow> err option" where
  "checkSecretDataFields s name namespace =
     (let missing = (\<lambda>key. Some (Err (''secret '' @ quoted name @ '' in namespace '' @ quoted namespace
                        @ '' does not contain a '' @ key @ '' key, delete the secret and try again'')))
      in if map_of (sec_data s) ''ca'' = None then missing ''ca''
         else if map_of (sec_data s) ''cert'' = None then missing ''cert''
         else if map_of (sec_data s) ''key'' = None then missing ''key''
         else None)"

text \<open>\<^verbatim>\<open>secret.Data[k]\<close>: nil, here the empty string, for a missing key.\<close>

definition data_field :: "secret \<Rightarrow> string \<Rightarrow> string" where
  "data_field s k = (case map_of (sec_data s) k of None \<Rightarrow> '''' | Some v \<Rightarrow> v)"

definition secretToCertificate :: "secret \<Rightarrow> Certificate res" where
  "secretToCertificate s =
     (case checkSecretDataFields s (sec_name s) (sec_namespace s) of
        Some e \<Rightarrow> Panic (''secretToCertificate called with invalid secret: '' @ errmsg e)
      | None \<Rightarrow> Ok \<lparr>cert_CA = data_field s ''ca'', cert_Cert = data_field s ''cert'', cert_Key = data_field s ''key''\<rparr>)"

definition certificateToSecret :: "string \<Rightarrow> Certificate \<Rightarrow> secret" where
  "certificateToSecret secretName c =
     \<lparr>sec_name = secretName, sec_namespace = '''',
      sec_data = [(''ca'', cert_CA c), (''cert'', cert_Cert c), (''key'', cert_Key c)]\<rparr>"

text \<open>The loop over the certificates of a pair.\<close>

fun all_valid :: "tls_env \<Rightarrow> string \<Rightarrow> tls_trace \<Rightarrow> nat \<Rightarrow> string list \<Rightarrow> bool res \<times> tls_trace" where
  "all_valid E secretName tr i [] = (Ok True, tr)"
| "all_valid E secretName tr i (b # bs) =
     (case t_ParseCertificate E b of
        Error e \<Rightarrow> (Fail (Err (''secret '' @ secretName @ '' does not contain a valid certificate '' @ Itoa (int i) @ '': ''
                            @ errmsg e @ '', delete the secret and try again'')), tr)
      | Reply validUntil \<Rightarrow>
          if validUntil < t_now E tr then (Ok False, tr @ [TNow])
          else all_valid E secretName (tr @ [TNow]) (Suc i) bs)"

definition containsValidCertificate :: "tls_env \<Rightarrow> string \<Rightarrow> string \<Rightarrow> tls_trace \<Rightarrow> secret \<Rightarrow> bool res \<times> tls_trace" where
  "containsValidCertificate E secretName namespace tr s =
     (if sec_data s = [] then (Ok False, tr)
      else
        (case checkSecretDataFields s secretName namespace of
           Some e \<Rightarrow> (Fail e, tr)
         | None \<Rightarrow>
             (case t_X509KeyPair E (data_field s ''cert'') (data_field s ''key'') of
                Error e \<Rightarrow> (Fail (Err (''secret '' @ secretName @ '' does not contain a valid certificate pair: '' @ errmsg e
                                    @ '', delete the secret and try again'')), tr)
              | Reply [] \<Rightarrow> (Fail (Err (''secret '' @ secretName
                                    @ '' does not contain a valid certificate pair: no certificates found'')), tr)
              | Reply bs \<Rightarrow> all_valid E secretName tr 0 bs)))"

definition updateCertificateSecret :: "tls_env \<Rightarrow> string \<Rightarrow> tls_trace \<Rightarrow> Certificate \<Rightarrow> Certificate res \<times> tls_trace" where
  "updateCertificateSecret E secretName tr c =
     ((case t_update_secret E tr (certificateToSecret secretName c) of
         Error e \<Rightarrow> Fail (wrapf ''failed to update certificate secret: '' e)
       | Reply s \<Rightarrow> secretToCertificate s),
      tr @ [TUpdateSecret (certificateToSecret secretName c)])"

definition createCertificateSecret ::
    "tls_env \<Rightarrow> string \<Rightarrow> string \<Rightarrow> tls_trace \<Rightarrow> Certificate \<Rightarrow> Certificate res \<times> tls_trace" where
  "createCertificateSecret E secretName namespace tr c =
     (let tr1 = tr @ [TCreateSecret (certificateToSecret secretName c)] in
      case t_create_secret E tr (certificateToSecret secretName c) of
        Reply s \<Rightarrow> (secretToCertificate s, tr1)
      | Error (AlreadyExists m) \<Rightarrow>
          (let tr2 = tr1 @ [TGetSecret secretName] in
           case t_get_secret E tr1 secretName of
             Error e \<Rightarrow> (Fail (wrapf ''failed to get secret after being unable to create it: '' e), tr2)
           | Reply s \<Rightarrow>
               (case containsValidCertificate E secretName namespace tr2 s of
                  (Panic p, tr3) \<Rightarrow> (Panic p, tr3)
                | (Fail e, tr3) \<Rightarrow> (Fail e, tr3)
                | (Ok True, tr3) \<Rightarrow> (secretToCertificate s, tr3)
                | (Ok False, tr3) \<Rightarrow>
                    (Fail (Err ''tried to create a cert because it didn't exist, but it exists now and it doesn't contain a valid certificate (see previous logs for details)''), tr3)))
      | Error e \<Rightarrow> (Fail (wrapf ''failed to create secret: '' e), tr1))"

text \<open>\<^verbatim>\<open>Certificate\<close> of the provider that persists another one's certificate.\<close>

definition persistedCertificate :: "tls_env \<Rightarrow> string \<Rightarrow> string \<Rightarrow> tls_trace \<Rightarrow> Certificate res \<times> tls_trace" where
  "persistedCertificate E secretName namespace tr =
     (let tr1 = tr @ [TGetSecret secretName];
          generate = (\<lambda>found tr2.
            (let tr3 = tr2 @ [TProvide] in
             case t_provider E tr2 of
               Error e \<Rightarrow> (Fail (wrapf ''failed to generate ca and certificate key pair: '' e), tr3)
             | Reply c \<Rightarrow> if found then updateCertificateSecret E secretName tr3 c
                          else createCertificateSecret E secretName namespace tr3 c))
      in case t_get_secret E tr secretName of
           Error (NotFound m) \<Rightarrow> generate False tr1
         | Error e \<Rightarrow> (Fail (wrapf ''failed to get secret: '' e), tr1)
         | Reply s \<Rightarrow>
             (case containsValidCertificate E secretName namespace tr1 s of
                (Panic p, tr2) \<Rightarrow> (Panic p, tr2)
              | (Fail e, tr2) \<Rightarrow> (Fail e, tr2)
              | (Ok True, tr2) \<Rightarrow> (secretToCertificate s, tr2)
              | (Ok False, tr2) \<Rightarrow> generate True tr2))"

section \<open>The certificate of the server\<close>

record FileCertProvider =
  fcp_Cert :: string
  fcp_Key :: string

definition NewFileCertProvider :: "tls_env \<Rightarrow> string \<Rightarrow> string \<Rightarrow> tls_trace \<Rightarrow> FileCertProvider res \<times> tls_trace" where
  "NewFileCertProvider E certFile keyFile tr =
     (let tr1 = tr @ [TReadFile certFile] in
      case t_read_file E tr certFile of
        Error e \<Rightarrow> (Fail e, tr1)
      | Reply cert \<Rightarrow>
          (let tr2 = tr1 @ [TReadFile keyFile] in
           case t_read_file E tr1 keyFile of
             Error e \<Rightarrow> (Fail e, tr2)
           | Reply key \<Rightarrow> (Ok \<lparr>fcp_Cert = cert, fcp_Key = key\<rparr>, tr2)))"

definition fileCertificate :: "FileCertProvider \<Rightarrow> Certificate" where
  "fileCertificate cp = \<lparr>cert_CA = '''', cert_Cert = fcp_Cert cp, cert_Key = fcp_Key cp\<rparr>"

text \<open>\<^verbatim>\<open>fatal\<close> prints the message and exits: like a panic, nothing handles it.\<close>

definition fatal :: "string \<Rightarrow> 'a res" where
  "fatal m = Panic m"

text \<open>A timer that asks for a restart is set for every certificate of the pair.\<close>

fun watch_blocks :: "tls_env \<Rightarrow> tls_trace \<Rightarrow> nat \<Rightarrow> string list \<Rightarrow> unit res \<times> tls_trace" where
  "watch_blocks E tr i [] = (Ok (), tr)"
| "watch_blocks E tr i (b # bs) =
     (case t_ParseCertificate E b of
        Error e \<Rightarrow> (fatal (''failed to parse the provided certificate '' @ Itoa (int i) @ '': '' @ errmsg e), tr)
      | Reply notAfter \<Rightarrow>
          (let expiresIn = time_sub notAfter (t_now E tr) in
           if expiresIn \<le> 0 then (fatal (''the provided certificate '' @ Itoa (int i) @ '' is expired''), tr @ [TNow])
           else watch_blocks E (tr @ [TNow, TRestartAfter expiresIn]) (Suc i) bs))"

definition checkAndWatchCertificate :: "tls_env \<Rightarrow> tls_trace \<Rightarrow> Certificate \<Rightarrow> unit res \<times> tls_trace" where
  "checkAndWatchCertificate E tr c =
     (case t_X509KeyPair E (cert_Cert c) (cert_Key c) of
        Error e \<Rightarrow> (fatal (''failed to parse the provided certificate: '' @ errmsg e), tr)
      | Reply bs \<Rightarrow> watch_blocks E tr 0 bs)"

record tls_config =
  serverTLSEnabled :: bool
  serverSelfSignedCert :: bool
  serverSelfSignedCertSecretName :: string
  serverCertFile :: string
  serverKeyFile :: string
  updateWebhooksWithSelfSignedCABundle :: bool
  kubeNamespace :: string

definition providedCertificate :: "tls_env \<Rightarrow> tls_config \<Rightarrow> tls_trace \<Rightarrow> Certificate res \<times> tls_trace" where
  "providedCertificate E cfg tr =
     (if serverSelfSignedCert cfg then
        persistedCertificate E (serverSelfSignedCertSecretName cfg) (kubeNamespace cfg) tr
      else if serverCertFile cfg \<noteq> '''' \<and> serverKeyFile cfg \<noteq> '''' then
        (case NewFileCertProvider E (serverCertFile cfg) (serverKeyFile cfg) tr of
           (Ok cp, tr1) \<Rightarrow> (Ok (fileCertificate cp), tr1)
         | (Fail e, tr1) \<Rightarrow> (fatal (''failed to create file cert provider: '' @ errmsg e), tr1)
         | (Panic m, tr1) \<Rightarrow> (Panic m, tr1))
      else (fatal ''either self-signed certificate should be enabled or path to the certificate and key should be provided'', tr))"

text \<open>
  \<^verbatim>\<open>maybeStartTLSServer\<close> up to the registration of the handlers: \<^term>\<open>Ok None\<close> if no TLS server is wanted, otherwise the certificate the
  server is started with.
\<close>

definition certificateForServer :: "tls_env \<Rightarrow> tls_config \<Rightarrow> tls_trace \<Rightarrow> Certificate option res \<times> tls_trace" where
  "certificateForServer E cfg tr =
     (if \<not> serverTLSEnabled cfg then (Ok None, tr)
      else
        (case providedCertificate E cfg tr of
           (Panic m, tr1) \<Rightarrow> (Panic m, tr1)
         | (Fail e, tr1) \<Rightarrow> (Fail (wrapf ''failed to get certificate: '' e), tr1)
         | (Ok c, tr1) \<Rightarrow>
             (case checkAndWatchCertificate E tr1 c of
                (Panic m, tr2) \<Rightarrow> (Panic m, tr2)
              | (Fail e, tr2) \<Rightarrow> (Fail e, tr2)
              | (Ok _, tr2) \<Rightarrow>
                  if updateWebhooksWithSelfSignedCABundle cfg \<and> \<not> serverSelfSignedCert cfg
                  then (fatal ''self-signed certificate should be enabled to update the CA bundle in the webhook configurations'', tr2)
                  else (Ok (Some c), tr2))))"

section \<open>Injecting the CA bundle\<close>

text \<open>
  \<^verbatim>\<open>metav1.LabelSelectorAsSelector\<close> of two equalities; a value that is not a label value is an error. The second result is
  the webhook configuration after the call: the code writes the bundle into the object it was given, which belongs to the
  cache of the informer.
\<close>

definition inject_requirements :: "string \<Rightarrow> selector res" where
  "inject_requirements namespace =
     (case NewRequirement ''grafana.com/inject-rollout-operator-ca'' Equals [''true''] of
        Fail e \<Rightarrow> Fail e
      | Panic m \<Rightarrow> Panic m
      | Ok r1 \<Rightarrow>
          (case NewRequirement ''grafana.com/namespace'' Equals [namespace] of
             Fail e \<Rightarrow> Fail e
           | Panic m \<Rightarrow> Panic m
           | Ok r2 \<Rightarrow> Ok [r1, r2]))"

definition set_bundle :: "string \<Rightarrow> webhook_config \<Rightarrow> webhook_config" where
  "set_bundle caPEM wc = wc\<lparr>wc_webhooks := map (\<lambda>w. w\<lparr>wh_CABundle := caPEM\<rparr>) (wc_webhooks wc)\<rparr>"

definition patch_bundle :: "tls_env \<Rightarrow> (tls_trace \<Rightarrow> webhook_config \<Rightarrow> unit reply) \<Rightarrow> (webhook_config \<Rightarrow> tls_event) \<Rightarrow> string
    \<Rightarrow> string \<Rightarrow> string \<Rightarrow> tls_trace \<Rightarrow> webhook_config \<Rightarrow> unit res \<times> webhook_config \<times> tls_trace" where
  "patch_bundle E patch ev kind namespace caPEM tr wc =
     (case inject_requirements namespace of
        Panic m \<Rightarrow> (Panic m, wc, tr)
      | Fail e \<Rightarrow> (Fail e, wc, tr)
      | Ok sel \<Rightarrow>
          if \<not> sel_matches sel (wc_labels wc) then (Ok (), wc, tr)
          else
            (let wc1 = set_bundle caPEM wc in
             if list_all (\<lambda>w. wh_CABundle w = caPEM) (wc_webhooks wc) then (Ok (), wc1, tr)
             else
               (case t_marshal E wc1 of
                  Error e \<Rightarrow> (Fail (wrapf (''failed to marshal '' @ kind @ '' webhook configuration: '') e), wc1, tr)
                | Reply data \<Rightarrow>
                    ((case patch tr wc1 of
                        Error e \<Rightarrow> Fail (wrapf (''failed to patch '' @ kind @ '' webhook configuration: '') e)
                      | Reply _ \<Rightarrow> Ok ()),
                     wc1, tr @ [ev wc1]))))"

definition PatchCABundleOnValidatingWebhook ::
    "tls_env \<Rightarrow> string \<Rightarrow> string \<Rightarrow> tls_trace \<Rightarrow> webhook_config \<Rightarrow> unit res \<times> webhook_config \<times> tls_trace" where
  "PatchCABundleOnValidatingWebhook E namespace caPEM tr wc =
     patch_bundle E (t_patch_validating E) TPatchValidating ''validating'' namespace caPEM tr wc"

definition PatchCABundleOnMutatingWebhook ::
    "tls_env \<Rightarrow> string \<Rightarrow> string \<Rightarrow> tls_trace \<Rightarrow> webhook_config \<Rightarrow> unit res \<times> webhook_config \<times> tls_trace" where
  "PatchCABundleOnMutatingWebhook E namespace caPEM tr wc =
     patch_bundle E (t_patch_mutating E) TPatchMutating ''mutating'' namespace caPEM tr wc"

section \<open>Observing webhook configurations\<close>

text \<open>
  A listener of the observer, over a state of its own (here the trace of calls, or the collector). It receives a pointer to
  the object in the cache of the informer, so its result contains the object as it is afterwards.
\<close>

datatype webhook_object = ValidatingObject webhook_config | MutatingObject webhook_config | OtherObject

record 's WebhookConfigurationListener =
  OnValidatingWebhookConfiguration :: "'s \<Rightarrow> webhook_config \<Rightarrow> unit res \<times> webhook_config \<times> 's"
  OnMutatingWebhookConfiguration :: "'s \<Rightarrow> webhook_config \<Rightarrow> unit res \<times> webhook_config \<times> 's"

text \<open>An error of the listener is logged only.\<close>

fun logged :: "unit res \<Rightarrow> unit res" where
  "logged (Fail e) = Ok ()"
| "logged r = r"

fun onWebHookConfigurationObserved ::
    "'s WebhookConfigurationListener \<Rightarrow> 's \<Rightarrow> webhook_object \<Rightarrow> unit res \<times> webhook_object \<times> 's" where
  "onWebHookConfigurationObserved l s (ValidatingObject wc) =
     (let (r, wc1, s1) = OnValidatingWebhookConfiguration l s wc in (logged r, ValidatingObject wc1, s1))"
| "onWebHookConfigurationObserved l s (MutatingObject wc) =
     (let (r, wc1, s1) = OnMutatingWebhookConfiguration l s wc in (logged r, MutatingObject wc1, s1))"
| "onWebHookConfigurationObserved l s OtherObject = (Ok (), OtherObject, s)"

text \<open>The informer hands out every object of its cache: when it starts, and again every five minutes.\<close>

fun resync :: "'s WebhookConfigurationListener \<Rightarrow> 's \<Rightarrow> webhook_object list \<Rightarrow> unit res \<times> webhook_object list \<times> 's" where
  "resync l s [] = (Ok (), [], s)"
| "resync l s (obj # objs) =
     (case onWebHookConfigurationObserved l s obj of
        (Ok _, obj1, s1) \<Rightarrow> (let (r, objs1, s2) = resync l s1 objs in (r, obj1 # objs1, s2))
      | (r, obj1, s1) \<Rightarrow> (r, obj1 # objs, s1))"

definition ca_listener :: "tls_env \<Rightarrow> string \<Rightarrow> string \<Rightarrow> tls_trace WebhookConfigurationListener" where
  "ca_listener E namespace ca =
     \<lparr>OnValidatingWebhookConfiguration = PatchCABundleOnValidatingWebhook E namespace ca,
      OnMutatingWebhookConfiguration = PatchCABundleOnMutatingWebhook E namespace ca\<rparr>"

section \<open>The collector of failure policies\<close>

text \<open>The settings are Go maps; the order of a list is the order of one iteration over it.\<close>

record WebhookCollector =
  col_namespace :: string
  validatingWebhooksSettings :: "(string \<times> string) list"
  mutatingWebhooksSettings :: "(string \<times> string) list"
  observationCounter :: int

definition NewWebhookCollector :: "string \<Rightarrow> WebhookCollector" where
  "NewWebhookCollector namespace =
     \<lparr>col_namespace = namespace, validatingWebhooksSettings = [], mutatingWebhooksSettings = [], observationCounter = 0\<rparr>"

definition policy_of :: "webhook \<Rightarrow> string" where
  "policy_of w = (case wh_FailurePolicy w of None \<Rightarrow> ''Fail'' | Some p \<Rightarrow> p)"

fun set_policies :: "(string \<times> string) list \<Rightarrow> webhook list \<Rightarrow> (string \<times> string) list" where
  "set_policies m [] = m"
| "set_policies m (w # ws) = set_policies (AList.update (wh_name w) (policy_of w) m) ws"

definition onValidatingObserved :: "WebhookCollector \<Rightarrow> webhook_config \<Rightarrow> unit res \<times> webhook_config \<times> WebhookCollector" where
  "onValidatingObserved c wc =
     (let c1 = c\<lparr>observationCounter := wrap64 (observationCounter c + 1)\<rparr> in
      case NewRequirement ''grafana.com/namespace'' Equals [col_namespace c] of
        Panic m \<Rightarrow> (Panic m, wc, c1)
      | Fail e \<Rightarrow> (Fail e, wc, c1)
      | Ok r \<Rightarrow>
          if \<not> sel_matches [r] (wc_labels wc) then (Ok (), wc, c1)
          else (Ok (), wc, c1\<lparr>validatingWebhooksSettings := set_policies (validatingWebhooksSettings c) (wc_webhooks wc)\<rparr>))"

definition onMutatingObserved :: "WebhookCollector \<Rightarrow> webhook_config \<Rightarrow> unit res \<times> webhook_config \<times> WebhookCollector" where
  "onMutatingObserved c wc =
     (let c1 = c\<lparr>observationCounter := wrap64 (observationCounter c + 1)\<rparr> in
      case NewRequirement ''grafana.com/namespace'' Equals [col_namespace c] of
        Panic m \<Rightarrow> (Panic m, wc, c1)
      | Fail e \<Rightarrow> (Fail e, wc, c1)
      | Ok r \<Rightarrow>
          if \<not> sel_matches [r] (wc_labels wc) then (Ok (), wc, c1)
          else (Ok (), wc, c1\<lparr>mutatingWebhooksSettings := set_policies (mutatingWebhooksSettings c) (wc_webhooks wc)\<rparr>))"

definition collector_listener :: "WebhookCollector WebhookConfigurationListener" where
  "collector_listener =
     \<lparr>OnValidatingWebhookConfiguration = onValidatingObserved, OnMutatingWebhookConfiguration = onMutatingObserved\<rparr>"

definition policyTypes :: "string list" where
  "policyTypes = [''Fail'', ''Ignore'']"

definition boolToFloat :: "bool \<Rightarrow> nat" where
  "boolToFloat b = (if b then 1 else 0)"

text \<open>The samples: type, webhook, policy and value.\<close>

definition samples_of :: "string \<Rightarrow> (string \<times> string) list \<Rightarrow> (string \<times> string \<times> string \<times> nat) list" where
  "samples_of type m =
     concat (map (\<lambda>(name, failureMode). map (\<lambda>p. (type, name, p, boolToFloat (failureMode = p))) policyTypes) m)"

definition Collect :: "WebhookCollector \<Rightarrow> (string \<times> string \<times> string \<times> nat) list" where
  "Collect c = samples_of ''ValidatingWebhook'' (validatingWebhooksSettings c)
               @ samples_of ''MutatingWebhook'' (mutatingWebhooksSettings c)"

section \<open>Properties of the certificate\<close>

text \<open>A secret that holds the data of a certificate; the API server adds a namespace and other metadata.\<close>

definition holds_certificate :: "secret \<Rightarrow> Certificate \<Rightarrow> bool" where
  "holds_certificate s c \<longleftrightarrow> sec_data s = sec_data (certificateToSecret [] c)"

lemma holds_certificateToSecret [simp]: "holds_certificate (certificateToSecret n c) c"
  by (simp add: holds_certificate_def certificateToSecret_def)

lemma holds_certificateD:
  assumes "holds_certificate s c"
    shows "checkSecretDataFields s name namespace = None" "secretToCertificate s = Ok c" "sec_data s \<noteq> []"
      "data_field s ''cert'' = cert_Cert c" "data_field s ''key'' = cert_Key c"
  using assms
  by (simp_all add: holds_certificate_def certificateToSecret_def checkSecretDataFields_def secretToCertificate_def data_field_def)

lemma checkSecretDataFields_names: "checkSecretDataFields s name namespace = None \<Longrightarrow> checkSecretDataFields s name' namespace' = None"
  by (auto simp: checkSecretDataFields_def Let_def split: if_splits)

text \<open>A trace that grows by events of a given kind only.\<close>

definition grows_by :: "tls_event set \<Rightarrow> tls_trace \<Rightarrow> tls_trace \<Rightarrow> bool" where
  "grows_by A tr tr' \<longleftrightarrow> (\<exists>evs. tr' = tr @ evs \<and> set evs \<subseteq> A)"

lemma grows_by_refl [simp]: "grows_by A tr tr"
  by (simp add: grows_by_def)

lemma grows_by_append [intro]: "set evs \<subseteq> A \<Longrightarrow> grows_by A tr (tr @ evs)"
  by (auto simp: grows_by_def)

lemma grows_by_trans [trans]: "grows_by A tr tr' \<Longrightarrow> grows_by A tr' tr'' \<Longrightarrow> grows_by A tr tr''"
  by (auto simp: grows_by_def)

lemma grows_by_step: "grows_by A (tr @ evs) tr' \<Longrightarrow> set evs \<subseteq> A \<Longrightarrow> grows_by A tr tr'"
  by (auto simp: grows_by_def)

lemma grows_by_mono: "grows_by A tr tr' \<Longrightarrow> A \<subseteq> B \<Longrightarrow> grows_by B tr tr'"
  by (auto simp: grows_by_def)

text \<open>The checks of a pair only read the clock.\<close>

lemma all_valid_trace: "grows_by {TNow} tr (snd (all_valid E secretName tr i bs))"
proof (induction bs arbitrary: tr i)
  case (Cons b bs)
  show ?case
    using grows_by_step [OF Cons.IH [of "tr @ [TNow]" "Suc i"]] grows_by_append [of "[TNow]" "{TNow}" tr] by (auto split: reply.splits)
qed simp

lemma all_valid_expired:
  assumes "\<forall>b \<in> set bs. \<exists>t. t_ParseCertificate E b = Reply t"
      and "\<exists>b \<in> set bs. \<exists>t. t_ParseCertificate E b = Reply t \<and> (\<forall>tr. t < t_now E tr)"
    shows "fst (all_valid E secretName tr i bs) = Ok False"
  using assms
proof (induction bs arbitrary: tr i)
  case (Cons b bs)
  then show ?case by (cases "t_ParseCertificate E b") (force simp: Bex_def)+
qed simp

lemma all_valid_unexpired:
  assumes "\<forall>b \<in> set bs. \<exists>t. t_ParseCertificate E b = Reply t \<and> (\<forall>tr. t_now E tr \<le> t)"
    shows "fst (all_valid E secretName tr i bs) = Ok True"
  using assms by (induction bs arbitrary: tr i) (auto simp: not_less [symmetric])

lemma containsValidCertificate_trace: "grows_by {TNow} tr (snd (containsValidCertificate E secretName namespace tr s))"
  using all_valid_trace [of tr E secretName 0]
  by (auto simp: containsValidCertificate_def simp del: all_valid.simps split: option.splits reply.splits list.splits)

text \<open>A pair found valid has all the fields, so the conversion that follows cannot panic.\<close>

lemma containsValidCertificate_fields:
  "fst (containsValidCertificate E secretName namespace tr s) = Ok True \<Longrightarrow> checkSecretDataFields s secretName namespace = None"
  by (auto simp: containsValidCertificate_def split: if_splits option.splits)

lemma secretToCertificate_cases:
  "secretToCertificate s = Ok c \<longleftrightarrow>
     (\<forall>k \<in> {''ca'', ''cert'', ''key''}. map_of (sec_data s) k \<noteq> None)
   \<and> c = \<lparr>cert_CA = data_field s ''ca'', cert_Cert = data_field s ''cert'', cert_Key = data_field s ''key''\<rparr>"
  by (auto simp: secretToCertificate_def checkSecretDataFields_def)

lemma watch_blocks_trace: "grows_by ({TNow} \<union> range TRestartAfter) tr (snd (watch_blocks E tr i bs))"
proof (induction bs arbitrary: tr i)
  case (Cons b bs)
  show ?case
  proof (cases "t_ParseCertificate E b")
    case (Reply t)
    show ?thesis
      using grows_by_step [OF Cons.IH [of "tr @ [TNow, TRestartAfter (time_sub t (t_now E tr))]" "Suc i"]] Reply
      by (auto simp: Let_def)
  qed simp
qed simp

lemma watch_blocks_Ok:
  assumes "watch_blocks E tr i bs = (Ok (), tr')" and "b \<in> set bs"
    shows "\<exists>t pre post. t_ParseCertificate E b = Reply t \<and> tr' = pre @ post \<and> prefix tr pre
             \<and> t_now E pre < t \<and> TRestartAfter (time_sub t (t_now E pre)) \<in> set post"
  using assms
proof (induction bs arbitrary: tr i)
  case (Cons a bs)
  obtain t where t: "t_ParseCertificate E a = Reply t" "0 < time_sub t (t_now E tr)"
    and w: "watch_blocks E (tr @ [TNow, TRestartAfter (time_sub t (t_now E tr))]) (Suc i) bs = (Ok (), tr')"
    using Cons.prems(1) by (auto simp: fatal_def Let_def split: reply.splits if_splits)
  show ?case
  proof (cases "b = a")
    case True
    obtain evs where "tr' = tr @ TNow # TRestartAfter (time_sub t (t_now E tr)) # evs"
      using watch_blocks_trace [of "tr @ [TNow, TRestartAfter (time_sub t (t_now E tr))]" E "Suc i" bs] w
      by (auto simp: grows_by_def)
    then show ?thesis
      using t True by (intro exI [of _ t] exI [of _ tr] exI [of _ "TNow # TRestartAfter (time_sub t (t_now E tr)) # evs"]) (auto simp: time_sub_def)
  next
    case False
    with Cons.IH [OF w] Cons.prems(2) show ?thesis by (auto dest: append_prefixD)
  qed
qed simp

text \<open>Where a certificate comes from: read from the secret, or generated in this run and written to it.\<close>

definition read_from :: "tls_env \<Rightarrow> string \<Rightarrow> Certificate \<Rightarrow> tls_trace \<Rightarrow> bool" where
  "read_from E n c tr \<longleftrightarrow>
     (\<exists>pre s. prefix (pre @ [TGetSecret n]) tr \<and> t_get_secret E pre n = Reply s \<and> secretToCertificate s = Ok c)"

definition written_to :: "tls_env \<Rightarrow> string \<Rightarrow> Certificate \<Rightarrow> Certificate \<Rightarrow> tls_trace \<Rightarrow> bool" where
  "written_to E n g c tr \<longleftrightarrow>
     (\<exists>pre s. (prefix (pre @ [TUpdateSecret (certificateToSecret n g)]) tr \<and> t_update_secret E pre (certificateToSecret n g) = Reply s
             \<or> prefix (pre @ [TCreateSecret (certificateToSecret n g)]) tr \<and> t_create_secret E pre (certificateToSecret n g) = Reply s)
            \<and> secretToCertificate s = Ok c)"

lemma updateCertificateSecret_source:
  "updateCertificateSecret E n tr g = (Ok c, tr') \<Longrightarrow> written_to E n g c tr'"
  by (auto simp: updateCertificateSecret_def written_to_def split: reply.splits)

lemma containsValid_then_read:
  assumes "containsValidCertificate E n ns (tr @ [TGetSecret n]) s = (Ok True, tr')" and "t_get_secret E tr n = Reply s"
      and "secretToCertificate s = Ok c"
    shows "read_from E n c tr'"
  using containsValidCertificate_trace [of "tr @ [TGetSecret n]" E n ns s] assms
  by (auto simp: read_from_def grows_by_def intro!: exI [of _ tr] exI [of _ s])

lemma createCertificateSecret_source:
  assumes "createCertificateSecret E n ns tr g = (Ok c, tr')"
    shows "written_to E n g c tr' \<or> read_from E n c tr'"
proof (cases "t_create_secret E tr (certificateToSecret n g)")
  case (Reply s)
  with assms show ?thesis by (auto simp: createCertificateSecret_def written_to_def)
next
  case (Error e)
  let ?tr1 = "tr @ [TCreateSecret (certificateToSecret n g)]"
  from assms Error obtain s where "t_get_secret E ?tr1 n = Reply s" "secretToCertificate s = Ok c"
    "containsValidCertificate E n ns (?tr1 @ [TGetSecret n]) s = (Ok True, tr')"
    by (auto simp: createCertificateSecret_def Let_def split: err.splits reply.splits prod.splits res.splits bool.splits)
  then show ?thesis using containsValid_then_read by blast
qed

definition generated :: "tls_env \<Rightarrow> Certificate \<Rightarrow> tls_trace \<Rightarrow> bool" where
  "generated E g tr \<longleftrightarrow> (\<exists>pre. prefix (pre @ [TProvide]) tr \<and> t_provider E pre = Reply g)"

lemma createCertificateSecret_trace: "\<exists>evs. snd (createCertificateSecret E n ns tr g) = tr @ evs"
  using containsValidCertificate_trace [of _ E n ns]
  by (auto simp: createCertificateSecret_def Let_def grows_by_def split: reply.splits err.splits prod.splits res.splits bool.splits)
    (metis append.assoc snd_conv)+

lemma generated_append: "t_provider E tr = Reply g \<Longrightarrow> generated E g ((tr @ [TProvide]) @ evs)"
  by (auto simp: generated_def intro!: exI [of _ tr])

lemma written_to_generated:
  assumes "written_to E n g c tr'" "t_provider E tr = Reply g" "tr' = (tr @ [TProvide]) @ evs"
    shows "\<exists>g. generated E g tr' \<and> written_to E n g c tr'"
  using assms generated_append by blast

lemma persistedCertificate_source:
  assumes "persistedCertificate E n ns tr = (Ok c, tr')"
    shows "read_from E n c tr' \<or> (\<exists>g. generated E g tr' \<and> written_to E n g c tr')"
proof -
  let ?tr1 = "tr @ [TGetSecret n]"
  consider (valid) s where "t_get_secret E tr n = Reply s" "containsValidCertificate E n ns ?tr1 s = (Ok True, tr')"
      "secretToCertificate s = Ok c"
    | (renewed) s tr2 g where "t_get_secret E tr n = Reply s" "containsValidCertificate E n ns ?tr1 s = (Ok False, tr2)"
      "t_provider E tr2 = Reply g" "updateCertificateSecret E n (tr2 @ [TProvide]) g = (Ok c, tr')"
    | (created) g where "t_provider E ?tr1 = Reply g" "createCertificateSecret E n ns (?tr1 @ [TProvide]) g = (Ok c, tr')"
    using assms
    by (auto simp: persistedCertificate_def Let_def split: err.splits reply.splits prod.splits res.splits bool.splits)
  then show ?thesis
  proof cases
    case valid
    then show ?thesis using containsValid_then_read by blast
  next
    case renewed
    have "tr' = (tr2 @ [TProvide]) @ [TUpdateSecret (certificateToSecret n g)]"
      using renewed(4) by (simp add: updateCertificateSecret_def)
    then show ?thesis using written_to_generated updateCertificateSecret_source renewed by blast
  next
    case created
    obtain evs where "tr' = (?tr1 @ [TProvide]) @ evs"
      using createCertificateSecret_trace [of E n ns "?tr1 @ [TProvide]" g] created(2) by auto
    then show ?thesis using written_to_generated createCertificateSecret_source created by blast
  qed
qed

text \<open>C30: A TLS server that starts with a certificate has checked it: every block of the pair parses and had not expired when it was looked
  at, a restart is scheduled for the moment it does, and a self-signed certificate was read from the secret or has been
  generated in this run and written to it.\<close>
theorem served_certificate_is_valid:
  assumes "certificateForServer E cfg tr = (Ok (Some c), tr')"
    shows "(\<exists>bs. t_X509KeyPair E (cert_Cert c) (cert_Key c) = Reply bs
              \<and> (\<forall>b \<in> set bs. \<exists>t pre post. t_ParseCertificate E b = Reply t \<and> tr' = pre @ post
                    \<and> t_now E pre < t \<and> TRestartAfter (time_sub t (t_now E pre)) \<in> set post))
         \<and> (serverSelfSignedCert cfg \<longrightarrow>
              (\<exists>q. prefix q tr' \<and> (read_from E (serverSelfSignedCertSecretName cfg) c q
                 \<or> (\<exists>g. generated E g q \<and> written_to E (serverSelfSignedCertSecretName cfg) g c q))))"
    (is "?valid \<and> (_ \<longrightarrow> ?source)")
proof -
  obtain tr1 where c: "providedCertificate E cfg tr = (Ok c, tr1)" "checkAndWatchCertificate E tr1 c = (Ok (), tr')"
    using assms by (auto simp: certificateForServer_def fatal_def split: if_splits prod.splits res.splits)
  then obtain bs where bs: "t_X509KeyPair E (cert_Cert c) (cert_Key c) = Reply bs" "watch_blocks E tr1 0 bs = (Ok (), tr')"
    by (auto simp: checkAndWatchCertificate_def fatal_def split: reply.splits)
  have ?valid using bs(1) watch_blocks_Ok [OF bs(2)] by blast
  moreover have ?source if "serverSelfSignedCert cfg"
  proof -
    have "persistedCertificate E (serverSelfSignedCertSecretName cfg) (kubeNamespace cfg) tr = (Ok c, tr1)"
      using c(1) that by (simp add: providedCertificate_def)
    moreover have "prefix tr1 tr'" using watch_blocks_trace [of tr1 E 0 bs] bs(2) by (auto simp: grows_by_def)
    ultimately show ?thesis using persistedCertificate_source by blast
  qed
  ultimately show ?thesis by blast
qed

lemma containsValidCertificate_pair:
  assumes "checkSecretDataFields s n ns = None" and "t_X509KeyPair E (data_field s ''cert'') (data_field s ''key'') = Reply bs"
      and "bs \<noteq> []"
    shows "containsValidCertificate E n ns tr s = all_valid E n tr 0 bs"
proof -
  have "sec_data s \<noteq> []" using assms(1) by (auto simp: checkSecretDataFields_def)
  then show ?thesis using assms by (cases bs) (simp_all add: containsValidCertificate_def del: all_valid.simps)
qed

text \<open>An expired certificate is replaced. If the stored pair parses but one of its blocks has expired, the provider generates a new
  certificate, writes it to the secret and returns it; and a later start reads it back from the secret without generating or
  writing anything, as long as it is valid.\<close>
theorem expired_certificate_is_replaced:
  assumes "t_get_secret E tr n = Reply s" and "checkSecretDataFields s n ns = None"
      and "t_X509KeyPair E (data_field s ''cert'') (data_field s ''key'') = Reply bs"
      and "\<forall>b \<in> set bs. \<exists>t. t_ParseCertificate E b = Reply t"
      and "\<exists>b \<in> set bs. \<exists>t. t_ParseCertificate E b = Reply t \<and> (\<forall>tr. t < t_now E tr)"
      and "\<forall>tr. t_provider E tr = Reply g"
      and written: "\<forall>tr. \<exists>s'. t_update_secret E tr (certificateToSecret n g) = Reply s' \<and> holds_certificate s' g"
      and kept: "\<forall>tr. TUpdateSecret (certificateToSecret n g) \<in> set tr \<longrightarrow>
                   (\<exists>s'. t_get_secret E tr n = Reply s' \<and> holds_certificate s' g)"
      and "t_X509KeyPair E (cert_Cert g) (cert_Key g) = Reply gs" and "gs \<noteq> []"
      and "\<forall>b \<in> set gs. \<exists>t. t_ParseCertificate E b = Reply t \<and> (\<forall>tr. t_now E tr \<le> t)"
    shows "\<exists>tr1 tr2. persistedCertificate E n ns tr = (Ok g, tr1) \<and> TUpdateSecret (certificateToSecret n g) \<in> set tr1
             \<and> persistedCertificate E n ns tr1 = (Ok g, tr2) \<and> grows_by {TGetSecret n, TNow} tr1 tr2"
proof -
  have "bs \<noteq> []" using assms(5) by auto
  then have "fst (containsValidCertificate E n ns (tr @ [TGetSecret n]) s) = Ok False"
    using containsValidCertificate_pair [OF assms(2,3)] all_valid_expired [OF assms(4,5)] by simp
  then obtain t1 where "containsValidCertificate E n ns (tr @ [TGetSecret n]) s = (Ok False, t1)"
    by (metis prod.collapse)
  moreover obtain s1 where "t_update_secret E (t1 @ [TProvide]) (certificateToSecret n g) = Reply s1" "holds_certificate s1 g"
    using written by blast
  moreover define tr1 where "tr1 = t1 @ [TProvide] @ [TUpdateSecret (certificateToSecret n g)]"
  ultimately have 1: "persistedCertificate E n ns tr = (Ok g, tr1)"
    using assms(1,6) by (simp add: persistedCertificate_def updateCertificateSecret_def holds_certificateD(2))
  have upd: "TUpdateSecret (certificateToSecret n g) \<in> set tr1" by (simp add: tr1_def)
  then obtain s2 where s2: "t_get_secret E tr1 n = Reply s2" "holds_certificate s2 g" using kept by blast
  define t2 where "t2 = snd (containsValidCertificate E n ns (tr1 @ [TGetSecret n]) s2)"
  have "fst (containsValidCertificate E n ns (tr1 @ [TGetSecret n]) s2) = Ok True"
    using containsValidCertificate_pair [of s2 n ns E gs] all_valid_unexpired [OF assms(11)] assms(9,10) s2(2)
    by (simp add: holds_certificateD)
  then have "containsValidCertificate E n ns (tr1 @ [TGetSecret n]) s2 = (Ok True, t2)"
    unfolding t2_def by (metis prod.collapse)
  then have 2: "persistedCertificate E n ns tr1 = (Ok g, t2)"
    using s2 by (simp add: persistedCertificate_def holds_certificateD(2))
  have "grows_by {TGetSecret n, TNow} (tr1 @ [TGetSecret n]) t2"
    using containsValidCertificate_trace grows_by_mono unfolding t2_def by blast
  then have "grows_by {TGetSecret n, TNow} tr1 t2" by (rule grows_by_step) simp
  with 1 2 upd show ?thesis by blast
qed

section \<open>Properties of the injection\<close>

text \<open>A configuration the operator injects its CA into, and what is sent for it.\<close>

definition wants_ca :: "string \<Rightarrow> webhook_config \<Rightarrow> bool" where
  "wants_ca ns wc \<longleftrightarrow> IsLabelValue ns \<and> wc_labels wc ''grafana.com/inject-rollout-operator-ca'' = Some ''true''
                     \<and> wc_labels wc ''grafana.com/namespace'' = Some ns"

definition has_bundle :: "string \<Rightarrow> webhook_config \<Rightarrow> bool" where
  "has_bundle ca wc \<longleftrightarrow> list_all (\<lambda>w. wh_CABundle w = ca) (wc_webhooks wc)"

definition with_ca :: "string \<Rightarrow> string \<Rightarrow> webhook_config \<Rightarrow> webhook_config" where
  "with_ca ns ca wc = (if wants_ca ns wc then set_bundle ca wc else wc)"

definition sends_patch :: "tls_env \<Rightarrow> string \<Rightarrow> string \<Rightarrow> webhook_config \<Rightarrow> bool" where
  "sends_patch E ns ca wc \<longleftrightarrow> wants_ca ns wc \<and> \<not> has_bundle ca wc \<and> (\<exists>d. t_marshal E (set_bundle ca wc) = Reply d)"

fun object_with_ca :: "string \<Rightarrow> string \<Rightarrow> webhook_object \<Rightarrow> webhook_object" where
  "object_with_ca ns ca (ValidatingObject wc) = ValidatingObject (with_ca ns ca wc)"
| "object_with_ca ns ca (MutatingObject wc) = MutatingObject (with_ca ns ca wc)"
| "object_with_ca ns ca OtherObject = OtherObject"

fun patches_for :: "tls_env \<Rightarrow> string \<Rightarrow> string \<Rightarrow> webhook_object \<Rightarrow> tls_event list" where
  "patches_for E ns ca (ValidatingObject wc) = (if sends_patch E ns ca wc then [TPatchValidating (set_bundle ca wc)] else [])"
| "patches_for E ns ca (MutatingObject wc) = (if sends_patch E ns ca wc then [TPatchMutating (set_bundle ca wc)] else [])"
| "patches_for E ns ca OtherObject = []"

lemma label_keys: "IsLabelKey ''grafana.com/inject-rollout-operator-ca''" "IsLabelKey ''grafana.com/namespace''" "IsLabelValue ''true''"
  by code_simp+

lemma NewRequirement_namespace:
  "NewRequirement ''grafana.com/namespace'' Equals [ns]
     = (if IsLabelValue ns then Ok (Requirement ''grafana.com/namespace'' Equals [ns]) else Fail (Err ''invalid label requirement''))"
  by (simp add: NewRequirement_def label_keys)

lemma inject_requirements_eq:
  "inject_requirements ns =
     (if IsLabelValue ns
      then Ok [Requirement ''grafana.com/inject-rollout-operator-ca'' Equals [''true''], Requirement ''grafana.com/namespace'' Equals [ns]]
      else Fail (Err ''invalid label requirement''))"
  by (simp add: inject_requirements_def NewRequirement_namespace) (simp add: NewRequirement_def label_keys)

lemma has_set_bundle [simp]: "has_bundle ca (set_bundle ca wc)"
  by (simp add: has_bundle_def set_bundle_def list_all_iff)

lemma set_bundle_idem [simp]: "set_bundle ca (set_bundle ca wc) = set_bundle ca wc"
  by (simp add: set_bundle_def)

lemma wants_ca_set_bundle [simp]: "wants_ca ns (set_bundle ca wc) = wants_ca ns wc"
  by (simp add: wants_ca_def set_bundle_def)

lemma with_ca_idem [simp]: "with_ca ns ca (with_ca ns ca wc) = with_ca ns ca wc"
  by (simp add: with_ca_def)

lemma sends_patch_with_ca [simp]: "\<not> sends_patch E ns ca (with_ca ns ca wc)"
  by (auto simp: sends_patch_def with_ca_def)

text \<open>The outcome of the call is logged, so only the object and the trace remain.\<close>

lemma patch_bundle_effect:
  "\<exists>r. patch_bundle E patch ev kind ns ca tr wc
         = (r, with_ca ns ca wc, tr @ (if sends_patch E ns ca wc then [ev (set_bundle ca wc)] else [])) \<and> logged r = Ok ()"
proof (cases "wants_ca ns wc")
  case True
  then have "sel_matches [Requirement ''grafana.com/inject-rollout-operator-ca'' Equals [''true''],
               Requirement ''grafana.com/namespace'' Equals [ns]] (wc_labels wc)" "IsLabelValue ns"
    by (simp_all add: wants_ca_def sel_matches_def)
  then show ?thesis using True
    by (auto simp: patch_bundle_def inject_requirements_eq with_ca_def sends_patch_def has_bundle_def Let_def split: reply.splits)
next
  case False
  then show ?thesis
    by (auto simp: patch_bundle_def inject_requirements_eq with_ca_def sends_patch_def wants_ca_def sel_matches_def split: option.splits)
qed

lemma observed_effect:
  "onWebHookConfigurationObserved (ca_listener E ns ca) tr obj = (Ok (), object_with_ca ns ca obj, tr @ patches_for E ns ca obj)"
proof (cases obj)
  case (ValidatingObject wc)
  then show ?thesis
    using patch_bundle_effect [of E "t_patch_validating E" TPatchValidating "''validating''" ns ca tr wc]
    by (auto simp: ca_listener_def PatchCABundleOnValidatingWebhook_def)
next
  case (MutatingObject wc)
  then show ?thesis
    using patch_bundle_effect [of E "t_patch_mutating E" TPatchMutating "''mutating''" ns ca tr wc]
    by (auto simp: ca_listener_def PatchCABundleOnMutatingWebhook_def)
qed simp

lemma resync_effect:
  "resync (ca_listener E ns ca) tr store
     = (Ok (), map (object_with_ca ns ca) store, tr @ concat (map (patches_for E ns ca) store))"
  by (induction store arbitrary: tr) (simp_all add: observed_effect)

lemma object_with_ca_idem [simp]: "object_with_ca ns ca (object_with_ca ns ca obj) = object_with_ca ns ca obj"
  by (cases obj) simp_all

lemma patches_for_with_ca [simp]: "patches_for E ns ca (object_with_ca ns ca obj) = []"
  by (cases obj) simp_all

text \<open>C31: Delivering the webhook configurations of the cluster sends one patch for each that carries both labels and has a webhook with
  another CA bundle, with the bundle set in all of its webhooks and nothing else changed; others are left alone. It also
  writes the bundle into the objects of the informer's cache, whether or not the patch succeeds: until the
  API server reports a change, a later delivery of the same objects sends nothing, even if every patch has failed.\<close>
theorem ca_bundle_sent_once:
  "\<exists>store'. resync (ca_listener E ns ca) tr store = (Ok (), store', tr @ concat (map (patches_for E ns ca) store))
     \<and> store' = map (object_with_ca ns ca) store
     \<and> resync (ca_listener E' ns ca) tr' store' = (Ok (), store', tr')"
  by (simp add: resync_effect comp_def)

section \<open>Properties of the collector\<close>

text \<open>What was observed of the webhooks of one kind, in order: names with their policies.\<close>

definition in_namespace :: "string \<Rightarrow> webhook_config \<Rightarrow> bool" where
  "in_namespace ns wc \<longleftrightarrow> IsLabelValue ns \<and> wc_labels wc ''grafana.com/namespace'' = Some ns"

definition policies :: "string \<Rightarrow> webhook_config \<Rightarrow> (string \<times> string) list" where
  "policies ns wc = (if in_namespace ns wc then map (\<lambda>w. (wh_name w, policy_of w)) (wc_webhooks wc) else [])"

fun validating_policies :: "string \<Rightarrow> webhook_object \<Rightarrow> (string \<times> string) list" where
  "validating_policies ns (ValidatingObject wc) = policies ns wc"
| "validating_policies ns _ = []"

fun mutating_policies :: "string \<Rightarrow> webhook_object \<Rightarrow> (string \<times> string) list" where
  "mutating_policies ns (MutatingObject wc) = policies ns wc"
| "mutating_policies ns _ = []"

lemma map_of_set_policies: "map_of (set_policies m ws) = map_of m ++ map_of (rev (map (\<lambda>w. (wh_name w, policy_of w)) ws))"
  by (induction m ws rule: set_policies.induct) (simp_all add: update_conv' map_add_def fun_eq_iff split: option.splits)

lemma distinct_set_policies: "distinct (map fst m) \<Longrightarrow> distinct (map fst (set_policies m ws))"
  by (induction m ws rule: set_policies.induct) (simp_all add: distinct_update)

definition collector_inv :: "WebhookCollector \<Rightarrow> bool" where
  "collector_inv c \<longleftrightarrow> distinct (map fst (validatingWebhooksSettings c)) \<and> distinct (map fst (mutatingWebhooksSettings c))"

lemma onValidatingObserved_eq:
  "\<exists>r. onValidatingObserved c wc = (r, wc, c\<lparr>observationCounter := wrap64 (observationCounter c + 1),
          validatingWebhooksSettings := (if in_namespace (col_namespace c) wc
             then set_policies (validatingWebhooksSettings c) (wc_webhooks wc) else validatingWebhooksSettings c)\<rparr>) \<and> logged r = Ok ()"
  by (auto simp: onValidatingObserved_def NewRequirement_namespace in_namespace_def sel_matches_def Let_def split: option.splits)

lemma onMutatingObserved_eq:
  "\<exists>r. onMutatingObserved c wc = (r, wc, c\<lparr>observationCounter := wrap64 (observationCounter c + 1),
          mutatingWebhooksSettings := (if in_namespace (col_namespace c) wc
             then set_policies (mutatingWebhooksSettings c) (wc_webhooks wc) else mutatingWebhooksSettings c)\<rparr>) \<and> logged r = Ok ()"
  by (auto simp: onMutatingObserved_def NewRequirement_namespace in_namespace_def sel_matches_def Let_def split: option.splits)

lemma collector_step:
  assumes "collector_inv c"
    shows "\<exists>c'. onWebHookConfigurationObserved collector_listener c obj = (Ok (), obj, c') \<and> collector_inv c'
             \<and> col_namespace c' = col_namespace c
             \<and> map_of (validatingWebhooksSettings c')
                 = map_of (validatingWebhooksSettings c) ++ map_of (rev (validating_policies (col_namespace c) obj))
             \<and> map_of (mutatingWebhooksSettings c')
                 = map_of (mutatingWebhooksSettings c) ++ map_of (rev (mutating_policies (col_namespace c) obj))"
proof (cases obj)
  case (ValidatingObject wc)
  then show ?thesis
    using onValidatingObserved_eq [of c wc] assms
    by (auto simp: collector_listener_def collector_inv_def map_of_set_policies distinct_set_policies policies_def)
next
  case (MutatingObject wc)
  then show ?thesis
    using onMutatingObserved_eq [of c wc] assms
    by (auto simp: collector_listener_def collector_inv_def map_of_set_policies distinct_set_policies policies_def)
qed (use assms in simp)

lemma collector_run:
  assumes "collector_inv c"
    shows "\<exists>c'. resync collector_listener c objs = (Ok (), objs, c') \<and> collector_inv c'
             \<and> map_of (validatingWebhooksSettings c')
                 = map_of (validatingWebhooksSettings c) ++ map_of (rev (concat (map (validating_policies (col_namespace c)) objs)))
             \<and> map_of (mutatingWebhooksSettings c')
                 = map_of (mutatingWebhooksSettings c) ++ map_of (rev (concat (map (mutating_policies (col_namespace c)) objs)))"
  using assms
proof (induction objs arbitrary: c)
  case (Cons obj objs)
  obtain c1 where c1: "onWebHookConfigurationObserved collector_listener c obj = (Ok (), obj, c1)" "collector_inv c1"
      "col_namespace c1 = col_namespace c"
      "map_of (validatingWebhooksSettings c1)
         = map_of (validatingWebhooksSettings c) ++ map_of (rev (validating_policies (col_namespace c) obj))"
      "map_of (mutatingWebhooksSettings c1)
         = map_of (mutatingWebhooksSettings c) ++ map_of (rev (mutating_policies (col_namespace c) obj))"
    using collector_step [OF Cons.prems] by blast
  show ?case using Cons.IH [OF c1(2)] by (auto simp: c1 map_add_assoc)
qed simp

lemma samples_of_iff:
  "distinct (map fst m) \<Longrightarrow> (k, name, p, v) \<in> set (samples_of kind m)
     \<longleftrightarrow> k = kind \<and> p \<in> set policyTypes \<and> (\<exists>mode. map_of m name = Some mode \<and> v = boolToFloat (mode = p))"
  by (auto simp: samples_of_def map_of_eq_Some_iff intro!: bexI)

text \<open>The collector reports, for every webhook of its namespace it has ever observed, the failure policy of the last observation (a missing one
  as Fail): 1 for that policy and 0 for the other, and nothing for any other webhook. A webhook that is removed from its
  configuration, or whose configuration is deleted, keeps being reported.\<close>
theorem collector_reports_last_policy:
  "\<exists>c. resync collector_listener (NewWebhookCollector ns) objs = (Ok (), objs, c)
     \<and> (\<forall>kind name p v. (kind, name, p, v) \<in> set (Collect c) \<longleftrightarrow>
          p \<in> {''Fail'', ''Ignore''}
        \<and> (\<exists>mode. (kind = ''ValidatingWebhook'' \<and> map_of (rev (concat (map (validating_policies ns) objs))) name = Some mode
                  \<or> kind = ''MutatingWebhook'' \<and> map_of (rev (concat (map (mutating_policies ns) objs))) name = Some mode)
             \<and> v = (if mode = p then 1 else 0)))"
proof -
  have "collector_inv (NewWebhookCollector ns)" "col_namespace (NewWebhookCollector ns) = ns"
       "validatingWebhooksSettings (NewWebhookCollector ns) = []" "mutatingWebhooksSettings (NewWebhookCollector ns) = []"
    by (simp_all add: collector_inv_def NewWebhookCollector_def)
  with collector_run [of "NewWebhookCollector ns" objs] obtain c
    where c: "resync collector_listener (NewWebhookCollector ns) objs = (Ok (), objs, c)" "collector_inv c"
      "map_of (validatingWebhooksSettings c) = map_of (rev (concat (map (validating_policies ns) objs)))"
      "map_of (mutatingWebhooksSettings c) = map_of (rev (concat (map (mutating_policies ns) objs)))"
    by auto
  have d: "distinct (map fst (validatingWebhooksSettings c))" "distinct (map fst (mutatingWebhooksSettings c))"
    using c(2) by (simp_all add: collector_inv_def)
  have "(kind, name, p, v) \<in> set (Collect c) \<longleftrightarrow>
          p \<in> {''Fail'', ''Ignore''}
        \<and> (\<exists>mode. (kind = ''ValidatingWebhook'' \<and> map_of (rev (concat (map (validating_policies ns) objs))) name = Some mode
                  \<or> kind = ''MutatingWebhook'' \<and> map_of (rev (concat (map (mutating_policies ns) objs))) name = Some mode)
             \<and> v = (if mode = p then 1 else 0))" for kind name p v
    unfolding Collect_def set_append Un_iff samples_of_iff [OF d(1)] samples_of_iff [OF d(2)] c(3,4) policyTypes_def boolToFloat_def
      list.set empty_iff insert_iff
    by blast
  with c(1) show ?thesis by blast
qed

section \<open>A run with an expired certificate\<close>

definition demo_new :: Certificate where
  "demo_new = \<lparr>cert_CA = ''ca'', cert_Cert = ''new'', cert_Key = ''k''\<rparr>"

definition demo_old :: secret where
  "demo_old = certificateToSecret ''s'' \<lparr>cert_CA = ''ca'', cert_Cert = ''old'', cert_Key = ''k''\<rparr>"

fun is_update :: "tls_event \<Rightarrow> bool" where
  "is_update (TUpdateSecret s) = True"
| "is_update _ = False"

definition demo_tls :: tls_env where
  "demo_tls =
     \<lparr>t_now = (\<lambda>_. 100),
      t_get_secret = (\<lambda>tr n. Reply (if list_ex is_update tr then certificateToSecret ''s'' demo_new else demo_old)),
      t_update_secret = (\<lambda>tr s. Reply s), t_create_secret = (\<lambda>tr s. Error (AlreadyExists ''s'')),
      t_provider = (\<lambda>_. Reply demo_new), t_read_file = (\<lambda>tr f. Error (NotFound f)),
      t_X509KeyPair = (\<lambda>c k. Reply [c]), t_ParseCertificate = (\<lambda>b. Reply (if b = ''old'' then 50 else 1000)),
      t_marshal = (\<lambda>_. Reply ''''), t_patch_validating = (\<lambda>tr wc. Reply ()), t_patch_mutating = (\<lambda>tr wc. Reply ())\<rparr>"

definition demo_tls_config :: tls_config where
  "demo_tls_config = \<lparr>serverTLSEnabled = True, serverSelfSignedCert = True, serverSelfSignedCertSecretName = ''s'',
     serverCertFile = '''', serverKeyFile = '''', updateWebhooksWithSelfSignedCABundle = True, kubeNamespace = ''ns''\<rparr>"

definition demo_tls_trace :: tls_trace where
  "demo_tls_trace = [TGetSecret ''s'', TNow, TProvide, TUpdateSecret (certificateToSecret ''s'' demo_new), TNow, TRestartAfter 900]"

lemma demo_tls_run: "certificateForServer demo_tls demo_tls_config [] = (Ok (Some demo_new), demo_tls_trace)"
  by (simp add: certificateForServer_def demo_tls_config_def providedCertificate_def persistedCertificate_def demo_tls_def demo_old_def
      containsValidCertificate_def certificateToSecret_def checkSecretDataFields_def data_field_def updateCertificateSecret_def
      secretToCertificate_def checkAndWatchCertificate_def demo_tls_trace_def demo_new_def time_sub_def)

theorem served_certificate_is_valid_witness:
  "certificateForServer demo_tls demo_tls_config [] = (Ok (Some demo_new), demo_tls_trace)
   \<and> (\<exists>bs. t_X509KeyPair demo_tls ''new'' ''k'' = Reply bs
          \<and> (\<forall>b \<in> set bs. \<exists>t pre post. t_ParseCertificate demo_tls b = Reply t \<and> demo_tls_trace = pre @ post
                \<and> t_now demo_tls pre < t \<and> TRestartAfter (time_sub t (t_now demo_tls pre)) \<in> set post))"
  using served_certificate_is_valid [OF demo_tls_run] demo_tls_run by (simp add: demo_new_def)

lemma list_ex_is_update: "TUpdateSecret s \<in> set tr \<Longrightarrow> list_ex is_update tr"
  by (force simp: list_ex_iff)

theorem expired_certificate_is_replaced_witness:
  "\<exists>tr1 tr2. persistedCertificate demo_tls ''s'' ''ns'' [] = (Ok demo_new, tr1)
      \<and> TUpdateSecret (certificateToSecret ''s'' demo_new) \<in> set tr1
      \<and> persistedCertificate demo_tls ''s'' ''ns'' tr1 = (Ok demo_new, tr2) \<and> grows_by {TGetSecret ''s'', TNow} tr1 tr2"
  by (rule expired_certificate_is_replaced [of demo_tls _ _ demo_old _ "[''old'']" _ "[''new'']"])
    (simp_all add: demo_tls_def demo_old_def demo_new_def certificateToSecret_def checkSecretDataFields_def data_field_def
      holds_certificate_def list_ex_is_update)

end
