(* ===== verification/ApiClient.thy ===== *)
theory ApiClient
  imports Kube
begin

text \<open>
  \<^verbatim>\<open>pkg/instrumentation\<close>: the transports around the Kubernetes API client and the pod HTTP client. A request passes the rate limiter of its
  API group, then the instrumentation, and only then reaches the network.

  The token bucket of client-go (whether a request gets a token before its context ends) and the network are functions of
  the environment. A bucket is known by the number of its creation, so that two buckets of the same rate stay different.
\<close>

section \<open>API groups and resource descriptions\<close>

definition pathToAPIGroup :: "string \<Rightarrow> string" where
  "pathToAPIGroup path =
     (let segments = SplitN (TrimPrefix path ''/'') CHR ''/'' 3 in
      if segments ! 0 = ''api'' then ''core''
      else if segments ! 0 = ''apis'' then
        (if 2 \<le> length segments \<and> segments ! 1 \<noteq> '''' then segments ! 1 else ''apis'')
      else ''/'' @ segments ! 0)"

text \<open>The named groups of the two patterns; an unmatched group is the empty string.\<close>

record resource_match =
  rm_group :: string
  rm_version :: string
  rm_type :: string
  rm_name :: string
  rm_subresource :: string

text \<open>
  The patterns are sequences of segments \<^verbatim>\<open>[^/]+\<close> between slashes, so a path matches by its list of segments: none may be
  empty. \<open>groupAndVersion\<close> and \<open>typeAndName\<close> are the two halves the patterns share.
\<close>

fun groupAndVersion :: "string list \<Rightarrow> (string \<times> string \<times> string list) option" where
  "groupAndVersion (a # b # rest) =
     (if a = ''api'' then Some ('''', b, rest)
      else if a = ''apis'' then (case rest of [] \<Rightarrow> None | v # rest' \<Rightarrow> Some (b, v, rest'))
      else None)"
| "groupAndVersion _ = None"

fun typeAndName :: "string list \<Rightarrow> (string \<times> string \<times> string) option" where
  "typeAndName [t] = Some (t, '''', '''')"
| "typeAndName [t, n] = Some (t, n, '''')"
| "typeAndName [t, n, sub] = Some (t, n, sub)"
| "typeAndName _ = None"

definition path_segments :: "string \<Rightarrow> string list option" where
  "path_segments path =
     (case split_on CHR ''/'' path of
        [] # segs \<Rightarrow> if list_all (\<lambda>s. s \<noteq> []) segs then Some segs else None
      | _ \<Rightarrow> None)"

definition match_of :: "string \<Rightarrow> string \<Rightarrow> string list \<Rightarrow> resource_match option" where
  "match_of g v rest = map_option (\<lambda>(t, n, sub). \<lparr>rm_group = g, rm_version = v, rm_type = t, rm_name = n, rm_subresource = sub\<rparr>)
                         (typeAndName rest)"

definition namespacedPattern :: "string \<Rightarrow> resource_match option" where
  "namespacedPattern path =
     (case path_segments path of
        None \<Rightarrow> None
      | Some segs \<Rightarrow>
          (case groupAndVersion segs of
             Some (g, v, k # ns # rest) \<Rightarrow> if k = ''namespaces'' then match_of g v rest else None
           | _ \<Rightarrow> None))"

definition nonNamespacedPattern :: "string \<Rightarrow> resource_match option" where
  "nonNamespacedPattern path =
     (case path_segments path of
        None \<Rightarrow> None
      | Some segs \<Rightarrow> (case groupAndVersion segs of Some (g, v, rest) \<Rightarrow> match_of g v rest | None \<Rightarrow> None))"

definition describe :: "resource_match \<Rightarrow> string" where
  "describe m =
     (let group = (if rm_group m = '''' then ''core'' else rm_group m);
          res = group @ ''/'' @ rm_version m @ ''/'' @ rm_type m
      in if rm_subresource m \<noteq> '''' then res @ '' object '' @ rm_subresource m @ '' subresource''
         else if rm_name m = '''' then res @ '' collection''
         else res @ '' object'')"

definition urlToResourceDescription :: "string \<Rightarrow> string" where
  "urlToResourceDescription path =
     (case namespacedPattern path of
        Some m \<Rightarrow> describe m
      | None \<Rightarrow> (case nonNamespacedPattern path of Some m \<Rightarrow> describe m | None \<Rightarrow> path))"

section \<open>The transports\<close>

record api_request =
  rq_path :: string
  rq_escapedPath :: string
  rq_method :: string

datatype limiter = TokenBucket nat | AlwaysLimiter

datatype api_event =
    AWait nat | ASend api_request
  | AThrottled string string
  | AObserve string string string string string
  | APodObserve string string string

type_synonym api_trace = "api_event list"

record api_env =
  a_wait :: "api_trace \<Rightarrow> nat \<Rightarrow> err option"
  a_next :: "api_trace \<Rightarrow> api_request \<Rightarrow> int reply"

text \<open>A round tripper answers with the status code of a response or an error.\<close>

type_synonym round_tripper = "api_trace \<Rightarrow> api_request \<Rightarrow> int reply \<times> api_trace"

definition send :: "api_env \<Rightarrow> round_tripper" where
  "send E tr req = (a_next E tr req, tr @ [ASend req])"

definition statusCode :: "int reply \<Rightarrow> string" where
  "statusCode r = (case r of Reply code \<Rightarrow> Itoa code | Error _ \<Rightarrow> ''error'')"

definition instrumented_RoundTrip :: "round_tripper \<Rightarrow> string \<Rightarrow> round_tripper" where
  "instrumented_RoundTrip nxt component tr req =
     (let (resp, tr1) = nxt tr req in
      (resp, tr1 @ [AObserve (urlToResourceDescription (rq_escapedPath req)) (rq_method req) (statusCode resp)
                      (pathToAPIGroup (rq_path req)) component]))"

definition pod_RoundTrip :: "round_tripper \<Rightarrow> round_tripper" where
  "pod_RoundTrip nxt tr req =
     (let (resp, tr1) = nxt tr req in (resp, tr1 @ [APodObserve (rq_path req) (rq_method req) (statusCode resp)]))"

record perAPIGroupRateLimiter =
  rl_qps :: rat
  rl_burst :: int
  rl_component :: string
  rl_limiters :: "(string \<times> limiter) list"
  rl_buckets :: nat

definition newPerAPIGroupRateLimiter :: "rat \<Rightarrow> int \<Rightarrow> string \<Rightarrow> perAPIGroupRateLimiter" where
  "newPerAPIGroupRateLimiter qps burst component =
     \<lparr>rl_qps = qps, rl_burst = burst, rl_component = component, rl_limiters = [], rl_buckets = 0\<rparr>"

text \<open>The two critical sections of \<^verbatim>\<open>limiterFor\<close>: the lookup under the read lock, and the second look and the creation under the write lock.\<close>

definition limiter_read :: "perAPIGroupRateLimiter \<Rightarrow> string \<Rightarrow> limiter option" where
  "limiter_read r g = map_of (rl_limiters r) g"

definition limiter_locked :: "perAPIGroupRateLimiter \<Rightarrow> string \<Rightarrow> limiter \<times> perAPIGroupRateLimiter" where
  "limiter_locked r g =
     (case map_of (rl_limiters r) g of
        Some l \<Rightarrow> (l, r)
      | None \<Rightarrow>
          if 0 < rl_qps r \<and> 0 < rl_burst r
          then (TokenBucket (rl_buckets r),
                r\<lparr>rl_limiters := (g, TokenBucket (rl_buckets r)) # rl_limiters r, rl_buckets := Suc (rl_buckets r)\<rparr>)
          else (AlwaysLimiter, r\<lparr>rl_limiters := (g, AlwaysLimiter) # rl_limiters r\<rparr>))"

definition limiterFor :: "perAPIGroupRateLimiter \<Rightarrow> string \<Rightarrow> limiter \<times> perAPIGroupRateLimiter" where
  "limiterFor r g = (case limiter_read r g of Some l \<Rightarrow> (l, r) | None \<Rightarrow> limiter_locked r g)"

fun limiter_wait :: "api_env \<Rightarrow> api_trace \<Rightarrow> limiter \<Rightarrow> err option \<times> api_trace" where
  "limiter_wait E tr (TokenBucket n) = (a_wait E tr n, tr @ [AWait n])"
| "limiter_wait E tr AlwaysLimiter = (None, tr)"

definition limited_RoundTrip ::
    "api_env \<Rightarrow> round_tripper \<Rightarrow> perAPIGroupRateLimiter \<Rightarrow> api_trace \<Rightarrow> api_request
       \<Rightarrow> int reply \<times> perAPIGroupRateLimiter \<times> api_trace" where
  "limited_RoundTrip E nxt r tr req =
     (let group = pathToAPIGroup (rq_path req);
          (l, r1) = limiterFor r group
      in case limiter_wait E tr l of
           (Some e, tr1) \<Rightarrow>
             (Error (wrapf (''client-side rate limiter for Kubernetes API group '' @ quoted group @ '': '') e), r1,
              tr1 @ [AThrottled group (rl_component r)])
         | (None, tr1) \<Rightarrow> (let (resp, tr2) = nxt tr1 req in (resp, r1, tr2)))"

text \<open>The transport of a component: its limiter around the instrumentation around the network.\<close>

definition component_RoundTrip ::
    "api_env \<Rightarrow> perAPIGroupRateLimiter \<Rightarrow> api_trace \<Rightarrow> api_request \<Rightarrow> int reply \<times> perAPIGroupRateLimiter \<times> api_trace" where
  "component_RoundTrip E r tr req =
     limited_RoundTrip E (instrumented_RoundTrip (send E) (rl_component r)) r tr req"

section \<open>Concurrent requests\<close>

text \<open>
  Goroutines that look for the limiter of their group: before the first look, after a miss, or with a limiter. Each
  critical section is one step.
\<close>

datatype looking = Looking | Missed | Got limiter

record limiter_state =
  ls_limiter :: perAPIGroupRateLimiter
  ls_goroutines :: "(string \<times> looking) list"

inductive limiter_step :: "limiter_state \<Rightarrow> limiter_state \<Rightarrow> bool" where
  hit: "i < length (ls_goroutines s) \<Longrightarrow> ls_goroutines s ! i = (g, Looking) \<Longrightarrow> limiter_read (ls_limiter s) g = Some l \<Longrightarrow>
          limiter_step s (s\<lparr>ls_goroutines := (ls_goroutines s)[i := (g, Got l)]\<rparr>)"
| miss: "i < length (ls_goroutines s) \<Longrightarrow> ls_goroutines s ! i = (g, Looking) \<Longrightarrow> limiter_read (ls_limiter s) g = None \<Longrightarrow>
          limiter_step s (s\<lparr>ls_goroutines := (ls_goroutines s)[i := (g, Missed)]\<rparr>)"
| locked: "i < length (ls_goroutines s) \<Longrightarrow> ls_goroutines s ! i = (g, Missed) \<Longrightarrow> limiter_locked (ls_limiter s) g = (l, r) \<Longrightarrow>
          limiter_step s \<lparr>ls_limiter = r, ls_goroutines = (ls_goroutines s)[i := (g, Got l)]\<rparr>"
| spawn: "limiter_step s (s\<lparr>ls_goroutines := ls_goroutines s @ [(g, Looking)]\<rparr>)"

section \<open>Paths and their segments\<close>

definition is_segment :: "string \<Rightarrow> bool" where
  "is_segment s \<longleftrightarrow> s \<noteq> [] \<and> CHR ''/'' \<notin> set s"

definition slashes :: "string list \<Rightarrow> string" where
  "slashes segs = concat (map (\<lambda>s. CHR ''/'' # s) segs)"

lemma slashes_simps [simp]: "slashes [] = []" "slashes (s # ss) = CHR ''/'' # s @ slashes ss"
  by (simp_all add: slashes_def)

lemma split_on_not_Nil [simp]: "split_on c s \<noteq> []"
  by (induction s) (auto split: list.splits)

lemma split_on_word: "c \<notin> set w \<Longrightarrow> split_on c (w @ s) = (w @ hd (split_on c s)) # tl (split_on c s)"
  by (induction w) (auto split: list.splits)

lemma split_on_slashes: "list_all is_segment segs \<Longrightarrow> split_on CHR ''/'' (slashes segs) = [] # segs"
  by (induction segs) (auto simp: is_segment_def split_on_word)

lemma split_on_parts: "w \<in> set (split_on c s) \<Longrightarrow> c \<notin> set w"
  by (induction s arbitrary: w) (auto split: list.splits if_splits)

lemma slashes_split_on: "s = hd (split_on CHR ''/'' s) @ slashes (tl (split_on CHR ''/'' s))"
proof (induction s)
  case (Cons c s)
  then show ?case by (cases "split_on CHR ''/'' s") auto
qed simp

lemma path_segments_iff: "path_segments path = Some segs \<longleftrightarrow> path = slashes segs \<and> list_all is_segment segs"
proof
  assume "path_segments path = Some segs"
  then have s: "split_on CHR ''/'' path = [] # segs" and "list_all (\<lambda>s. s \<noteq> []) segs"
    by (auto simp: path_segments_def split: list.splits if_splits)
  then show "path = slashes segs \<and> list_all is_segment segs"
    using slashes_split_on [of path] split_on_parts [of _ "CHR ''/''" path] by (auto simp: list_all_iff is_segment_def)
next
  assume "path = slashes segs \<and> list_all is_segment segs"
  then show "path_segments path = Some segs"
    by (auto simp: path_segments_def split_on_slashes is_segment_def list_all_iff)
qed

text \<open>The URL of a resource: its group, version, an optional namespace, type, name and subresource.\<close>

definition resource_url :: "resource_match \<Rightarrow> string list \<Rightarrow> string" where
  "resource_url m scope =
     slashes ((if rm_group m = '''' then [''api''] else [''apis'', rm_group m]) @ [rm_version m] @ scope @ [rm_type m]
              @ (if rm_name m = '''' then [] else [rm_name m]) @ (if rm_subresource m = '''' then [] else [rm_subresource m]))"

definition is_resource :: "resource_match \<Rightarrow> bool" where
  "is_resource m \<longleftrightarrow> list_all is_segment [rm_version m, rm_type m]
     \<and> list_all (\<lambda>s. s = '''' \<or> is_segment s) [rm_group m, rm_name m, rm_subresource m]
     \<and> (rm_name m = '''' \<longrightarrow> rm_subresource m = '''')"

lemma is_segment_literals [simp]: "is_segment ''api''" "is_segment ''apis''" "is_segment ''namespaces''"
  by (simp_all add: is_segment_def)

lemma resource_url_segments:
  "is_resource m \<Longrightarrow> list_all is_segment scope \<Longrightarrow>
     path_segments (resource_url m scope) =
       Some ((if rm_group m = '''' then [''api''] else [''apis'', rm_group m]) @ [rm_version m] @ scope @ [rm_type m]
              @ (if rm_name m = '''' then [] else [rm_name m]) @ (if rm_subresource m = '''' then [] else [rm_subresource m]))"
  by (auto simp: path_segments_iff resource_url_def is_resource_def)

lemma groupAndVersion_url:
  "groupAndVersion ((if g = '''' then [''api''] else [''apis'', g]) @ [v] @ rest) = Some (g, v, rest)"
  by simp

lemma match_of_url:
  "(rm_name m = '''' \<longrightarrow> rm_subresource m = '''') \<Longrightarrow>
     match_of (rm_group m) (rm_version m)
       ([rm_type m] @ (if rm_name m = '''' then [] else [rm_name m]) @ (if rm_subresource m = '''' then [] else [rm_subresource m])) = Some m"
  by (auto simp: match_of_def)

lemma namespaced_url:
  "is_resource m \<Longrightarrow> is_segment ns \<Longrightarrow> namespacedPattern (resource_url m [''namespaces'', ns]) = Some m"
  using groupAndVersion_url [of "rm_group m" "rm_version m"] match_of_url [of m]
  by (simp add: namespacedPattern_def resource_url_segments is_resource_def)

lemma match_of_Some:
  assumes "match_of g v rest = Some m"
    shows "rm_group m = g" "rm_version m = v"
      "list_all is_segment rest \<Longrightarrow> rest = [rm_type m] @ (if rm_name m = '''' then [] else [rm_name m])
                       @ (if rm_subresource m = '''' then [] else [rm_subresource m])
         \<and> is_segment (rm_type m) \<and> (rm_name m = '''' \<or> is_segment (rm_name m)) \<and> (rm_subresource m = '''' \<or> is_segment (rm_subresource m))
         \<and> (rm_name m = '''' \<longrightarrow> rm_subresource m = '''')"
  using assms by (auto simp: match_of_def is_segment_def elim!: typeAndName.elims)

lemma groupAndVersion_Some:
  assumes "groupAndVersion segs = Some (g, v, rest)" and "list_all is_segment segs"
    shows "segs = (if g = '''' then [''api''] else [''apis'', g]) @ [v] @ rest" "is_segment v" "g = '''' \<or> is_segment g" "list_all is_segment rest"
  using assms by (auto simp: is_segment_def elim!: groupAndVersion.elims split: if_splits list.splits)

text \<open>The scanner of segments is the two regular expressions: a path matches exactly if it is the URL of such a resource.\<close>

lemma nonNamespacedPattern_iff: "nonNamespacedPattern path = Some m \<longleftrightarrow> is_resource m \<and> path = resource_url m []"
proof
  assume "nonNamespacedPattern path = Some m"
  then obtain segs g v rest where s: "path_segments path = Some segs" "groupAndVersion segs = Some (g, v, rest)" "match_of g v rest = Some m"
    by (auto simp: nonNamespacedPattern_def split: option.splits)
  then have "path = slashes segs" "list_all is_segment segs" by (simp_all add: path_segments_iff)
  then show "is_resource m \<and> path = resource_url m []"
    using groupAndVersion_Some [OF s(2)] match_of_Some [OF s(3)] by (simp add: is_resource_def resource_url_def)
next
  assume "is_resource m \<and> path = resource_url m []"
  then show "nonNamespacedPattern path = Some m"
    using groupAndVersion_url [of "rm_group m" "rm_version m"] match_of_url [of m]
    by (simp add: nonNamespacedPattern_def resource_url_segments is_resource_def)
qed

lemma namespacedPattern_iff:
  "namespacedPattern path = Some m \<longleftrightarrow> is_resource m \<and> (\<exists>ns. is_segment ns \<and> path = resource_url m [''namespaces'', ns])"
proof
  assume "namespacedPattern path = Some m"
  then obtain segs g v ns rest where s: "path_segments path = Some segs" "groupAndVersion segs = Some (g, v, ''namespaces'' # ns # rest)"
      "match_of g v rest = Some m"
    by (auto simp: namespacedPattern_def split: option.splits list.splits if_splits)
  then have "path = slashes segs" "list_all is_segment segs" by (simp_all add: path_segments_iff)
  then show "is_resource m \<and> (\<exists>ns. is_segment ns \<and> path = resource_url m [''namespaces'', ns])"
    using groupAndVersion_Some [OF s(2)] match_of_Some [OF s(3)] by (simp add: is_resource_def resource_url_def exI [of _ ns])
next
  assume "is_resource m \<and> (\<exists>ns. is_segment ns \<and> path = resource_url m [''namespaces'', ns])"
  then show "namespacedPattern path = Some m" using namespaced_url by blast
qed

lemma SplitN_slashes:
  "CHR ''/'' \<notin> set s \<Longrightarrow> SplitN (s @ slashes (a # ss)) CHR ''/'' (Suc (Suc n)) = s # SplitN (a @ slashes ss) CHR ''/'' (Suc n)"
  by (simp add: takeWhile_append dropWhile_append2)

lemma pathToAPIGroup_api: "pathToAPIGroup (slashes (''api'' # a # ss)) = ''core''"
  using SplitN_slashes [of "''api''" a ss 1] by (simp add: pathToAPIGroup_def TrimPrefix_def eval_nat_numeral del: SplitN.simps)

lemma pathToAPIGroup_apis: "is_segment g \<Longrightarrow> pathToAPIGroup (slashes (''apis'' # g # a # ss)) = g"
  using SplitN_slashes [of "''apis''" g "a # ss" 1] SplitN_slashes [of g a ss 0]
  by (simp add: pathToAPIGroup_def TrimPrefix_def eval_nat_numeral is_segment_def del: SplitN.simps)

lemma pathToAPIGroup_url: "is_resource m \<Longrightarrow> pathToAPIGroup (resource_url m scope) = (if rm_group m = '''' then ''core'' else rm_group m)"
  by (auto simp: resource_url_def is_resource_def pathToAPIGroup_api pathToAPIGroup_apis simp del: slashes_simps)

lemma not_namespaced_url:
  assumes "is_resource m" and "rm_type m \<noteq> ''namespaces'' \<or> rm_subresource m = ''''"
    shows "namespacedPattern (resource_url m []) = None"
  using assms groupAndVersion_url [of "rm_group m" "rm_version m"] resource_url_segments [of m "[]"]
  by (auto simp: namespacedPattern_def is_resource_def match_of_def split: list.splits)

text \<open>A subresource of a namespace is taken for a collection of that name.\<close>

lemma namespace_subresource_description:
  assumes "is_resource m" and "rm_type m = ''namespaces''" and "rm_subresource m \<noteq> ''''"
    shows "urlToResourceDescription (resource_url m []) = describe (m\<lparr>rm_type := rm_subresource m, rm_name := '''', rm_subresource := ''''\<rparr>)"
proof -
  let ?m = "m\<lparr>rm_type := rm_subresource m, rm_name := '''', rm_subresource := ''''\<rparr>"
  have "resource_url m [] = resource_url ?m [''namespaces'', rm_name m]"
    using assms by (auto simp: resource_url_def is_resource_def)
  moreover have "is_resource ?m" "is_segment (rm_name m)" using assms by (auto simp: is_resource_def)
  ultimately show ?thesis by (simp add: urlToResourceDescription_def namespaced_url)
qed



section \<open>The limiter of a group\<close>

definition limiters_ok :: "perAPIGroupRateLimiter \<Rightarrow> bool" where
  "limiters_ok r \<longleftrightarrow> (\<forall>g n. map_of (rl_limiters r) g = Some (TokenBucket n) \<longrightarrow> n < rl_buckets r)
     \<and> (\<forall>g h n. map_of (rl_limiters r) g = Some (TokenBucket n) \<longrightarrow> map_of (rl_limiters r) h = Some (TokenBucket n) \<longrightarrow> g = h)"

definition got_ok :: "limiter_state \<Rightarrow> bool" where
  "got_ok s \<longleftrightarrow> (\<forall>g l. (g, Got l) \<in> set (ls_goroutines s) \<longrightarrow> map_of (rl_limiters (ls_limiter s)) g = Some l)"

lemma limiter_locked_ok:
  assumes "limiters_ok r" and "limiter_locked r g = (l, r')"
    shows "limiters_ok r'" "map_of (rl_limiters r') g = Some l"
      "map_of (rl_limiters r) h = Some k \<Longrightarrow> map_of (rl_limiters r') h = Some k"
  using assms
  by (auto simp: limiter_locked_def limiters_ok_def less_Suc_eq split: option.splits if_splits) (meson less_irrefl)+

lemma limiter_step_ok:
  assumes "limiter_step s s'" and "limiters_ok (ls_limiter s)" and "got_ok s"
    shows "limiters_ok (ls_limiter s') \<and> got_ok s'"
  using assms
proof (cases rule: limiter_step.cases)
  case (hit i g l)
  then show ?thesis using assms(2,3) by (auto simp: got_ok_def limiter_read_def dest!: set_update_subset_insert [THEN subsetD])
next
  case (miss i g)
  then show ?thesis using assms(2,3) by (auto simp: got_ok_def dest!: set_update_subset_insert [THEN subsetD])
next
  case (locked i g l r)
  then show ?thesis
    using assms(3) limiter_locked_ok [OF assms(2) locked(4)]
    by (auto simp: got_ok_def dest!: set_update_subset_insert [THEN subsetD])
next
  case (spawn g)
  then show ?thesis using assms(2,3) by (auto simp: got_ok_def)
qed

lemma limiter_steps_ok:
  "limiter_step\<^sup>*\<^sup>* s s' \<Longrightarrow> limiters_ok (ls_limiter s) \<Longrightarrow> got_ok s \<Longrightarrow> limiters_ok (ls_limiter s') \<and> got_ok s'"
  by (induction rule: rtranclp_induct) (auto simp: limiter_step_ok)

lemma limiters_ok_new: "limiters_ok (newPerAPIGroupRateLimiter qps burst component)"
  by (simp add: limiters_ok_def newPerAPIGroupRateLimiter_def)

text \<open>C32: However the goroutines of a client interleave in the two critical sections of limiterFor, all requests of one API group wait for
  the same limiter, and requests of two groups never wait for the same token bucket.\<close>
theorem one_bucket_per_group:
  assumes "limiter_step\<^sup>*\<^sup>* \<lparr>ls_limiter = newPerAPIGroupRateLimiter qps burst component, ls_goroutines = []\<rparr> s"
      and "(g, Got l) \<in> set (ls_goroutines s)" and "(h, Got k) \<in> set (ls_goroutines s)"
    shows "(g = h \<longrightarrow> l = k) \<and> (g \<noteq> h \<and> l = k \<longrightarrow> l = AlwaysLimiter)"
proof -
  have "limiters_ok (ls_limiter s) \<and> got_ok s"
    by (rule limiter_steps_ok [OF assms(1)]) (simp_all add: limiters_ok_new got_ok_def)
  then have "map_of (rl_limiters (ls_limiter s)) g = Some l" "map_of (rl_limiters (ls_limiter s)) h = Some k"
    "\<And>n. l = TokenBucket n \<Longrightarrow> l = k \<Longrightarrow> g = h"
    using assms(2,3) by (auto simp: got_ok_def limiters_ok_def)
  then show ?thesis by (cases l) auto
qed

definition demo_lookups :: limiter_state where
  "demo_lookups =
     \<lparr>ls_limiter = (newPerAPIGroupRateLimiter 5 10 ''c'')\<lparr>rl_limiters := [(''core'', TokenBucket 0)], rl_buckets := 1\<rparr>,
      ls_goroutines = [(''core'', Got (TokenBucket 0)), (''core'', Got (TokenBucket 0))]\<rparr>"

text \<open>Two goroutines miss; the first creates the bucket and the second finds it under the lock.\<close>

lemma demo_lookups_reached:
  "limiter_step\<^sup>*\<^sup>* \<lparr>ls_limiter = newPerAPIGroupRateLimiter 5 10 ''c'', ls_goroutines = []\<rparr> demo_lookups"
proof -
  let ?r = "newPerAPIGroupRateLimiter 5 10 ''c''"
  let ?r' = "?r\<lparr>rl_limiters := [(''core'', TokenBucket 0)], rl_buckets := 1\<rparr>"
  have "limiter_step\<^sup>*\<^sup>* \<lparr>ls_limiter = ?r, ls_goroutines = []\<rparr> \<lparr>ls_limiter = ?r, ls_goroutines = [(''core'', Looking)]\<rparr>"
    using limiter_step.spawn [of "\<lparr>ls_limiter = ?r, ls_goroutines = []\<rparr>" "''core''"] by auto
  also have "limiter_step \<dots> \<lparr>ls_limiter = ?r, ls_goroutines = [(''core'', Looking), (''core'', Looking)]\<rparr>"
    using limiter_step.spawn [of "\<lparr>ls_limiter = ?r, ls_goroutines = [(''core'', Looking)]\<rparr>" "''core''"] by simp
  also have "limiter_step \<dots> \<lparr>ls_limiter = ?r, ls_goroutines = [(''core'', Missed), (''core'', Looking)]\<rparr>"
    using limiter_step.miss [of 0 "\<lparr>ls_limiter = ?r, ls_goroutines = [(''core'', Looking), (''core'', Looking)]\<rparr>" "''core''"]
    by (simp add: limiter_read_def newPerAPIGroupRateLimiter_def)
  also have "limiter_step \<dots> \<lparr>ls_limiter = ?r, ls_goroutines = [(''core'', Missed), (''core'', Missed)]\<rparr>"
    using limiter_step.miss [of 1 "\<lparr>ls_limiter = ?r, ls_goroutines = [(''core'', Missed), (''core'', Looking)]\<rparr>" "''core''"]
    by (simp add: limiter_read_def newPerAPIGroupRateLimiter_def)
  also have "limiter_step \<dots> \<lparr>ls_limiter = ?r', ls_goroutines = [(''core'', Got (TokenBucket 0)), (''core'', Missed)]\<rparr>"
    using limiter_step.locked [of 0 "\<lparr>ls_limiter = ?r, ls_goroutines = [(''core'', Missed), (''core'', Missed)]\<rparr>" "''core''"
        "TokenBucket 0" ?r']
    by (simp add: limiter_locked_def newPerAPIGroupRateLimiter_def)
  also have "limiter_step \<dots> demo_lookups"
    using limiter_step.locked [of 1 "\<lparr>ls_limiter = ?r', ls_goroutines = [(''core'', Got (TokenBucket 0)), (''core'', Missed)]\<rparr>" "''core''"
        "TokenBucket 0" ?r']
    by (simp add: limiter_locked_def newPerAPIGroupRateLimiter_def demo_lookups_def)
  finally show ?thesis .
qed

theorem one_bucket_per_group_witness:
  "limiter_step\<^sup>*\<^sup>* \<lparr>ls_limiter = newPerAPIGroupRateLimiter 5 10 ''c'', ls_goroutines = []\<rparr> demo_lookups
   \<and> (\<exists>l k. ls_goroutines demo_lookups = [(''core'', Got l), (''core'', Got k)] \<and> l = k)"
  using one_bucket_per_group [OF demo_lookups_reached, of "''core''" "TokenBucket 0" "''core''" "TokenBucket 0"] demo_lookups_reached
  by (simp add: demo_lookups_def)

section \<open>What a request leaves behind\<close>

lemma limiterFor_bucket: "limiterFor r g = (l, r') \<Longrightarrow> map_of (rl_limiters r') g = Some l"
  by (auto simp: limiterFor_def limiter_read_def limiter_locked_def split: option.splits if_splits)

text \<open>A request of a component is either refused by the bucket of its API group, then nothing is sent, one throttled request is counted
  for that group and component and the error names the group; or it is sent exactly once, after at most one wait for that bucket, and observed
  once, with the status of its answer, under the same group and component.\<close>
theorem request_is_throttled_or_sent:
  assumes "component_RoundTrip E r tr req = (resp, r', tr')"
    shows "\<exists>l. map_of (rl_limiters r') (pathToAPIGroup (rq_path req)) = Some l
      \<and> ((\<exists>n e. l = TokenBucket n \<and> a_wait E tr n = Some e
            \<and> resp = Error (wrapf (''client-side rate limiter for Kubernetes API group '' @ quoted (pathToAPIGroup (rq_path req)) @ '': '') e)
            \<and> tr' = tr @ [AWait n, AThrottled (pathToAPIGroup (rq_path req)) (rl_component r)])
        \<or> (\<exists>pre. (l = AlwaysLimiter \<and> pre = tr \<or> (\<exists>n. l = TokenBucket n \<and> a_wait E tr n = None \<and> pre = tr @ [AWait n]))
            \<and> resp = a_next E pre req
            \<and> tr' = pre @ [ASend req, AObserve (urlToResourceDescription (rq_escapedPath req)) (rq_method req) (statusCode resp)
                             (pathToAPIGroup (rq_path req)) (rl_component r)]))"
proof -
  obtain l r1 where l: "limiterFor r (pathToAPIGroup (rq_path req)) = (l, r1)" by fastforce
  then show ?thesis
    using assms limiterFor_bucket [OF l]
    by (cases l) (auto simp: component_RoundTrip_def limited_RoundTrip_def instrumented_RoundTrip_def send_def Let_def split: option.splits)
qed

definition demo_api :: api_env where
  "demo_api = \<lparr>a_wait = (\<lambda>tr n. if length tr < 2 then None else Some (Err ''deadline'')), a_next = (\<lambda>tr req. Reply 200)\<rparr>"

definition demo_request :: api_request where
  "demo_request = \<lparr>rq_path = ''/api/v1/pods'', rq_escapedPath = ''/api/v1/pods'', rq_method = ''GET''\<rparr>"

lemma demo_request_run:
  "component_RoundTrip demo_api (newPerAPIGroupRateLimiter 5 10 ''c'') [] demo_request =
     (Reply 200, (newPerAPIGroupRateLimiter 5 10 ''c'')\<lparr>rl_limiters := [(''core'', TokenBucket 0)], rl_buckets := 1\<rparr>,
      [AWait 0, ASend demo_request, AObserve ''core/v1/pods collection'' ''GET'' ''200'' ''core'' ''c''])"
  by code_simp

theorem request_is_throttled_or_sent_witness:
  "component_RoundTrip demo_api (newPerAPIGroupRateLimiter 5 10 ''c'') [] demo_request =
     (Reply 200, (newPerAPIGroupRateLimiter 5 10 ''c'')\<lparr>rl_limiters := [(''core'', TokenBucket 0)], rl_buckets := 1\<rparr>,
      [AWait 0, ASend demo_request, AObserve ''core/v1/pods collection'' ''GET'' ''200'' ''core'' ''c''])
   \<and> (\<exists>l. map_of [(''core'', TokenBucket 0)] (pathToAPIGroup ''/api/v1/pods'') = Some l)"
  using request_is_throttled_or_sent [OF demo_request_run] demo_request_run by (auto simp: demo_request_def)

end
