(* ===== verification/OperatorFlags.thy ===== *)
theory OperatorFlags
  imports TlsCert ApiClient
begin

text \<open>
  The flags of \<^verbatim>\<open>cmd/rollout-operator/main.go\<close>: their defaults, their validation, and what the validated values are used for: the parameters of
  leader election, the deadline of a webhook, and the paths that are exempt from the validation of the cluster label.
\<close>

section \<open>The configuration\<close>

record cluster_validation =
  cv_Enabled :: bool
  cv_SoftValidation :: bool
  cv_ExcludedPaths :: "string list"
  cv_ExcludedUserAgents :: "string list"

text \<open>The fields the certificate needs are in \<^typ>\<open>tls_config\<close>.\<close>

record config = tls_config +
  logFormat :: string
  logLevel :: string
  serverPort :: int
  kubeAPIURL :: string
  kubeConfigFile :: string
  kubeClusterDomain :: string
  kubeClientTimeout :: duration
  kubeClientQPS :: rat
  kubeClientBurst :: int
  podClientTimeout :: duration
  reconcileInterval :: duration
  clusterValidationCfg :: cluster_validation
  watchReplicaTemplates :: bool
  allowMissingCRDs :: bool
  kubePodName :: string
  leaderElectionEnabled :: bool
  leaderElectionLeaseName :: string
  leaderElectionLeaseDuration :: duration
  leaderElectionRenewDeadline :: duration
  leaderElectionRetryPeriod :: duration
  serverTLSPort :: int
  serverTLSRequestTimeout :: duration
  serverSelfSignedCertDNSName :: string
  serverSelfSignedCertOrg :: string
  serverSelfSignedCertExpiration :: duration
  useZoneTracker :: bool
  zoneTrackerConfigMapName :: string
  deprecatedZPDBPodReadyAnnotationPatchTimeout :: duration

text \<open>The values of the flags that are not given; \<open>podName\<close> is the environment variable \<^verbatim>\<open>POD_NAME\<close>.\<close>

definition registered_defaults :: "string \<Rightarrow> config" where
  "registered_defaults podName =
     \<lparr>serverTLSEnabled = False, serverSelfSignedCert = True,
      serverSelfSignedCertSecretName = ''rollout-operator-self-signed-certificate'', serverCertFile = '''', serverKeyFile = '''',
      updateWebhooksWithSelfSignedCABundle = True, kubeNamespace = '''',
      logFormat = ''logfmt'', logLevel = ''debug'', serverPort = 8001, kubeAPIURL = '''', kubeConfigFile = '''',
      kubeClusterDomain = ''cluster.local.'', kubeClientTimeout = 5 * minute, kubeClientQPS = 5, kubeClientBurst = 10,
      podClientTimeout = 5 * second, reconcileInterval = 5 * second,
      clusterValidationCfg = \<lparr>cv_Enabled = False, cv_SoftValidation = False, cv_ExcludedPaths = [], cv_ExcludedUserAgents = []\<rparr>,
      watchReplicaTemplates = False, allowMissingCRDs = False, kubePodName = podName,
      leaderElectionEnabled = False, leaderElectionLeaseName = ''rollout-operator'',
      leaderElectionLeaseDuration = 15 * second, leaderElectionRenewDeadline = 10 * second, leaderElectionRetryPeriod = 2 * second,
      serverTLSPort = 8443, serverTLSRequestTimeout = 10 * second, serverSelfSignedCertDNSName = '''',
      serverSelfSignedCertOrg = ''Grafana Labs'', serverSelfSignedCertExpiration = 365 * 24 * hour,
      useZoneTracker = False, zoneTrackerConfigMapName = ''rollout-operator-zone-tracker'',
      deprecatedZPDBPodReadyAnnotationPatchTimeout = 5 * second\<rparr>"

definition defaultClusterValidationExcludePaths :: "string list" where
  "defaultClusterValidationExcludePaths = [''admission/no-downscale'', ''admission/prepare-downscale'', ''ui'']"

text \<open>The default of the excluded paths is applied after the flags are parsed.\<close>

definition apply_default_exclusions :: "config \<Rightarrow> config" where
  "apply_default_exclusions cfg =
     (if cv_ExcludedPaths (clusterValidationCfg cfg) = []
      then cfg\<lparr>clusterValidationCfg := (clusterValidationCfg cfg)\<lparr>cv_ExcludedPaths := defaultClusterValidationExcludePaths\<rparr>\<rparr>
      else cfg)"

section \<open>Validation\<close>

text \<open>
  \<^verbatim>\<open>float64\<close> for numbers that are not negative: rounding to 53 significant bits, to the nearest and to even on a tie. A value is scaled
  by \<open>2 ^ 52\<close>, so that the constant \<^verbatim>\<open>1.2\<close> is the integer below.
\<close>

fun bit_length :: "nat \<Rightarrow> nat" where
  "bit_length n = (if n = 0 then 0 else Suc (bit_length (n div 2)))"

declare bit_length.simps [simp del]

definition round53 :: "nat \<Rightarrow> nat" where
  "round53 n =
     (let e = bit_length n - 53; u = 2 ^ e; q = n div u; r = n mod u
      in if 2 * r < u \<or> 2 * r = u \<and> even q then q * u else Suc q * u)"

definition JitterFactor52 :: nat where
  "JitterFactor52 = 5404319552844595"

text \<open>\<^verbatim>\<open>time.Duration(leaderelection.JitterFactor * float64(d))\<close>; a product beyond \<^verbatim>\<open>int64\<close> is converted to the smallest one, as amd64 does.\<close>

definition jittered :: "duration \<Rightarrow> duration" where
  "jittered d =
     (let x = int (round53 (round53 (nat d) * JitterFactor52) div 2 ^ 52) in if x < 2 ^ 63 then x else - (2 ^ 63))"

text \<open>\<^verbatim>\<open>d.Truncate(m)\<close> for a positive \<^verbatim>\<open>m\<close>: the remainder has the sign of \<^verbatim>\<open>d\<close>.\<close>

definition Truncate :: "duration \<Rightarrow> duration \<Rightarrow> duration" where
  "Truncate d m = (if d < 0 then d + (- d) mod m else d - d mod m)"

definition cluster_Validate :: "cluster_validation \<Rightarrow> string \<Rightarrow> err option" where
  "cluster_Validate c label =
     (if label = '''' then
        (if cv_Enabled c \<or> cv_SoftValidation c
         then Some (Err ''http: validation cannot be enabled if cluster validation label is not configured'') else None)
      else if \<not> cv_Enabled c \<and> cv_SoftValidation c
      then Some (Err ''http: soft validation can be enabled only if cluster validation is enabled'') else None)"

definition validate_election :: "config \<Rightarrow> err option" where
  "validate_election cfg =
     (if leaderElectionLeaseName cfg = '''' then Some (Err ''-leader-election.lease-name cannot be an empty string'')
      else if leaderElectionLeaseDuration cfg < second then Some (Err ''-leader-election.lease-duration must be at least one second'')
      else if leaderElectionRenewDeadline cfg \<le> 0 then Some (Err ''-leader-election.renew-deadline must be positive'')
      else if leaderElectionRetryPeriod cfg \<le> 0 then Some (Err ''-leader-election.retry-period must be positive'')
      else if Truncate (leaderElectionLeaseDuration cfg) second \<le> leaderElectionRenewDeadline cfg
      then Some (Err ''-leader-election.lease-duration, truncated to whole seconds by Kubernetes, must be greater than -leader-election.renew-deadline'')
      else if leaderElectionRenewDeadline cfg \<le> jittered (leaderElectionRetryPeriod cfg)
      then Some (Err ''-leader-election.renew-deadline must be greater than -leader-election.retry-period multiplied by the client-go jitter factor'')
      else None)"

definition validate :: "config \<Rightarrow> err option" where
  "validate cfg =
     (if kubeClusterDomain cfg = '''' then Some (Err ''-kubernetes.cluster-domain cannot be an empty string'')
      else if kubeNamespace cfg = '''' then Some (Err ''-kubernetes.namespace has not been specified'')
      else if (kubeAPIURL cfg = '''') \<noteq> (kubeConfigFile cfg = '''')
      then Some (Err ''either configure both -kubernetes.api-url and -kubernetes.config-file or neither'')
      else if useZoneTracker cfg \<and> zoneTrackerConfigMapName cfg = ''''
      then Some (Err ''-use-zone-tracker is true, but -zone-tracker.config-map-name has not been specified'')
      else if 0 < kubeClientQPS cfg \<and> kubeClientBurst cfg < 1
      then Some (Err ''-kubernetes.client-burst must be at least 1 when -kubernetes.client-qps is greater than 0, since each request consumes one token'')
      else
        (case (if leaderElectionEnabled cfg then validate_election cfg else None) of
           Some e \<Rightarrow> Some e
         | None \<Rightarrow>
             if serverTLSRequestTimeout cfg \<le> 0 then Some (Err ''-server-tls.request-timeout must be positive'')
             else cluster_Validate (clusterValidationCfg cfg) (kubeNamespace cfg)))"

section \<open>What the values are used for\<close>

definition initLogger :: "config \<Rightarrow> err option" where
  "initLogger cfg =
     (if logFormat cfg \<notin> {''logfmt'', ''json''} then Some (Err (''unknown log format: '' @ logFormat cfg))
      else if logLevel cfg \<notin> {''debug'', ''info'', ''warn'', ''error''} then Some (Err (''unknown log level: '' @ logLevel cfg))
      else None)"

text \<open>The identity of a candidate: the name of its pod, or of its host, and a fresh identifier.\<close>

definition election_identity :: "config \<Rightarrow> string \<Rightarrow> string \<Rightarrow> string" where
  "election_identity cfg hostname uuid = (if kubePodName cfg = '''' then hostname else kubePodName cfg) @ ''_'' @ uuid"

text \<open>\<^verbatim>\<open>NewLeaderElector\<close> of client-go, for the callbacks and the lock the operator gives it.\<close>

definition NewLeaderElector :: "config \<Rightarrow> string \<Rightarrow> err option" where
  "NewLeaderElector cfg identity =
     (if leaderElectionLeaseDuration cfg \<le> leaderElectionRenewDeadline cfg then Some (Err ''leaseDuration must be greater than renewDeadline'')
      else if leaderElectionRenewDeadline cfg \<le> jittered (leaderElectionRetryPeriod cfg)
      then Some (Err ''renewDeadline must be greater than retryPeriod*JitterFactor'')
      else if leaderElectionLeaseDuration cfg < 1 then Some (Err ''leaseDuration must be greater than zero'')
      else if leaderElectionRenewDeadline cfg < 1 then Some (Err ''renewDeadline must be greater than zero'')
      else if leaderElectionRetryPeriod cfg < 1 then Some (Err ''retryPeriod must be greater than zero'')
      else if identity = '''' then Some (Err ''Lock identity is empty'')
      else None)"

text \<open>\<^verbatim>\<open>cfg.serverTLSRequestTimeout * 9 / 10\<close>: the product wraps, the quotient is cut towards zero.\<close>

definition webhookHandlerTimeout :: "config \<Rightarrow> duration" where
  "webhookHandlerTimeout cfg =
     (let p = wrap64 (serverTLSRequestTimeout cfg * 9) in if p < 0 then - ((- p) div 10) else p div 10)"

text \<open>
  The middleware for the cluster label: a request passes if its path is excluded (the unanchored pattern \<^verbatim>\<open>.*/(...)\<close>), or if its user agent matches one of the
  excluded patterns, or if it carries the label of the namespace; otherwise it is refused unless validation is soft. \<open>agentMatches\<close> tells which regular
  expressions match the user agent of the request and \<open>reqCluster\<close> is its header with the label.
\<close>

fun occurs_after_slash :: "string list \<Rightarrow> string \<Rightarrow> bool" where
  "occurs_after_slash ws [] = False"
| "occurs_after_slash ws (c # cs) = ((c = CHR ''/'' \<and> list_ex (HasPrefix cs) ws) \<or> occurs_after_slash ws cs)"

definition excludedPath :: "cluster_validation \<Rightarrow> string \<Rightarrow> bool" where
  "excludedPath c path = occurs_after_slash ([''metrics'', ''debug/pprof'', ''ready''] @ cv_ExcludedPaths c) path"

definition passes_cluster_validation :: "config \<Rightarrow> (string \<Rightarrow> bool) \<Rightarrow> string \<Rightarrow> string option \<Rightarrow> bool" where
  "passes_cluster_validation cfg agentMatches path reqCluster \<longleftrightarrow>
     \<not> cv_Enabled (clusterValidationCfg cfg) \<or> cv_SoftValidation (clusterValidationCfg cfg)
     \<or> excludedPath (clusterValidationCfg cfg) path \<or> list_ex agentMatches (cv_ExcludedUserAgents (clusterValidationCfg cfg))
     \<or> reqCluster = Some (kubeNamespace cfg)"

text \<open>The webhooks of the TLS server by their paths.\<close>

datatype webhook_handler = NoDownscaleHandler | PrepareDownscaleHandler | PodEvictionHandler | ZpdbValidationHandler

definition tls_routes :: "(string \<times> webhook_handler) list" where
  "tls_routes =
     [(''/admission/no-downscale'', NoDownscaleHandler), (''/admission/prepare-downscale'', PrepareDownscaleHandler),
      (''/admission/pod-eviction'', PodEvictionHandler), (''/admission/zpdb-validation'', ZpdbValidationHandler)]"

datatype tls_answer = Handled webhook_handler | ClusterRefused | NotFoundAnswer

definition tls_serve :: "config \<Rightarrow> (string \<Rightarrow> bool) \<Rightarrow> string \<Rightarrow> string option \<Rightarrow> tls_answer" where
  "tls_serve cfg agentMatches path reqCluster =
     (if \<not> passes_cluster_validation cfg agentMatches path reqCluster then ClusterRefused
      else case map_of tls_routes path of Some h \<Rightarrow> Handled h | None \<Rightarrow> NotFoundAnswer)"

section \<open>Properties\<close>

lemma bit_length_0 [simp]: "bit_length 0 = 0"
  by (simp add: bit_length.simps)

lemma bit_length_1: "bit_length (Suc 0) = Suc 0"
  by (subst bit_length.simps, subst bit_length.simps) simp

lemma bit_length_pow: "n \<noteq> 0 \<Longrightarrow> 2 ^ (bit_length n - 1) \<le> n"
proof (induction n rule: bit_length.induct)
  case (1 n)
  show ?case
  proof (cases "n div 2 = 0")
    case True
    then have "n = 1" using 1 by linarith
    then show ?thesis by (simp add: bit_length_1)
  next
    case False
    then have "2 ^ (bit_length (n div 2) - 1) \<le> n div 2" using 1 by simp
    moreover have "bit_length (n div 2) = Suc (bit_length (n div 2) - 1)"
      using False by (simp add: bit_length.simps [of "n div 2"])
    moreover have "bit_length n = Suc (bit_length (n div 2))" using 1 by (simp add: bit_length.simps [of n])
    ultimately have "2 ^ (bit_length n - 1) \<le> 2 * (n div 2)"
      by (metis diff_Suc_1 mult_le_mono2 power_Suc)
    then show ?thesis by linarith
  qed
qed

lemma bit_length_less: "n < 2 ^ k \<Longrightarrow> bit_length n \<le> k"
proof (induction k arbitrary: n)
  case 0
  then show ?case by (simp add: bit_length.simps)
next
  case (Suc k)
  then show ?case by (subst bit_length.simps) auto
qed

lemma round53_exact: "n < 2 ^ 53 \<Longrightarrow> round53 n = n"
  using bit_length_less [of n 53] by (simp add: round53_def)

text \<open>Rounding loses at most one part in \<open>2 ^ 53\<close>, and at most doubles.\<close>

lemma round53_remainder:
  assumes "2 * (n mod 2 ^ (bit_length n - 53)) \<le> 2 ^ (bit_length n - 53)"
    shows "2 ^ 53 * (n mod 2 ^ (bit_length n - 53)) \<le> n"
proof (cases "bit_length n \<le> 53")
  case False
  then have "n \<noteq> 0" by (cases "n = 0") auto
  have "(2::nat) ^ 53 * (n mod 2 ^ (bit_length n - 53)) \<le> 2 ^ 52 * 2 ^ (bit_length n - 53)" using assms by simp
  also have "\<dots> = 2 ^ (52 + (bit_length n - 53))" by (simp only: power_add)
  also have "\<dots> = 2 ^ (bit_length n - 1)" using False by simp
  also have "\<dots> \<le> n" using bit_length_pow [OF \<open>n \<noteq> 0\<close>] .
  finally show ?thesis .
qed simp

lemma round53_cases:
  "round53 n = n - n mod 2 ^ (bit_length n - 53) \<and> 2 * (n mod 2 ^ (bit_length n - 53)) \<le> 2 ^ (bit_length n - 53)
   \<or> n \<le> round53 n"
proof -
  let ?u = "(2::nat) ^ (bit_length n - 53)"
  have "n \<le> Suc (n div ?u) * ?u" using dividend_less_div_times [of ?u n] by simp
  then show ?thesis by (auto simp: round53_def Let_def minus_mod_eq_div_mult)
qed

lemma round53_ge: "2 ^ 53 * n \<le> 2 ^ 53 * round53 n + n"
  using round53_cases [of n]
proof
  assume *: "round53 n = n - n mod 2 ^ (bit_length n - 53) \<and> 2 * (n mod 2 ^ (bit_length n - 53)) \<le> 2 ^ (bit_length n - 53)"
  then show ?thesis using round53_remainder [of n] by (simp add: right_diff_distrib')
qed simp

lemma round53_le: "round53 n \<le> 2 * n"
proof (cases "bit_length n \<le> 53")
  case True
  then show ?thesis by (simp add: round53_def)
next
  case False
  let ?u = "(2::nat) ^ (bit_length n - 53)"
  have "?u \<le> 2 ^ (bit_length n - 1)" by simp
  also have "\<dots> \<le> n" using False by (intro bit_length_pow) (cases "n = 0", auto)
  finally have "?u \<le> n" .
  moreover have "n div ?u * ?u \<le> n" by (rule div_times_less_eq_dividend)
  moreover have "round53 n \<le> n div ?u * ?u + ?u" by (auto simp: round53_def Let_def)
  ultimately show ?thesis by linarith
qed

lemma jittered_ge:
  assumes "0 \<le> d" "d < 2 ^ 52"
    shows "d \<le> jittered d"
proof -
  define m where "m = nat d"
  have m: "m < 2 ^ 52" using assms by (simp add: m_def nat_less_iff)
  define p where "p = round53 (m * JitterFactor52)"
  have "9007199254740992 * (m * JitterFactor52) \<le> 9007199254740992 * p + m * JitterFactor52"
    using round53_ge [of "m * JitterFactor52"] by (simp add: p_def)
  then have "m * 2 ^ 52 \<le> p" by (simp add: JitterFactor52_def)
  then have "m \<le> p div 2 ^ 52" by (simp add: less_eq_div_iff_mult_less_eq)
  moreover have "p div 2 ^ 52 < 2 ^ 63"
  proof -
    have "p \<le> 2 * (m * JitterFactor52)" using round53_le by (simp add: p_def)
    then show ?thesis using m by (simp add: JitterFactor52_def less_mult_imp_div_less)
  qed
  moreover have "jittered d = (let x = int (p div 2 ^ 52) in if x < 2 ^ 63 then x else - (2 ^ 63))"
    using round53_exact [of m] m unfolding jittered_def p_def m_def [symmetric] by simp
  ultimately show ?thesis using assms by (simp add: m_def Let_def nat_le_iff)
qed

lemma validate_election_None:
  "validate_election cfg = None \<longleftrightarrow>
     leaderElectionLeaseName cfg \<noteq> '''' \<and> second \<le> leaderElectionLeaseDuration cfg \<and> 0 < leaderElectionRenewDeadline cfg
     \<and> 0 < leaderElectionRetryPeriod cfg \<and> leaderElectionRenewDeadline cfg < Truncate (leaderElectionLeaseDuration cfg) second
     \<and> jittered (leaderElectionRetryPeriod cfg) < leaderElectionRenewDeadline cfg"
  by (auto simp: validate_election_def)

lemma validate_None:
  "validate cfg = None \<longleftrightarrow>
     kubeClusterDomain cfg \<noteq> '''' \<and> kubeNamespace cfg \<noteq> '''' \<and> (kubeAPIURL cfg = '''' \<longleftrightarrow> kubeConfigFile cfg = '''')
     \<and> (useZoneTracker cfg \<longrightarrow> zoneTrackerConfigMapName cfg \<noteq> '''') \<and> (0 < kubeClientQPS cfg \<longrightarrow> 1 \<le> kubeClientBurst cfg)
     \<and> (leaderElectionEnabled cfg \<longrightarrow> validate_election cfg = None) \<and> 0 < serverTLSRequestTimeout cfg
     \<and> cluster_Validate (clusterValidationCfg cfg) (kubeNamespace cfg) = None"
  by (auto simp: validate_def split: option.splits)

lemma Truncate_le: "0 \<le> d \<Longrightarrow> 0 < m \<Longrightarrow> Truncate d m \<le> d"
  by (simp add: Truncate_def)

text \<open>The defaults need a namespace only.\<close>

lemma defaults_are_valid: "ns \<noteq> '''' \<Longrightarrow> validate ((registered_defaults podName)\<lparr>kubeNamespace := ns\<rparr>) = None"
  by (simp add: validate_None registered_defaults_def cluster_Validate_def second_def)

text \<open>A configuration that passes the validation is accepted by the leader elector of client-go, so the process does not fail on it after it has
  started: the lease, as Kubernetes stores it in whole seconds, outlives the renewal deadline, which is longer than the retry
  period (for retry periods under 52 days, where the product with the jitter factor is computed without loss of range).\<close>
lemma validated_election_is_accepted:
  assumes "validate cfg = None" and "leaderElectionEnabled cfg"
    shows "NewLeaderElector cfg (election_identity cfg hostname uuid) = None
         \<and> leaderElectionRenewDeadline cfg < Truncate (leaderElectionLeaseDuration cfg) second
         \<and> (leaderElectionRetryPeriod cfg < 2 ^ 52 \<longrightarrow> leaderElectionRetryPeriod cfg < leaderElectionRenewDeadline cfg)"
proof -
  have v: "second \<le> leaderElectionLeaseDuration cfg" "0 < leaderElectionRenewDeadline cfg" "0 < leaderElectionRetryPeriod cfg"
      "leaderElectionRenewDeadline cfg < Truncate (leaderElectionLeaseDuration cfg) second"
      "jittered (leaderElectionRetryPeriod cfg) < leaderElectionRenewDeadline cfg"
    using assms(1,2) by (simp_all add: validate_None validate_election_None)
  have "Truncate (leaderElectionLeaseDuration cfg) second \<le> leaderElectionLeaseDuration cfg"
    using v(1) by (intro Truncate_le) (simp_all add: second_def)
  then show ?thesis using v jittered_ge [of "leaderElectionRetryPeriod cfg"] by (auto simp: NewLeaderElector_def election_identity_def)
qed

definition demo_config :: config where
  "demo_config = (registered_defaults ''pod-0'')\<lparr>kubeNamespace := ''ns'', leaderElectionEnabled := True, serverTLSEnabled := True\<rparr>"

lemma jittered_default: "jittered (2 * second) < 10 * second"
proof -
  have "bit_length 10808639105689190000000000 = 84" by (simp add: bit_length.simps)
  then show ?thesis
    by (simp add: jittered_def second_def round53_exact JitterFactor52_def) (simp add: round53_def Let_def)
qed

lemma validated_election_is_accepted_witness: "validate demo_config = None \<and> NewLeaderElector demo_config (election_identity demo_config ''host'' ''1'') = None"
proof -
  have v: "validate demo_config = None"
    using jittered_default
    by (simp add: validate_None validate_election_None demo_config_def registered_defaults_def cluster_Validate_def Truncate_def second_def)
  show ?thesis
    using validated_election_is_accepted [OF v, of "''host''" "''1''"] v by (simp add: demo_config_def)
qed

text \<open>The deadline of a webhook lies strictly within the time the server gives a request.\<close>

lemma handler_timeout_bounds:
  assumes "2 \<le> serverTLSRequestTimeout cfg" and "serverTLSRequestTimeout cfg * 9 < 2 ^ 63"
    shows "0 < webhookHandlerTimeout cfg \<and> webhookHandlerTimeout cfg < serverTLSRequestTimeout cfg"
proof -
  have "wrap64 (serverTLSRequestTimeout cfg * 9) = serverTLSRequestTimeout cfg * 9"
    using assms by (intro wrap64_id) (simp add: is_int64_def)
  then have "webhookHandlerTimeout cfg = serverTLSRequestTimeout cfg * 9 div 10"
    using assms by (simp add: webhookHandlerTimeout_def Let_def)
  moreover have "0 < t * 9 div 10 \<and> t * 9 div 10 < t" if "2 \<le> t" for t :: int
    using div_mult_mod_eq [of "t * 9" 10] pos_mod_bound [of 10 "t * 9"] pos_mod_sign [of 10 "t * 9"] that by linarith
  ultimately show ?thesis using assms(1) by simp
qed

text \<open>C37: With the cluster label validated strictly, the default list of excluded paths and no excluded user agents, the API server, which sends no cluster label, reaches the
  no-downscale and the prepare-downscale webhooks, but its pod-eviction and budget-validation reviews are refused before they are
  handled: the default list has not been extended to them.\<close>
theorem default_exclusions_refuse_evictions:
  assumes "cv_Enabled (clusterValidationCfg cfg)" and "\<not> cv_SoftValidation (clusterValidationCfg cfg)"
      and "cv_ExcludedPaths (clusterValidationCfg cfg) = []" and "cv_ExcludedUserAgents (clusterValidationCfg cfg) = []"
    shows "tls_serve (apply_default_exclusions cfg) agentMatches ''/admission/no-downscale'' None = Handled NoDownscaleHandler
         \<and> tls_serve (apply_default_exclusions cfg) agentMatches ''/admission/prepare-downscale'' None = Handled PrepareDownscaleHandler
         \<and> tls_serve (apply_default_exclusions cfg) agentMatches ''/admission/pod-eviction'' None = ClusterRefused
         \<and> tls_serve (apply_default_exclusions cfg) agentMatches ''/admission/zpdb-validation'' None = ClusterRefused"
  using assms
  by (simp add: tls_serve_def passes_cluster_validation_def apply_default_exclusions_def excludedPath_def HasPrefix_def tls_routes_def
      defaultClusterValidationExcludePaths_def)

theorem default_exclusions_refuse_evictions_witness:
  "tls_serve (apply_default_exclusions (demo_config\<lparr>clusterValidationCfg := \<lparr>cv_Enabled = True, cv_SoftValidation = False, cv_ExcludedPaths = [], cv_ExcludedUserAgents = []\<rparr>\<rparr>))
     (\<lambda>_. False) ''/admission/pod-eviction'' None = ClusterRefused"
  using default_exclusions_refuse_evictions [of
      "demo_config\<lparr>clusterValidationCfg := \<lparr>cv_Enabled = True, cv_SoftValidation = False, cv_ExcludedPaths = [], cv_ExcludedUserAgents = []\<rparr>\<rparr>"]
  by simp

end
