(* ===== verification/Frontend.thy ===== *)
theory Frontend
  imports RolloutStatus "HOL-Library.AList"
begin

text \<open>
  \<^verbatim>\<open>pkg/frontend/frontend.go\<close>: the pages of the status UI over the snapshots of \<^verbatim>\<open>RolloutStatus\<close>. A response carries the data of its page; the templates that
  print it and the files under \<^verbatim>\<open>static\<close> are assets. The router is that of gorilla/mux for the paths it gets, which have been
  cleaned (a path that is not clean is redirected before it is routed).
\<close>

section \<open>Responses\<close>

record pageData =
  pg_Title :: string
  pg_Namespace :: string
  pg_ObservedAt :: "instant option"
  pg_Groups :: "Group list"
  pg_Empty :: bool
  pg_Error :: string
  pg_Unavailable :: bool

record statefulSetPageData =
  sp_Title :: string
  sp_Namespace :: string
  sp_ObservedAt :: "instant option"
  sp_Name :: string
  sp_Configuration :: "ConfigurationEntry list"
  sp_Error :: string
  sp_Unavailable :: bool

datatype page = NoBody | IndexPage pageData | StatefulSetPage statefulSetPageData | Plain string | StaticFile string

record http_response =
  hr_code :: int
  hr_headers :: "(string \<times> string) list"
  hr_body :: page

record http_request =
  hq_method :: string
  hq_path :: string

definition set_header :: "string \<Rightarrow> string \<Rightarrow> http_response \<Rightarrow> http_response" where
  "set_header k v r = r\<lparr>hr_headers := AList.update k v (hr_headers r)\<rparr>"

definition phaseClass :: "Phase \<Rightarrow> string" where
  "phaseClass p =
     (case p of
        PhaseComplete \<Rightarrow> ''phase-complete'' | PhaseProgressing \<Rightarrow> ''phase-progressing'' | PhaseWaiting \<Rightarrow> ''phase-waiting''
      | PhasePaused \<Rightarrow> ''phase-paused'' | PhaseDegraded \<Rightarrow> ''phase-degraded'' | PhaseUnknown \<Rightarrow> ''phase-unknown'')"

section \<open>Handlers\<close>

text \<open>The sentinel \<^verbatim>\<open>status.ErrUnavailable\<close> is told apart by its text.\<close>

definition ErrUnavailable :: err where
  "ErrUnavailable = Err ''status unavailable''"

type_synonym reader = "trace \<Rightarrow> Snapshot res \<times> trace"

text \<open>Headers are set before the status is written; a HEAD request gets no body. A reader that returns no error returns a snapshot.\<close>

definition html_page :: "http_request \<Rightarrow> int \<Rightarrow> page \<Rightarrow> http_response" where
  "html_page r code body =
     \<lparr>hr_code = code, hr_headers = [(''Content-Type'', ''text/html; charset=utf-8''), (''Cache-Control'', ''no-store'')],
      hr_body = (if hq_method r = ''HEAD'' then NoBody else body)\<rparr>"

definition handleIndex :: "reader \<Rightarrow> http_request \<Rightarrow> trace \<Rightarrow> http_response res \<times> trace" where
  "handleIndex rd r tr =
     (let data = \<lparr>pg_Title = ''Rollout status'', pg_Namespace = '''', pg_ObservedAt = None, pg_Groups = [], pg_Empty = False,
                  pg_Error = '''', pg_Unavailable = False\<rparr>;
          (snap, tr1) = rd tr
      in ((case snap of
             Panic m \<Rightarrow> Panic m
           | Fail e \<Rightarrow>
               if e = ErrUnavailable
               then Ok (html_page r 503 (IndexPage (data\<lparr>pg_Unavailable := True,
                          pg_Error := ''Status is not available yet; the operator is still starting.''\<rparr>)))
               else Ok (html_page r 500 (IndexPage (data\<lparr>pg_Error := ''Failed to load rollout status.''\<rparr>)))
           | Ok s \<Rightarrow>
               Ok (html_page r 200 (IndexPage (data\<lparr>pg_Namespace := sn_Namespace s, pg_ObservedAt := Some (sn_ObservedAt s),
                          pg_Groups := sn_Groups s, pg_Empty := sn_Groups s = []\<rparr>)))), tr1))"

definition handleStatefulSet :: "reader \<Rightarrow> string \<Rightarrow> http_request \<Rightarrow> trace \<Rightarrow> http_response res \<times> trace" where
  "handleStatefulSet rd name r tr =
     (let data = \<lparr>sp_Title = ''StatefulSet configuration'', sp_Namespace = '''', sp_ObservedAt = None, sp_Name = name,
                  sp_Configuration = [], sp_Error = '''', sp_Unavailable = False\<rparr>;
          (snap, tr1) = rd tr
      in ((case snap of
             Panic m \<Rightarrow> Panic m
           | Fail e \<Rightarrow>
               if e = ErrUnavailable
               then Ok (html_page r 503 (StatefulSetPage (data\<lparr>sp_Unavailable := True,
                          sp_Error := ''Status is not available yet; the operator is still starting.''\<rparr>)))
               else Ok (html_page r 500 (StatefulSetPage (data\<lparr>sp_Error := ''Failed to load StatefulSet configuration.''\<rparr>)))
           | Ok s \<Rightarrow>
               (let found = data\<lparr>sp_Namespace := sn_Namespace s, sp_ObservedAt := Some (sn_ObservedAt s)\<rparr> in
                case sn_Configurations s name of
                  Some conf \<Rightarrow> Ok (html_page r 200 (StatefulSetPage (found\<lparr>sp_Configuration := conf\<rparr>)))
                | None \<Rightarrow> Ok (html_page r 404 (StatefulSetPage (found\<lparr>sp_Error := ''StatefulSet not found.''\<rparr>))))), tr1))"

text \<open>\<^verbatim>\<open>http.Redirect\<close> and \<^verbatim>\<open>http.Error\<close>.\<close>

definition redirectToStatus :: "http_request \<Rightarrow> http_response" where
  "redirectToStatus r =
     \<lparr>hr_code = 302, hr_headers = [(''Location'', ''/ui/status/''), (''Content-Type'', ''text/html; charset=utf-8'')],
      hr_body = (if hq_method r = ''GET'' then Plain (''<a href='' @ [CHR 0x22] @ ''/ui/status/'' @ [CHR 0x22] @ ''>Found</a>.'' @ [CHR 0x0A, CHR 0x0A]) else NoBody)\<rparr>"

definition http_Error :: "string \<Rightarrow> int \<Rightarrow> http_response" where
  "http_Error m code =
     \<lparr>hr_code = code, hr_headers = [(''Content-Type'', ''text/plain; charset=utf-8''), (''X-Content-Type-Options'', ''nosniff'')],
      hr_body = Plain (m @ [CHR 0x0A])\<rparr>"

section \<open>Middleware and routes\<close>

type_synonym handler = "http_request \<Rightarrow> trace \<Rightarrow> http_response res \<times> trace"

definition readOnlyMiddleware :: "handler \<Rightarrow> handler" where
  "readOnlyMiddleware nxt r tr =
     (if hq_method r \<in> {''GET'', ''HEAD''} then nxt r tr
      else (Ok (set_header ''Allow'' ''GET, HEAD'' (http_Error ''method not allowed'' 405)), tr))"

definition quote_word :: "string \<Rightarrow> string" where
  "quote_word w = CHR 0x27 # w @ [CHR 0x27]"

definition security_headers :: "(string \<times> string) list" where
  "security_headers =
     [(''X-Content-Type-Options'', ''nosniff''), (''X-Frame-Options'', ''DENY''), (''Referrer-Policy'', ''no-referrer''),
      (''Content-Security-Policy'',
       ''default-src '' @ quote_word ''self'' @ ''; style-src '' @ quote_word ''self'' @ ''; img-src '' @ quote_word ''self'' @
       '' data:; frame-ancestors '' @ quote_word ''none'' @ ''; form-action '' @ quote_word ''none'' @ ''; base-uri '' @
       quote_word ''self'')]"

text \<open>The headers are set on the writer before the next handler runs, which may set the same keys again.\<close>

definition securityHeadersMiddleware :: "handler \<Rightarrow> handler" where
  "securityHeadersMiddleware nxt r tr =
     (case nxt r tr of
        (Ok w, tr1) \<Rightarrow>
          (Ok (w\<lparr>hr_headers := foldl (\<lambda>hs (k, v). AList.update k v hs) security_headers (hr_headers w)\<rparr>), tr1)
      | (Fail e, tr1) \<Rightarrow> (Fail e, tr1)
      | (Panic m, tr1) \<Rightarrow> (Panic m, tr1))"

text \<open>
  The routes in the order in which they are registered. \<open>static\<close> is \<^verbatim>\<open>http.FileServer\<close> on the embedded files: it gets the path
  under \<^verbatim>\<open>/ui/status/static/\<close>. A variable of a path matches any non-empty text without a slash.
\<close>

definition BasePath :: string where
  "BasePath = ''/ui/status''"

definition path_var :: "string \<Rightarrow> string \<Rightarrow> string option" where
  "path_var pre path =
     (let v = drop (length pre) path in if HasPrefix path pre \<and> v \<noteq> [] \<and> CHR ''/'' \<notin> set v then Some v else None)"

definition ui_route :: "(string \<Rightarrow> http_request \<Rightarrow> http_response) \<Rightarrow> reader \<Rightarrow> string \<Rightarrow> handler option" where
  "ui_route static rd path =
     (case path_var (BasePath @ ''/statefulset/'') path of
        Some name \<Rightarrow> Some (handleStatefulSet rd name)
      | None \<Rightarrow>
          if path = BasePath @ ''/'' \<or> path = BasePath then Some (handleIndex rd)
          else if HasPrefix path (BasePath @ ''/static/'')
          then Some (\<lambda>r tr. (Ok (static (TrimPrefix path (BasePath @ ''/static/'')) r), tr))
          else if path = ''/ui/'' \<or> path = ''/ui'' then Some (\<lambda>r tr. (Ok (redirectToStatus r), tr))
          else None)"

text \<open>Middleware wraps a handler that was matched; the first one registered is the outermost.\<close>

definition serveUI :: "(string \<Rightarrow> http_request \<Rightarrow> http_response) \<Rightarrow> reader \<Rightarrow> handler" where
  "serveUI static rd r tr =
     (case ui_route static rd (hq_path r) of
        None \<Rightarrow> (Ok (http_Error ''404 page not found'' 404), tr)
      | Some h \<Rightarrow> readOnlyMiddleware (securityHeadersMiddleware h) r tr)"

text \<open>
  \<^verbatim>\<open>New\<close>: a reader is required; parsing the templates and opening the assets, both embedded in the binary, may fail.
\<close>

definition frontend_New :: "reader option \<Rightarrow> unit reply \<Rightarrow> (string \<Rightarrow> http_request \<Rightarrow> http_response) reply
    \<Rightarrow> (reader \<times> (string \<Rightarrow> http_request \<Rightarrow> http_response)) res" where
  "frontend_New rd templates static =
     (case rd of
        None \<Rightarrow> Fail (Err ''status reader is required'')
      | Some r \<Rightarrow>
          (case templates of
             Error e \<Rightarrow> Fail (wrapf ''parse templates: '' e)
           | Reply _ \<Rightarrow>
               (case static of
                  Error e \<Rightarrow> Fail (wrapf ''static assets: '' e)
                | Reply st \<Rightarrow> Ok (r, st))))"

section \<open>A snapshot only reads the informer caches\<close>

definition looks :: "trace \<Rightarrow> trace \<Rightarrow> bool" where
  "looks tr tr' \<longleftrightarrow> (\<exists>evs. tr' = tr @ evs \<and> set evs \<subseteq> {EvNow, EvListStatefulSets, EvListPods})"

lemma looks_refl [simp]: "looks tr tr"
  by (simp add: looks_def)

lemma looks_trans [trans]: "looks a b \<Longrightarrow> looks b c \<Longrightarrow> looks a c"
  by (auto simp: looks_def)

lemma looks_snoc [simp]: "e \<in> {EvNow, EvListStatefulSets, EvListPods} \<Longrightarrow> looks tr (tr @ [e])"
  by (simp add: looks_def)

lemma memberStatus_looks: "memberStatus E ns tr s = (q, tr') \<Longrightarrow> looks tr tr'"
  by (auto simp: memberStatus_def listPodsByStatefulSet_def listPods_def split: prod.splits res.splits reply.splits)

lemma membersStatus_looks: "membersStatus E ns tr sets confs = (q, tr') \<Longrightarrow> looks tr tr'"
proof (induction sets arbitrary: tr confs q)
  case (Cons s sets)
  obtain q1 tr1 where one: "memberStatus E ns tr s = (q1, tr1)" by fastforce
  from Cons.prems one have "tr' = tr1 \<or> (\<exists>confs1 q2. membersStatus E ns tr1 sets confs1 = (q2, tr'))"
    by (auto split: res.splits prod.splits)
  then have "looks tr1 tr'" using Cons.IH by auto
  with memberStatus_looks [OF one] show ?case by (rule looks_trans)
qed simp

lemma snapshotGroups_looks: "snapshotGroups cancelled E ns sets tr names confs = (q, tr') \<Longrightarrow> looks tr tr'"
proof (induction names arbitrary: tr confs q)
  case (Cons n names)
  let ?sets = "SortStatefulSets (the (GroupStatefulSetsByLabel sets RolloutGroupLabelKey Map.empty n))"
  obtain q1 tr1 where m: "membersStatus E ns tr ?sets confs = (q1, tr1)" by fastforce
  from Cons.prems m have "tr' = tr \<or> tr' = tr1 \<or> (\<exists>confs1 q2. snapshotGroups cancelled E ns sets tr1 names confs1 = (q2, tr'))"
    by (auto split: res.splits prod.splits option.splits)
  then have "tr' = tr \<or> looks tr1 tr'" using Cons.IH by auto
  with membersStatus_looks [OF m] looks_trans show ?case by auto
qed simp

lemma takeSnapshot_looks:
  assumes "takeSnapshot cancelled E ns tr = (q, tr')"
  shows "looks tr tr'"
proof -
  have step: "looks tr (tr @ [EvListStatefulSets])" "looks tr ((tr @ [EvListStatefulSets]) @ [EvNow])"
    by (simp_all add: looks_def)
  from assms have "tr' = tr \<or> tr' = tr @ [EvListStatefulSets] \<or>
      (\<exists>sets names q2. snapshotGroups cancelled E ns sets ((tr @ [EvListStatefulSets]) @ [EvNow]) names Map.empty = (q2, tr'))"
    by (auto simp: takeSnapshot_def Let_def split: res.splits prod.splits option.splits reply.splits)
  then show ?thesis using step looks_trans [OF step(2) snapshotGroups_looks] by auto
qed


lemma memberStatus_conf_step:
  assumes "membersStatus E ns tr (s # sets) confs = (Ok (members, confs'), tr')"
  obtains tr1 ms where "membersStatus E ns tr1 sets (confs(sts_name s \<mapsto> statefulSetConfiguration s)) = (Ok (ms, confs'), tr')"
  using assms by (auto split: res.splits prod.splits)


definition confs_show :: "statefulset list \<Rightarrow> (string \<rightharpoonup> ConfigurationEntry list) \<Rightarrow> (string \<rightharpoonup> ConfigurationEntry list) \<Rightarrow> bool" where
  "confs_show sets confs confs' \<longleftrightarrow>
     (\<forall>n. if n \<in> sts_name ` set sets then \<exists>s\<in>set sets. sts_name s = n \<and> confs' n = Some (statefulSetConfiguration s)
          else confs' n = confs n)"

lemma confs_show_trans:
  assumes "confs_show a c0 c1" and "confs_show b c1 c2"
  shows "confs_show (a @ b) c0 c2"
  unfolding confs_show_def
proof
  fix n
  have 1: "if n \<in> sts_name ` set a then \<exists>s\<in>set a. sts_name s = n \<and> c1 n = Some (statefulSetConfiguration s) else c1 n = c0 n"
    using assms(1) by (simp add: confs_show_def)
  have 2: "if n \<in> sts_name ` set b then \<exists>s\<in>set b. sts_name s = n \<and> c2 n = Some (statefulSetConfiguration s) else c2 n = c1 n"
    using assms(2) by (simp add: confs_show_def)
  from 1 2 show "if n \<in> sts_name ` set (a @ b)
      then \<exists>s\<in>set (a @ b). sts_name s = n \<and> c2 n = Some (statefulSetConfiguration s) else c2 n = c0 n"
    by (auto split: if_splits)
qed

lemma membersStatus_confs:
  "membersStatus E ns tr sets confs = (Ok (members, confs'), tr') \<Longrightarrow> confs_show sets confs confs'"
proof (induction sets arbitrary: tr confs members)
  case (Cons s sets)
  from Cons.prems obtain tr1 ms where
    "membersStatus E ns tr1 sets (confs(sts_name s \<mapsto> statefulSetConfiguration s)) = (Ok (ms, confs'), tr')"
    by (rule memberStatus_conf_step)
  from Cons.IH [OF this] have "confs_show sets (confs(sts_name s \<mapsto> statefulSetConfiguration s)) confs'" .
  moreover have "confs_show [s] confs (confs(sts_name s \<mapsto> statefulSetConfiguration s))" by (simp add: confs_show_def)
  ultimately show ?case using confs_show_trans [of "[s]"] by simp
qed (simp add: confs_show_def)

lemma confs_show_set: "set a = set b \<Longrightarrow> confs_show a c c' = confs_show b c c'"
  by (simp add: confs_show_def)

lemma snapshotGroups_confs:
  assumes "snapshotGroups cancelled E ns sets tr names confs = (Ok (groups, confs'), tr')"
    and "set names \<subseteq> set (group_names sets)"
  shows "confs_show (concat (map (group_sets sets) names)) confs confs'"
  using assms
proof (induction names arbitrary: tr confs groups)
  case (Cons n names)
  let ?sets = "SortStatefulSets (group_sets sets n)"
  have g: "the (GroupStatefulSetsByLabel sets RolloutGroupLabelKey Map.empty n) = group_sets sets n"
    using Cons.prems(2) by (simp add: group_lookup)
  from Cons.prems(1) g obtain members confs1 tr1 gs where m: "membersStatus E ns tr ?sets confs = (Ok (members, confs1), tr1)"
    and rest: "snapshotGroups cancelled E ns sets tr1 names confs1 = (Ok (gs, confs'), tr')"
    by (auto split: option.splits res.splits prod.splits)
  have "confs_show (group_sets sets n) confs confs1"
    using membersStatus_confs [OF m] by (simp add: confs_show_set [of ?sets "group_sets sets n"])
  from confs_show_trans [OF this Cons.IH [OF rest]] Cons.prems(2) show ?case by simp
qed (simp add: confs_show_def)

lemma takeSnapshot_confs:
  assumes "takeSnapshot cancelled E ns tr = (Ok sn, tr')"
  obtains all where "e_sts_lister E tr = Reply all" and "sn_Namespace sn = ns"
    and "confs_show (listed_sets ns all) Map.empty (sn_Configurations sn)"
proof -
  from assms obtain all where all: "e_sts_lister E tr = Reply all"
    by (auto simp: takeSnapshot_def Let_def split: option.splits reply.splits)
  let ?sets = "listed_sets ns all"
  from assms all obtain groups confs tr2 where
    g: "snapshotGroups cancelled E ns ?sets tr2 (sort (group_names ?sets)) Map.empty = (Ok (groups, confs), tr')"
    and sn: "sn_Namespace sn = ns" "sn_Configurations sn = confs"
    by (auto simp: takeSnapshot_def Let_def listed_sets_def split: option.splits res.splits prod.splits)
  have "set (concat (map (group_sets ?sets) (sort (group_names ?sets)))) = set ?sets"
    by (auto simp: group_sets_def group_names_def)
  with snapshotGroups_confs [OF g] have "confs_show ?sets Map.empty confs"
    by (simp add: confs_show_set [of "concat (map (group_sets ?sets) (sort (group_names ?sets)))" ?sets])
  with all sn that show ?thesis by simp
qed

section \<open>Properties\<close>

lemma updates_keep_keys: "fst ` set hs \<subseteq> fst ` set (foldl (\<lambda>hs (k, v). AList.update k v hs) hs kvs)"
proof (induction kvs arbitrary: hs)
  case (Cons kv kvs)
  have "fst ` set hs \<subseteq> fst ` set (AList.update (fst kv) (snd kv) hs)" by (simp add: dom_update subset_insertI)
  also have "\<dots> \<subseteq> fst ` set (foldl (\<lambda>hs (k, v). AList.update k v hs) (AList.update (fst kv) (snd kv) hs) kvs)" by (rule Cons.IH)
  finally show ?case by (cases kv) simp
qed simp

text \<open>The status UI only reads. Whatever the request, method and path, and whether or not a reader is bound yet, a request that
  completes adds nothing to what the operator does but reads of the clock and of the informer caches, and a request with a
  method other than GET and HEAD does not even do that: it is answered 405 with the methods that are allowed, or 404 where
  there is no page.
\<close>

theorem status_ui_only_reads:
  assumes "serveUI static (HolderSnapshot (map_option (\<lambda>ns. takeSnapshot cancelled E ns) bound)) r tr = (q, tr')"
  shows "\<exists>evs. tr' = tr @ evs \<and> set evs \<subseteq> {EvNow, EvListStatefulSets, EvListPods} \<and>
     (hq_method r \<notin> {''GET'', ''HEAD''} \<longrightarrow>
        evs = [] \<and> (\<exists>w. q = Ok w \<and> (hr_code w = 404 \<or> hr_code w = 405 \<and> map_of (hr_headers w) ''Allow'' = Some ''GET, HEAD'')))"
proof (cases "hq_method r \<in> {''GET'', ''HEAD''}")
  case True
  let ?rd = "HolderSnapshot (map_option (\<lambda>ns. takeSnapshot cancelled E ns) bound)"
  have rd: "looks t t'" if "?rd t = (s, t')" for s t t'
    using that by (auto simp: HolderSnapshot_def dest: takeSnapshot_looks split: option.splits)
  have h: "looks tr t'" if "ui_route static ?rd (hq_path r) = Some h" "h r tr = (q', t')" for h q' t'
    using that rd by (auto simp: ui_route_def handleStatefulSet_def handleIndex_def Let_def split: option.splits if_splits prod.splits)
  have "looks tr tr'"
    using assms True h by (auto simp: serveUI_def readOnlyMiddleware_def securityHeadersMiddleware_def split: option.splits prod.splits res.splits)
  with True show ?thesis by (auto simp: looks_def)
next
  case False
  with assms show ?thesis
    by (auto simp: serveUI_def readOnlyMiddleware_def http_Error_def set_header_def update_conv' split: option.splits)
qed

theorem status_ui_only_reads_witness:
  "\<exists>q. serveUI (\<lambda>_ _. http_Error '''' 404) (HolderSnapshot (map_option (\<lambda>ns. takeSnapshot (\<lambda>_. None) demo_rollout ns) (Some ''ns'')))
         \<lparr>hq_method = ''POST'', hq_path = ''/ui/status/''\<rparr> [] = (q, []) \<and>
       (\<exists>w. q = Ok w \<and> (hr_code w = 404 \<or> hr_code w = 405 \<and> map_of (hr_headers w) ''Allow'' = Some ''GET, HEAD''))"
proof -
  let ?r = "\<lparr>hq_method = ''POST'', hq_path = ''/ui/status/''\<rparr>"
    and ?rd = "HolderSnapshot (map_option (\<lambda>ns. takeSnapshot (\<lambda>_. None) demo_rollout ns) (Some ''ns''))"
  obtain q tr' where s: "serveUI (\<lambda>_ _. http_Error '''' 404) ?rd ?r [] = (q, tr')" by fastforce
  from status_ui_only_reads [OF s] have "tr' = [] \<and> (\<exists>w. q = Ok w \<and> (hr_code w = 404 \<or> hr_code w = 405 \<and> map_of (hr_headers w) ''Allow'' = Some ''GET, HEAD''))"
    by simp
  with s show ?thesis by blast
qed

text \<open>What the status UI tells about failures. Two errors of the status reader other than that it is not bound yet give the same
  response on every page, headers included, so nothing of the error, which may name objects of the cluster, reaches the client;
  and every page that is served carries the four security headers.
\<close>

theorem status_ui_hides_errors:
  assumes "rd1 tr = (Fail e1, tr')" and "rd2 tr = (Fail e2, tr')" and "e1 \<noteq> ErrUnavailable" and "e2 \<noteq> ErrUnavailable"
  shows "serveUI static rd1 r tr = serveUI static rd2 r tr \<and>
     (\<forall>w t. serveUI static rd1 r tr = (Ok w, t) \<longrightarrow> hq_method r \<in> {''GET'', ''HEAD''} \<longrightarrow> ui_route static rd1 (hq_path r) \<noteq> None \<longrightarrow>
        fst ` set security_headers \<subseteq> fst ` set (hr_headers w))"
proof
  have "handleIndex rd1 r tr = handleIndex rd2 r tr" "handleStatefulSet rd1 n r tr = handleStatefulSet rd2 n r tr" for n
    using assms by (simp_all add: handleIndex_def handleStatefulSet_def)
  then have "map_option (\<lambda>h. h r tr) (ui_route static rd1 (hq_path r)) = map_option (\<lambda>h. h r tr) (ui_route static rd2 (hq_path r))"
    unfolding ui_route_def by (cases "path_var (BasePath @ ''/statefulset/'') (hq_path r)") simp_all
  then show "serveUI static rd1 r tr = serveUI static rd2 r tr"
    by (cases "ui_route static rd1 (hq_path r)"; cases "ui_route static rd2 (hq_path r)")
       (simp_all add: serveUI_def readOnlyMiddleware_def securityHeadersMiddleware_def)
next
  show "\<forall>w t. serveUI static rd1 r tr = (Ok w, t) \<longrightarrow> hq_method r \<in> {''GET'', ''HEAD''} \<longrightarrow> ui_route static rd1 (hq_path r) \<noteq> None \<longrightarrow>
      fst ` set security_headers \<subseteq> fst ` set (hr_headers w)"
    using updates_keep_keys [of security_headers]
    by (auto simp: serveUI_def readOnlyMiddleware_def securityHeadersMiddleware_def split: option.splits prod.splits res.splits)
qed

definition failing_reader :: "string \<Rightarrow> reader" where
  "failing_reader m tr = (Fail (Err m), tr)"

definition status_request :: "string \<Rightarrow> http_request" where
  "status_request path = \<lparr>hq_method = ''GET'', hq_path = path\<rparr>"

theorem status_ui_hides_errors_witness:
  "\<exists>w t. serveUI (\<lambda>_ _. http_Error '''' 404) (failing_reader ''pods of ns are forbidden'') (status_request ''/ui/status'') [] = (Ok w, t) \<and>
     serveUI (\<lambda>_ _. http_Error '''' 404) (failing_reader ''context canceled'') (status_request ''/ui/status'') [] = (Ok w, t) \<and>
     hr_code w = 500 \<and> fst ` set security_headers \<subseteq> fst ` set (hr_headers w)"
proof -
  let ?serve = "\<lambda>m. serveUI (\<lambda>_ _. http_Error '''' 404) (failing_reader m) (status_request ''/ui/status'') []"
  have "(case ?serve ''pods of ns are forbidden'' of (Ok w, t) \<Rightarrow> hr_code w = 500 | _ \<Rightarrow> False)"
    by code_simp
  then obtain w t where s: "?serve ''pods of ns are forbidden'' = (Ok w, t)" "hr_code w = 500"
    by (auto split: prod.splits res.splits)
  have f: "failing_reader m [] = (Fail (Err m), [])" for m by (simp add: failing_reader_def)
  have route: "ui_route st rd (hq_path (status_request ''/ui/status'')) \<noteq> None" "hq_method (status_request ''/ui/status'') = ''GET''" for st rd
    by (simp_all add: ui_route_def path_var_def HasPrefix_def BasePath_def status_request_def)
  have u: "Err ''pods of ns are forbidden'' \<noteq> ErrUnavailable" "Err ''context canceled'' \<noteq> ErrUnavailable" by (simp_all add: ErrUnavailable_def)
  note th = status_ui_hides_errors [where ?rd1.0 = "failing_reader ''pods of ns are forbidden''" and ?rd2.0 = "failing_reader ''context canceled''"
      and ?tr = "[]", OF f f u, of "\<lambda>_ _. http_Error '''' 404" "status_request ''/ui/status''"]
  from th s(1) have "?serve ''context canceled'' = (Ok w, t)" by simp
  moreover from th s(1) route have "fst ` set security_headers \<subseteq> fst ` set (hr_headers w)" by simp
  ultimately show ?thesis using s by blast
qed

text \<open>The page of a StatefulSet. Once the operator's caches are bound, a GET of \<^verbatim>\<open>/ui/status/statefulset/<name>\<close> for which a
  snapshot succeeds is answered 200 with the configuration of a StatefulSet of that name exactly when one is listed in the
  namespace with a rollout group label, and 404 otherwise.
\<close>

theorem statefulset_page_found:
  assumes "takeSnapshot cancelled E ns tr = (Ok sn, tr')" and "e_sts_lister E tr = Reply all"
    and "hq_method r = ''GET''" and "hq_path r = BasePath @ ''/statefulset/'' @ name" and "name \<noteq> []" and "CHR ''/'' \<notin> set name"
  shows "\<exists>w p. serveUI static (HolderSnapshot (Some (takeSnapshot cancelled E ns))) r tr = (Ok w, tr') \<and>
     hr_body w = StatefulSetPage p \<and> sp_Name p = name \<and> sp_Namespace p = ns \<and>
     (if name \<in> sts_name ` set (listed_sets ns all)
      then hr_code w = 200 \<and> (\<exists>s\<in>set (listed_sets ns all). sts_name s = name \<and> sp_Configuration p = statefulSetConfiguration s)
      else hr_code w = 404 \<and> sp_Error p = ''StatefulSet not found.'')"
proof -
  obtain all' where conf: "e_sts_lister E tr = Reply all'" "sn_Namespace sn = ns"
    "confs_show (listed_sets ns all') Map.empty (sn_Configurations sn)"
    using assms(1) by (rule takeSnapshot_confs)
  have "path_var (BasePath @ ''/statefulset/'') (hq_path r) = Some name"
    using assms(4-6) by (simp add: path_var_def HasPrefix_def BasePath_def Let_def)
  then have route: "ui_route static rd (hq_path r) = Some (handleStatefulSet rd name)" for rd
    by (simp add: ui_route_def)
  have c: "if name \<in> sts_name ` set (listed_sets ns all)
      then \<exists>s\<in>set (listed_sets ns all). sts_name s = name \<and> sn_Configurations sn name = Some (statefulSetConfiguration s)
      else sn_Configurations sn name = None"
    using conf assms(2) by (simp add: confs_show_def)
  show ?thesis
    using c assms(1,3) conf(2) route
    by (auto simp: serveUI_def readOnlyMiddleware_def securityHeadersMiddleware_def handleStatefulSet_def HolderSnapshot_def
        html_page_def Let_def split: if_splits)
qed

theorem statefulset_page_found_witness:
  "\<exists>w p tr'. serveUI (\<lambda>_ _. http_Error '''' 404) (HolderSnapshot (Some (takeSnapshot (\<lambda>_. None) demo_rollout ''ns'')))
         (status_request ''/ui/status/statefulset/zone-a'') [] = (Ok w, tr') \<and>
     hr_code w = 200 \<and> hr_body w = StatefulSetPage p \<and> sp_Configuration p = statefulSetConfiguration (demo_outdated ''zone-a'')"
proof -
  obtain sn tr where s: "takeSnapshot (\<lambda>_. None) demo_rollout ''ns'' [] = (Ok sn, tr)"
    using demo_snapshot by (elim exE conjE) (rule that)
  let ?all = "[demo_outdated ''zone-a'', demo_outdated ''zone-b'']"
  have all: "e_sts_lister demo_rollout [] = Reply ?all"
    by (simp add: demo_rollout_def steady_env_def)
  have listed: "set (listed_sets ''ns'' ?all) = set ?all"
    by (simp add: demo_outdated_def demo_zone_def demo_sts_def listed_sets_def statefulSetsSel_def sel_matches_def config_keys)
  have names: "sts_name (demo_outdated n) = n" for n by (simp add: demo_outdated_def demo_zone_def demo_sts_def)
  have "hq_method (status_request ''/ui/status/statefulset/zone-a'') = ''GET''"
    "hq_path (status_request ''/ui/status/statefulset/zone-a'') = BasePath @ ''/statefulset/'' @ ''zone-a''"
    by (simp_all add: status_request_def BasePath_def)
  from statefulset_page_found [OF s all this, of "\<lambda>_ _. http_Error '''' 404"] listed names show ?thesis by auto
qed

end
