(* ===== verification/OperatorRun.thy ===== *)
theory OperatorRun
  imports OperatorFlags Frontend "HOL-Library.Sublist"
begin

text \<open>
  The life of the process (\<^verbatim>\<open>cmd/rollout-operator/main.go\<close>, \<^verbatim>\<open>leader_routing.go\<close>): start-up of the components in order, leader election, publication of the
  leader and of readiness, and shutdown.

  Two goroutines share the state: the main one, in \<^verbatim>\<open>runWithLeaderElection\<close>, and the one that runs \<^verbatim>\<open>runOperator\<close> once the lease is acquired; when
  the context ends, every stop function registered with \<^verbatim>\<open>context.AfterFunc\<close> runs in a goroutine of its own. A run is
  driven by a list of choices: which of them takes the next step, and how a call to a library ends. The theorems hold for
  every list of choices.
\<close>

section \<open>Before the operator runs\<close>

text \<open>
  The libraries \<^verbatim>\<open>main\<close> calls: the environment variables, tracing, the embedded pages, the listener, the configuration of the API client (from files or
  from the cluster), the clients, the host name and a fresh identifier.
\<close>

record kube_config =
  kc_Timeout :: duration
  kc_UserAgent :: string

record main_env =
  mn_getenv :: "string \<Rightarrow> string"
  mn_tracing :: "string \<Rightarrow> err option"
  mn_templates :: "unit reply"
  mn_static :: "(string \<Rightarrow> http_request \<Rightarrow> http_response) reply"
  mn_listen :: "int \<Rightarrow> err option"
  mn_config_from_flags :: "string \<Rightarrow> string \<Rightarrow> kube_config reply"
  mn_in_cluster_config :: "kube_config reply"
  mn_default_user_agent :: string
  mn_http_client :: "kube_config \<Rightarrow> err option"
  mn_kube_client :: "err option"
  mn_rest_mapper :: "err option"
  mn_scale_client :: "err option"
  mn_dynamic_client :: "err option"
  mn_hostname :: "string reply"
  mn_uuid :: string

definition service_name :: "(string \<Rightarrow> string) \<Rightarrow> string" where
  "service_name getenv =
     (if getenv ''OTEL_SERVICE_NAME'' \<noteq> '''' then getenv ''OTEL_SERVICE_NAME''
      else if getenv ''JAEGER_SERVICE_NAME'' \<noteq> '''' then getenv ''JAEGER_SERVICE_NAME''
      else ''rollout-operator'')"

definition buildKubeConfig :: "main_env \<Rightarrow> string \<Rightarrow> string \<Rightarrow> kube_config reply" where
  "buildKubeConfig M apiURL cfgFile = (if cfgFile \<noteq> '''' then mn_config_from_flags M apiURL cfgFile else mn_in_cluster_config M)"

definition client_defaults :: "main_env \<Rightarrow> config \<Rightarrow> kube_config \<Rightarrow> kube_config" where
  "client_defaults M cfg kc =
     (let kc1 = (if kc_Timeout kc = 0 then kc\<lparr>kc_Timeout := kubeClientTimeout cfg\<rparr> else kc)
      in if kc_UserAgent kc1 = '''' then kc1\<lparr>kc_UserAgent := mn_default_user_agent M\<rparr> else kc1)"

text \<open>\<^verbatim>\<open>check\<close>: an error ends the process.\<close>

definition check :: "string \<Rightarrow> err option \<Rightarrow> 'a res \<Rightarrow> 'a res" where
  "check prefixed e rest = (case e of Some e \<Rightarrow> fatal (prefixed @ errmsg e) | None \<Rightarrow> rest)"

definition candidate :: "main_env \<Rightarrow> config \<Rightarrow> (config \<times> string) res" where
  "candidate M cfg =
     (if \<not> leaderElectionEnabled cfg then Ok (cfg, '''')
      else case mn_hostname M of
          Error e \<Rightarrow> fatal (''failed to determine leader election identity: '' @ errmsg e)
        | Reply hostname \<Rightarrow>
            Ok ((if kubePodName cfg = '''' then cfg\<lparr>kubePodName := hostname\<rparr> else cfg), election_identity cfg hostname (mn_uuid M)))"

text \<open>The statements of \<^verbatim>\<open>main\<close> before \<^verbatim>\<open>runWithLeaderElection\<close>, for the configuration \<open>parsed\<close> from the flags. A \<^term>\<open>Panic\<close> is the exit of the process.\<close>

definition operator_main :: "main_env \<Rightarrow> reader \<Rightarrow> config \<Rightarrow> (config \<times> kube_config \<times> string) res" where
  "operator_main M statusReader parsed =
     (let cfg = apply_default_exclusions parsed in
      check '''' (validate cfg) (check '''' (initLogger cfg)
       (check ''failed to set up tracing: '' (mn_tracing M (service_name (mn_getenv M)))
        (case frontend_New (Some statusReader) (mn_templates M) (mn_static M) of
           Fail e \<Rightarrow> fatal (errmsg e)
         | Panic m \<Rightarrow> Panic m
         | Ok _ \<Rightarrow>
             check '''' (mn_listen M (serverPort cfg))
               (case buildKubeConfig M (kubeAPIURL cfg) (kubeConfigFile cfg) of
                  Error e \<Rightarrow> fatal (''failed to build Kubernetes client config: '' @ errmsg e)
                | Reply kc0 \<Rightarrow>
                    (let kc = client_defaults M cfg kc0 in
                     check ''failed to create Kubernetes HTTP client: '' (mn_http_client M kc)
                      (check ''failed to create Kubernetes client: '' (mn_kube_client M)
                       (check ''failed to create REST Mapper: '' (mn_rest_mapper M)
                        (check ''failed to init scaleClient: '' (mn_scale_client M)
                         (check ''failed to init dynamicClient: '' (mn_dynamic_client M)
                          (case candidate M cfg of
                             Ok (cfg', identity) \<Rightarrow> Ok (cfg', kc, identity)
                           | Fail e \<Rightarrow> Fail e
                           | Panic m \<Rightarrow> Panic m)))))))))))"

section \<open>Starting the TLS server\<close>

text \<open>What the calls of \<^verbatim>\<open>maybeStartTLSServer\<close> after the certificate return: an error, or none.\<close>

record tls_startup =
  su_observer_init :: "err option"
  su_ctx_err :: "err option"
  su_client :: "string \<Rightarrow> err option"
  su_listen :: "err option"

text \<open>\<^term>\<open>Ok True\<close>: the server listens.\<close>

definition maybeStartTLSServer :: "tls_env \<Rightarrow> tls_startup \<Rightarrow> config \<Rightarrow> tls_trace \<Rightarrow> bool res \<times> tls_trace" where
  "maybeStartTLSServer T S cfg tr =
     (case certificateForServer T (tls_config.truncate cfg) tr of
        (Panic m, tr1) \<Rightarrow> (Panic m, tr1)
      | (Fail e, tr1) \<Rightarrow> (Fail e, tr1)
      | (Ok None, tr1) \<Rightarrow> (Ok False, tr1)
      | (Ok (Some c), tr1) \<Rightarrow>
          ((case (if updateWebhooksWithSelfSignedCABundle cfg then su_observer_init S else None) of
              Some e \<Rightarrow> Fail e
            | None \<Rightarrow>
            (case su_ctx_err S of
               Some e \<Rightarrow> Fail e
             | None \<Rightarrow>
             (case t_X509KeyPair T (cert_Cert c) (cert_Key c) of
                Error e \<Rightarrow> fatal (''failed to create tls server: failed to load key pair: '' @ errmsg e)
              | Reply _ \<Rightarrow>
              (case su_client S ''no-downscale'' of
                 Some e \<Rightarrow> fatal (''failed to create no-downscale webhook Kubernetes client: '' @ errmsg e)
               | None \<Rightarrow>
               (case su_client S ''prepare-downscale'' of
                  Some e \<Rightarrow> fatal (''failed to create prepare-downscale webhook Kubernetes client: '' @ errmsg e)
                | None \<Rightarrow>
                (case su_listen S of
                   Some e \<Rightarrow> fatal (''failed to start tls server: '' @ errmsg e)
                 | None \<Rightarrow> Ok True)))))), tr1))"

section \<open>The state of the process\<close>

datatype component = WebhookObserver | EvictionController | Collector | Controller | Publication

text \<open>The statements of \<^verbatim>\<open>runOperator\<close>; \<^term>\<open>Publication\<close> is the stop function that withdraws readiness and the status reader.\<close>

datatype instr =
    Register component | NewClient | TryStart component | TryTLS | RegisterMetrics | BindStatus
  | PublishLabel | StoreReady bool | RunLoop

datatype op_pc = NotStarted | Running "instr list" | Returning | Finished

text \<open>A stop function registered with the context: armed, running in its goroutine, or done.\<close>

datatype stop_state = Armed | Stopping | Stopped

datatype main_pc = MClear | MStandby | MAcquire | MRenew | MStoppedLeading | MAfterRun | MCleanup bool | MRun

text \<open>The errors given to \<^verbatim>\<open>fatal\<close>, which ends the process without running deferred functions.\<close>

datatype fatal_error =
    NoEvictionClient | StartFailed component | TLSFailed | MetricsFailed | PublishFailed | ControllerStopped | ClearFailed | LeaseLost

datatype proc_exit = Returned | Exited fatal_error

record op_state =
  op_root :: bool
  op_cancelled :: bool
  op_main :: main_pc
  op_code :: op_pc
  op_defers :: "(component \<times> stop_state) list"
  op_started :: "component list"
  op_stops :: "component list"
  op_listening :: bool
  op_ready :: bool
  op_bound :: bool
  op_label :: "bool option"
  op_exit :: "proc_exit option"

definition operator_body :: "config \<Rightarrow> instr list" where
  "operator_body cfg =
     [Register WebhookObserver, NewClient, Register EvictionController, TryStart EvictionController, TryTLS]
     @ (if serverTLSEnabled cfg then [Register Collector, TryStart Collector, RegisterMetrics] else [])
     @ [Register Controller, TryStart Controller, BindStatus, Register Publication, PublishLabel, StoreReady True, RunLoop]"

text \<open>Without leader election the main goroutine runs the operator itself.\<close>

definition op_start :: "config \<Rightarrow> op_state" where
  "op_start cfg =
     \<lparr>op_root = False, op_cancelled = False,
      op_main = (if leaderElectionEnabled cfg then MClear else MRun),
      op_code = (if leaderElectionEnabled cfg then NotStarted else Running (operator_body cfg)),
      op_defers = [], op_started = [], op_stops = [], op_listening = False, op_ready = False, op_bound = False,
      op_label = None, op_exit = None\<rparr>"

section \<open>Steps\<close>

datatype outcome = Succeeds | Fails | Crashes

text \<open>A signal or a restart request cancels the root context, and with it the one of the leader.\<close>

datatype choice = Signal | Fire nat | Finish nat | Go outcome | Main outcome

definition exited :: "op_state \<Rightarrow> fatal_error \<Rightarrow> op_state" where
  "exited s m = s\<lparr>op_exit := Some (Exited m)\<rparr>"

text \<open>\<^verbatim>\<open>if ctx.Err() != nil { return }; fatal(err)\<close>\<close>

definition failed :: "op_state \<Rightarrow> fatal_error \<Rightarrow> op_state" where
  "failed s m = (if op_cancelled s then s\<lparr>op_code := Returning\<rparr> else exited s m)"

definition run_stop :: "component \<Rightarrow> op_state \<Rightarrow> op_state" where
  "run_stop c s =
     (let s1 = s\<lparr>op_stops := c # op_stops s\<rparr> in
      if c = Publication then s1\<lparr>op_ready := False, op_bound := False\<rparr> else s1)"

text \<open>
  \<^verbatim>\<open>setLeaderLabel\<close> under a context that has \<open>ended\<close> or not; \<^term>\<open>None\<close>: it returns an error. \<open>patch_label\<close> is what follows its first test, which \<^verbatim>\<open>runWithLeaderElection\<close> has made before.
\<close>

definition patch_label :: "bool \<Rightarrow> outcome \<Rightarrow> bool \<Rightarrow> op_state \<Rightarrow> op_state option" where
  "patch_label ended out leader s = (if \<not> ended \<and> out = Succeeds then Some (s\<lparr>op_label := Some leader\<rparr>) else None)"

definition setLeaderLabel :: "config \<Rightarrow> bool \<Rightarrow> outcome \<Rightarrow> bool \<Rightarrow> op_state \<Rightarrow> op_state option" where
  "setLeaderLabel cfg ended out leader s = (if \<not> leaderElectionEnabled cfg then Some s else patch_label ended out leader s)"

text \<open>One statement of \<^verbatim>\<open>runOperator\<close>; \<open>rest\<close> follows it. \<^term>\<open>None\<close>: the loop of the controller has not been told to stop.\<close>

fun exec_instr :: "config \<Rightarrow> outcome \<Rightarrow> instr \<Rightarrow> instr list \<Rightarrow> op_state \<Rightarrow> op_state option" where
  "exec_instr cfg out (Register c) rest s = Some (s\<lparr>op_code := Running rest, op_defers := (c, Armed) # op_defers s\<rparr>)"
| "exec_instr cfg out NewClient rest s =
     Some (if out = Succeeds then s\<lparr>op_code := Running rest\<rparr> else exited s NoEvictionClient)"
| "exec_instr cfg out (TryStart c) rest s =
     Some (if out = Succeeds then s\<lparr>op_code := Running rest, op_started := c # op_started s\<rparr> else failed s (StartFailed c))"
| "exec_instr cfg out TryTLS rest s =
     Some (case out of
        Succeeds \<Rightarrow> s\<lparr>op_code := Running rest, op_listening := serverTLSEnabled cfg\<rparr>
      | Fails \<Rightarrow> failed s TLSFailed
      | Crashes \<Rightarrow> exited s TLSFailed)"
| "exec_instr cfg out RegisterMetrics rest s =
     Some (if out = Succeeds then s\<lparr>op_code := Running rest\<rparr> else exited s MetricsFailed)"
| "exec_instr cfg out BindStatus rest s = Some (s\<lparr>op_code := Running rest, op_bound := True\<rparr>)"
| "exec_instr cfg out PublishLabel rest s =
     Some (case setLeaderLabel cfg (op_cancelled s) out True s of
             Some s1 \<Rightarrow> s1\<lparr>op_code := Running rest\<rparr>
           | None \<Rightarrow> failed s PublishFailed)"
| "exec_instr cfg out (StoreReady b) rest s = Some (s\<lparr>op_code := Running rest, op_ready := b\<rparr>)"
| "exec_instr cfg out RunLoop rest s =
     (if Controller \<in> set (op_stops s) then Some (failed s ControllerStopped) else None)"

text \<open>The deferred functions: stop now if the goroutine of the context was not started, otherwise wait until it is done.\<close>

fun run_defers :: "op_state \<Rightarrow> op_state option" where
  "run_defers s =
     (case op_defers s of
        [] \<Rightarrow> Some (s\<lparr>op_code := Finished\<rparr>)
      | (c, Armed) # ds \<Rightarrow> Some (run_stop c (s\<lparr>op_defers := ds\<rparr>))
      | (c, Stopping) # ds \<Rightarrow> None
      | (c, Stopped) # ds \<Rightarrow> Some (s\<lparr>op_defers := ds\<rparr>))"

definition go_step :: "config \<Rightarrow> outcome \<Rightarrow> op_state \<Rightarrow> op_state option" where
  "go_step cfg out s =
     (case op_code s of
        Running (i # rest) \<Rightarrow> exec_instr cfg out i rest s
      | Returning \<Rightarrow> run_defers s
      | _ \<Rightarrow> None)"

text \<open>\<^verbatim>\<open>runWithLeaderElection\<close>: a failed renewal or the end of the root context ends the term of the leader.\<close>

definition main_step :: "config \<Rightarrow> outcome \<Rightarrow> op_state \<Rightarrow> op_state option" where
  "main_step cfg out s =
     (case op_main s of
        MClear \<Rightarrow>
          Some (case patch_label (op_root s) out False s of
                  Some s1 \<Rightarrow> s1\<lparr>op_main := MStandby\<rparr>
                | None \<Rightarrow> exited s ClearFailed)
      | MStandby \<Rightarrow> Some (s\<lparr>op_ready := True, op_main := MAcquire\<rparr>)
      | MAcquire \<Rightarrow>
          (if out = Succeeds then Some (s\<lparr>op_main := MRenew, op_code := Running (StoreReady False # operator_body cfg)\<rparr>)
           else if op_root s then Some (s\<lparr>op_main := MStoppedLeading\<rparr>)
           else None)
      | MRenew \<Rightarrow>
          (if op_root s \<or> out \<noteq> Succeeds then Some (s\<lparr>op_cancelled := True, op_main := MStoppedLeading\<rparr>) else None)
      | MStoppedLeading \<Rightarrow> Some (s\<lparr>op_ready := False, op_main := MAfterRun\<rparr>)
      | MAfterRun \<Rightarrow> Some (s\<lparr>op_ready := False, op_main := MCleanup (op_root s)\<rparr>)
      | MCleanup ok \<Rightarrow>
          Some (let s0 = s\<lparr>op_ready := False\<rparr>;
                    s1 = (if op_root s then (case patch_label False out False s0 of Some s' \<Rightarrow> s' | None \<Rightarrow> s0) else s0) in
                if ok then s1\<lparr>op_exit := Some Returned\<rparr> else exited s1 LeaseLost)
      | MRun \<Rightarrow> (if op_code s = Finished then Some (s\<lparr>op_exit := Some Returned\<rparr>) else None))"

fun op_step :: "config \<Rightarrow> choice \<Rightarrow> op_state \<Rightarrow> op_state option" where
  "op_step cfg Signal s = (if op_root s then None else Some (s\<lparr>op_root := True, op_cancelled := True\<rparr>))"
| "op_step cfg (Fire i) s =
     (if op_cancelled s \<and> i < length (op_defers s) \<and> snd (op_defers s ! i) = Armed
      then Some (s\<lparr>op_defers := (op_defers s)[i := (fst (op_defers s ! i), Stopping)]\<rparr>) else None)"
| "op_step cfg (Finish i) s =
     (if i < length (op_defers s) \<and> snd (op_defers s ! i) = Stopping
      then Some (run_stop (fst (op_defers s ! i)) (s\<lparr>op_defers := (op_defers s)[i := (fst (op_defers s ! i), Stopped)]\<rparr>)) else None)"
| "op_step cfg (Go out) s = go_step cfg out s"
| "op_step cfg (Main out) s = main_step cfg out s"

text \<open>A choice that is not enabled is skipped, and nothing happens after the exit of the process.\<close>

definition op_next :: "config \<Rightarrow> op_state \<Rightarrow> choice \<Rightarrow> op_state" where
  "op_next cfg s ch = (if op_exit s \<noteq> None then s else case op_step cfg ch s of None \<Rightarrow> s | Some s' \<Rightarrow> s')"

definition op_run :: "config \<Rightarrow> choice list \<Rightarrow> op_state" where
  "op_run cfg chs = foldl (op_next cfg) (op_start cfg) chs"

definition readyHandler :: "op_state \<Rightarrow> int" where
  "readyHandler s = (if op_ready s then 200 else 500)"

text \<open>The steps with the label written out.\<close>

lemma exec_PublishLabel [simp]:
  "exec_instr cfg out PublishLabel rest s =
     Some (if \<not> leaderElectionEnabled cfg then s\<lparr>op_code := Running rest\<rparr>
           else if \<not> op_cancelled s \<and> out = Succeeds then s\<lparr>op_code := Running rest, op_label := Some True\<rparr>
           else failed s PublishFailed)"
  by (simp add: setLeaderLabel_def patch_label_def)

declare exec_instr.simps(7) [simp del]

lemma main_step_eq:
  "main_step cfg out s =
     (case op_main s of
        MClear \<Rightarrow>
          Some (if \<not> op_root s \<and> out = Succeeds then s\<lparr>op_label := Some False, op_main := MStandby\<rparr>
                else exited s ClearFailed)
      | MStandby \<Rightarrow> Some (s\<lparr>op_ready := True, op_main := MAcquire\<rparr>)
      | MAcquire \<Rightarrow>
          (if out = Succeeds then Some (s\<lparr>op_main := MRenew, op_code := Running (StoreReady False # operator_body cfg)\<rparr>)
           else if op_root s then Some (s\<lparr>op_main := MStoppedLeading\<rparr>)
           else None)
      | MRenew \<Rightarrow>
          (if op_root s \<or> out \<noteq> Succeeds then Some (s\<lparr>op_cancelled := True, op_main := MStoppedLeading\<rparr>) else None)
      | MStoppedLeading \<Rightarrow> Some (s\<lparr>op_ready := False, op_main := MAfterRun\<rparr>)
      | MAfterRun \<Rightarrow> Some (s\<lparr>op_ready := False, op_main := MCleanup (op_root s)\<rparr>)
      | MCleanup ok \<Rightarrow>
          Some (let s1 = (if op_root s \<and> out = Succeeds then s\<lparr>op_ready := False, op_label := Some False\<rparr> else s\<lparr>op_ready := False\<rparr>) in
                if ok then s1\<lparr>op_exit := Some Returned\<rparr> else exited s1 LeaseLost)
      | MRun \<Rightarrow> (if op_code s = Finished then Some (s\<lparr>op_exit := Some Returned\<rparr>) else None))"
  by (cases "op_main s") (simp_all add: main_step_def patch_label_def Let_def)

section \<open>A process that starts is configured\<close>

lemma check_Ok [simp]: "check p e rest = Ok x \<longleftrightarrow> e = None \<and> rest = Ok x"
  by (simp add: check_def fatal_def split: option.splits)

lemma validate_pod_name [simp]: "validate (cfg\<lparr>kubePodName := n\<rparr>) = validate cfg"
  by (simp add: validate_def validate_election_def)

lemma initLogger_pod_name [simp]: "initLogger (cfg\<lparr>kubePodName := n\<rparr>) = initLogger cfg"
  by (simp add: initLogger_def)

lemma candidate_Ok:
  assumes "candidate M cfg = Ok (cfg', identity)"
  shows "validate cfg' = validate cfg \<and> leaderElectionEnabled cfg' = leaderElectionEnabled cfg \<and> initLogger cfg' = initLogger cfg \<and>
     kubeClientTimeout cfg' = kubeClientTimeout cfg \<and>
     (leaderElectionEnabled cfg' \<longrightarrow> (\<exists>h. identity = election_identity cfg' h (mn_uuid M)))"
proof (cases "leaderElectionEnabled cfg")
  case True
  with assms obtain h where h: "mn_hostname M = Reply h" by (cases "mn_hostname M") (simp_all add: candidate_def fatal_def)
  with True assms have c: "cfg' = (if kubePodName cfg = [] then cfg\<lparr>kubePodName := h\<rparr> else cfg)"
    and i: "identity = election_identity cfg h (mn_uuid M)" by (simp_all add: candidate_def)
  have "identity = election_identity cfg' h (mn_uuid M)" using c i by (simp add: election_identity_def)
  with c show ?thesis by simp blast
qed (use assms in \<open>simp add: candidate_def\<close>)

lemma exclusions_client [simp]:
  "kubeAPIURL (apply_default_exclusions cfg) = kubeAPIURL cfg" "kubeConfigFile (apply_default_exclusions cfg) = kubeConfigFile cfg"
  "kubeClientTimeout (apply_default_exclusions cfg) = kubeClientTimeout cfg"
  by (simp_all add: apply_default_exclusions_def)

lemma operator_main_Ok:
  assumes "operator_main M rd parsed = Ok (cfg', kc, identity)"
  obtains kc0 where "validate (apply_default_exclusions parsed) = None" and "initLogger (apply_default_exclusions parsed) = None"
    and "buildKubeConfig M (kubeAPIURL parsed) (kubeConfigFile parsed) = Reply kc0"
    and "kc = client_defaults M (apply_default_exclusions parsed) kc0"
    and "candidate M (apply_default_exclusions parsed) = Ok (cfg', identity)"
proof -
  let ?cfg = "apply_default_exclusions parsed"
  note main = assms [unfolded operator_main_def Let_def]
  from main obtain f where "frontend_New (Some rd) (mn_templates M) (mn_static M) = Ok f"
    by (cases "frontend_New (Some rd) (mn_templates M) (mn_static M)") (simp_all add: fatal_def)
  moreover from main this obtain kc0 where "buildKubeConfig M (kubeAPIURL ?cfg) (kubeConfigFile ?cfg) = Reply kc0"
    by (cases "buildKubeConfig M (kubeAPIURL ?cfg) (kubeConfigFile ?cfg)") (simp_all add: fatal_def)
  moreover from main calculation obtain cfg'' i where "candidate M ?cfg = Ok (cfg'', i)"
    by (cases "candidate M ?cfg") auto
  ultimately show ?thesis using main by (intro that [of kc0]) simp_all
qed

text \<open>C36: A process that gets past its start-up does not fail on its configuration later. The flags passed the validation and the logger's; with leader
  election, the elector of client-go accepts them, with an identity that is not empty, and the lease, as Kubernetes stores it in whole
  seconds, outlives the renewal deadline, which is longer than the retry period (for retry periods under 52 days, where the product with
  the jitter factor is computed without loss of range). The API client has the timeout of the Kubernetes configuration, or the one of the
  flag where that is zero: it has no timeout exactly if both are zero, which the validation accepts.\<close>
theorem started_operator_is_configured:
  assumes "operator_main M rd parsed = Ok (cfg, kc, identity)"
  shows "validate cfg = None \<and> initLogger cfg = None \<and>
     (\<exists>kc0. buildKubeConfig M (kubeAPIURL parsed) (kubeConfigFile parsed) = Reply kc0 \<and>
        kc_Timeout kc = (if kc_Timeout kc0 = 0 then kubeClientTimeout parsed else kc_Timeout kc0)) \<and>
     (leaderElectionEnabled cfg \<longrightarrow>
        NewLeaderElector cfg identity = None \<and> identity \<noteq> [] \<and>
        leaderElectionRenewDeadline cfg < Truncate (leaderElectionLeaseDuration cfg) second \<and>
        (leaderElectionRetryPeriod cfg < 2 ^ 52 \<longrightarrow> leaderElectionRetryPeriod cfg < leaderElectionRenewDeadline cfg))"
proof -
  obtain kc0 where m: "validate (apply_default_exclusions parsed) = None" "initLogger (apply_default_exclusions parsed) = None"
      "buildKubeConfig M (kubeAPIURL parsed) (kubeConfigFile parsed) = Reply kc0"
      "kc = client_defaults M (apply_default_exclusions parsed) kc0" "candidate M (apply_default_exclusions parsed) = Ok (cfg, identity)"
    using assms by (rule operator_main_Ok)
  note c = candidate_Ok [OF m(5)]
  have v: "validate cfg = None" "initLogger cfg = None" using c m(1,2) by simp_all
  moreover have "kc_Timeout kc = (if kc_Timeout kc0 = 0 then kubeClientTimeout parsed else kc_Timeout kc0)"
    using m(4) by (simp add: client_defaults_def Let_def)
  moreover have "NewLeaderElector cfg identity = None \<and> identity \<noteq> [] \<and>
      leaderElectionRenewDeadline cfg < Truncate (leaderElectionLeaseDuration cfg) second \<and>
      (leaderElectionRetryPeriod cfg < 2 ^ 52 \<longrightarrow> leaderElectionRetryPeriod cfg < leaderElectionRenewDeadline cfg)"
    if "leaderElectionEnabled cfg"
    using that c validated_election_is_accepted [OF v(1) that] by (auto simp: election_identity_def)
  ultimately show ?thesis using m(3) by blast
qed

definition demo_main :: main_env where
  "demo_main =
     \<lparr>mn_getenv = (\<lambda>_. ''''), mn_tracing = (\<lambda>_. None), mn_templates = Reply (), mn_static = Reply (\<lambda>_ _. http_Error '''' 404), mn_listen = (\<lambda>_. None),
      mn_config_from_flags = (\<lambda>_ _. Error (Err ''no file'')), mn_in_cluster_config = Reply \<lparr>kc_Timeout = 0, kc_UserAgent = ''''\<rparr>,
      mn_default_user_agent = ''rollout-operator'', mn_http_client = (\<lambda>_. None), mn_kube_client = None, mn_rest_mapper = None,
      mn_scale_client = None, mn_dynamic_client = None, mn_hostname = Reply ''host'', mn_uuid = ''1''\<rparr>"

theorem started_operator_is_configured_witness:
  "\<exists>cfg kc. operator_main demo_main (HolderSnapshot None) demo_config = Ok (cfg, kc, ''pod-0_1'') \<and>
     leaderElectionEnabled cfg \<and> NewLeaderElector cfg ''pod-0_1'' = None"
proof -
  have v: "validate (apply_default_exclusions demo_config) = None"
    using jittered_default
    by (simp add: validate_None validate_election_None apply_default_exclusions_def demo_config_def registered_defaults_def cluster_Validate_def
        Truncate_def second_def)
  have d: "initLogger (apply_default_exclusions demo_config) = None" "kubeConfigFile (apply_default_exclusions demo_config) = ''''"
    "leaderElectionEnabled (apply_default_exclusions demo_config)" "kubePodName (apply_default_exclusions demo_config) = ''pod-0''"
    by (simp_all add: initLogger_def apply_default_exclusions_def demo_config_def registered_defaults_def)
  define cfg where "cfg = apply_default_exclusions demo_config"
  have m: "operator_main demo_main (HolderSnapshot None) demo_config = Ok (cfg, client_defaults demo_main cfg \<lparr>kc_Timeout = 0, kc_UserAgent = ''''\<rparr>, ''pod-0_1'')"
    using v d by (simp add: operator_main_def demo_main_def frontend_New_def buildKubeConfig_def candidate_def election_identity_def cfg_def Let_def)
  with started_operator_is_configured [OF m] d show ?thesis by (auto simp: cfg_def)
qed

section \<open>Invariants\<close>

lemma op_run_invariant:
  assumes start: "P (op_start cfg)"
      and step: "\<And>s ch s'. P s \<Longrightarrow> op_exit s = None \<Longrightarrow> op_step cfg ch s = Some s' \<Longrightarrow> P s'"
    shows "P (op_run cfg chs)"
proof (induction chs rule: rev_induct)
  case Nil
  show ?case by (simp add: op_run_def start)
next
  case (snoc ch chs)
  have "op_run cfg (chs @ [ch]) = op_next cfg (op_run cfg chs) ch" by (simp add: op_run_def)
  then show ?case using snoc step by (auto simp: op_next_def split: option.splits)
qed

text \<open>The code that is left, where it stands in the program, and what the statements before it have achieved.\<close>

definition whole_body :: "config \<Rightarrow> instr list" where
  "whole_body cfg = StoreReady False # operator_body cfg"

definition code_ok :: "config \<Rightarrow> instr list \<Rightarrow> component set \<Rightarrow> component set \<Rightarrow> bool \<Rightarrow> bool" where
  "code_ok cfg code registered started listening \<longleftrightarrow>
     suffix code (whole_body cfg) \<and> code \<noteq> []
     \<and> (\<forall>c. Register c \<in> set (operator_body cfg) \<longrightarrow> Register c \<in> set code \<or> c \<in> registered)
     \<and> (\<forall>c. TryStart c \<in> set (operator_body cfg) \<longrightarrow> TryStart c \<in> set code \<or> c \<in> started)
     \<and> (TryTLS \<in> set code \<or> listening = serverTLSEnabled cfg)"

definition code_inv :: "config \<Rightarrow> op_state \<Rightarrow> bool" where
  "code_inv cfg s \<longleftrightarrow>
     (case op_code s of
        Running code \<Rightarrow> code_ok cfg code (fst ` set (op_defers s)) (set (op_started s)) (op_listening s)
      | _ \<Rightarrow> True)"

lemma code_ok_mono: "code_ok cfg code R S l \<Longrightarrow> R \<subseteq> R' \<Longrightarrow> S \<subseteq> S' \<Longrightarrow> code_ok cfg code R' S' l"
  unfolding code_ok_def by blast

lemma code_ok_whole: "code_ok cfg (whole_body cfg) R S l" "code_ok cfg (operator_body cfg) R S l"
  by (simp_all add: code_ok_def whole_body_def suffix_Cons) (simp_all add: operator_body_def)

lemma suffix_body_cases:
  assumes "suffix (i # rest) (whole_body cfg)"
  obtains (off) "i = StoreReady False" "rest = operator_body cfg"
    | (reg) c where "i = Register c" "Register c \<notin> set rest" "rest \<noteq> []" "\<And>d. TryStart d \<in> set rest \<longleftrightarrow> TryStart d \<in> set (i # rest)"
        "TryStart c \<in> set rest \<or> c = WebhookObserver \<or> c = Publication" "TryTLS \<in> set rest \<longleftrightarrow> TryTLS \<in> set (i # rest)"
    | (start) c where "i = TryStart c" "rest \<noteq> []" "Register c \<notin> set rest"
    | (other) "i \<in> {NewClient, TryTLS, RegisterMetrics, BindStatus}" "rest \<noteq> []" "i = BindStatus \<Longrightarrow> hd rest = Register Publication"
    | (label) "i = PublishLabel" "rest = [StoreReady True, RunLoop]"
    | (on) "i = StoreReady True" "rest = [RunLoop]"
    | (loop) "i = RunLoop" "rest = []"
  using assms unfolding whole_body_def operator_body_def
  by (cases "serverTLSEnabled cfg") (simp_all add: suffix_Cons, (elim disjE; auto)+)

lemma run_stop_fields [simp]:
  "op_code (run_stop c s) = op_code s" "op_defers (run_stop c s) = op_defers s" "op_started (run_stop c s) = op_started s"
  "op_listening (run_stop c s) = op_listening s" "op_label (run_stop c s) = op_label s" "op_main (run_stop c s) = op_main s"
  "op_cancelled (run_stop c s) = op_cancelled s" "op_root (run_stop c s) = op_root s" "op_exit (run_stop c s) = op_exit s"
  "op_stops (run_stop c s) = c # op_stops s"
  by (simp_all add: run_stop_def Let_def)

lemma failed_fields [simp]:
  "op_defers (failed s m) = op_defers s" "op_started (failed s m) = op_started s" "op_stops (failed s m) = op_stops s"
  "op_listening (failed s m) = op_listening s" "op_label (failed s m) = op_label s" "op_cancelled (failed s m) = op_cancelled s"
  "op_ready (failed s m) = op_ready s" "op_bound (failed s m) = op_bound s" "op_main (failed s m) = op_main s" "op_root (failed s m) = op_root s"
  by (simp_all add: failed_def exited_def)

lemma exited_fields [simp]:
  "op_defers (exited s m) = op_defers s" "op_started (exited s m) = op_started s" "op_stops (exited s m) = op_stops s"
  "op_listening (exited s m) = op_listening s" "op_label (exited s m) = op_label s" "op_cancelled (exited s m) = op_cancelled s"
  "op_ready (exited s m) = op_ready s" "op_bound (exited s m) = op_bound s" "op_main (exited s m) = op_main s" "op_root (exited s m) = op_root s"
  "op_code (exited s m) = op_code s"
  by (simp_all add: exited_def)

text \<open>The main goroutine touches the operator only to start it and to cancel its context.\<close>

lemma main_step_frame:
  assumes "main_step cfg out s = Some s'"
    shows "op_stops s' = op_stops s" "op_defers s' = op_defers s" "op_started s' = op_started s" "op_bound s' = op_bound s"
      "op_listening s' = op_listening s" "op_cancelled s \<Longrightarrow> op_cancelled s'"
      "op_code s' = op_code s \<or> op_main s = MAcquire \<and> op_code s' = Running (whole_body cfg)"
  using assms by (auto simp: main_step_eq whole_body_def Let_def split: main_pc.splits if_splits)

lemma failed_code: "op_code (failed s m) = op_code s \<or> op_code (failed s m) = Returning \<and> op_cancelled s"
  by (simp add: failed_def)

lemma code_inv_cong:
  assumes "code_inv cfg s" "op_code s' = op_code s \<or> op_code s' \<in> {Returning, Finished}"
      "fst ` set (op_defers s) \<subseteq> fst ` set (op_defers s')" "set (op_started s) \<subseteq> set (op_started s')" "op_listening s' = op_listening s"
    shows "code_inv cfg s'"
  using assms code_ok_mono by (auto simp: code_inv_def split: op_pc.splits)

lemma code_inv_failed: "code_inv cfg s \<Longrightarrow> code_inv cfg (failed s m)"
  using failed_code [of s m] by (intro code_inv_cong [of cfg s "failed s m"]) (simp_all, blast)

text \<open>A statement ends the process, makes \<^verbatim>\<open>runOperator\<close> return, or is done with its effect.\<close>

lemma exec_instr_cases:
  assumes "exec_instr cfg out i rest s = Some s'"
  obtains (failed) m where "s' = failed s m" "\<And>b. i \<noteq> StoreReady b" "\<And>c. i \<noteq> Register c"
    | (exited) m where "s' = exited s m" "\<And>b. i \<noteq> StoreReady b" "\<And>c. i \<noteq> Register c"
    | (effect) "op_code s' = Running rest" "i \<noteq> RunLoop"
        "op_defers s' = (case i of Register c \<Rightarrow> (c, Armed) # op_defers s | _ \<Rightarrow> op_defers s)"
        "op_started s' = (case i of TryStart c \<Rightarrow> c # op_started s | _ \<Rightarrow> op_started s)"
        "op_listening s' = (if i = TryTLS then serverTLSEnabled cfg else op_listening s)"
        "op_label s' = (if i = PublishLabel \<and> leaderElectionEnabled cfg then Some True else op_label s)"
        "op_ready s' = (case i of StoreReady b \<Rightarrow> b | _ \<Rightarrow> op_ready s)"
        "op_bound s' = (i = BindStatus \<or> op_bound s)"
        "op_stops s' = op_stops s" "op_cancelled s' = op_cancelled s" "op_main s' = op_main s" "op_root s' = op_root s"
proof -
  show ?thesis
  proof (cases i)
    case (Register c)
    show ?thesis by (rule effect) (use assms Register in auto)
  next
    case NewClient
    show ?thesis
    proof (cases "out = Succeeds")
      case True
      show ?thesis by (rule effect) (use assms NewClient True in auto)
    qed (rule exited, use assms NewClient in auto)
  next
    case (TryStart c)
    show ?thesis
    proof (cases "out = Succeeds")
      case True
      show ?thesis by (rule effect) (use assms TryStart True in auto)
    qed (rule failed, use assms TryStart in auto)
  next
    case TryTLS
    show ?thesis
    proof (cases out)
      case Succeeds
      show ?thesis by (rule effect) (use assms TryTLS Succeeds in auto)
    next
      case Fails
      show ?thesis by (rule failed) (use assms TryTLS Fails in auto)
    next
      case Crashes
      show ?thesis by (rule exited) (use assms TryTLS Crashes in auto)
    qed
  next
    case RegisterMetrics
    show ?thesis
    proof (cases "out = Succeeds")
      case True
      show ?thesis by (rule effect) (use assms RegisterMetrics True in auto)
    qed (rule exited, use assms RegisterMetrics in auto)
  next
    case BindStatus
    show ?thesis by (rule effect) (use assms BindStatus in auto)
  next
    case PublishLabel
    show ?thesis
    proof (cases "\<not> leaderElectionEnabled cfg \<or> \<not> op_cancelled s \<and> out = Succeeds")
      case True
      show ?thesis by (rule effect) (use assms PublishLabel True in \<open>auto split: if_splits\<close>)
    qed (rule failed, use assms PublishLabel in auto)
  next
    case (StoreReady b)
    show ?thesis by (rule effect) (use assms StoreReady in auto)
  next
    case RunLoop
    show ?thesis by (rule failed) (use assms RunLoop in \<open>auto split: if_splits\<close>)
  qed
qed

lemma code_inv_exec:
  assumes "code_inv cfg s" "op_code s = Running (i # rest)" "exec_instr cfg out i rest s = Some s'"
    shows "code_inv cfg s'"
  using assms(3)
proof (cases rule: exec_instr_cases)
  case (failed m)
  then show ?thesis using code_inv_failed [OF assms(1)] by simp
next
  case (exited m)
  then show ?thesis by (intro code_inv_cong [OF assms(1)]) simp_all
next
  case effect
  have ok: "code_ok cfg (i # rest) (fst ` set (op_defers s)) (set (op_started s)) (op_listening s)"
    using assms(1,2) by (simp add: code_inv_def)
  then have s: "suffix (i # rest) (whole_body cfg)" "suffix rest (whole_body cfg)"
    by (auto simp: code_ok_def dest: suffix_ConsD)
  have "rest \<noteq> []" using s(1) effect(2) by (cases rule: suffix_body_cases) (auto simp: operator_body_def)
  have "code_ok cfg rest (fst ` set (op_defers s')) (set (op_started s')) (op_listening s')"
    unfolding code_ok_def
  proof (intro conjI allI impI)
    show "Register c \<in> set rest \<or> c \<in> fst ` set (op_defers s')" if "Register c \<in> set (operator_body cfg)" for c
      using ok that unfolding code_ok_def effect(3) by (cases i) auto
    show "TryStart c \<in> set rest \<or> c \<in> set (op_started s')" if "TryStart c \<in> set (operator_body cfg)" for c
      using ok that unfolding code_ok_def effect(4) by (cases i) auto
    show "TryTLS \<in> set rest \<or> op_listening s' = serverTLSEnabled cfg"
      using ok unfolding code_ok_def effect(5) by auto
  qed (use s(2) \<open>rest \<noteq> []\<close> in simp_all)
  then show ?thesis by (simp add: code_inv_def effect(1))
qed

lemma fst_set_update: "i < length xs \<Longrightarrow> fst ` set (xs[i := (fst (xs ! i), y)]) = fst ` set xs"
  by (metis (no_types, lifting) fst_conv image_set list_update_id map_update)

lemma code_inv_step:
  assumes "code_inv cfg s" "op_step cfg ch s = Some s'"
    shows "code_inv cfg s'"
proof (cases ch)
  case (Go out)
  show ?thesis
  proof (cases "op_code s")
    case (Running code)
    then obtain i rest where "code = i # rest" using assms(1) by (cases code) (auto simp: code_inv_def code_ok_def)
    then show ?thesis using Running Go assms code_inv_exec by (auto simp: go_step_def)
  next
    case Returning
    then have "op_code s' \<in> {Returning, Finished}" using Go assms(2) by (auto simp: go_step_def split: list.splits stop_state.splits)
    then show ?thesis by (auto simp: code_inv_def)
  qed (use Go assms in \<open>auto simp: go_step_def\<close>)
next
  case (Main out)
  note frame = main_step_frame [OF assms(2) [unfolded Main op_step.simps]]
  from frame(7) show ?thesis
  proof
    assume "op_code s' = op_code s"
    then show ?thesis using frame by (intro code_inv_cong [OF assms(1)]) simp_all
  next
    assume "op_main s = MAcquire \<and> op_code s' = Running (whole_body cfg)"
    then show ?thesis by (simp add: code_inv_def code_ok_whole)
  qed
next
  case (Fire i)
  then have "i < length (op_defers s)" "s' = s\<lparr>op_defers := (op_defers s)[i := (fst (op_defers s ! i), Stopping)]\<rparr>"
    using assms(2) by (simp_all split: if_splits)
  then show ?thesis using code_inv_cong [OF assms(1), of s'] by (simp add: fst_set_update)
next
  case (Finish i)
  then have "i < length (op_defers s)"
      "s' = run_stop (fst (op_defers s ! i)) (s\<lparr>op_defers := (op_defers s)[i := (fst (op_defers s ! i), Stopped)]\<rparr>)"
    using assms(2) by (simp_all split: if_splits)
  then show ?thesis using code_inv_cong [OF assms(1), of s'] by (simp add: fst_set_update)
next
  case Signal
  show ?thesis by (rule code_inv_cong [OF assms(1)]) (use Signal assms(2) in \<open>auto split: if_splits\<close>)
qed

lemma code_inv_run: "code_inv cfg (op_run cfg chs)"
  by (rule op_run_invariant) (simp_all add: code_inv_def op_start_def code_ok_whole code_inv_step [unfolded code_inv_def])

text \<open>Everything a leader needs is there: informers and caches, the controller, and the TLS server if there is one.\<close>

definition serving :: "config \<Rightarrow> op_state \<Rightarrow> bool" where
  "serving cfg s \<longleftrightarrow> EvictionController \<in> set (op_started s) \<and> Controller \<in> set (op_started s) \<and> (serverTLSEnabled cfg \<longrightarrow> op_listening s)"

text \<open>The operator has not begun its term.\<close>

definition waiting :: "config \<Rightarrow> op_state \<Rightarrow> bool" where
  "waiting cfg s \<longleftrightarrow> leaderElectionEnabled cfg \<and> op_code s \<in> {NotStarted, Running (whole_body cfg)}"

definition leads :: "config \<Rightarrow> op_state \<Rightarrow> bool" where
  "leads cfg s \<longleftrightarrow> serving cfg s \<and> (leaderElectionEnabled cfg \<longrightarrow> op_label s = Some True)"

definition ready_inv :: "config \<Rightarrow> op_state \<Rightarrow> bool" where
  "ready_inv cfg s \<longleftrightarrow>
     (op_label s = Some True \<longrightarrow> serving cfg s \<and> \<not> waiting cfg s)
   \<and> (op_ready s \<longrightarrow> waiting cfg s \<and> op_label s = Some False \<or> leads cfg s)
   \<and> (op_exit s = None \<longrightarrow> op_code s = Running [StoreReady True, RunLoop] \<longrightarrow> leads cfg s)
   \<and> (op_main s \<in> {MClear, MStandby, MAcquire} \<longrightarrow> leaderElectionEnabled cfg \<and> op_code s = NotStarted)
   \<and> (op_main s \<in> {MStandby, MAcquire} \<longrightarrow> op_label s = Some False)"

lemma serving_at_publication:
  assumes "code_inv cfg s" "op_code s = Running (PublishLabel # rest)"
    shows "serving cfg s"
proof -
  have ok: "code_ok cfg (PublishLabel # rest) (fst ` set (op_defers s)) (set (op_started s)) (op_listening s)"
    using assms by (simp add: code_inv_def)
  then have "rest = [StoreReady True, RunLoop]"
    unfolding code_ok_def by (auto elim: suffix_body_cases)
  then show ?thesis using ok by (auto simp: serving_def code_ok_def operator_body_def)
qed

lemma serving_cong: "op_started s' = op_started s \<Longrightarrow> op_listening s' = op_listening s \<Longrightarrow> serving cfg s' = serving cfg s"
  by (simp add: serving_def)

text \<open>A step that changes neither the code nor the label and makes nothing ready.\<close>

lemma ready_inv_cong:
  assumes "ready_inv cfg s" "op_exit s = None"
      "op_code s' = op_code s \<or> op_code s' \<in> {Returning, Finished}" "op_code s = NotStarted \<longrightarrow> op_code s' = NotStarted"
      "op_code s = Running (whole_body cfg) \<longrightarrow> op_code s' = op_code s"
      "op_started s' = op_started s" "op_listening s' = op_listening s" "op_label s' = op_label s" "op_ready s' \<longrightarrow> op_ready s"
      "op_main s' = op_main s \<or> op_main s' \<in> {MStoppedLeading, MAfterRun, MRenew, MRun} \<or> (\<exists>ok. op_main s' = MCleanup ok)"
    shows "ready_inv cfg s'"
proof -
  have "waiting cfg s' = waiting cfg s" using assms(3-5) by (auto simp: waiting_def)
  moreover have "serving cfg s' = serving cfg s" using assms by (intro serving_cong)
  moreover from this have "leads cfg s' = leads cfg s" using assms(8) by (simp add: leads_def)
  moreover have "op_code s' = Running code \<Longrightarrow> op_code s = Running code" for code using assms(3) by auto
  moreover have "op_main s' \<in> {MClear, MStandby, MAcquire} \<Longrightarrow> op_main s' = op_main s" using assms(10) by auto
  ultimately show ?thesis
    using assms(1,2,4,8,9) unfolding ready_inv_def by (intro conjI impI) (simp_all, blast+)
qed

lemma waiting_code: "waiting cfg s \<Longrightarrow> op_code s = Running (i # rest) \<Longrightarrow> i = StoreReady False \<and> rest = operator_body cfg"
  by (auto simp: waiting_def whole_body_def)

lemma not_waiting: "op_code s = Running rest \<Longrightarrow> suffix (i # rest) (whole_body cfg) \<Longrightarrow> \<not> waiting cfg s"
  by (auto simp: waiting_def dest: suffix_length_le)

lemma before_ready: "suffix (i # [StoreReady True, RunLoop]) (whole_body cfg) \<Longrightarrow> i = PublishLabel"
  by (auto simp: whole_body_def operator_body_def suffix_Cons split: if_splits)

lemma ready_inv_exec:
  assumes "ready_inv cfg s" "op_exit s = None" "code_inv cfg s" "op_code s = Running (i # rest)" "exec_instr cfg out i rest s = Some s'"
    shows "ready_inv cfg s'"
  using assms(5)
proof (cases rule: exec_instr_cases)
  case (failed m)
  then have "op_code s \<noteq> Running (whole_body cfg)" using assms(4) by (auto simp: whole_body_def)
  then show ?thesis
    using failed(1) failed_code [of s m] assms(4) by (intro ready_inv_cong [OF assms(1,2)]) auto
next
  case (exited m)
  then show ?thesis by (intro ready_inv_cong [OF assms(1,2)]) simp_all
next
  case effect
  have s: "suffix (i # rest) (whole_body cfg)" using assms(3,4) by (simp add: code_inv_def code_ok_def)
  have nw: "\<not> waiting cfg s'" using effect(1) s by (rule not_waiting)
  have sv: "serving cfg s \<Longrightarrow> serving cfg s'"
    using effect by (auto simp: serving_def split: instr.splits)
  have plain: ?thesis if i: "\<And>b. i \<noteq> StoreReady b" "i \<noteq> PublishLabel"
  proof -
    have "op_label s' = op_label s" "op_ready s' = op_ready s" using effect(6,7) i by (auto split: instr.splits)
    moreover have "\<not> waiting cfg s" using waiting_code [OF _ assms(4)] i(1) by blast
    moreover have "op_code s' \<noteq> Running [StoreReady True, RunLoop]" using effect(1) s i(2) before_ready by auto
    moreover have "op_code s \<noteq> NotStarted" using assms(4) by simp
    moreover have "op_label s = Some True \<longrightarrow> serving cfg s" "op_ready s \<longrightarrow> leads cfg s" "op_main s \<notin> {MClear, MStandby, MAcquire}"
      using assms(1) calculation(3,5) by (simp_all add: ready_inv_def)
    ultimately show ?thesis using nw sv effect(11) by (simp add: ready_inv_def leads_def)
  qed
  from s show ?thesis
  proof (cases rule: suffix_body_cases)
    case off
    then show ?thesis using assms(1,4) effect nw sv by (auto simp: ready_inv_def leads_def operator_body_def)
  next
    case label
    then have "serving cfg s'" using serving_at_publication [OF assms(3)] assms(4) sv by simp
    then show ?thesis using assms(1,4) effect nw label by (auto simp: ready_inv_def leads_def)
  next
    case on
    then have "leads cfg s" using assms(1,2,4) by (simp add: ready_inv_def)
    then show ?thesis using assms(1,4) effect nw sv on by (auto simp: ready_inv_def leads_def)
  qed (rule plain; auto)+
qed

lemma ready_inv_main:
  assumes "ready_inv cfg s" "op_exit s = None" "main_step cfg out s = Some s'"
    shows "ready_inv cfg s'"
proof (cases "op_main s")
  case MClear
  then show ?thesis using assms by (auto simp: main_step_eq ready_inv_def waiting_def leads_def exited_def serving_def split: if_splits)
next
  case MStandby
  then show ?thesis using assms by (auto simp: main_step_eq ready_inv_def waiting_def leads_def serving_def)
next
  case MAcquire
  then show ?thesis using assms
    by (auto simp: main_step_eq ready_inv_def waiting_def leads_def serving_def whole_body_def operator_body_def split: if_splits)
next
  case MRenew
  then show ?thesis using assms by (intro ready_inv_cong [OF assms(1,2)]) (auto simp: main_step_eq split: if_splits)
next
  case MStoppedLeading
  then show ?thesis using assms by (intro ready_inv_cong [OF assms(1,2)]) (auto simp: main_step_eq)
next
  case MAfterRun
  then show ?thesis using assms by (intro ready_inv_cong [OF assms(1,2)]) (auto simp: main_step_eq)
next
  case (MCleanup ok)
  define s1 where "s1 = (if op_root s \<and> out = Succeeds then s\<lparr>op_ready := False, op_label := Some False\<rparr> else s\<lparr>op_ready := False\<rparr>)"
  have s': "s' = (if ok then s1\<lparr>op_exit := Some Returned\<rparr> else exited s1 LeaseLost)"
    using assms(3) MCleanup unfolding main_step_eq s1_def [symmetric] by (simp add: Let_def)
  have "\<not> op_ready s'" "op_exit s' \<noteq> None" "op_main s' = op_main s" "op_code s' = op_code s" "op_label s' \<in> {op_label s, Some False}"
    "serving cfg s' = serving cfg s"
    unfolding s' by (simp_all add: s1_def exited_def serving_def)
  then show ?thesis using assms(1) MCleanup by (auto simp: ready_inv_def waiting_def)
next
  case MRun
  then show ?thesis using assms by (intro ready_inv_cong [OF assms(1,2)]) (auto simp: main_step_eq split: if_splits)
qed

lemma ready_inv_step:
  assumes "ready_inv cfg s" "op_exit s = None" "code_inv cfg s" "op_step cfg ch s = Some s'"
    shows "ready_inv cfg s'"
proof (cases ch)
  case Signal
  then show ?thesis using assms(4) by (intro ready_inv_cong [OF assms(1,2)]) (auto split: if_splits)
next
  case (Fire i)
  then show ?thesis using assms(4) by (intro ready_inv_cong [OF assms(1,2)]) (auto split: if_splits)
next
  case (Finish i)
  then show ?thesis using assms(4)
    by (intro ready_inv_cong [OF assms(1,2)]) (auto simp: run_stop_def Let_def split: if_splits)
next
  case (Main out)
  then show ?thesis using ready_inv_main [OF assms(1,2)] assms(4) by simp
next
  case (Go out)
  show ?thesis
  proof (cases "op_code s")
    case (Running code)
    then obtain i rest where "code = i # rest" using assms(3) by (cases code) (auto simp: code_inv_def code_ok_def)
    then show ?thesis using Running Go assms ready_inv_exec by (auto simp: go_step_def)
  next
    case Returning
    then show ?thesis using Go assms(4)
      by (intro ready_inv_cong [OF assms(1,2)])
        (auto simp: go_step_def run_stop_def Let_def split: list.splits stop_state.splits if_splits)
  qed (use Go assms(4) in \<open>auto simp: go_step_def\<close>)
qed

lemma ready_inv_run: "ready_inv cfg (op_run cfg chs)"
proof -
  have "code_inv cfg (op_run cfg chs) \<and> ready_inv cfg (op_run cfg chs)"
  proof (rule op_run_invariant [where P = "\<lambda>s. code_inv cfg s \<and> ready_inv cfg s"])
    show "code_inv cfg (op_start cfg) \<and> ready_inv cfg (op_start cfg)"
      using code_inv_run [of cfg "[]"] by (auto simp: op_run_def ready_inv_def op_start_def operator_body_def)
  qed (use code_inv_step ready_inv_step in blast)
  then show ?thesis by simp
qed

text \<open>C34: The operator is announced only when it can serve. For every order of the goroutines and every outcome of the calls they make: the pod carries the leader
  label only after the eviction controller and the rollout controller have started and, if it is enabled, the TLS server listens; and the process reports
  ready only as such a leader (with the label, if leaders are elected), or as a standby whose label says that it is not the leader.\<close>
theorem leader_is_published_last:
  "(op_label (op_run cfg chs) = Some True \<longrightarrow> serving cfg (op_run cfg chs))
   \<and> (readyHandler (op_run cfg chs) = 200 \<longrightarrow>
        leaderElectionEnabled cfg \<and> op_label (op_run cfg chs) = Some False \<and> waiting cfg (op_run cfg chs)
      \<or> serving cfg (op_run cfg chs) \<and> (leaderElectionEnabled cfg \<longrightarrow> op_label (op_run cfg chs) = Some True))"
  using ready_inv_run [of cfg chs] by (auto simp: ready_inv_def leads_def waiting_def readyHandler_def split: if_splits)

section \<open>Shutdown\<close>

text \<open>What is registered is stopped once: by the goroutine of the context or by the deferred call, never by both.\<close>

definition pending :: "op_state \<Rightarrow> component \<Rightarrow> bool" where
  "pending s c \<longleftrightarrow> (\<exists>code. op_code s = Running code \<and> Register c \<in> set code)"

definition binding :: "op_state \<Rightarrow> bool" where
  "binding s \<longleftrightarrow> (\<exists>rest. op_code s = Running (Register Publication # rest))"

definition stops_inv :: "op_state \<Rightarrow> bool" where
  "stops_inv s \<longleftrightarrow>
     distinct (op_stops s) \<and> distinct (map fst (op_defers s))
   \<and> (\<forall>c st. (c, st) \<in> set (op_defers s) \<longrightarrow> (st = Stopped \<longleftrightarrow> c \<in> set (op_stops s)))
   \<and> (\<forall>c \<in> set (op_started s). c \<in> fst ` set (op_defers s) \<union> set (op_stops s))
   \<and> (\<forall>c. pending s c \<longrightarrow> c \<notin> fst ` set (op_defers s) \<union> set (op_stops s))
   \<and> (op_bound s \<longrightarrow> binding s \<or> Publication \<in> fst ` set (op_defers s) - set (op_stops s))"

definition end_inv :: "op_state \<Rightarrow> bool" where
  "end_inv s \<longleftrightarrow> (op_code s \<in> {Returning, Finished} \<longrightarrow> op_cancelled s) \<and> (op_code s = Finished \<longrightarrow> op_defers s = [])
     \<and> (op_code s = NotStarted \<longrightarrow> op_defers s = [] \<and> op_stops s = [] \<and> op_started s = [] \<and> \<not> op_bound s)"

lemma stops_invI:
  assumes "distinct (op_stops s)" "distinct (map fst (op_defers s))"
      "\<And>c st. (c, st) \<in> set (op_defers s) \<Longrightarrow> (st = Stopped) = (c \<in> set (op_stops s))"
      "\<And>c. c \<in> set (op_started s) \<Longrightarrow> c \<in> fst ` set (op_defers s) \<union> set (op_stops s)"
      "\<And>c. pending s c \<Longrightarrow> c \<notin> fst ` set (op_defers s) \<union> set (op_stops s)"
      "op_bound s \<Longrightarrow> binding s \<or> Publication \<in> fst ` set (op_defers s) - set (op_stops s)"
    shows "stops_inv s"
  using assms unfolding stops_inv_def by blast

lemma stops_inv_cong:
  assumes "stops_inv s" "op_stops s' = op_stops s" "op_defers s' = op_defers s" "op_started s' = op_started s" "op_bound s' = op_bound s"
      "op_code s' = op_code s"
    shows "stops_inv s'"
  using assms by (simp add: stops_inv_def pending_def binding_def)

lemma stops_inv_stop:
  assumes "stops_inv s" "c \<in> fst ` set (op_defers s)" "c \<notin> set (op_stops s)"
      and d: "distinct (map fst ds)" "fst ` set ds \<union> {c} = fst ` set (op_defers s)"
        "\<And>d st. (d, st) \<in> set ds \<Longrightarrow> d = c \<and> st = Stopped \<or> d \<noteq> c \<and> (d, st) \<in> set (op_defers s)"
    shows "stops_inv (run_stop c (s\<lparr>op_defers := ds\<rparr>))"
proof -
  have p: "pending (run_stop c (s\<lparr>op_defers := ds\<rparr>)) = pending s" by (simp add: pending_def fun_eq_iff)
  have q: "binding (run_stop c (s\<lparr>op_defers := ds\<rparr>)) = binding s" by (simp add: binding_def)
  have b: "op_bound (run_stop c (s\<lparr>op_defers := ds\<rparr>)) = (op_bound s \<and> c \<noteq> Publication)" by (simp add: run_stop_def Let_def)
  have f: "fst ` set ds \<union> set (c # op_stops s) = fst ` set (op_defers s) \<union> set (op_stops s)" using d(2) by auto
  have m: "(d, st) \<in> set ds \<Longrightarrow> st = Stopped \<longleftrightarrow> d = c \<or> d \<in> set (op_stops s)" for d st
    using d(3) [of d st] assms(1) by (auto simp: stops_inv_def)
  have n: "Publication \<in> fst ` set (op_defers s) \<Longrightarrow> c \<noteq> Publication \<Longrightarrow> Publication \<in> fst ` set ds" using d(2) by auto
  have i: "distinct (op_stops s)" "\<forall>c \<in> set (op_started s). c \<in> fst ` set (op_defers s) \<union> set (op_stops s)"
      "\<forall>c. pending s c \<longrightarrow> c \<notin> fst ` set (op_defers s) \<union> set (op_stops s)"
      "op_bound s \<longrightarrow> binding s \<or> Publication \<in> fst ` set (op_defers s) - set (op_stops s)"
    using assms(1) by (auto simp: stops_inv_def)
  show ?thesis
  proof (rule stops_invI, unfold p q b run_stop_fields)
    show "x \<in> fst ` set (op_defers (s\<lparr>op_defers := ds\<rparr>)) \<union> set (c # op_stops (s\<lparr>op_defers := ds\<rparr>))"
      if "x \<in> set (op_started (s\<lparr>op_defers := ds\<rparr>))" for x using i(2) that f by auto
    show "x \<notin> fst ` set (op_defers (s\<lparr>op_defers := ds\<rparr>)) \<union> set (c # op_stops (s\<lparr>op_defers := ds\<rparr>))"
      if "pending s x" for x using i(3) that f by auto
  qed (use i(1,4) assms(3) d(1) m n in auto)
qed

lemma distinct_fst_unique: "distinct (map fst xs) \<Longrightarrow> (c, a) \<in> set xs \<Longrightarrow> (c, b) \<in> set xs \<Longrightarrow> a = b"
  by (metis eq_key_imp_eq_value)

lemma map_fst_update: "map fst (xs[i := (fst (xs ! i), y)]) = map fst xs"
  by (metis fst_conv list_update_id map_update)

lemma stops_inv_finish:
  assumes "stops_inv s" "i < length (op_defers s)" "snd (op_defers s ! i) = Stopping"
    shows "stops_inv (run_stop (fst (op_defers s ! i)) (s\<lparr>op_defers := (op_defers s)[i := (fst (op_defers s ! i), Stopped)]\<rparr>))"
proof (rule stops_inv_stop [OF assms(1)])
  let ?c = "fst (op_defers s ! i)"
  have m: "(?c, Stopping) \<in> set (op_defers s)" using assms(2,3) by (metis nth_mem prod.collapse)
  show c: "?c \<in> fst ` set (op_defers s)" by (rule imageI [OF nth_mem [OF assms(2)]])
  show "?c \<notin> set (op_stops s)" using m assms(1) by (auto simp: stops_inv_def)
  show "distinct (map fst ((op_defers s)[i := (?c, Stopped)]))" using assms(1) by (simp add: map_fst_update stops_inv_def)
  show "fst ` set ((op_defers s)[i := (?c, Stopped)]) \<union> {?c} = fst ` set (op_defers s)"
    using c fst_set_update [OF assms(2)] by auto
  show "d = ?c \<and> st = Stopped \<or> d \<noteq> ?c \<and> (d, st) \<in> set (op_defers s)" if mem: "(d, st) \<in> set ((op_defers s)[i := (?c, Stopped)])" for d st
  proof -
    have "\<exists>j < length ((op_defers s)[i := (?c, Stopped)]). (op_defers s)[i := (?c, Stopped)] ! j = (d, st)"
      using mem by (simp only: in_set_conv_nth)
    then obtain j where j: "j < length (op_defers s)" "(op_defers s)[i := (?c, Stopped)] ! j = (d, st)"
      unfolding length_list_update by (elim exE conjE)
    have "distinct (map fst (op_defers s))" using assms(1) by (simp add: stops_inv_def)
    then have "j \<noteq> i \<Longrightarrow> fst (op_defers s ! j) \<noteq> ?c" using j(1) assms(2) by (auto simp: distinct_conv_nth)
    then show ?thesis
    proof (cases "j = i")
      case False
      then have "op_defers s ! j = (d, st)" using j by simp
      then show ?thesis using \<open>j \<noteq> i \<Longrightarrow> _\<close> False nth_mem [OF j(1)] by simp
    qed (use j assms(2) in simp)
  qed
qed

lemma stops_inv_defers:
  assumes "stops_inv s" "op_code s = Returning" "run_defers s = Some s'"
    shows "stops_inv s'"
proof (cases "op_defers s")
  case Nil
  then show ?thesis using assms by (auto simp: stops_inv_def pending_def binding_def)
next
  case (Cons p ds)
  obtain c st where p: "p = (c, st)" by fastforce
  have c: "(st = Stopped) = (c \<in> set (op_stops s))" "distinct (map fst ds)" "c \<notin> fst ` set ds"
    using assms(1) Cons p by (auto simp: stops_inv_def)
  show ?thesis
  proof (cases st)
    case Armed
    then have "s' = run_stop c (s\<lparr>op_defers := ds\<rparr>)" using assms(3) Cons p by simp
    then show ?thesis using Cons p c Armed by (simp only:) (rule stops_inv_stop [OF assms(1)], auto intro: rev_image_eqI)
  next
    case Stopping
    then show ?thesis using assms(3) Cons p by simp
  next
    case Stopped
    then have s': "s' = s\<lparr>op_defers := ds\<rparr>" using assms(3) Cons p by simp
    have f: "x \<in> fst ` set ds \<union> set (op_stops s) \<longleftrightarrow> x \<in> fst ` set (op_defers s) \<union> set (op_stops s)" for x
      using Cons p c(1) Stopped by auto
    have g: "Publication \<in> fst ` set (op_defers s) - set (op_stops s) \<Longrightarrow> Publication \<in> fst ` set ds - set (op_stops s)"
      using Cons p c(1) Stopped by auto
    show ?thesis
      unfolding s'
    proof (rule stops_invI)
      show "(st = Stopped) = (d \<in> set (op_stops (s\<lparr>op_defers := ds\<rparr>)))" if "(d, st) \<in> set (op_defers (s\<lparr>op_defers := ds\<rparr>))" for d st
        using that assms(1) Cons by (simp add: stops_inv_def)
    qed (use assms(1,2) c(2) f g in \<open>simp_all add: stops_inv_def pending_def binding_def\<close>)
  qed
qed

lemma stops_inv_returns:
  assumes "stops_inv s" "\<not> (op_bound s \<and> binding s)" "op_code s' \<in> {Returning, Finished, NotStarted}"
      "op_stops s' = op_stops s" "op_defers s' = op_defers s" "op_started s' = op_started s" "op_bound s' = op_bound s"
    shows "stops_inv s'"
proof (rule stops_invI)
  show "\<And>c. pending s' c \<Longrightarrow> c \<notin> fst ` set (op_defers s') \<union> set (op_stops s')" using assms(3) by (auto simp: pending_def)
qed (use assms in \<open>auto simp: stops_inv_def\<close>)

lemma stops_inv_exec:
  assumes "stops_inv s" "code_inv cfg s" "op_code s = Running (i # rest)" "exec_instr cfg out i rest s = Some s'"
    shows "stops_inv s'"
  using assms(4)
proof (cases rule: exec_instr_cases)
  case (failed m)
  have "\<not> binding s" using failed(3) assms(3) by (simp add: binding_def)
  then show ?thesis
    using failed(1) failed_code [of s m] stops_inv_cong [OF assms(1), of s'] stops_inv_returns [OF assms(1), of s'] by auto
next
  case (exited m)
  then show ?thesis using assms(1) by (intro stops_inv_cong [OF assms(1)]) simp_all
next
  case effect
  have ok: "code_ok cfg (i # rest) (fst ` set (op_defers s)) (set (op_started s)) (op_listening s)"
    using assms(2,3) by (simp add: code_inv_def)
  then have s: "suffix (i # rest) (whole_body cfg)" by (simp add: code_ok_def)
  have pend: "pending s' c \<Longrightarrow> pending s c \<and> i \<noteq> Register c" for c
    using s effect(1) assms(3) by (cases rule: suffix_body_cases) (auto simp: pending_def)
  have subs: "fst ` set (op_defers s) \<subseteq> fst ` set (op_defers s')" using effect(3) by (cases i) auto
  show ?thesis
  proof (rule stops_invI)
    show "distinct (op_stops s')" using assms(1) effect(9) by (simp add: stops_inv_def)
    show "distinct (map fst (op_defers s'))"
      using assms(1,3) effect(3) by (cases i) (auto simp: stops_inv_def pending_def)
    show "(st = Stopped) = (c \<in> set (op_stops s'))" if "(c, st) \<in> set (op_defers s')" for c st
      using assms(1,3) effect(3,9) that by (cases i) (auto simp: stops_inv_def pending_def)
    show "c \<in> fst ` set (op_defers s') \<union> set (op_stops s')" if "c \<in> set (op_started s')" for c
    proof (cases "i = TryStart c")
      case True
      have "Register c \<in> set (operator_body cfg)"
        using s True by (auto simp: whole_body_def operator_body_def suffix_Cons split: if_splits)
      moreover have "Register c \<notin> set (i # rest)" using s True by (cases rule: suffix_body_cases) auto
      ultimately show ?thesis using ok subs by (auto simp: code_ok_def)
    next
      case False
      then have "c \<in> set (op_started s)" using effect(4) that by (cases i) auto
      then show ?thesis using assms(1) subs effect(9) by (auto simp: stops_inv_def)
    qed
    show "c \<notin> fst ` set (op_defers s') \<union> set (op_stops s')" if "pending s' c" for c
      using pend [OF that] assms(1) effect(3,9) by (cases i) (auto simp: stops_inv_def)
    show "binding s' \<or> Publication \<in> fst ` set (op_defers s') - set (op_stops s')" if b: "op_bound s'"
    proof (cases "i = BindStatus")
      case True
      have "hd rest = Register Publication" "rest \<noteq> []" using s True by (cases rule: suffix_body_cases, simp_all)+
      then show ?thesis using effect(1) by (simp add: binding_def) (metis list.collapse)
    next
      case False
      then have "op_bound s" using b effect(8) by simp
      then have "binding s \<or> Publication \<in> fst ` set (op_defers s) - set (op_stops s)" using assms(1) by (simp add: stops_inv_def)
      then show ?thesis
      proof
        assume "binding s"
        then have "i = Register Publication" using assms(3) by (simp add: binding_def)
        then show ?thesis using assms(1,3) effect(3,9) by (auto simp: stops_inv_def pending_def)
      qed (use subs effect(9) in auto)
    qed
  qed
qed

lemma stops_inv_fire:
  assumes "stops_inv s" "i < length (op_defers s)" "snd (op_defers s ! i) = Armed"
    shows "stops_inv (s\<lparr>op_defers := (op_defers s)[i := (fst (op_defers s ! i), Stopping)]\<rparr>)"
proof (rule stops_invI)
  have c: "fst (op_defers s ! i) \<notin> set (op_stops s)"
    using assms nth_mem [OF assms(2)] by (cases "op_defers s ! i") (auto simp: stops_inv_def)
  show "(st = Stopped) = (d \<in> set (op_stops (s\<lparr>op_defers := (op_defers s)[i := (fst (op_defers s ! i), Stopping)]\<rparr>)))"
    if "(d, st) \<in> set (op_defers (s\<lparr>op_defers := (op_defers s)[i := (fst (op_defers s ! i), Stopping)]\<rparr>))" for d st
  proof -
    have "(d, st) = (fst (op_defers s ! i), Stopping) \<or> (d, st) \<in> set (op_defers s)"
      using that set_update_subset_insert [of "op_defers s" i] by auto
    then show ?thesis using c assms(1) by (auto simp: stops_inv_def)
  qed
qed (use assms(1,2) fst_set_update [OF assms(2), of Stopping] in \<open>simp_all add: stops_inv_def map_fst_update pending_def binding_def\<close>)

lemma stops_inv_main:
  assumes "stops_inv s" "end_inv s" "ready_inv cfg s" "main_step cfg out s = Some s'"
    shows "stops_inv s'"
proof -
  note frame = main_step_frame [OF assms(4)]
  from frame(7) show ?thesis
  proof
    assume "op_code s' = op_code s"
    then show ?thesis using frame by (intro stops_inv_cong [OF assms(1)]) simp_all
  next
    assume a: "op_main s = MAcquire \<and> op_code s' = Running (whole_body cfg)"
    then have "op_code s = NotStarted" using assms(3) by (simp add: ready_inv_def)
    then have "op_defers s = []" "op_stops s = []" "op_started s = []" "\<not> op_bound s" using assms(2) by (simp_all add: end_inv_def)
    then show ?thesis using frame by (simp add: stops_inv_def)
  qed
qed

lemma stops_inv_step:
  assumes "stops_inv s" "end_inv s" "code_inv cfg s" "ready_inv cfg s" "op_step cfg ch s = Some s'"
    shows "stops_inv s'"
proof (cases ch)
  case Signal
  then show ?thesis using assms(5) by (intro stops_inv_cong [OF assms(1)]) (auto split: if_splits)
next
  case (Fire i)
  then show ?thesis using assms(5) stops_inv_fire [OF assms(1)] by (auto split: if_splits)
next
  case (Finish i)
  then show ?thesis using assms(5) stops_inv_finish [OF assms(1)] by (auto split: if_splits)
next
  case (Main out)
  then show ?thesis using stops_inv_main [OF assms(1,2,4)] assms(5) by simp
next
  case (Go out)
  show ?thesis
  proof (cases "op_code s")
    case (Running code)
    then obtain i rest where "code = i # rest" using assms(3) by (cases code) (auto simp: code_inv_def code_ok_def)
    then show ?thesis using Running Go assms(5) stops_inv_exec [OF assms(1,3)] by (simp add: go_step_def)
  next
    case Returning
    then show ?thesis using stops_inv_defers [OF assms(1)] Go assms(5) by (simp add: go_step_def)
  qed (use Go assms(5) in \<open>simp_all add: go_step_def\<close>)
qed

lemma end_inv_step:
  assumes "end_inv s" "ready_inv cfg s" "op_step cfg ch s = Some s'"
    shows "end_inv s'"
proof (cases ch)
  case Signal
  then show ?thesis using assms(1,3) by (auto simp: end_inv_def split: if_splits)
next
  case (Fire i)
  then show ?thesis using assms(1,3) by (auto simp: end_inv_def split: if_splits)
next
  case (Finish i)
  then show ?thesis using assms(1,3) by (auto simp: end_inv_def split: if_splits)
next
  case (Main out)
  with assms(3) have m: "main_step cfg out s = Some s'" by (simp split: if_splits)
  note frame = main_step_frame [OF m]
  from frame(7) show ?thesis using assms(1) frame(1-4,6) unfolding end_inv_def by (elim disjE conjE) simp_all
next
  case (Go out)
  show ?thesis
  proof (cases "op_code s")
    case (Running code)
    then obtain i rest where c: "code = i # rest" "exec_instr cfg out i rest s = Some s'"
      using Go assms(3) by (cases code) (auto simp: go_step_def)
    from c(2) show ?thesis
    proof (cases rule: exec_instr_cases)
      case (failed m)
      then show ?thesis using Running failed_code [of s m] by (auto simp: end_inv_def)
    next
      case (exited m)
      then show ?thesis using Running by (simp add: end_inv_def)
    next
      case effect
      then show ?thesis by (simp add: end_inv_def)
    qed
  next
    case Returning
    then show ?thesis using Go assms(1,3) by (auto simp: end_inv_def go_step_def split: list.splits stop_state.splits)
  qed (use Go assms(3) in \<open>simp_all add: go_step_def\<close>)
qed

lemma shutdown_inv_run: "stops_inv (op_run cfg chs) \<and> end_inv (op_run cfg chs)"
proof -
  let ?P = "\<lambda>s. code_inv cfg s \<and> ready_inv cfg s \<and> stops_inv s \<and> end_inv s"
  have "?P (op_run cfg chs)"
  proof (rule op_run_invariant [where P = ?P])
    show "?P (op_start cfg)"
      using code_inv_run [of cfg "[]"] ready_inv_run [of cfg "[]"] by (simp add: op_run_def stops_inv_def end_inv_def op_start_def)
    show "?P s'" if "?P s" "op_exit s = None" "op_step cfg ch s = Some s'" for s ch s'
      using that code_inv_step [OF _ that(3)] ready_inv_step [OF _ that(2) _ that(3)] stops_inv_step [OF _ _ _ _ that(3)]
        end_inv_step [OF _ _ that(3)] by simp
  qed
  then show ?thesis by simp
qed

text \<open>A component whose stop function is registered stays registered until it has been stopped.\<close>

lemma registered_step:
  assumes "stops_inv s" "op_step cfg ch s = Some s'"
    shows "fst ` set (op_defers s) \<union> set (op_stops s) \<subseteq> fst ` set (op_defers s') \<union> set (op_stops s')"
proof (cases ch)
  case Signal
  then show ?thesis using assms(2) by (auto split: if_splits)
next
  case (Fire i)
  then have "i < length (op_defers s)"
    and s': "s' = s\<lparr>op_defers := (op_defers s)[i := (fst (op_defers s ! i), Stopping)]\<rparr>"
    using assms(2) by (auto split: if_splits)
  then show ?thesis using fst_set_update [of i "op_defers s" Stopping] by simp
next
  case (Finish i)
  let ?c = "fst (op_defers s ! i)"
  have "i < length (op_defers s)"
    and s': "s' = run_stop ?c (s\<lparr>op_defers := (op_defers s)[i := (?c, Stopped)]\<rparr>)"
    using Finish assms(2) by (auto split: if_splits)
  then have "fst ` set (op_defers s') = fst ` set (op_defers s)" and "op_stops s' = ?c # op_stops s"
    using fst_set_update [of i "op_defers s" Stopped] by simp_all
  then show ?thesis by (simp only: set_simps) blast
next
  case (Main out)
  then show ?thesis using assms(2) main_step_frame by simp
next
  case (Go out)
  show ?thesis
  proof (cases "op_code s")
    case (Running code)
    then obtain i rest where "exec_instr cfg out i rest s = Some s'"
      using Go assms(2) by (cases code) (auto simp: go_step_def)
    then show ?thesis
    proof (cases rule: exec_instr_cases)
      case (failed m)
      then show ?thesis by (auto simp: failed_def exited_def)
    next
      case effect
      then show ?thesis by (cases i) auto
    qed (simp add: exited_def)
  next
    case Returning
    then have d: "run_defers s = Some s'" using Go assms(2) by (simp add: go_step_def)
    show ?thesis
    proof (cases "op_defers s")
      case (Cons p ds)
      obtain c st where p: "p = (c, st)" by fastforce
      have "st = Stopped \<Longrightarrow> c \<in> set (op_stops s)" using assms(1) Cons p by (auto simp: stops_inv_def)
      then show ?thesis using d Cons p by (cases st) auto
    qed (use d in auto)
  qed (use Go assms(2) in \<open>simp_all add: go_step_def\<close>)
qed

lemma registered_run:
  "fst ` set (op_defers (op_run cfg chs)) \<union> set (op_stops (op_run cfg chs))
   \<subseteq> fst ` set (op_defers (op_run cfg (chs @ later))) \<union> set (op_stops (op_run cfg (chs @ later)))"
proof (induction later rule: rev_induct)
  case (snoc ch later)
  let ?s = "op_run cfg (chs @ later)"
  have "op_run cfg (chs @ later @ [ch]) = op_next cfg ?s ch" by (simp add: op_run_def)
  moreover have "stops_inv ?s" using shutdown_inv_run by blast
  ultimately have "fst ` set (op_defers ?s) \<union> set (op_stops ?s)
      \<subseteq> fst ` set (op_defers (op_run cfg (chs @ later @ [ch]))) \<union> set (op_stops (op_run cfg (chs @ later @ [ch])))"
    using registered_step [of ?s cfg ch] by (simp add: op_next_def split: option.splits)
  with snoc show ?case by (rule order_trans)
qed simp

text \<open>Without leader election the main goroutine runs the operator, so the process returns only after it.\<close>

lemma exec_instr_exit:
  "exec_instr cfg out i rest s = Some s' \<Longrightarrow> op_main s' = op_main s \<and> (op_exit s = None \<longrightarrow> op_exit s' \<noteq> Some Returned)"
  by (cases i) (auto simp: failed_def exited_def split: outcome.splits if_splits)

lemma returns_after_operator:
  assumes "\<not> leaderElectionEnabled cfg" "op_exit (op_run cfg chs) = Some Returned"
    shows "op_code (op_run cfg chs) = Finished"
proof -
  let ?P = "\<lambda>s. op_main s = MRun \<and> (op_exit s = Some Returned \<longrightarrow> op_code s = Finished)"
  have "?P (op_run cfg chs)"
  proof (rule op_run_invariant [where P = ?P])
    show "?P (op_start cfg)" using assms(1) by (simp add: op_start_def)
    show "?P s'" if p: "?P s" "op_exit s = None" "op_step cfg ch s = Some s'" for s ch s'
    proof (cases ch)
      case (Go out)
      show ?thesis
      proof (cases "op_code s")
        case (Running code)
        then obtain i rest where "exec_instr cfg out i rest s = Some s'"
          using Go p(3) by (cases code) (auto simp: go_step_def)
        then show ?thesis using p(1,2) exec_instr_exit by metis
      next
        case Returning
        then show ?thesis
          using Go p by (auto simp: go_step_def run_stop_def Let_def split: list.splits stop_state.splits if_splits)
      qed (use Go p in \<open>simp_all add: go_step_def\<close>)
    qed (use p in \<open>auto simp: main_step_def run_stop_def Let_def split: if_splits\<close>)
  qed
  with assms(2) show ?thesis by blast
qed

text \<open>C35: Shutdown is complete. At every moment of every run each stop function has run at most once, whether the goroutine of the context
  or the deferred call came first. When runOperator has returned, its context has ended, every component whose stop function was
  registered at any moment of the run (the webhook observer included) and every component that was started has been stopped, and the status page has lost its reader.
  Without leader election the process itself returns only after that; with it, the process does not wait for runOperator.\<close>
theorem shutdown_stops_everything_once:
  "distinct (op_stops (op_run cfg (chs @ later))) \<and>
   (op_code (op_run cfg (chs @ later)) = Finished \<longrightarrow>
      op_cancelled (op_run cfg (chs @ later)) \<and> \<not> op_bound (op_run cfg (chs @ later)) \<and>
      fst ` set (op_defers (op_run cfg chs)) \<union> set (op_started (op_run cfg chs)) \<subseteq> set (op_stops (op_run cfg (chs @ later)))) \<and>
   (\<not> leaderElectionEnabled cfg \<longrightarrow> op_exit (op_run cfg chs) = Some Returned \<longrightarrow> op_code (op_run cfg chs) = Finished)"
proof -
  let ?s = "op_run cfg chs" and ?e = "op_run cfg (chs @ later)"
  have "set (op_started ?s) \<subseteq> fst ` set (op_defers ?s) \<union> set (op_stops ?s)"
    using shutdown_inv_run [of cfg chs] by (auto simp: stops_inv_def)
  then have "fst ` set (op_defers ?s) \<union> set (op_started ?s) \<subseteq> fst ` set (op_defers ?e) \<union> set (op_stops ?e)"
    using registered_run [of cfg chs later] by blast
  then show ?thesis
    using shutdown_inv_run [of cfg "chs @ later"] returns_after_operator [of cfg chs]
    by (auto simp: stops_inv_def end_inv_def binding_def)
qed

section \<open>Runs\<close>

definition demo_term :: "choice list" where
  "demo_term = replicate 3 (Main Succeeds) @ replicate 15 (Go Succeeds)"

text \<open>An elected leader with a TLS server, up to the moment it reports ready.\<close>

theorem leader_is_published_last_witness:
  "op_label (op_run demo_config demo_term) = Some True \<and> readyHandler (op_run demo_config demo_term) = 200
   \<and> serving demo_config (op_run demo_config demo_term)"
proof -
  have "op_label (op_run demo_config demo_term) = Some True" "readyHandler (op_run demo_config demo_term) = 200" by code_simp+
  then show ?thesis using leader_is_published_last [of demo_config demo_term] by simp
qed

text \<open>
  A shutdown in which the context ends between the publication and the last statement before the loop: its goroutine withdraws
  readiness first, then the operator stores it, and nothing withdraws it again before \<^verbatim>\<open>runOperator\<close> returns.
\<close>

definition demo_single :: config where
  "demo_single = (registered_defaults ''pod-0'')\<lparr>kubeNamespace := ''ns''\<rparr>"

definition demo_race :: "choice list" where
  "demo_race = replicate 10 (Go Succeeds) @ [Signal, Fire 0, Finish 0, Go Succeeds, Fire 1, Finish 1] @ replicate 6 (Go Succeeds)"

lemma readiness_may_survive_shutdown:
  "op_code (op_run demo_single demo_race) = Finished \<and> op_ready (op_run demo_single demo_race)"
  by code_simp

theorem shutdown_stops_everything_once_witness:
  "op_code (op_run demo_single demo_race) = Finished \<and> distinct (op_stops (op_run demo_single demo_race)) \<and>
   fst ` set (op_defers (op_run demo_single (take 10 demo_race))) = {WebhookObserver, EvictionController, Controller, Publication} \<and>
   {WebhookObserver, EvictionController, Controller, Publication} \<subseteq> set (op_stops (op_run demo_single demo_race))"
proof -
  have f: "op_code (op_run demo_single demo_race) = Finished" by code_simp
  have "map fst (op_defers (op_run demo_single (take 10 demo_race))) = [Publication, Controller, EvictionController, WebhookObserver]"
    by code_simp
  then have r: "fst ` set (op_defers (op_run demo_single (take 10 demo_race))) = {WebhookObserver, EvictionController, Controller, Publication}"
    by (simp add: image_set insert_commute)
  show ?thesis
    using shutdown_stops_everything_once [of demo_single "take 10 demo_race" "drop 10 demo_race"] f r by simp
qed

text \<open>The TLS server listens exactly if it is enabled and nothing failed, and then with a certificate that was checked.\<close>

lemma maybeStartTLSServer_listens:
  assumes "maybeStartTLSServer T S cfg tr = (Ok listening, tr')"
    shows "listening = serverTLSEnabled cfg"
      "listening \<Longrightarrow> \<exists>c. certificateForServer T (tls_config.truncate cfg) tr = (Ok (Some c), tr')"
proof -
  have "fst (certificateForServer T (tls_config.truncate cfg) tr) = Ok None \<longleftrightarrow> \<not> serverTLSEnabled cfg"
    by (auto simp: certificateForServer_def tls_config.truncate_def fatal_def split: prod.splits res.splits)
  then show "listening = serverTLSEnabled cfg"
    using assms by (auto simp: maybeStartTLSServer_def fatal_def split: prod.splits res.splits option.splits reply.splits if_splits)
  show "\<exists>c. certificateForServer T (tls_config.truncate cfg) tr = (Ok (Some c), tr')" if listening
    using assms that by (auto simp: maybeStartTLSServer_def fatal_def split: prod.splits res.splits option.splits reply.splits if_splits)
qed

end
