(* ===== verification/Observers.thy ===== *)
theory Observers
  imports RolloutLoop TlsCert
begin

text \<open>
  How the observers start, and the readiness of the one for budgets: \<^verbatim>\<open>config_observer.go\<close>, \<^verbatim>\<open>pod_observer.go\<close> and \<^verbatim>\<open>eviction_controller.go\<close> of
  \<^verbatim>\<open>pkg/zpdb\<close>, \<^verbatim>\<open>pkg/tlscert/webhook_observer.go\<close>, \<^verbatim>\<open>Init\<close> of \<^verbatim>\<open>pkg/controller/controller.go\<close>. What the handlers do with an object is in the
  theories of the components.
\<close>

section \<open>Waiting for the caches\<close>

text \<open>
  \<^verbatim>\<open>cache.WaitForCacheSync\<close> over its successive polls: what each \<^verbatim>\<open>HasSynced\<close> answers, and whether the wait that follows is ended by the stop channel.
  \<^term>\<open>None\<close>: it has not returned.
\<close>

type_synonym sync_polls = "(bool list \<times> bool) list"

fun WaitForCacheSync :: "sync_polls \<Rightarrow> bool option" where
  "WaitForCacheSync [] = None"
| "WaitForCacheSync ((synced, stopped) # polls) =
     (if list_all id synced then Some True else if stopped then Some False else WaitForCacheSync polls)"

fun first_error :: "err option list \<Rightarrow> err option" where
  "first_error [] = None"
| "first_error (None # es) = first_error es"
| "first_error (Some e # es) = Some e"

text \<open>Handlers are added, the informers run, and the call returns once they have synced; \<open>added\<close> has the results of the additions.\<close>

definition start_informers :: "err option list \<Rightarrow> err \<Rightarrow> sync_polls \<Rightarrow> err option option" where
  "start_informers added failure polls =
     (case first_error added of
        Some e \<Rightarrow> Some (Some e)
      | None \<Rightarrow> map_option (\<lambda>ok. if ok then None else Some failure) (WaitForCacheSync polls))"

definition podObserver_start :: "err option \<Rightarrow> sync_polls \<Rightarrow> err option option" where
  "podObserver_start added polls = start_informers [added] (Err ''zpdb pod informer failed to sync'') polls"

text \<open>\<open>validating\<close> and \<open>mutating\<close> are what the informers answer when the failure is reported.\<close>

definition bool_text :: "bool \<Rightarrow> string" where
  "bool_text b = (if b then ''true'' else ''false'')"

definition WebhookObserver_Init :: "err option \<Rightarrow> err option \<Rightarrow> bool \<Rightarrow> bool \<Rightarrow> sync_polls \<Rightarrow> err option option" where
  "WebhookObserver_Init addedV addedM validating mutating polls =
     start_informers (map (map_option (wrapf ''failed to add webhook listener: '')) [addedV, addedM])
       (Err (''validating webhook informer caches failed to sync. validating webhook informer sync='' @ bool_text validating @
             '', mutating webhook informer sync='' @ bool_text mutating))
       polls"

definition WebhookCollector_Start :: "err option \<Rightarrow> err option \<Rightarrow> bool \<Rightarrow> bool \<Rightarrow> sync_polls \<Rightarrow> err option option" where
  "WebhookCollector_Start addedV addedM validating mutating polls = WebhookObserver_Init addedV addedM validating mutating polls"

text \<open>
  \<^verbatim>\<open>Init\<close> of the rollout controller. A poll sees the informers of StatefulSets and of pods, and the state of the observer of ReplicaTemplates; the handler of the latter
  is added only if they are watched.
\<close>

definition init_poll :: "bool \<times> bool \<times> rt_observer \<times> bool \<Rightarrow> bool list \<times> bool" where
  "init_poll = (\<lambda>(sts, pods, templates, stopped). ([sts, pods, replicaTemplateStartupSynced templates], stopped))"

definition controller_Init :: "rt_observer \<Rightarrow> err option \<Rightarrow> err option \<Rightarrow> err option \<Rightarrow> (bool \<times> bool \<times> rt_observer \<times> bool) list \<Rightarrow> err option option" where
  "controller_Init templates addedSts addedPods addedTemplates polls =
     start_informers ([addedSts, addedPods] @ (if rt_informer templates = None then [] else [addedTemplates]))
       (Err ''informer caches failed to sync'') (map init_poll polls)"

section \<open>The observer of budgets\<close>

text \<open>
  The goroutine of \<^verbatim>\<open>observeReadiness\<close>: it waits in its \<^verbatim>\<open>select\<close>, is about to list, has the answer, or has evaluated the condition and is about to set the gauge.
\<close>

datatype readiness_loop = NoLoop | AtSelect | Probing | Answered bool | Judged bool | LoopEnded

datatype sync_waiter = NoWait | WaitInStart | WaitInBackground | WaitOver

datatype start_call = StartNotCalled | StartBlocked | StartReturned "err option"

text \<open>
  \<open>co_sends\<close> counts the calls of \<^verbatim>\<open>setWatchHealthy\<close> between the swap and the send; \<open>co_changed\<close> is the buffer of \<^verbatim>\<open>readinessChanged\<close>, which holds one
  element; \<open>co_listed\<close> is whether the last list of \<^verbatim>\<open>updateReadiness\<close> succeeded; \<open>co_gauge\<close> is the metric.
\<close>

record config_observer =
  co_running :: bool
  co_synced :: bool
  co_watchHealthy :: bool
  co_sends :: nat
  co_changed :: bool
  co_stopped :: bool
  co_wait :: sync_waiter
  co_start :: start_call
  co_loop :: readiness_loop
  co_listed :: bool
  co_gauge :: bool

definition newConfigObserver :: config_observer where
  "newConfigObserver =
     \<lparr>co_running = False, co_synced = False, co_watchHealthy = False, co_sends = 0, co_changed = False, co_stopped = False, co_wait = NoWait,
      co_start = StartNotCalled, co_loop = NoLoop, co_listed = False, co_gauge = False\<rparr>"

text \<open>The swap of \<^verbatim>\<open>setWatchHealthy\<close>; the send that follows is a step of its own.\<close>

definition setWatchHealthy :: "bool \<Rightarrow> config_observer \<Rightarrow> config_observer" where
  "setWatchHealthy healthy c =
     (if co_watchHealthy c \<noteq> healthy then c\<lparr>co_watchHealthy := healthy, co_sends := Suc (co_sends c)\<rparr> else c)"

fun is_not_found :: "unit reply \<Rightarrow> bool" where
  "is_not_found (Error (NotFound m)) = True"
| "is_not_found r = False"

text \<open>
  \<^verbatim>\<open>start\<close>: the handler, the handler of watch errors, the gauge, and then one of the two functions \<^verbatim>\<open>startCaches\<close> may be; \<open>probe\<close> is the answer to the list of
  \<^verbatim>\<open>startAllowMissingCRDs\<close>.
\<close>

definition configObserver_start :: "bool \<Rightarrow> err option \<Rightarrow> err option \<Rightarrow> unit reply \<Rightarrow> config_observer \<Rightarrow> config_observer" where
  "configObserver_start allowMissing added handler probe c =
     (case first_error [added, handler] of
        Some e \<Rightarrow> c\<lparr>co_start := StartReturned (Some e)\<rparr>
      | None \<Rightarrow>
          (let c1 = c\<lparr>co_gauge := False, co_running := True\<rparr> in
           if allowMissing \<and> is_not_found probe
           then c1\<lparr>co_wait := WaitInBackground, co_start := StartReturned None\<rparr>
           else c1\<lparr>co_wait := WaitInStart, co_start := StartBlocked\<rparr>))"

text \<open>A poll of \<^verbatim>\<open>waitForCacheSync\<close>.\<close>

definition sync_poll :: "bool \<Rightarrow> config_observer \<Rightarrow> config_observer option" where
  "sync_poll stopSeen c =
     (let returns = (\<lambda>r c'. if co_wait c = WaitInStart then c'\<lparr>co_start := StartReturned r\<rparr> else c') in
      if co_wait c \<notin> {WaitInStart, WaitInBackground} then None
      else if co_synced c then Some (returns None (c\<lparr>co_wait := WaitOver, co_loop := Probing\<rparr>))
      else if stopSeen \<and> co_stopped c
      then Some (returns (Some (Err ''zpdb config informer caches failed to sync'')) (c\<lparr>co_wait := WaitOver\<rparr>))
      else None)"

text \<open>The statements of \<^verbatim>\<open>updateReadiness\<close>: the list, the condition, the gauge.\<close>

definition readiness_step :: "bool \<Rightarrow> config_observer \<Rightarrow> config_observer option" where
  "readiness_step ok c =
     (case co_loop c of
        Probing \<Rightarrow> Some (c\<lparr>co_loop := Answered ok, co_listed := ok\<rparr>)
      | Answered a \<Rightarrow> Some (c\<lparr>co_loop := Judged (a \<and> co_synced c \<and> co_watchHealthy c)\<rparr>)
      | Judged v \<Rightarrow> Some (c\<lparr>co_loop := AtSelect, co_gauge := v\<rparr>)
      | _ \<Rightarrow> None)"

datatype co_event =
    CoStart "err option" "err option" "unit reply" | CoPoll bool | CoSynced | CoWatch "unit reply" | CoWatchError | CoSend
  | CoUpdate bool | CoTick | CoChanged | CoStopSeen | CoStop

fun co_step :: "bool \<Rightarrow> co_event \<Rightarrow> config_observer \<Rightarrow> config_observer option" where
  "co_step allowMissing (CoStart added handler probe) c =
     (if co_start c = StartNotCalled then Some (configObserver_start allowMissing added handler probe c) else None)"
| "co_step allowMissing (CoPoll stopSeen) c = sync_poll stopSeen c"
| "co_step allowMissing CoSynced c = (if co_running c then Some (c\<lparr>co_synced := True\<rparr>) else None)"
| "co_step allowMissing (CoWatch w) c =
     (if co_running c then Some (setWatchHealthy (case w of Reply _ \<Rightarrow> True | Error _ \<Rightarrow> False) c) else None)"
| "co_step allowMissing CoWatchError c = (if co_running c then Some (setWatchHealthy False c) else None)"
| "co_step allowMissing CoSend c =
     (if 0 < co_sends c then Some (c\<lparr>co_sends := co_sends c - 1, co_changed := True\<rparr>) else None)"
| "co_step allowMissing (CoUpdate ok) c = readiness_step ok c"
| "co_step allowMissing CoTick c = (if co_loop c = AtSelect then Some (c\<lparr>co_loop := Probing\<rparr>) else None)"
| "co_step allowMissing CoChanged c =
     (if co_loop c = AtSelect \<and> co_changed c then Some (c\<lparr>co_loop := Probing, co_changed := False\<rparr>) else None)"
| "co_step allowMissing CoStopSeen c = (if co_loop c = AtSelect \<and> co_stopped c then Some (c\<lparr>co_loop := LoopEnded\<rparr>) else None)"
| "co_step allowMissing CoStop c = (if co_stopped c then None else Some (c\<lparr>co_stopped := True\<rparr>))"

text \<open>An event that is not enabled is skipped.\<close>

definition co_next :: "bool \<Rightarrow> config_observer \<Rightarrow> co_event \<Rightarrow> config_observer" where
  "co_next allowMissing c ev = (case co_step allowMissing ev c of None \<Rightarrow> c | Some c' \<Rightarrow> c')"

definition co_run :: "bool \<Rightarrow> co_event list \<Rightarrow> config_observer" where
  "co_run allowMissing evs = foldl (co_next allowMissing) newConfigObserver evs"

text \<open>\<^verbatim>\<open>Start\<close> of the eviction controller: the observer of budgets, then the one of pods.\<close>

definition evictionController_Start :: "config_observer \<Rightarrow> err option \<Rightarrow> sync_polls \<Rightarrow> err option option" where
  "evictionController_Start c added polls =
     (case co_start c of
        StartReturned None \<Rightarrow> map_option (map_option (wrapf ''failed to start zpdb pod observer: '')) (podObserver_start added polls)
      | StartReturned (Some e) \<Rightarrow> Some (Some (wrapf ''failed to start zpdb config observer: '' e))
      | _ \<Rightarrow> None)"


section \<open>Invariants\<close>

lemma co_run_induct:
  assumes "P [] newConfigObserver"
      and "\<And>evs ev c c'. P evs c \<Longrightarrow> co_step allowMissing ev c = Some c' \<Longrightarrow> P (evs @ [ev]) c'"
      and "\<And>evs ev c. P evs c \<Longrightarrow> P (evs @ [ev]) c"
    shows "P evs (co_run allowMissing evs)"
proof (induction evs rule: rev_induct)
  case (snoc ev evs)
  have "co_run allowMissing (evs @ [ev]) = co_next allowMissing (co_run allowMissing evs) ev" by (simp add: co_run_def)
  then show ?case using snoc assms(2,3) by (auto simp: co_next_def split: option.splits)
qed (simp add: co_run_def assms(1))

text \<open>A recheck is owed: the loop has been told, or is about to be, that the watch has changed.\<close>

definition recheck_owed :: "config_observer \<Rightarrow> bool" where
  "recheck_owed c \<longleftrightarrow> co_changed c \<or> 0 < co_sends c"

definition gauge_inv :: "config_observer \<Rightarrow> bool" where
  "gauge_inv c \<longleftrightarrow>
     (case co_loop c of
        NoLoop \<Rightarrow> \<not> co_gauge c
      | AtSelect \<Rightarrow> co_synced c \<and> (recheck_owed c \<or> co_gauge c = (co_listed c \<and> co_watchHealthy c))
      | Probing \<Rightarrow> co_synced c
      | Answered a \<Rightarrow> co_synced c \<and> a = co_listed c
      | Judged v \<Rightarrow> co_synced c \<and> (recheck_owed c \<or> v = (co_listed c \<and> co_watchHealthy c))
      | LoopEnded \<Rightarrow> co_synced c)
     \<and> (co_wait c \<in> {WaitInStart, WaitInBackground} \<longrightarrow> co_loop c = NoLoop)
     \<and> (co_start c = StartNotCalled \<longrightarrow> co_loop c = NoLoop \<and> co_wait c = NoWait)"

lemma gauge_inv_start: "gauge_inv newConfigObserver"
  by (simp add: gauge_inv_def newConfigObserver_def)

lemma gauge_inv_watch: "gauge_inv c \<Longrightarrow> gauge_inv (setWatchHealthy h c)"
  by (auto simp: gauge_inv_def setWatchHealthy_def recheck_owed_def split: readiness_loop.splits)

lemma gauge_inv_configObserver_start:
  "gauge_inv c \<Longrightarrow> co_start c = StartNotCalled \<Longrightarrow> gauge_inv (configObserver_start allowMissing added handler probe c)"
  by (auto simp: gauge_inv_def configObserver_start_def Let_def split: option.splits)

lemma gauge_inv_poll: "gauge_inv c \<Longrightarrow> sync_poll stopSeen c = Some c' \<Longrightarrow> gauge_inv c'"
  by (auto simp: gauge_inv_def sync_poll_def Let_def split: if_splits)

lemma gauge_inv_update: "gauge_inv c \<Longrightarrow> readiness_step ok c = Some c' \<Longrightarrow> gauge_inv c'"
  by (auto simp: gauge_inv_def readiness_step_def recheck_owed_def split: readiness_loop.splits)

lemma gauge_inv_step:
  assumes "gauge_inv c" and "co_step allowMissing ev c = Some c'"
  shows "gauge_inv c'"
proof (cases ev)
  case (CoStart a h p)
  with assms show ?thesis by (auto dest: gauge_inv_configObserver_start split: if_splits)
next
  case (CoPoll stopSeen)
  with assms gauge_inv_poll show ?thesis by simp
next
  case CoSynced
  with assms(2) have "c' = c\<lparr>co_synced := True\<rparr>" by (simp split: if_splits)
  with assms(1) show ?thesis by (auto simp: gauge_inv_def recheck_owed_def split: readiness_loop.splits)
next
  case (CoWatch w)
  with assms(2) obtain h where "c' = setWatchHealthy h c" by (auto split: if_splits)
  with assms(1) gauge_inv_watch show ?thesis by simp
next
  case CoWatchError
  with assms(2) have "c' = setWatchHealthy False c" by (simp split: if_splits)
  with assms(1) gauge_inv_watch show ?thesis by simp
next
  case CoSend
  with assms(2) have "c' = c\<lparr>co_sends := co_sends c - 1, co_changed := True\<rparr>" by (simp split: if_splits)
  with assms(1) show ?thesis by (auto simp: gauge_inv_def recheck_owed_def split: readiness_loop.splits)
next
  case (CoUpdate ok)
  with assms gauge_inv_update show ?thesis by simp
next
  case CoTick
  with assms show ?thesis by (auto simp: gauge_inv_def split: if_splits)
next
  case CoChanged
  with assms show ?thesis by (auto simp: gauge_inv_def split: if_splits)
next
  case CoStopSeen
  with assms show ?thesis by (auto simp: gauge_inv_def split: if_splits)
next
  case CoStop
  with assms(2) have "c' = c\<lparr>co_stopped := True\<rparr>" by (simp split: if_splits)
  with assms(1) show ?thesis by (auto simp: gauge_inv_def recheck_owed_def split: readiness_loop.splits)
qed

lemma gauge_inv_run: "gauge_inv (co_run allowMissing evs)"
  using co_run_induct [of "\<lambda>_. gauge_inv"] gauge_inv_start gauge_inv_step by blast

text \<open>\<^verbatim>\<open>start\<close> returns without an error only once the cache has synced, or where the definition of budgets is missing and may be.\<close>

definition start_inv :: "bool \<Rightarrow> co_event list \<Rightarrow> config_observer \<Rightarrow> bool" where
  "start_inv allowMissing evs c \<longleftrightarrow>
     co_start c = StartReturned None \<longrightarrow>
       co_synced c \<or> allowMissing \<and> (\<exists>m. CoStart None None (Error (NotFound m)) \<in> set evs)"

lemma first_error_pair: "first_error [a, b] = None \<longleftrightarrow> a = None \<and> b = None"
  by (cases a; cases b) simp_all

lemma is_not_found_iff: "is_not_found r \<longleftrightarrow> (\<exists>m. r = Error (NotFound m))"
  by (cases r rule: is_not_found.cases) simp_all

lemma readiness_step_frame: "readiness_step ok c = Some c' \<Longrightarrow> co_start c' = co_start c \<and> co_synced c' = co_synced c"
  by (auto simp: readiness_step_def split: readiness_loop.splits)

lemma setWatchHealthy_frame [simp]:
  "co_start (setWatchHealthy h c) = co_start c" "co_synced (setWatchHealthy h c) = co_synced c" "co_loop (setWatchHealthy h c) = co_loop c"
  by (simp_all add: setWatchHealthy_def)

lemma start_inv_step:
  assumes "start_inv allowMissing evs c" and "co_step allowMissing ev c = Some c'"
  shows "start_inv allowMissing (evs @ [ev]) c'"
proof (cases ev)
  case (CoStart a h p)
  with assms show ?thesis
    by (auto simp: start_inv_def configObserver_start_def first_error_pair is_not_found_iff Let_def split: if_splits option.splits)
next
  case (CoPoll b)
  with assms show ?thesis by (auto simp: start_inv_def sync_poll_def Let_def split: if_splits)
next
  case (CoUpdate ok)
  with assms show ?thesis by (auto simp: start_inv_def dest: readiness_step_frame)
qed (use assms in \<open>auto simp: start_inv_def split: if_splits\<close>)

lemma start_inv_run: "start_inv allowMissing evs (co_run allowMissing evs)"
proof (rule co_run_induct)
  show "start_inv allowMissing [] newConfigObserver" by (simp add: start_inv_def newConfigObserver_def)
next
  show "start_inv allowMissing (evs @ [ev]) c'" if "start_inv allowMissing evs c" "co_step allowMissing ev c = Some c'" for evs ev c c'
    using that by (rule start_inv_step)
qed (auto simp: start_inv_def)

section \<open>Properties\<close>

text \<open>C39: The readiness metric of the budget observer is never stale without a recheck on its way. Whatever the order in which the informer, its watch, the loop and
  shutdown take their steps: while the loop waits and nothing has been sent to it or is about to be, the metric is 1 exactly if the last list succeeded, the
  cache has synced and the watch is healthy; before the cache has synced it is 0; and a loop that has been told of a change and whose list succeeds sets the metric to the
  health of the watch, with no change left unseen.\<close>
theorem observer_readiness_is_current:
  assumes "c = co_run allowMissing evs"
  shows "(co_loop c = AtSelect \<and> \<not> co_changed c \<and> co_sends c = 0 \<longrightarrow> co_gauge c = (co_listed c \<and> co_synced c \<and> co_watchHealthy c)) \<and>
     (\<not> co_synced c \<longrightarrow> \<not> co_gauge c) \<and>
     (co_loop c = AtSelect \<and> co_changed c \<longrightarrow>
        (let c' = foldl (co_next allowMissing) c [CoChanged, CoUpdate True, CoUpdate True, CoUpdate True]
         in co_loop c' = AtSelect \<and> \<not> co_changed c' \<and> co_gauge c' = co_watchHealthy c))"
proof -
  have inv: "gauge_inv c" using assms gauge_inv_run by simp
  have "co_gauge c = (co_listed c \<and> co_synced c \<and> co_watchHealthy c)" if "co_loop c = AtSelect" "\<not> co_changed c" "co_sends c = 0"
    using inv that by (simp add: gauge_inv_def recheck_owed_def)
  moreover have "\<not> co_gauge c" if "\<not> co_synced c" using inv that by (auto simp: gauge_inv_def split: readiness_loop.splits)
  moreover have "let c' = foldl (co_next allowMissing) c [CoChanged, CoUpdate True, CoUpdate True, CoUpdate True]
      in co_loop c' = AtSelect \<and> \<not> co_changed c' \<and> co_gauge c' = co_watchHealthy c" if "co_loop c = AtSelect" "co_changed c"
    using inv that by (simp add: gauge_inv_def co_next_def readiness_step_def)
  ultimately show ?thesis by blast
qed

text \<open>The watch fails while the loop is about to publish that it is healthy.\<close>

definition demo_watch_lost :: "co_event list" where
  "demo_watch_lost =
     [CoStart None None (Reply ()), CoWatch (Reply ()), CoSend, CoSynced, CoPoll False, CoUpdate True, CoUpdate True, CoWatchError, CoUpdate True, CoChanged,
      CoUpdate True, CoUpdate True, CoUpdate True]"

theorem observer_readiness_is_current_witness:
  "(let c = co_run False demo_watch_lost in co_loop c = AtSelect \<and> co_sends c = 1 \<and> \<not> co_gauge c) \<and>
   (let c = co_run False (demo_watch_lost @ [CoSend]);
        c' = foldl (co_next False) c [CoChanged, CoUpdate True, CoUpdate True, CoUpdate True]
    in co_loop c = AtSelect \<and> co_changed c \<and> co_loop c' = AtSelect \<and> \<not> co_changed c' \<and> \<not> co_gauge c')"
proof -
  let ?c = "co_run False (demo_watch_lost @ [CoSend])"
  have s: "co_loop ?c = AtSelect" "co_changed ?c" "\<not> co_watchHealthy ?c" by code_simp+
  have "let c = co_run False demo_watch_lost in co_loop c = AtSelect \<and> co_sends c = 1 \<and> \<not> co_gauge c" by code_simp
  with observer_readiness_is_current [of ?c False "demo_watch_lost @ [CoSend]"] s show ?thesis by (simp add: Let_def)
qed

lemma WaitForCacheSync_True: "WaitForCacheSync polls = Some True \<Longrightarrow> \<exists>synced stopped. (synced, stopped) \<in> set polls \<and> list_all id synced"
  by (induction polls rule: WaitForCacheSync.induct) (auto split: if_splits)

lemma start_informers_done:
  "start_informers added failure polls = Some None \<Longrightarrow>
     first_error added = None \<and> (\<exists>synced stopped. (synced, stopped) \<in> set polls \<and> list_all id synced)"
  by (auto simp: start_informers_def dest!: WaitForCacheSync_True split: option.splits if_splits)

lemma init_poll_synced:
  assumes "(synced, stopped) \<in> set (map init_poll polls)" and "list_all id synced"
  shows "\<exists>seen. (True, True, seen, stopped) \<in> set polls \<and> (rt_startup_waits seen \<longrightarrow> rt_informer seen \<noteq> Some False)"
proof -
  from assms(1) obtain sts pods seen where p: "(sts, pods, seen, stopped) \<in> set polls" "synced = [sts, pods, replicaTemplateStartupSynced seen]"
    by (auto simp: init_poll_def)
  with assms(2) have "sts" "pods" "replicaTemplateStartupSynced seen" by simp_all
  with p show ?thesis by (intro exI [of _ seen]) (auto simp: replicaTemplateStartupSynced_def)
qed

text \<open>Components report a successful start only with synced caches. The eviction controller does once the pod informer has synced and the budgets have, unless missing
  definitions are allowed and the API server did not know budgets; the rollout controller once StatefulSets and pods have and, unless missing definitions are allowed,
  ReplicaTemplates if they are watched.\<close>
theorem started_components_have_synced:
  assumes "evictionController_Start (co_run allowMissing evs) added polls = Some None"
      and "controller_Init templates addedSts addedPods addedTemplates initPolls = Some None"
    shows "(co_synced (co_run allowMissing evs) \<or> allowMissing \<and> (\<exists>m. CoStart None None (Error (NotFound m)) \<in> set evs)) \<and>
      (\<exists>synced stopped. (synced, stopped) \<in> set polls \<and> list_all id synced) \<and>
      (\<exists>seen stopped. (True, True, seen, stopped) \<in> set initPolls \<and> (rt_startup_waits seen \<longrightarrow> rt_informer seen \<noteq> Some False))"
proof -
  from assms(1) have s: "co_start (co_run allowMissing evs) = StartReturned None" "podObserver_start added polls = Some None"
    by (auto simp: evictionController_Start_def split: start_call.splits option.splits)
  have "co_synced (co_run allowMissing evs) \<or> allowMissing \<and> (\<exists>m. CoStart None None (Error (NotFound m)) \<in> set evs)"
    using start_inv_run [of allowMissing evs] s(1) by (simp add: start_inv_def)
  moreover have "\<exists>synced stopped. (synced, stopped) \<in> set polls \<and> list_all id synced"
    using s(2) unfolding podObserver_start_def by (blast dest: start_informers_done)
  moreover have "\<exists>seen stopped. (True, True, seen, stopped) \<in> set initPolls \<and> (rt_startup_waits seen \<longrightarrow> rt_informer seen \<noteq> Some False)"
    using assms(2) unfolding controller_Init_def by (blast dest: start_informers_done init_poll_synced)
  ultimately show ?thesis by blast
qed


definition demo_started :: "co_event list" where
  "demo_started = [CoStart None None (Reply ()), CoPoll False, CoWatch (Reply ()), CoSynced, CoPoll False]"

theorem started_components_have_synced_witness:
  "evictionController_Start (co_run False demo_started) None [([False], False), ([True], False)] = Some None \<and> co_synced (co_run False demo_started)"
proof -
  have e: "evictionController_Start (co_run False demo_started) None [([False], False), ([True], False)] = Some None" by code_simp
  have i: "controller_Init newReplicaTemplateObserver None None None [(True, False, newReplicaTemplateObserver, False), (True, True, newReplicaTemplateObserver, False)] = Some None"
    by code_simp
  from started_components_have_synced [OF e i] e show ?thesis by simp
qed

end
