(* ===== verification/SelfSigned.thy ===== *)
theory SelfSigned
  imports OperatorFlags
begin

text \<open>
  \<^verbatim>\<open>pkg/tlscert/self_signed.go\<close>: the certificate the operator issues to itself. The cryptography is a parameter: key generation, signing a template and the PEM
  encoding. What is modelled is which templates are signed, by which keys, at which times, and every error.
\<close>

section \<open>Templates and the provider\<close>

record x509_template =
  x5_DNSNames :: "string list"
  x5_SerialNumber :: int
  x5_CommonName :: string
  x5_Organization :: "string list"
  x5_NotBefore :: instant
  x5_NotAfter :: instant
  x5_IsCA :: bool
  x5_BasicConstraintsValid :: bool
  x5_ExtKeyUsage :: "string list"
  x5_KeyUsage :: "string list"

record SelfSignedProvider =
  sp_orgs :: "string list"
  sp_dnsNames :: "string list"
  sp_commonName :: string
  sp_expiration :: duration

definition NewSelfSignedCertProvider :: "string \<Rightarrow> string list \<Rightarrow> string list \<Rightarrow> duration \<Rightarrow> SelfSignedProvider" where
  "NewSelfSignedCertProvider commonName dnsNames orgs expiration =
     \<lparr>sp_orgs = orgs, sp_dnsNames = dnsNames, sp_commonName = commonName, sp_expiration = expiration\<rparr>"

text \<open>
  \<open>cr_key i\<close> is the answer to the \<open>i\<close>-th call of \<^verbatim>\<open>rsa.GenerateKey\<close>; \<open>cr_create\<close> is \<^verbatim>\<open>x509.CreateCertificate\<close> of a template, the parent's template, the key whose
  public part is certified and the key that signs.
\<close>

record crypto =
  cr_key :: "nat \<Rightarrow> string reply"
  cr_create :: "x509_template \<Rightarrow> x509_template \<Rightarrow> string \<Rightarrow> string \<Rightarrow> string reply"
  cr_marshal_key :: "string \<Rightarrow> string"
  cr_pem :: "string \<Rightarrow> string \<Rightarrow> string reply"

definition pemBlockBytes :: "crypto \<Rightarrow> string \<Rightarrow> string \<Rightarrow> string res" where
  "pemBlockBytes C kind bytes =
     (case cr_pem C kind bytes of
        Error e \<Rightarrow> Panic (''failed writing PEM block into bytes.Buffer: '' @ errmsg e)
      | Reply s \<Rightarrow> Ok s)"

definition ca_template :: "SelfSignedProvider \<Rightarrow> instant \<Rightarrow> instant \<Rightarrow> x509_template" where
  "ca_template p now now' =
     \<lparr>x5_DNSNames = [], x5_SerialNumber = 2022, x5_CommonName = '''', x5_Organization = sp_orgs p,
      x5_NotBefore = now, x5_NotAfter = now' + sp_expiration p, x5_IsCA = True, x5_BasicConstraintsValid = True,
      x5_ExtKeyUsage = [''ClientAuth'', ''ServerAuth''], x5_KeyUsage = [''DigitalSignature'', ''CertSign'']\<rparr>"

definition server_template :: "SelfSignedProvider \<Rightarrow> instant \<Rightarrow> instant \<Rightarrow> x509_template" where
  "server_template p now now' =
     \<lparr>x5_DNSNames = sp_dnsNames p, x5_SerialNumber = 1024, x5_CommonName = sp_commonName p, x5_Organization = sp_orgs p,
      x5_NotBefore = now, x5_NotAfter = now' + sp_expiration p, x5_IsCA = False, x5_BasicConstraintsValid = False,
      x5_ExtKeyUsage = [''ClientAuth'', ''ServerAuth''], x5_KeyUsage = [''DigitalSignature'']\<rparr>"

text \<open>\<open>nows\<close> has the successive readings of the clock.\<close>

definition selfSignedCertificate :: "crypto \<Rightarrow> (nat \<Rightarrow> instant) \<Rightarrow> SelfSignedProvider \<Rightarrow> Certificate res" where
  "selfSignedCertificate C nows p =
     (let ca = ca_template p (nows 0) (nows 1) in
      case cr_key C 0 of
        Error e \<Rightarrow> Fail e
      | Reply caPrivateKey \<Rightarrow>
      (case cr_create C ca ca caPrivateKey caPrivateKey of
         Error e \<Rightarrow> Fail e
       | Reply caBytes \<Rightarrow>
       (let newCert = server_template p (nows 2) (nows 3) in
        case cr_key C 1 of
          Error e \<Rightarrow> Fail e
        | Reply newPrivateKey \<Rightarrow>
        (case cr_create C newCert ca newPrivateKey caPrivateKey of
           Error e \<Rightarrow> Fail e
         | Reply newCertBytes \<Rightarrow>
         (case pemBlockBytes C ''CERTIFICATE'' caBytes of
            Fail e \<Rightarrow> Fail e | Panic m \<Rightarrow> Panic m
          | Ok caPEM \<Rightarrow>
          (case pemBlockBytes C ''CERTIFICATE'' newCertBytes of
             Fail e \<Rightarrow> Fail e | Panic m \<Rightarrow> Panic m
           | Ok certPEM \<Rightarrow>
           (case pemBlockBytes C ''RSA PRIVATE KEY'' (cr_marshal_key C newPrivateKey) of
              Fail e \<Rightarrow> Fail e | Panic m \<Rightarrow> Panic m
            | Ok keyPEM \<Rightarrow> Ok \<lparr>cert_CA = caPEM, cert_Cert = certPEM, cert_Key = keyPEM\<rparr>)))))))"

text \<open>The provider of \<^verbatim>\<open>maybeStartTLSServer\<close>.\<close>

definition self_signed_provider :: "config \<Rightarrow> SelfSignedProvider" where
  "self_signed_provider cfg =
     NewSelfSignedCertProvider ''rollout-operator''
       [if serverSelfSignedCertDNSName cfg = '''' then ''rollout-operator.'' @ kubeNamespace cfg @ ''.svc'' else serverSelfSignedCertDNSName cfg]
       [serverSelfSignedCertOrg cfg] (serverSelfSignedCertExpiration cfg)"

section \<open>Properties\<close>

text \<open>The times of a certificate are encoded in whole seconds.\<close>

definition der_time :: "instant \<Rightarrow> instant" where
  "der_time t = t - t mod second"

definition parses_templates :: "tls_env \<Rightarrow> crypto \<Rightarrow> bool" where
  "parses_templates E C \<longleftrightarrow>
     (\<forall>t parent k signer der. cr_create C t parent k signer = Reply der \<longrightarrow> t_ParseCertificate E der = Reply (der_time (x5_NotAfter t)))"

definition loads_pairs :: "tls_env \<Rightarrow> crypto \<Rightarrow> bool" where
  "loads_pairs E C \<longleftrightarrow>
     (\<forall>t parent k signer der certPEM keyPEM.
        cr_create C t parent k signer = Reply der \<longrightarrow> cr_pem C ''CERTIFICATE'' der = Reply certPEM \<longrightarrow>
        cr_pem C ''RSA PRIVATE KEY'' (cr_marshal_key C k) = Reply keyPEM \<longrightarrow> t_X509KeyPair E certPEM keyPEM = Reply [der])"

lemma pemBlockBytes_Ok: "pemBlockBytes C kind bytes = Ok s \<longleftrightarrow> cr_pem C kind bytes = Reply s"
  by (simp add: pemBlockBytes_def split: reply.splits)

lemma selfSignedCertificate_Ok:
  assumes "selfSignedCertificate C nows p = Ok c"
  obtains caKey caDer key der where "cr_key C 0 = Reply caKey" and "cr_key C 1 = Reply key"
    and "cr_create C (ca_template p (nows 0) (nows 1)) (ca_template p (nows 0) (nows 1)) caKey caKey = Reply caDer"
    and "cr_create C (server_template p (nows 2) (nows 3)) (ca_template p (nows 0) (nows 1)) key caKey = Reply der"
    and "cr_pem C ''CERTIFICATE'' caDer = Reply (cert_CA c)" and "cr_pem C ''CERTIFICATE'' der = Reply (cert_Cert c)"
    and "cr_pem C ''RSA PRIVATE KEY'' (cr_marshal_key C key) = Reply (cert_Key c)"
proof -
  note run = assms [unfolded selfSignedCertificate_def Let_def]
  from run obtain caKey where 1: "cr_key C 0 = Reply caKey" by (cases "cr_key C 0") simp_all
  let ?ca = "ca_template p (nows 0) (nows 1)" and ?new = "server_template p (nows 2) (nows 3)"
  from run 1 obtain caDer where 2: "cr_create C ?ca ?ca caKey caKey = Reply caDer"
    by (cases "cr_create C ?ca ?ca caKey caKey") simp_all
  from run 1 2 obtain key where 3: "cr_key C 1 = Reply key" by (cases "cr_key C 1") simp_all
  from run 1 2 3 obtain der where 4: "cr_create C ?new ?ca key caKey = Reply der" by (cases "cr_create C ?new ?ca key caKey") simp_all
  from run 1 2 3 4 obtain a b k where "pemBlockBytes C ''CERTIFICATE'' caDer = Ok a" "pemBlockBytes C ''CERTIFICATE'' der = Ok b"
    "pemBlockBytes C ''RSA PRIVATE KEY'' (cr_marshal_key C key) = Ok k" "c = \<lparr>cert_CA = a, cert_Cert = b, cert_Key = k\<rparr>"
    by (simp split: res.splits)
  with 1 2 3 4 show ?thesis by (intro that) (simp_all add: pemBlockBytes_Ok)
qed

lemma der_time_mono: "t \<le> t' \<Longrightarrow> der_time t \<le> der_time t'"
  unfolding der_time_def minus_mod_eq_mult_div by (intro mult_left_mono zdiv_mono1) (simp_all add: second_def)

text \<open>C40: A generated certificate can be served. If it does not expire within the second, its pair loads, it has not expired, and a restart is scheduled for the end of its
  validity, counted from the last reading of the clock; its CA, whose template took its times before the keys were generated, expires no later than it does, and
  earlier if that took a second: for that long the server presents a certificate of an expired CA before the restart. (The pair of a signed template
  loads, and it parses to the template's times in whole seconds.)\<close>
theorem generated_certificate_is_served:
  assumes gen: "selfSignedCertificate C nows p = Ok c"
      and lib: "parses_templates E C" "loads_pairs E C"
      and fresh: "t_now E tr + second \<le> nows 3 + sp_expiration p"
      and clock: "nows 1 \<le> nows 3"
    shows "\<exists>d caDer caEnd. checkAndWatchCertificate E tr c = (Ok (), tr @ [TNow, TRestartAfter d]) \<and> 0 < d \<and>
        d = time_sub (der_time (nows 3 + sp_expiration p)) (t_now E tr) \<and>
        cr_pem C ''CERTIFICATE'' caDer = Reply (cert_CA c) \<and> t_ParseCertificate E caDer = Reply caEnd \<and>
        caEnd = der_time (nows 1 + sp_expiration p) \<and> caEnd \<le> der_time (nows 3 + sp_expiration p) \<and>
        (nows 1 + second \<le> nows 3 \<longrightarrow> caEnd < der_time (nows 3 + sp_expiration p))"
proof -
  obtain caKey caDer key der where g: "cr_create C (ca_template p (nows 0) (nows 1)) (ca_template p (nows 0) (nows 1)) caKey caKey = Reply caDer"
      "cr_create C (server_template p (nows 2) (nows 3)) (ca_template p (nows 0) (nows 1)) key caKey = Reply der"
      "cr_pem C ''CERTIFICATE'' caDer = Reply (cert_CA c)" "cr_pem C ''CERTIFICATE'' der = Reply (cert_Cert c)"
      "cr_pem C ''RSA PRIVATE KEY'' (cr_marshal_key C key) = Reply (cert_Key c)"
    using gen by (rule selfSignedCertificate_Ok)
  let ?until = "der_time (nows 3 + sp_expiration p)"
  have pair: "t_X509KeyPair E (cert_Cert c) (cert_Key c) = Reply [der]"
    using lib(2) g(2,4,5) unfolding loads_pairs_def by blast
  have parse: "t_ParseCertificate E der = Reply (der_time (x5_NotAfter (server_template p (nows 2) (nows 3))))"
      "t_ParseCertificate E caDer = Reply (der_time (x5_NotAfter (ca_template p (nows 0) (nows 1))))"
    using lib(1) g(1,2) unfolding parses_templates_def by blast+
  have "t_now E tr < ?until" using fresh pos_mod_bound [of second "nows 3 + sp_expiration p"] by (simp add: der_time_def second_def)
  then have pos: "0 < time_sub ?until (t_now E tr)" by (simp add: time_sub_def)
  have "der_time (nows 1 + sp_expiration p) \<le> ?until" using clock by (intro der_time_mono) simp
  moreover have "der_time (nows 1 + sp_expiration p) < ?until" if "nows 1 + second \<le> nows 3"
    using der_time_mono [of "nows 1 + sp_expiration p + second" "nows 3 + sp_expiration p"] that by (simp add: der_time_def second_def)
  moreover have "checkAndWatchCertificate E tr c = (Ok (), tr @ [TNow, TRestartAfter (time_sub ?until (t_now E tr))])"
    using pair parse(1) pos by (simp add: checkAndWatchCertificate_def server_template_def Let_def)
  moreover have "t_ParseCertificate E caDer = Reply (der_time (nows 1 + sp_expiration p))" using parse(2) by (simp add: ca_template_def)
  ultimately show ?thesis using pos g(3) by blast
qed

definition demo_crypto :: crypto where
  "demo_crypto =
     \<lparr>cr_key = (\<lambda>i. Reply (Itoa (int i))), cr_create = (\<lambda>t parent k signer. if x5_NotAfter t = 60 * second then Reply ''der'' else Error (Err ''not signed'')),
      cr_marshal_key = (\<lambda>k. k), cr_pem = (\<lambda>kind bytes. Reply (kind @ '':'' @ bytes))\<rparr>"

definition demo_x509 :: tls_env where
  "demo_x509 = demo_tls\<lparr>t_now := (\<lambda>_. second), t_X509KeyPair := (\<lambda>cert key. Reply [drop 12 cert]), t_ParseCertificate := (\<lambda>der. Reply (60 * second))\<rparr>"

theorem generated_certificate_is_served_witness:
  "\<exists>c. selfSignedCertificate demo_crypto (\<lambda>_. 0) (NewSelfSignedCertProvider ''rollout-operator'' [''rollout-operator.ns.svc''] [''Grafana Labs''] (60 * second)) = Ok c \<and>
     checkAndWatchCertificate demo_x509 [] c = (Ok (), [TNow, TRestartAfter (59 * second)])"
proof -
  let ?p = "NewSelfSignedCertProvider ''rollout-operator'' [''rollout-operator.ns.svc''] [''Grafana Labs''] (60 * second)"
  obtain c where c: "selfSignedCertificate demo_crypto (\<lambda>_. 0) ?p = Ok c"
    by (simp add: selfSignedCertificate_def demo_crypto_def ca_template_def server_template_def NewSelfSignedCertProvider_def pemBlockBytes_def)
  have lib: "parses_templates demo_x509 demo_crypto" "loads_pairs demo_x509 demo_crypto"
    by (auto simp: parses_templates_def loads_pairs_def demo_x509_def demo_crypto_def der_time_def second_def)
  have "t_now demo_x509 [] + second \<le> 0 + sp_expiration ?p"
    by (simp add: demo_x509_def NewSelfSignedCertProvider_def second_def)
  from generated_certificate_is_served [OF c lib, of "[]"] this have
    "checkAndWatchCertificate demo_x509 [] c = (Ok (), [TNow, TRestartAfter (time_sub (der_time (60 * second)) second)])"
    by (simp add: demo_x509_def NewSelfSignedCertProvider_def)
  then show ?thesis using c by (intro exI [of _ c]) (simp add: time_sub_def der_time_def second_def)
qed

end
