(* ===== verification/ChangelogDeps.thy ===== *)
theory ChangelogDeps
  imports Kube
begin

text \<open>
  \<^verbatim>\<open>tools/update-changelog-deps/main.go\<close>: the tool that lists updated dependencies in the changelog. Parsing \<^verbatim>\<open>go.mod\<close> is a library: its requirements are the input,
  in their order.
\<close>

section \<open>The entry\<close>

record requirement_line =
  rq_Path :: string
  rq_Version :: string
  rq_Indirect :: bool

definition direct_versions :: "requirement_line list \<Rightarrow> string \<rightharpoonup> string" where
  "direct_versions reqs = foldl (\<lambda>m r. if rq_Indirect r then m else m(rq_Path r \<mapsto> rq_Version r)) Map.empty reqs"

definition tick :: "string \<Rightarrow> string" where
  "tick s = CHR 0x60 # s @ [CHR 0x60]"

definition dependency_changes :: "requirement_line list \<Rightarrow> requirement_line list \<Rightarrow> string list" where
  "dependency_changes previous current =
     List.map_filter (\<lambda>r.
       if rq_Indirect r then None
       else case direct_versions previous (rq_Path r) of
           Some oldVer \<Rightarrow> if oldVer \<noteq> rq_Version r
                          then Some (''  * '' @ tick (rq_Path r) @ '' from '' @ tick oldVer @ '' to '' @ tick (rq_Version r)) else None
         | None \<Rightarrow> None) current"

definition pull_request :: "int \<Rightarrow> string" where
  "pull_request n = (if 0 < n then '' #'' @ Itoa n else '''')"

definition new_entry :: "string \<Rightarrow> string list \<Rightarrow> string list" where
  "new_entry appendPR changes = (''* [ENHANCEMENT] Updated dependencies, including:'' @ appendPR) # sort changes"

section \<open>The changelog\<close>

record section_index =
  ix_main :: int
  ix_mainEnd :: int
  ix_depsStart :: int
  ix_depsEnd :: int

definition MainHeader :: string where "MainHeader = ''## main / unreleased''"
definition DepsHeader :: string where "DepsHeader = ''* [ENHANCEMENT] Updated dependencies''"

fun find_sections :: "int \<Rightarrow> string list \<Rightarrow> section_index \<Rightarrow> section_index" where
  "find_sections i [] st = st"
| "find_sections i (line # ls) st =
     (if HasPrefix line MainHeader then find_sections (i + 1) ls (st\<lparr>ix_main := i\<rparr>)
      else if 0 \<le> ix_main st \<and> ix_mainEnd st = -1 \<and> HasPrefix line DepsHeader then find_sections (i + 1) ls (st\<lparr>ix_depsStart := i\<rparr>)
      else
        (let st1 = (if 0 \<le> ix_depsStart st \<and> ix_depsEnd st = -1 \<and> \<not> HasPrefix line ''  *'' then st\<lparr>ix_depsEnd := i - 1\<rparr> else st)
         in if 0 \<le> ix_main st1 \<and> ix_mainEnd st1 = -1 \<and> HasPrefix line ''##'' then st1\<lparr>ix_mainEnd := i\<rparr>
            else find_sections (i + 1) ls st1))"

definition no_sections :: section_index where
  "no_sections = \<lparr>ix_main = -1, ix_mainEnd = -1, ix_depsStart = -1, ix_depsEnd = -1\<rparr>"

text \<open>A slice \<^verbatim>\<open>xs[a:b]\<close> panics if its bounds are out of range or out of order.\<close>

definition slice :: "'a list \<Rightarrow> int \<Rightarrow> int \<Rightarrow> 'a list res" where
  "slice xs a b =
     (if 0 \<le> a \<and> a \<le> b \<and> b \<le> int (length xs) then Ok (take (nat (b - a)) (drop (nat a) xs)) else Panic ''slice bounds out of range'')"

text \<open>The lines of the new changelog; \<^term>\<open>Ok None\<close> if nothing needs to be done.\<close>

definition changelog_lines :: "string list \<Rightarrow> string list \<Rightarrow> string \<Rightarrow> string list option res" where
  "changelog_lines lines newEntry appendPR =
     (let st = find_sections 0 lines no_sections in
      if ix_main st = -1 \<or> ix_mainEnd st = -1 then Fail (Err ''could not find main section'')
      else if 0 \<le> ix_depsStart st \<and> ix_depsEnd st = -1 then Fail (Err ''could not find end of existing dependency entry'')
      else if 0 \<le> ix_depsStart st then
        (case slice newEntry 1 (int (length newEntry)) of
           Fail e \<Rightarrow> Fail e | Panic m \<Rightarrow> Panic m
         | Ok changes \<Rightarrow>
        (case slice lines (ix_depsStart st + 1) (ix_depsEnd st + 1) of
           Fail e \<Rightarrow> Fail e | Panic m \<Rightarrow> Panic m
         | Ok old \<Rightarrow>
             if changes = old then Ok None
             else Ok (Some (take (nat (ix_depsStart st)) lines @ (lines ! nat (ix_depsStart st) @ appendPR) # changes
                            @ drop (nat (ix_depsEnd st + 1)) lines))))
      else
        Ok (Some (take (nat (ix_main st + 1)) lines @ ['''']
                  @ filter (\<lambda>l. l \<noteq> '''') (drop (nat (ix_main st + 1)) (take (nat (ix_mainEnd st)) lines))
                  @ newEntry @ [''''] @ drop (nat (ix_mainEnd st)) lines)))"

definition newline :: string where "newline = [CHR 0x0A]"

definition buildChangelog :: "string list \<Rightarrow> string list \<Rightarrow> string \<Rightarrow> string option res" where
  "buildChangelog lines newEntry appendPR =
     (case changelog_lines lines newEntry appendPR of
        Ok (Some result) \<Rightarrow> Ok (Some (concat (map (\<lambda>l. l @ newline) result)))
      | Ok None \<Rightarrow> Ok None
      | Fail e \<Rightarrow> Fail e
      | Panic m \<Rightarrow> Panic m)"

text \<open>
  \<^verbatim>\<open>readChangelog\<close> with the scanner of \<^verbatim>\<open>bufio\<close>: lines end at a line feed, a carriage return before it is dropped, the rest of the text is a last line if it is not
  empty, and a line that fills the buffer of 64 KiB ends the scan with an error.
\<close>

definition MaxScanTokenSize :: nat where "MaxScanTokenSize = 64 * 1024"

fun raw_lines :: "string \<Rightarrow> string \<Rightarrow> string list" where
  "raw_lines l [] = (if l = [] then [] else [rev l])"
| "raw_lines l (c # cs) = (if c = CHR 0x0A then rev l # raw_lines [] cs else raw_lines (c # l) cs)"

definition dropCR :: "string \<Rightarrow> string" where
  "dropCR l = (if l \<noteq> [] \<and> last l = CHR 0x0D then butlast l else l)"

definition readChangelog :: "string reply \<Rightarrow> string list reply" where
  "readChangelog file =
     (case file of
        Error e \<Rightarrow> Error e
      | Reply text \<Rightarrow>
          (let raw = raw_lines [] text in
           if list_all (\<lambda>l. length l < MaxScanTokenSize) raw then Reply (map dropCR raw)
           else Error (Err ''bufio.Scanner: token too long'')))"

text \<open>
  \<^verbatim>\<open>main\<close>: \<open>parse\<close> is the parser of \<^verbatim>\<open>go.mod\<close> files, \<open>gomod\<close>, \<open>stdin\<close> and \<open>changelog\<close> what is read, \<open>write\<close> the result of writing. \<^term>\<open>Ok None\<close> leaves the file as it is.
\<close>

definition update_changelog :: "(string \<Rightarrow> requirement_line list reply) \<Rightarrow> int \<Rightarrow> string reply \<Rightarrow> string reply \<Rightarrow> string reply \<Rightarrow> (string \<Rightarrow> err option)
    \<Rightarrow> string option res" where
  "update_changelog parse pr gomod stdin changelog write =
     (case gomod of
        Error e \<Rightarrow> Fail (wrapf ''Error reading go.mod: '' e)
      | Reply currentBytes \<Rightarrow>
     (case parse currentBytes of
        Error e \<Rightarrow> Fail (wrapf ''Error parsing current go.mod: '' e)
      | Reply current \<Rightarrow>
     (case stdin of
        Error e \<Rightarrow> Fail (wrapf ''Error reading previous go.mod from stdin: '' e)
      | Reply previousBytes \<Rightarrow>
     (case parse previousBytes of
        Error e \<Rightarrow> Fail (wrapf ''Error parsing previous go.mod from stdin: '' e)
      | Reply previous \<Rightarrow>
     (let changes = dependency_changes previous current in
      if changes = [] then Ok None
      else case readChangelog changelog of
          Error e \<Rightarrow> Fail (wrapf ''error reading changelog: '' e)
        | Reply lines \<Rightarrow>
            (case buildChangelog lines (new_entry (pull_request pr) changes) (pull_request pr) of
               Fail e \<Rightarrow> Fail (wrapf ''error building changelog: '' e)
             | Panic m \<Rightarrow> Panic m
             | Ok None \<Rightarrow> Ok None
             | Ok (Some content) \<Rightarrow>
                 (case write content of
                    Some e \<Rightarrow> Fail (wrapf ''error writing changelog: '' e)
                  | None \<Rightarrow> Ok (Some content))))))))"

section \<open>Properties\<close>

lemma HasPrefix_append [simp]: "HasPrefix (p @ s) p"
  by (simp add: HasPrefix_def)

lemma HasPrefix_shorter: "HasPrefix s (p @ q) \<Longrightarrow> HasPrefix s p"
  by (metis HasPrefix_def append_eq_conv_conj take_append take_take min.absorb1 length_append le_add1)

definition headerless :: "string list \<Rightarrow> bool" where
  "headerless ls \<longleftrightarrow> (\<forall>l\<in>set ls. \<not> HasPrefix l MainHeader)"

text \<open>Lines of a section: no header of any kind, and no entry for dependencies.\<close>

definition plain :: "string list \<Rightarrow> bool" where
  "plain ls \<longleftrightarrow> (\<forall>l\<in>set ls. \<not> HasPrefix l ''##'' \<and> \<not> HasPrefix l DepsHeader)"

lemma main_header_hashes: "\<not> HasPrefix l ''##'' \<Longrightarrow> \<not> HasPrefix l MainHeader"
  using HasPrefix_shorter [of l "''##''" "'' main / unreleased''"] by (auto simp: MainHeader_def)

lemma find_before:
  "headerless pre \<Longrightarrow> ix_main st = -1 \<Longrightarrow> ix_depsStart st = -1 \<Longrightarrow> find_sections i (pre @ ls) st = find_sections (i + int (length pre)) ls st"
  by (induction pre arbitrary: i) (simp_all add: headerless_def Let_def add.assoc)

lemma find_plain:
  assumes "plain body" and "ix_depsStart st = -1 \<or> ix_depsEnd st \<noteq> -1"
  shows "find_sections i (body @ ls) st = find_sections (i + int (length body)) ls st"
  using assms(1)
proof (induction body arbitrary: i)
  case (Cons l body)
  then have "\<not> HasPrefix l ''##''" "\<not> HasPrefix l DepsHeader" "plain body" by (simp_all add: plain_def)
  with Cons.IH assms(2) main_header_hashes show ?case by (auto simp: Let_def add.assoc)
qed simp

lemma HasPrefix_first: "HasPrefix l (x # p) \<Longrightarrow> \<exists>r. l = x # r"
  by (cases l) (simp_all add: HasPrefix_def)

lemma change_line:
  assumes "HasPrefix c ''  *''"
  shows "\<not> HasPrefix c ''##''" and "\<not> HasPrefix c DepsHeader" and "\<not> HasPrefix c MainHeader"
proof -
  obtain r where "c = CHR '' '' # r" using HasPrefix_first [OF assms] by blast
  then show "\<not> HasPrefix c ''##''" "\<not> HasPrefix c DepsHeader" by (auto simp: DepsHeader_def dest: HasPrefix_first)
  then show "\<not> HasPrefix c MainHeader" by (simp add: main_header_hashes)
qed

lemma deps_line:
  assumes "HasPrefix d DepsHeader"
  shows "\<not> HasPrefix d MainHeader"
proof -
  obtain r where "d = CHR ''*'' # r" using HasPrefix_first assms unfolding DepsHeader_def by blast
  then have "\<not> HasPrefix d ''##''" by (auto dest: HasPrefix_first)
  then show ?thesis by (rule main_header_hashes)
qed

lemma end_line:
  assumes "HasPrefix l ''##''"
  shows "\<not> HasPrefix l DepsHeader" and "\<not> HasPrefix l ''  *''"
proof -
  obtain r where "l = CHR ''#'' # r" using HasPrefix_first [OF assms] by blast
  then show "\<not> HasPrefix l DepsHeader" "\<not> HasPrefix l ''  *''" by (auto simp: DepsHeader_def dest: HasPrefix_first)
qed

lemma find_changes:
  "\<forall>c\<in>set cs. HasPrefix c ''  *'' \<Longrightarrow> find_sections i (cs @ ls) st = find_sections (i + int (length cs)) ls st"
  by (induction cs arbitrary: i) (simp_all add: change_line Let_def add.assoc)

text \<open>From the lines of an entry to the end of the section.\<close>

lemma find_entry_end:
  assumes st: "0 \<le> ix_main st" "ix_mainEnd st = -1" "0 \<le> ix_depsStart st" "ix_depsEnd st = -1" and "0 < i"
      and b: "plain b" "b = [] \<or> \<not> HasPrefix (hd b) ''  *''"
      and e: "HasPrefix e ''##''" "\<not> HasPrefix e MainHeader"
    shows "find_sections i (b @ e # post) st = st\<lparr>ix_depsEnd := i - 1, ix_mainEnd := i + int (length b)\<rparr>"
proof (cases b)
  case Nil
  with st e end_line [OF e(1)] show ?thesis by (simp add: Let_def)
next
  case (Cons l b')
  let ?st = "st\<lparr>ix_depsEnd := i - 1\<rparr>"
  have l: "\<not> HasPrefix l ''##''" "\<not> HasPrefix l DepsHeader" "\<not> HasPrefix l ''  *''" and b': "plain b'"
    using b Cons by (simp_all add: plain_def)
  have "find_sections i (b @ e # post) st = find_sections (i + 1) (b' @ e # post) ?st"
    using Cons l st main_header_hashes [OF l(1)] by (simp add: Let_def)
  also have "\<dots> = find_sections (i + 1 + int (length b')) (e # post) ?st"
    using b' \<open>0 < i\<close> by (intro find_plain) simp_all
  also have "\<dots> = ?st\<lparr>ix_mainEnd := i + 1 + int (length b')\<rparr>"
    using st e end_line [OF e(1)] \<open>0 < i\<close> by (simp add: Let_def)
  finally show ?thesis using Cons by (simp add: add.assoc)
qed

text \<open>A changelog whose section for unreleased changes is found: the lines before it, its header, its lines, the next header and the rest.\<close>

definition sectioned :: "string list \<Rightarrow> string list \<Rightarrow> string \<Rightarrow> string list \<Rightarrow> string \<Rightarrow> string list \<Rightarrow> bool" where
  "sectioned lines pre hdr body e post \<longleftrightarrow>
     lines = pre @ hdr # body @ e # post \<and> headerless pre \<and> HasPrefix hdr MainHeader \<and> HasPrefix e ''##'' \<and> \<not> HasPrefix e MainHeader"

text \<open>The lines of a section with an entry for dependencies.\<close>

definition with_entry :: "string list \<Rightarrow> string list \<Rightarrow> string \<Rightarrow> string list \<Rightarrow> string list \<Rightarrow> bool" where
  "with_entry body b1 d cs b2 \<longleftrightarrow>
     body = b1 @ d # cs @ b2 \<and> plain b1 \<and> HasPrefix d DepsHeader \<and> (\<forall>c\<in>set cs. HasPrefix c ''  *'') \<and> plain b2 \<and>
     (b2 = [] \<or> \<not> HasPrefix (hd b2) ''  *'')"

lemma find_section_start:
  assumes "headerless pre" and "HasPrefix hdr MainHeader" and "plain b"
  shows "find_sections 0 (pre @ hdr # b @ ls) no_sections =
     find_sections (int (length pre) + 1 + int (length b)) ls (no_sections\<lparr>ix_main := int (length pre)\<rparr>)"
proof -
  have "find_sections 0 (pre @ hdr # b @ ls) no_sections = find_sections (int (length pre)) (hdr # b @ ls) no_sections"
    using assms(1) find_before [of pre no_sections 0] by (simp add: no_sections_def)
  also have "\<dots> = find_sections (int (length pre) + 1) (b @ ls) (no_sections\<lparr>ix_main := int (length pre)\<rparr>)"
    using assms(2) by simp
  finally show ?thesis using assms(3) by (simp add: find_plain no_sections_def)
qed

lemma find_without_entry:
  assumes "sectioned lines pre hdr body e post" and "plain body"
  shows "find_sections 0 lines no_sections =
     no_sections\<lparr>ix_main := int (length pre), ix_mainEnd := int (length pre) + 1 + int (length body)\<rparr>"
  using assms end_line(1) by (auto simp: sectioned_def find_section_start Let_def) (simp_all add: no_sections_def)

lemma find_with_entry:
  assumes s: "sectioned lines pre hdr body e post" and w: "with_entry body b1 d cs b2"
  defines "a0 \<equiv> int (length pre) + 1 + int (length b1)"
  shows "find_sections 0 lines no_sections =
     \<lparr>ix_main = int (length pre), ix_mainEnd = int (length pre) + 1 + int (length body), ix_depsStart = a0, ix_depsEnd = a0 + int (length cs)\<rparr>"
proof -
  let ?st = "no_sections\<lparr>ix_main := int (length pre)\<rparr>"
  have d: "HasPrefix d DepsHeader" "\<not> HasPrefix d MainHeader" and cs: "\<forall>c\<in>set cs. HasPrefix c ''  *''" and b: "plain b1" "plain b2"
    "b2 = [] \<or> \<not> HasPrefix (hd b2) ''  *''" and e: "HasPrefix e ''##''" "\<not> HasPrefix e MainHeader"
    using s w deps_line by (auto simp: sectioned_def with_entry_def)
  have "find_sections 0 lines no_sections = find_sections a0 (d # cs @ b2 @ e # post) ?st"
    using s w b(1) find_section_start [of pre hdr b1 "d # cs @ b2 @ e # post"] by (simp add: sectioned_def with_entry_def a0_def)
  also have "\<dots> = find_sections (a0 + 1) (cs @ b2 @ e # post) (?st\<lparr>ix_depsStart := a0\<rparr>)"
    using d by (simp add: no_sections_def)
  also have "\<dots> = find_sections (a0 + 1 + int (length cs)) (b2 @ e # post) (?st\<lparr>ix_depsStart := a0\<rparr>)"
    using cs by (rule find_changes)
  also have "\<dots> = ?st\<lparr>ix_depsStart := a0, ix_depsEnd := a0 + int (length cs), ix_mainEnd := a0 + 1 + int (length cs) + int (length b2)\<rparr>"
    using b e by (subst find_entry_end) (simp_all add: no_sections_def a0_def)
  finally show ?thesis using w by (simp add: no_sections_def with_entry_def a0_def)
qed

lemma slice_rest: "slice (h # cs) 1 (1 + int (length cs)) = Ok cs"
  by (simp add: slice_def)

lemma slice_mid: "slice (a @ d # m @ r) (int (length a) + 1) (int (length a) + int (length m) + 1) = Ok m"
proof -
  have "nat (int (length a) + 1) = Suc (length a)" by simp
  then show ?thesis by (simp add: slice_def)
qed

lemma replaced_entry:
  assumes "find_sections 0 (a @ d # old @ r) no_sections = st" and "ix_main st \<noteq> -1" and "ix_mainEnd st \<noteq> -1"
      and "ix_depsStart st = int (length a)" and "ix_depsEnd st = int (length a) + int (length old)"
    shows "changelog_lines (a @ d # old @ r) (h # cs) app = Ok (if cs = old then None else Some (a @ (d @ app) # cs @ r))"
proof -
  have n: "nat (int (length a) + int (length old) + 1) = length a + Suc (length old)" by simp
  show ?thesis
    unfolding changelog_lines_def Let_def assms(1,4,5) slice_mid n using assms(2,3) by (simp add: slice_rest)
qed

lemma changelog_with_entry:
  assumes s: "sectioned lines pre hdr body e post" and w: "with_entry body b1 d old b2"
  shows "changelog_lines lines (h # cs) app =
     Ok (if cs = old then None else Some (pre @ hdr # b1 @ (d @ app) # cs @ b2 @ e # post))"
proof -
  have lines: "lines = (pre @ hdr # b1) @ d # old @ b2 @ e # post" using s w by (simp add: sectioned_def with_entry_def)
  show ?thesis
    using replaced_entry [of "pre @ hdr # b1" d old "b2 @ e # post" _ h cs app] find_with_entry [OF s w] unfolding lines by simp
qed

lemma changelog_without_entry:
  assumes s: "sectioned lines pre hdr body e post" and "plain body"
  shows "changelog_lines lines entry app = Ok (Some (pre @ hdr # [''''] @ filter (\<lambda>l. l \<noteq> '''') body @ entry @ [''''] @ e # post))"
proof -
  have lines: "lines = pre @ hdr # body @ e # post" using s by (simp add: sectioned_def)
  have n: "nat (int (length pre) + 1) = Suc (length pre)" "nat (int (length pre) + 1 + int (length body)) = length pre + Suc (length body)" by simp_all
  have f: "find_sections 0 lines no_sections =
      \<lparr>ix_main = int (length pre), ix_mainEnd = int (length pre) + 1 + int (length body), ix_depsStart = -1, ix_depsEnd = -1\<rparr>"
    using find_without_entry [OF assms] by (simp add: no_sections_def)
  show ?thesis unfolding changelog_lines_def Let_def f by (simp add: n lines)
qed

section \<open>Idempotence\<close>

lemma plain_blank [simp]: "plain ['''']" and plain_Cons: "plain (l # ls) \<longleftrightarrow> plain [l] \<and> plain ls"
  by (simp_all add: plain_def HasPrefix_def DepsHeader_def)

lemma plain_filter: "plain ls \<Longrightarrow> plain (filter P ls)"
  by (simp add: plain_def)

lemma change_lines: "\<forall>c\<in>set (sort (dependency_changes previous current)). HasPrefix c ''  *''"
  by (auto simp: dependency_changes_def map_filter_def HasPrefix_def split: if_splits option.splits)

lemma entry_header: "HasPrefix (''* [ENHANCEMENT] Updated dependencies, including:'' @ app) DepsHeader"
  by (simp add: HasPrefix_def DepsHeader_def)

lemma HasPrefix_longer: "HasPrefix d p \<Longrightarrow> HasPrefix (d @ x) p"
  using HasPrefix_length [of d p] by (simp add: HasPrefix_def)

text \<open>Updating the changelog is idempotent. If the section for unreleased changes has at most one entry for dependencies, the tool succeeds, and on the changelog it
  has written it finds nothing to do, for the same updates and whatever the number of the pull request.\<close>
theorem changelog_update_is_idempotent:
  fixes previous current :: "requirement_line list"
  assumes s: "sectioned lines pre hdr body e post" and b: "plain body \<or> (\<exists>b1 d old b2. with_entry body b1 d old b2)"
  defines "entry \<equiv> \<lambda>app. new_entry app (dependency_changes previous current)"
  shows "\<exists>r. changelog_lines lines (entry app) app = Ok r \<and> (\<forall>out. r = Some out \<longrightarrow> changelog_lines out (entry app') app' = Ok None)"
proof -
  let ?cs = "sort (dependency_changes previous current)" and ?h = "\<lambda>app. ''* [ENHANCEMENT] Updated dependencies, including:'' @ app"
  have entry: "entry app = ?h app # ?cs" for app by (simp add: entry_def new_entry_def)
  have again: "changelog_lines out (entry app') app' = Ok None"
    if "sectioned out pre hdr b' e post" "with_entry b' b1 d ?cs b2" for out b' b1 d b2
    using changelog_with_entry [OF that] by (simp add: entry)
  from b show ?thesis
  proof (elim disjE exE)
    assume p: "plain body"
    let ?b1 = "'''' # filter (\<lambda>l. l \<noteq> '''') body"
    let ?b' = "?b1 @ ?h app # ?cs @ ['''']"
    have "plain ?b1" using p plain_Cons plain_filter plain_blank by blast
    then have w: "with_entry ?b' ?b1 (?h app) ?cs ['''']"
      using change_lines entry_header by (simp add: with_entry_def HasPrefix_def [of "''''"])
    have "sectioned (pre @ hdr # ?b' @ e # post) pre hdr ?b' e post" using s by (simp add: sectioned_def)
    from again [OF this w] changelog_without_entry [OF s p, of "entry app" app] show ?thesis by (simp add: entry)
  next
    fix b1 d old b2
    assume w: "with_entry body b1 d old b2"
    let ?b' = "b1 @ (d @ app) # ?cs @ b2"
    have "with_entry ?b' b1 (d @ app) ?cs b2" using w change_lines HasPrefix_longer by (simp add: with_entry_def)
    moreover have "sectioned (pre @ hdr # ?b' @ e # post) pre hdr ?b' e post" using s by (simp add: sectioned_def)
    ultimately show ?thesis using again changelog_with_entry [OF s w, of "?h app" ?cs app] by (auto simp: entry)
  qed
qed

section \<open>The tool\<close>

text \<open>Lines that the scanner reads back as they were written.\<close>

definition scannable :: "string \<Rightarrow> bool" where
  "scannable l \<longleftrightarrow> CHR 0x0A \<notin> set l \<and> (l = [] \<or> last l \<noteq> CHR 0x0D) \<and> length l < MaxScanTokenSize"

lemma raw_lines_line: "CHR 0x0A \<notin> set l \<Longrightarrow> raw_lines acc (l @ newline @ cs) = (rev acc @ l) # raw_lines [] cs"
  by (induction l arbitrary: acc) (auto simp: newline_def)

lemma raw_lines_joined: "\<forall>l\<in>set ls. CHR 0x0A \<notin> set l \<Longrightarrow> raw_lines [] (concat (map (\<lambda>l. l @ newline) ls)) = ls"
  by (induction ls) (simp_all add: raw_lines_line)

lemma readChangelog_joined:
  assumes "\<forall>l\<in>set ls. scannable l"
  shows "readChangelog (Reply (concat (map (\<lambda>l. l @ newline) ls))) = Reply ls"
proof -
  have "raw_lines [] (concat (map (\<lambda>l. l @ newline) ls)) = ls" using assms by (intro raw_lines_joined) (simp add: scannable_def)
  moreover have "map dropCR ls = ls" using assms by (intro map_idI) (auto simp: dropCR_def scannable_def)
  ultimately show ?thesis using assms by (simp add: readChangelog_def list_all_iff scannable_def)
qed

text \<open>
  Running the tool again, with the number of any pull request, leaves the changelog as it is: the first run succeeds, and the second, on what the first has written, has
  nothing to do. The section for unreleased changes has at most one entry for dependencies, the file can be written, and the lines written are read back as they are.
\<close>

theorem changelog_tool_is_idempotent:
  assumes parse: "parse cur = Reply current" "parse prev = Reply previous" and rd: "readChangelog (Reply text) = Reply lines"
      and s: "sectioned lines pre hdr body e post" and b: "plain body \<or> (\<exists>b1 d old b2. with_entry body b1 d old b2)"
      and w: "\<forall>c. write c = None"
      and out: "\<forall>ls. changelog_lines lines (new_entry (pull_request pr) (dependency_changes previous current)) (pull_request pr) = Ok (Some ls) \<longrightarrow> (\<forall>l\<in>set ls. scannable l)"
    shows "\<exists>r. update_changelog parse pr (Reply cur) (Reply prev) (Reply text) write = Ok r \<and>
      (\<forall>content. r = Some content \<longrightarrow> update_changelog parse pr' (Reply cur) (Reply prev) (Reply content) write = Ok None)"
proof -
  let ?ch = "dependency_changes previous current" and ?entry = "\<lambda>n. new_entry (pull_request n) (dependency_changes previous current)"
  obtain r where r: "changelog_lines lines (?entry pr) (pull_request pr) = Ok r"
      "\<forall>ls. r = Some ls \<longrightarrow> changelog_lines ls (?entry pr') (pull_request pr') = Ok None"
    using changelog_update_is_idempotent [OF s b, where previous = previous and current = current and app = "pull_request pr" and app' = "pull_request pr'"] by blast
  show ?thesis
  proof (cases "?ch = [] \<or> r = None")
    case True
    then show ?thesis using parse rd r(1) by (auto simp: update_changelog_def buildChangelog_def Let_def)
  next
    case False
    then obtain ls where ls: "r = Some ls" and ch: "?ch \<noteq> []" by blast
    let ?content = "concat (map (\<lambda>l. l @ newline) ls)"
    have "update_changelog parse pr (Reply cur) (Reply prev) (Reply text) write = Ok (Some ?content)"
      using parse rd r(1) ls ch w by (simp add: update_changelog_def buildChangelog_def Let_def)
    moreover have "readChangelog (Reply ?content) = Reply ls" using out r(1) ls by (intro readChangelog_joined) blast
    then have "update_changelog parse pr' (Reply cur) (Reply prev) (Reply ?content) write = Ok None"
      using parse r(2) ls ch by (simp add: update_changelog_def buildChangelog_def Let_def)
    ultimately show ?thesis by blast
  qed
qed

text \<open>With a second entry in the section the bounds of the slice are out of order and the tool panics.\<close>

lemma second_entry_panics:
  "changelog_lines [MainHeader, DepsHeader, ''  * a'', '''', DepsHeader, ''  * b'', '''', ''## v1''] [DepsHeader, ''  * c''] '''' = Panic ''slice bounds out of range''"
  by code_simp

end
