(* ===== verification/RolloutProgress.thy ===== *)
theory RolloutProgress
  imports RolloutStatus
begin

text \<open>
  The rollout controller in a closed loop with a cluster that recreates what it deletes: a rollout that nothing holds back is finished after finitely many reconciles.
\<close>

section \<open>The loop\<close>

text \<open>\<open>member_pod\<close>: a pod of the StatefulSet by its namespace and label, as the lister selects it; \<open>stale\<close>: it does not run the update revision.\<close>

definition member_pod :: "string \<Rightarrow> statefulset \<Rightarrow> pod \<Rightarrow> bool" where
  "member_pod ns s p \<longleftrightarrow> pod_namespace p = ns \<and> pod_labels p ''name'' = Some (mget (sts_template_labels s) ''name'')"

definition stale :: "string \<Rightarrow> statefulset \<Rightarrow> pod \<Rightarrow> bool" where
  "stale ns s p \<longleftrightarrow> member_pod ns s p \<and> pod_labels p ControllerRevisionHashLabelKey \<noteq> Some (sts_update_revision s)"

text \<open>
  One reconcile of the pods of a group, and what the cluster has made of it before the next: every deleted pod is there again as \<open>recreate\<close> makes it.
  The StatefulSets are listed unchanged: once the recreated pods are ready, the counts of the status are what they were.
  \<open>cfgs\<close> and \<open>evs\<close> are the state of the eviction controller as in \<^const>\<open>evictionController\<close>.
\<close>

definition rollout_round :: "(trace \<Rightarrow> config_cache) \<Rightarrow> (trace \<Rightarrow> evict_cache \<Rightarrow> evict_cache) \<Rightarrow> string \<Rightarrow> statefulset list \<Rightarrow> (pod \<Rightarrow> pod) \<Rightarrow> pod list
    \<Rightarrow> unit res \<times> pod list" where
  "rollout_round cfgs evs ns sets recreate pods =
     (let E = steady_env 0 sets pods in
      case rolloutGroup (evictionController E cfgs evs) E ns [] NewEvictionController sets of
        (r, z, tr) \<Rightarrow> (r, map (\<lambda>p. if pod_id p \<in> set (deletions tr) then recreate p else p) pods))"

definition rollout_rounds :: "(trace \<Rightarrow> config_cache) \<Rightarrow> (trace \<Rightarrow> evict_cache \<Rightarrow> evict_cache) \<Rightarrow> string \<Rightarrow> statefulset list \<Rightarrow> (pod \<Rightarrow> pod) \<Rightarrow> nat \<Rightarrow> pod list
    \<Rightarrow> pod list" where
  "rollout_rounds cfgs evs ns sets recreate n = ((\<lambda>pods. snd (rollout_round cfgs evs ns sets recreate pods)) ^^ n)"

text \<open>Nothing holds the StatefulSet back: it is updated by deletion, not paused, has its two revisions, and its status and its pods are as expected.\<close>

definition can_roll :: "string \<Rightarrow> pod list \<Rightarrow> statefulset \<Rightarrow> bool" where
  "can_roll ns pods s \<longleftrightarrow>
     sts_update_strategy s = OnDelete \<and> \<not> rolloutPaused s \<and> sts_current_revision s \<noteq> '''' \<and> sts_update_revision s \<noteq> '''' \<and>
     IsLabelValue (sts_update_revision s) \<and> IsLabelValue (mget (sts_template_labels s) ''name'') \<and>
     (\<forall>r. sts_replicas s = Some r \<longrightarrow> is_int32 r) \<and>
     expectedReplicas s = sts_ready_replicas s \<and> expectedReplicas s \<le> int (length (filter (member_pod ns s) pods)) \<and>
     (\<forall>p\<in>set pods. member_pod ns s p \<longrightarrow> IsPodRunningAndReady p \<and> pod_namespace p \<noteq> '''' \<and> pod_name p \<noteq> '''')"

definition cluster_ok :: "string \<Rightarrow> statefulset list \<Rightarrow> pod list \<Rightarrow> bool" where
  "cluster_ok ns sets pods \<longleftrightarrow> (\<forall>s\<in>set sets. can_roll ns pods s) \<and> distinct (map pod_id pods)"

text \<open>What the StatefulSet controller of Kubernetes does with a deleted pod: the same name and labels, the update revision, and it becomes ready.\<close>

definition recreates :: "string \<Rightarrow> statefulset list \<Rightarrow> (pod \<Rightarrow> pod) \<Rightarrow> bool" where
  "recreates ns sets recreate \<longleftrightarrow>
     (\<forall>p. pod_id (recreate p) = pod_id p \<and> pod_labels (recreate p) ''name'' = pod_labels p ''name'' \<and> IsPodRunningAndReady (recreate p) \<and>
        (\<forall>s\<in>set sets. member_pod ns s p \<longrightarrow> pod_labels (recreate p) ControllerRevisionHashLabelKey = Some (sts_update_revision s)))"

section \<open>One reconcile\<close>

lemma revision_label_key: "IsLabelKey ControllerRevisionHashLabelKey"
  by code_simp

lemma member_pod_iff:
  "pod_namespace p = ns \<and> sel_matches [Requirement ''name'' Equals [mget (sts_template_labels s) ''name'']] (pod_labels p) \<longleftrightarrow> member_pod ns s p"
  by (auto simp: sel_matches_def member_pod_def split: option.splits)

lemma listed_members:
  assumes "IsLabelValue (mget (sts_template_labels s) ''name'')"
  shows "listPodsByStatefulSet (steady_env now sets pods) ns t s = (Ok (filter (member_pod ns s) pods), t @ [EvListPods])"
  using assms name_label_key
  by (simp add: listPodsByStatefulSet_def listPods_def MustNewLabelsRequirement_def NewRequirement_def member_pod_iff)

lemma can_roll_ready:
  assumes "can_roll ns pods s"
  shows "\<exists>t'. hasStatefulSetNotReadyPods (steady_env now sets pods) ns t s = (Ok False, t')"
proof -
  have "filter (\<lambda>p. \<not> IsPodRunningAndReady p) (filter (member_pod ns s) pods) = []"
    using assms by (auto simp: can_roll_def filter_empty_conv)
  then have "notRunningAndReady (filter (member_pod ns s) pods) = []" by (simp add: notRunningAndReady_def SortPods_def)
  with assms listed_members [of s now sets pods ns t] show ?thesis by (simp add: hasStatefulSetNotReadyPods_def can_roll_def)
qed

lemma can_roll_none_unready:
  "\<forall>s\<in>set ss. can_roll ns pods s \<Longrightarrow> \<exists>t'. findNotReadySets (steady_env now sets pods) ns t ss = (Ok [], t')"
proof (induction ss arbitrary: t)
  case (Cons s ss)
  then obtain t1 where "hasStatefulSetNotReadyPods (steady_env now sets pods) ns t s = (Ok False, t1)" using can_roll_ready by (metis list.set_intros(1))
  moreover obtain t2 where "findNotReadySets (steady_env now sets pods) ns t1 ss = (Ok [], t2)" using Cons by auto
  ultimately show ?case by simp
qed simp

lemma can_roll_stale:
  assumes "can_roll ns pods s"
  shows "podsNotMatchingUpdateRevision (steady_env now sets pods) ns t s = (Ok (SortPods (filter (stale ns s) pods)), t @ [EvListPods])"
proof -
  have "pod_namespace p = ns \<and> sel_matches [Requirement ControllerRevisionHashLabelKey NotEquals [sts_update_revision s],
      Requirement ''name'' Equals [mget (sts_template_labels s) ''name'']] (pod_labels p) \<longleftrightarrow> stale ns s p" for p
    by (auto simp: stale_def member_pod_def sel_matches_def split: option.splits)
  then show ?thesis
    using assms name_label_key revision_label_key
    by (simp add: podsNotMatchingUpdateRevision_def listPods_def MustNewLabelsRequirement_def NewRequirement_def can_roll_def Let_def)
qed

text \<open>The eviction controller approves the deletion of these pods.\<close>

definition approves :: "'z ZPDBEvictionController \<Rightarrow> pod set \<Rightarrow> bool" where
  "approves zc ps \<longleftrightarrow>
     (\<forall>p\<in>ps. \<forall>tr z src ov. \<exists>z' tr'. zc_MarkPodAsDeleted zc tr z (pod_namespace p) (pod_name p) src ov = (Ok (), z', tr') \<and> deletions tr' = deletions tr) \<and>
     (\<forall>p\<in>ps. \<forall>tr z. \<exists>b. zc_HasPartitionAwarePdb zc tr z p = Ok b)"

lemma approved_pods_deleted:
  assumes "approves zc (set ps)"
  shows "\<exists>z' tr'. deletePods zc (steady_env now sets pods) ov tr z ps = (Ok (), z', tr') \<and> deletions tr' = deletions tr @ map pod_id ps"
  using assms
proof (induction ps arbitrary: tr z)
  case (Cons p ps)
  obtain z1 tr1 where m: "zc_MarkPodAsDeleted zc tr z (pod_namespace p) (pod_name p) ''rollout-controller'' ov = (Ok (), z1, tr1)" "deletions tr1 = deletions tr"
    using Cons.prems unfolding approves_def by (metis list.set_intros(1))
  have "approves zc (set ps)" using Cons.prems by (simp add: approves_def)
  from Cons.IH [OF this, of "tr1 @ [EvDeletePod (pod_namespace p) (pod_name p)]" z1] m show ?case by (auto simp: pod_id_def)
qed simp

lemma some_selected:
  "0 < n \<Longrightarrow> \<forall>p\<in>set ps. pod_deletion_timestamp p = None \<Longrightarrow> ps \<noteq> [] \<Longrightarrow> selectPodsToDelete 0 n ps \<noteq> []"
  by (cases ps) simp_all

lemma some_to_update:
  assumes "can_roll ns pods s" and "ps \<noteq> []"
  shows "0 < numPodsToUpdate s ps"
proof -
  have "1 \<le> getMaxUnavailableForStatefulSet s" by (rule getMaxUnavailable_pos)
  moreover have "wrap64 (getMaxUnavailableForStatefulSet s) = getMaxUnavailableForStatefulSet s"
    using assms(1) by (intro wrap64_id getMaxUnavailable_int64) (simp add: can_roll_def)
  moreover have "wrap32 0 = 0" by (simp add: wrap32_def)
  ultimately show ?thesis using assms by (simp add: numPodsToUpdate_def can_roll_def Let_def)
qed

lemma stale_pods_updated:
  assumes ok: "can_roll ns pods s" and ps: "ps \<noteq> []" "set ps \<subseteq> {p \<in> set pods. stale ns s p}" and ap: "approves zc {p \<in> set pods. stale ns s p}"
  shows "\<exists>z' tr' ds. updateOutdatedPods zc (steady_env now sets pods) tr z s ps = (Ok True, z', tr') \<and>
     deletions tr' = deletions tr @ map pod_id ds \<and> ds \<noteq> [] \<and> set ds \<subseteq> set ps"
proof -
  let ?ds = "selectPodsToDelete 0 (numPodsToUpdate s ps) ps"
  have "\<forall>p\<in>set ps. pod_deletion_timestamp p = None"
    using ok ps(2) by (fastforce simp: can_roll_def stale_def IsPodRunningAndReady_def split: if_splits)
  with some_to_update [OF ok ps(1)] ps(1) have ne: "?ds \<noteq> []" by (intro some_selected)
  have sub: "set ?ds \<subseteq> set ps" using selectPodsToDelete_subseq by (auto dest: list_emb_set)
  have ap1: "approves zc (set ?ds)" using ap sub ps(2) unfolding approves_def by blast
  obtain first r where f: "?ds = first # r" using ne by (cases ?ds) auto
  obtain b where b: "zc_HasPartitionAwarePdb zc tr z first = Ok b" using ap1 f unfolding approves_def by fastforce
  obtain z' tr' where d: "deletePods zc (steady_env now sets pods) (NewMaxUnavailableZeroOverride (if b then 1 else getMaxUnavailableForStatefulSet s)) tr z ?ds
      = (Ok (), z', tr')" "deletions tr' = deletions tr @ map pod_id ?ds"
    using approved_pods_deleted [OF ap1] by blast
  have "updateOutdatedPods zc (steady_env now sets pods) tr z s ps = (Ok True, z', tr')"
    using d(1) b unfolding updateOutdatedPods_def Let_def f by simp
  with d(2) ne sub show ?thesis by blast
qed


lemma can_roll_finished:
  assumes "can_roll ns pods s"
  shows "\<exists>t'. finishStatefulSet (steady_env now sets pods) ns t s = (Ok False, t')"
proof -
  obtain t1 where "hasStatefulSetNotReadyPods (steady_env now sets pods) ns t s = (Ok False, t1)" using can_roll_ready [OF assms] by blast
  then show ?thesis by (simp add: finishStatefulSet_def Let_def)
qed

lemma set_updated:
  assumes ok: "can_roll ns pods s" and ap: "approves zc {p \<in> set pods. stale ns s p}"
  shows "\<exists>z' tr' ds. updateStatefulSetPods zc (steady_env now sets pods) ns tr z s = (Ok (ds \<noteq> []), z', tr') \<and>
     deletions tr' = deletions tr @ map pod_id ds \<and> set ds \<subseteq> {p \<in> set pods. stale ns s p} \<and> (ds = [] \<longrightarrow> filter (stale ns s) pods = [])"
proof -
  let ?ps = "SortPods (filter (stale ns s) pods)" and ?E = "steady_env now sets pods"
  have l: "podsNotMatchingUpdateRevision ?E ns tr s = (Ok ?ps, tr @ [EvListPods])" using ok by (rule can_roll_stale)
  show ?thesis
  proof (cases "filter (stale ns s) pods = []")
    case True
    then have "?ps = []" by (simp add: SortPods_def)
    moreover obtain t' where f: "finishStatefulSet ?E ns (tr @ [EvListPods]) s = (Ok False, t')" using can_roll_finished [OF ok] by blast
    moreover have "deletions t' = deletions tr" using quiet_finishStatefulSet [OF f] by (simp add: quiet_def)
    ultimately show ?thesis using l True by (intro exI [of _ z] exI [of _ t'] exI [of _ "[]"]) (simp add: updateStatefulSetPods_def)
  next
    case False
    have sub: "set ?ps \<subseteq> {p \<in> set pods. stale ns s p}" by auto
    have ne: "?ps \<noteq> []" using False by (metis SortPods_def go_sort_Nil_iff)
    obtain z' tr' ds where "updateOutdatedPods zc ?E (tr @ [EvListPods]) z s ?ps = (Ok True, z', tr')"
      "deletions tr' = deletions (tr @ [EvListPods]) @ map pod_id ds" "ds \<noteq> []" "set ds \<subseteq> set ?ps"
      using stale_pods_updated [OF ok ne sub ap] by blast
    then show ?thesis using l ne sub by (intro exI [of _ z'] exI [of _ tr'] exI [of _ ds]) (auto simp: updateStatefulSetPods_def)
  qed
qed

lemma sets_updated:
  assumes "\<forall>s\<in>set ss. can_roll ns pods s" and "approves zc {p \<in> set pods. \<exists>s\<in>set ss. stale ns s p}"
  shows "\<exists>z' tr' ds. updateSets zc (steady_env now sets pods) ns [] tr z ss = (Ok (), z', tr') \<and>
     deletions tr' = deletions tr @ map pod_id ds \<and> set ds \<subseteq> {p \<in> set pods. \<exists>s\<in>set ss. stale ns s p} \<and>
     (ds = [] \<longrightarrow> (\<forall>s\<in>set ss. filter (stale ns s) pods = []))"
  using assms
proof (induction ss arbitrary: tr z)
  case (Cons s ss)
  have ok: "can_roll ns pods s" "\<not> rolloutPaused s" using Cons.prems(1) by (simp_all add: can_roll_def)
  have "approves zc {p \<in> set pods. stale ns s p}" using Cons.prems(2) by (auto simp: approves_def)
  from set_updated [OF ok(1) this] obtain z1 tr1 ds where u: "updateStatefulSetPods zc (steady_env now sets pods) ns tr z s = (Ok (ds \<noteq> []), z1, tr1)"
      "deletions tr1 = deletions tr @ map pod_id ds" "set ds \<subseteq> {p \<in> set pods. stale ns s p}" "ds = [] \<longrightarrow> filter (stale ns s) pods = []" by blast
  show ?case
  proof (cases "ds = []")
    case True
    have "approves zc {p \<in> set pods. \<exists>s\<in>set ss. stale ns s p}" using Cons.prems(2) by (auto simp: approves_def)
    from Cons.IH [OF _ this, of tr1 z1] Cons.prems(1) obtain z2 tr2 ds2 where
      "updateSets zc (steady_env now sets pods) ns [] tr1 z1 ss = (Ok (), z2, tr2)" "deletions tr2 = deletions tr1 @ map pod_id ds2"
      "set ds2 \<subseteq> {p \<in> set pods. \<exists>s\<in>set ss. stale ns s p}" "ds2 = [] \<longrightarrow> (\<forall>s\<in>set ss. filter (stale ns s) pods = [])" by auto
    with u ok True show ?thesis by (intro exI [of _ z2] exI [of _ tr2] exI [of _ ds2]) auto
  next
    case False
    with u ok show ?thesis by (intro exI [of _ z1] exI [of _ tr1] exI [of _ ds]) auto
  qed
qed simp

lemma group_updated:
  assumes "\<forall>s\<in>set sets. can_roll ns pods s" and "approves zc {p \<in> set pods. \<exists>s\<in>set sets. stale ns s p}"
  shows "\<exists>z' tr' ds. rolloutGroup zc (steady_env now sets pods) ns tr z sets = (Ok (), z', tr') \<and>
     deletions tr' = deletions tr @ map pod_id ds \<and> set ds \<subseteq> {p \<in> set pods. \<exists>s\<in>set sets. stale ns s p} \<and>
     (ds = [] \<longrightarrow> (\<forall>s\<in>set sets. filter (stale ns s) pods = []))"
proof -
  have none: "find (\<lambda>s. sts_update_strategy s \<noteq> OnDelete) sets = None" using assms(1) by (simp add: find_None_iff can_roll_def)
  obtain t1 where f: "findNotReadySets (steady_env now sets pods) ns tr sets = (Ok [], t1)" using can_roll_none_unready [OF assms(1)] by blast
  have "deletions t1 = deletions tr" using findNotReadySets_sound [OF f] by (simp add: quiet_def)
  with sets_updated [OF assms, of now sets t1 z] none f show ?thesis by (simp add: rolloutGroup_def)
qed

text \<open>A pod that no budget selects is approved.\<close>

lemma find_pod:
  "distinct (map pod_id pods) \<Longrightarrow> p \<in> set pods \<Longrightarrow> find (\<lambda>q. pod_namespace q = pod_namespace p \<and> pod_name q = pod_name p) pods = Some p"
  by (induction pods) (auto simp: pod_id_def image_iff)

lemma uncovered_approved:
  assumes "distinct (map pod_id pods)" and "\<forall>p\<in>ps. p \<in> set pods \<and> pod_namespace p \<noteq> '''' \<and> pod_name p \<noteq> '''' \<and> (\<forall>t. config_find (cfgs t) p = Ok None)"
  shows "approves (evictionController (steady_env now sets pods) cfgs evs) ps"
proof -
  let ?zc = "evictionController (steady_env now sets pods) cfgs evs"
  have "\<exists>z' tr'. zc_MarkPodAsDeleted ?zc tr z (pod_namespace p) (pod_name p) src ov = (Ok (), z', tr') \<and> deletions tr' = deletions tr"
    if p: "p \<in> ps" for p tr z src ov
  proof -
    have "find (\<lambda>q. pod_namespace q = pod_namespace p \<and> pod_name q = pod_name p) pods = Some p" using assms p find_pod by blast
    then have "\<exists>z' tr'. zc_MarkPodAsDeleted ?zc tr z (pod_namespace p) (pod_name p) src ov = (Ok (), z', tr')"
      using assms(2) p
      by (simp add: evictionController_def MarkPodAsDeleted_def HandlePodEvictionRequest_def internal_request_def validate_request_def cached_pod_def allow_def)
    then show ?thesis using ec.mark_quiet unfolding quiet_def by blast
  qed
  moreover have "\<exists>b. zc_HasPartitionAwarePdb ?zc tr z p = Ok b" if "p \<in> ps" for p tr z
    using assms(2) that by (intro exI [of _ False]) (simp add: evictionController_def HasPartitionAwarePdb_def)
  ultimately show ?thesis unfolding approves_def by blast
qed

section \<open>Progress\<close>

definition stale_pods :: "string \<Rightarrow> statefulset list \<Rightarrow> pod list \<Rightarrow> pod list" where
  "stale_pods ns sets pods = filter (\<lambda>p. \<exists>s\<in>set sets. stale ns s p) pods"

definition uncovered :: "string \<Rightarrow> statefulset list \<Rightarrow> (trace \<Rightarrow> config_cache) \<Rightarrow> bool" where
  "uncovered ns sets cfgs \<longleftrightarrow> (\<forall>t p. (\<exists>s\<in>set sets. member_pod ns s p) \<longrightarrow> config_find (cfgs t) p = Ok None)"

lemma round_effect:
  assumes ok: "cluster_ok ns sets pods" and cfg: "uncovered ns sets cfgs"
  obtains ds where "rollout_round cfgs evs ns sets recreate pods = (Ok (), map (\<lambda>p. if pod_id p \<in> pod_id ` set ds then recreate p else p) pods)"
    and "set ds \<subseteq> set (stale_pods ns sets pods)" and "ds = [] \<longrightarrow> stale_pods ns sets pods = []"
proof -
  let ?zc = "evictionController (steady_env 0 sets pods) cfgs evs"
  have rollable: "\<forall>s\<in>set sets. can_roll ns pods s" and dist: "distinct (map pod_id pods)" using ok by (simp_all add: cluster_ok_def)
  have "approves ?zc {p \<in> set pods. \<exists>s\<in>set sets. stale ns s p}"
    using dist
  proof (rule uncovered_approved)
    show "\<forall>p\<in>{p \<in> set pods. \<exists>s\<in>set sets. stale ns s p}. p \<in> set pods \<and> pod_namespace p \<noteq> '''' \<and> pod_name p \<noteq> '''' \<and> (\<forall>t. config_find (cfgs t) p = Ok None)"
      using rollable cfg unfolding can_roll_def stale_def uncovered_def by blast
  qed
  from group_updated [OF rollable this, of 0 "[]" NewEvictionController] obtain z' tr' ds where
    g: "rolloutGroup ?zc (steady_env 0 sets pods) ns [] NewEvictionController sets = (Ok (), z', tr')" "deletions tr' = map pod_id ds"
      "set ds \<subseteq> {p \<in> set pods. \<exists>s\<in>set sets. stale ns s p}" "ds = [] \<longrightarrow> (\<forall>s\<in>set sets. filter (stale ns s) pods = [])" by auto
  show ?thesis
  proof (rule that)
    show "rollout_round cfgs evs ns sets recreate pods = (Ok (), map (\<lambda>p. if pod_id p \<in> pod_id ` set ds then recreate p else p) pods)"
      using g(1,2) by (simp add: rollout_round_def)
    show "set ds \<subseteq> set (stale_pods ns sets pods)" using g(3) by (simp add: stale_pods_def)
    show "ds = [] \<longrightarrow> stale_pods ns sets pods = []" using g(4) by (auto simp: stale_pods_def filter_empty_conv)
  qed
qed

lemma round_keeps_cluster:
  assumes "cluster_ok ns sets pods" and "recreates ns sets recreate"
  shows "cluster_ok ns sets (map (\<lambda>p. if P p then recreate p else p) pods)"
proof -
  let ?f = "\<lambda>p. if P p then recreate p else p"
  have id: "pod_id (?f p) = pod_id p" and m: "member_pod ns s (?f p) = member_pod ns s p" for p s
    using assms(2) by (auto simp: recreates_def member_pod_def pod_id_def)
  have len: "length (filter (member_pod ns s) (map ?f pods)) = length (filter (member_pod ns s) pods)" for s
    by (simp add: filter_map comp_def m del: length_map) (simp add: length_map)
  have "can_roll ns (map ?f pods) s" if "can_roll ns pods s" for s
  proof -
    have "IsPodRunningAndReady (?f p) \<and> pod_namespace (?f p) \<noteq> '''' \<and> pod_name (?f p) \<noteq> ''''" if "p \<in> set pods" "member_pod ns s p" for p
      using that \<open>can_roll ns pods s\<close> assms(2) id [of p] by (auto simp: can_roll_def recreates_def pod_id_def)
    then have "\<forall>q\<in>set (map ?f pods). member_pod ns s q \<longrightarrow> IsPodRunningAndReady q \<and> pod_namespace q \<noteq> '''' \<and> pod_name q \<noteq> ''''"
      using m by (metis (no_types, lifting) image_iff set_map)
    then show ?thesis using that unfolding can_roll_def len by blast
  qed
  moreover have "distinct (map pod_id (map ?f pods))" using assms(1) by (simp add: cluster_ok_def comp_def id)
  ultimately show ?thesis using assms(1) by (simp add: cluster_ok_def)
qed


text \<open>Every round that finds a stale pod leaves fewer.\<close>

lemma length_filter_less_subset:
  assumes "\<forall>x\<in>set xs. P x \<longrightarrow> Q x" and "y \<in> set xs" and "Q y" and "\<not> P y"
  shows "length (filter P xs) < length (filter Q xs)"
  using assms
proof (induction xs)
  case (Cons x xs)
  have "length (filter P xs) \<le> length (filter Q xs)" using Cons.prems(1) by (intro length_filter_mono) simp
  with Cons show ?case by auto
qed simp

lemma round_progress:
  fixes evs :: "trace \<Rightarrow> evict_cache \<Rightarrow> evict_cache"
  assumes ok: "cluster_ok ns sets pods" and cfg: "uncovered ns sets cfgs" and re: "recreates ns sets recreate"
  defines "pods' \<equiv> snd (rollout_round cfgs evs ns sets recreate pods)"
  shows "cluster_ok ns sets pods' \<and> length pods' = length pods \<and> length (stale_pods ns sets pods') \<le> length (stale_pods ns sets pods) - 1"
proof -
  obtain ds where r: "rollout_round cfgs evs ns sets recreate pods = (Ok (), map (\<lambda>p. if pod_id p \<in> pod_id ` set ds then recreate p else p) pods)"
      "set ds \<subseteq> set (stale_pods ns sets pods)" "ds = [] \<longrightarrow> stale_pods ns sets pods = []"
    by (rule round_effect [OF ok cfg, where evs = evs and recreate = recreate])
  let ?f = "\<lambda>p. if pod_id p \<in> pod_id ` set ds then recreate p else p" and ?st = "\<lambda>p. \<exists>s\<in>set sets. stale ns s p"
  have pods': "pods' = map ?f pods" using r(1) by (simp add: pods'_def)
  have fresh: "\<not> ?st (recreate p)" for p using re by (auto simp: recreates_def stale_def member_pod_def pod_id_def)
  have stays: "?st (?f p) \<Longrightarrow> ?st p" for p using fresh by (cases "pod_id p \<in> pod_id ` set ds") auto
  have all: "\<forall>p\<in>set pods. (?st \<circ> ?f) p \<longrightarrow> ?st p" unfolding comp_def using stays by blast
  have sub: "length (filter (?st \<circ> ?f) pods) \<le> length (filter ?st pods)" using all by (rule length_filter_mono)
  have "length (filter (?st \<circ> ?f) pods) < length (filter ?st pods)" if ne: "ds \<noteq> []"
  proof -
    obtain d where d: "d \<in> set ds" using ne by (cases ds) auto
    then have "d \<in> set pods" "?st d" "\<not> (?st \<circ> ?f) d" using r(2) fresh by (auto simp: stale_pods_def)
    with all show ?thesis by (rule length_filter_less_subset)
  qed
  then have "length (stale_pods ns sets pods') \<le> length (stale_pods ns sets pods) - 1"
    using sub r(3) unfolding pods' stale_pods_def by (cases "ds = []") (auto simp: filter_map)
  with round_keeps_cluster [OF ok re] show ?thesis unfolding pods' by simp
qed

lemma rounds_progress:
  assumes "cluster_ok ns sets pods" and "uncovered ns sets cfgs" and "recreates ns sets recreate"
  shows "cluster_ok ns sets (rollout_rounds cfgs evs ns sets recreate n pods) \<and>
     length (stale_pods ns sets (rollout_rounds cfgs evs ns sets recreate n pods)) \<le> length (stale_pods ns sets pods) - n"
proof (induction n)
  case (Suc n)
  have "rollout_rounds cfgs evs ns sets recreate (Suc n) pods = snd (rollout_round cfgs evs ns sets recreate (rollout_rounds cfgs evs ns sets recreate n pods))"
    by (simp add: rollout_rounds_def)
  with round_progress [OF conjunct1 [OF Suc] assms(2,3), of evs] conjunct2 [OF Suc] show ?case by auto
qed (simp add: rollout_rounds_def assms(1))

text \<open>No pod changes its StatefulSet.\<close>

lemma rounds_member:
  assumes "recreates ns sets recreate" and "q \<in> set (rollout_rounds cfgs evs ns sets recreate n pods)"
  shows "\<exists>p\<in>set pods. pod_namespace q = pod_namespace p \<and> pod_labels q ''name'' = pod_labels p ''name''"
  using assms(2)
proof (induction n arbitrary: q)
  case (Suc n)
  then obtain p where p: "p \<in> set (rollout_rounds cfgs evs ns sets recreate n pods)" and "q = p \<or> q = recreate p"
    by (auto simp: rollout_rounds_def rollout_round_def Let_def split: prod.splits if_splits)
  then have "pod_namespace q = pod_namespace p \<and> pod_labels q ''name'' = pod_labels p ''name''"
    using assms(1) by (auto simp: recreates_def pod_id_def)
  with Suc.IH [OF p] show ?case by simp
qed (auto simp: rollout_rounds_def)

lemma stale_pods_empty:
  assumes "cluster_ok ns sets pods" and "stale_pods ns sets pods = []" and "s \<in> set sets" and "p \<in> set pods" and "member_pod ns s p"
  shows "mget (pod_labels p) ControllerRevisionHashLabelKey = sts_update_revision s \<and> IsPodRunningAndReady p"
  using assms by (auto simp: stale_pods_def filter_empty_conv stale_def cluster_ok_def can_roll_def mget_def)

section \<open>Properties\<close>

text \<open>C10: A rollout that nothing holds back is finished after finitely many reconciles. Take a rollout group whose StatefulSets are updated by deletion, not paused and ready, none of
  whose pods a disruption budget selects, in a cluster that recreates every deleted pod with the update revision and makes it ready before the next reconcile. Then
  every reconcile succeeds, and after as many of them as there are stale pods, and ever after, every pod of every StatefulSet of the group runs the update revision of its
  StatefulSet and is ready.\<close>
theorem rollout_is_finished:
  assumes "cluster_ok ns sets pods" and "uncovered ns sets cfgs" and "recreates ns sets recreate" and "length (stale_pods ns sets pods) \<le> n"
  shows "fst (rollout_round cfgs evs ns sets recreate (rollout_rounds cfgs evs ns sets recreate k pods)) = Ok () \<and>
     (\<forall>s\<in>set sets. \<forall>p\<in>set (rollout_rounds cfgs evs ns sets recreate n pods). member_pod ns s p \<longrightarrow>
        mget (pod_labels p) ControllerRevisionHashLabelKey = sts_update_revision s \<and> IsPodRunningAndReady p)"
proof
  have "cluster_ok ns sets (rollout_rounds cfgs evs ns sets recreate k pods)" using rounds_progress [OF assms(1-3)] by blast
  then show "fst (rollout_round cfgs evs ns sets recreate (rollout_rounds cfgs evs ns sets recreate k pods)) = Ok ()"
    by (rule round_effect [OF _ assms(2), where evs = evs and recreate = recreate]) simp
next
  have "stale_pods ns sets (rollout_rounds cfgs evs ns sets recreate n pods) = []"
    using rounds_progress [OF assms(1-3), of evs n] assms(4) by simp
  with rounds_progress [OF assms(1-3), of evs n] stale_pods_empty show "\<forall>s\<in>set sets. \<forall>p\<in>set (rollout_rounds cfgs evs ns sets recreate n pods). member_pod ns s p \<longrightarrow>
      mget (pod_labels p) ControllerRevisionHashLabelKey = sts_update_revision s \<and> IsPodRunningAndReady p"
    by blast
qed

definition demo_recreate :: "pod \<Rightarrow> pod" where
  "demo_recreate p = p\<lparr>pod_labels := (pod_labels p)(ControllerRevisionHashLabelKey \<mapsto> ''r2''), pod_deletion_timestamp := None, pod_phase := PodRunning, pod_statuses := []\<rparr>"

lemma demo_sets_can_roll:
  assumes "n = ''zone-a'' \<or> n = ''zone-b''"
  shows "can_roll ''ns'' [demo_pod ''zone-a'' ''zone-a-0'', demo_pod ''zone-b'' ''zone-b-0''] (demo_outdated n)"
proof -
  have "IsLabelValue ''r2''" "IsLabelValue ''zone-a''" "IsLabelValue ''zone-b''" by code_simp+
  then show ?thesis using assms
    by (auto simp: can_roll_def demo_outdated_def demo_zone_def demo_sts_def rolloutPaused_def config_keys expectedReplicas_def member_pod_def demo_pod_def
        IsPodRunningAndReady_def is_int32_def ControllerRevisionHashLabelKey_def)
qed

theorem rollout_is_finished_witness:
  "filter (\<lambda>p. mget (pod_labels p) ControllerRevisionHashLabelKey \<noteq> ''r2'')
     (rollout_rounds (\<lambda>_. []) (\<lambda>_ e. e) ''ns'' [demo_outdated ''zone-a'', demo_outdated ''zone-b''] demo_recreate 2
        [demo_pod ''zone-a'' ''zone-a-0'', demo_pod ''zone-b'' ''zone-b-0'']) = []"
proof -
  let ?sets = "[demo_outdated ''zone-a'', demo_outdated ''zone-b'']" and ?pods = "[demo_pod ''zone-a'' ''zone-a-0'', demo_pod ''zone-b'' ''zone-b-0'']"
  have ok: "cluster_ok ''ns'' ?sets ?pods" using demo_sets_can_roll by (simp add: cluster_ok_def pod_id_def demo_pod_def)
  have un: "uncovered ''ns'' ?sets (\<lambda>_. [])" by (simp add: uncovered_def config_find_def)
  have re: "recreates ''ns'' ?sets demo_recreate"
    by (simp add: recreates_def demo_recreate_def pod_id_def IsPodRunningAndReady_def demo_outdated_def ControllerRevisionHashLabelKey_def)
  have "length (stale_pods ''ns'' ?sets ?pods) \<le> 2" unfolding stale_pods_def using length_filter_le [of _ ?pods] by simp
  from rollout_is_finished [OF ok un re this, of "\<lambda>_ e. e" 0] have
    "\<forall>s\<in>set ?sets. \<forall>p\<in>set (rollout_rounds (\<lambda>_. []) (\<lambda>_ e. e) ''ns'' ?sets demo_recreate 2 ?pods). member_pod ''ns'' s p \<longrightarrow>
       mget (pod_labels p) ControllerRevisionHashLabelKey = sts_update_revision s \<and> IsPodRunningAndReady p" by blast
  moreover have "\<exists>s\<in>set ?sets. member_pod ''ns'' s p" if "p \<in> set (rollout_rounds (\<lambda>_. []) (\<lambda>_ e. e) ''ns'' ?sets demo_recreate 2 ?pods)" for p
    using rounds_member [OF re that] by (auto simp: member_pod_def demo_outdated_def demo_zone_def demo_sts_def demo_pod_def mget_def ControllerRevisionHashLabelKey_def)
  moreover have "sts_update_revision s = ''r2''" if "s \<in> set ?sets" for s using that by (auto simp: demo_outdated_def)
  ultimately show ?thesis unfolding filter_empty_conv by metis
qed

end
