(* ===== verification/ApiTransports.thy ===== *)
theory ApiTransports
  imports ApiClient
begin

text \<open>
  How \<^verbatim>\<open>main\<close> puts the transports of \<^verbatim>\<open>ApiClient\<close> together: each component (core controller, pod eviction, no-downscale, prepare-downscale)
  gets a client configuration of its own, a copy of the one of the process, and transports of its own. Go passes configurations
  and limiters by pointer, so they live in a heap here: a configuration and a limiter are known by their address, copying and
  building a transport allocate, and every token bucket has a number of its own whichever limiter created it.

  The middleware of dskit for the cluster label turns some responses into errors; \<open>rejects\<close> is the message such a response carries. The histograms are the events
  of \<^verbatim>\<open>ApiClient\<close>; tracing is not modelled.
\<close>

section \<open>The heap\<close>

text \<open>The wrappers of a configuration: functions from the next transport to a transport.\<close>

datatype layer = Instrumented string | Limited rat int string | ClusterValidated string

text \<open>\<^verbatim>\<open>rest.Config\<close>: whether the limiter of client-go, one for all API groups, is in force, and the wrappers, the innermost first.\<close>

record rest_config =
  rst_own_limiter :: bool
  rst_layers :: "layer list"

text \<open>The addresses are the positions in the lists; \<open>h_limitQPS\<close> is the gauge by component.\<close>

record api_heap =
  h_configs :: "rest_config list"
  h_limiters :: "perAPIGroupRateLimiter list"
  h_buckets :: nat
  h_limitQPS :: "string \<rightharpoonup> rat"

definition update_config :: "api_heap \<Rightarrow> nat \<Rightarrow> (rest_config \<Rightarrow> rest_config) \<Rightarrow> api_heap" where
  "update_config h cfg f = h\<lparr>h_configs := (h_configs h)[cfg := f (h_configs h ! cfg)]\<rparr>"

definition CopyConfig :: "api_heap \<Rightarrow> nat \<Rightarrow> nat \<times> api_heap" where
  "CopyConfig h cfg = (length (h_configs h), h\<lparr>h_configs := h_configs h @ [h_configs h ! cfg]\<rparr>)"

definition Wrap :: "api_heap \<Rightarrow> nat \<Rightarrow> layer \<Rightarrow> api_heap" where
  "Wrap h cfg l = update_config h cfg (\<lambda>c. c\<lparr>rst_layers := rst_layers c @ [l]\<rparr>)"

definition InstrumentKubernetesAPIClient :: "api_heap \<Rightarrow> nat \<Rightarrow> string \<Rightarrow> api_heap" where
  "InstrumentKubernetesAPIClient h cfg component = Wrap h cfg (Instrumented component)"

definition LimitKubernetesAPIClientPerAPIGroup :: "api_heap \<Rightarrow> nat \<Rightarrow> rat \<Rightarrow> int \<Rightarrow> string \<Rightarrow> api_heap" where
  "LimitKubernetesAPIClientPerAPIGroup h cfg qps burst component =
     (let h1 = update_config h cfg (\<lambda>c. c\<lparr>rst_own_limiter := False\<rparr>);
          h2 = (if 0 < qps \<and> 0 < burst then h1\<lparr>h_limitQPS := (h_limitQPS h1)(component \<mapsto> qps)\<rparr> else h1)
      in Wrap h2 cfg (Limited qps burst component))"

definition wireComponentConfig :: "string \<Rightarrow> rat \<Rightarrow> int \<Rightarrow> nat \<Rightarrow> api_heap \<Rightarrow> string \<Rightarrow> nat \<times> api_heap" where
  "wireComponentConfig namespace qps burst kubeConfig h component =
     (let (c, h1) = CopyConfig h kubeConfig;
          h2 = InstrumentKubernetesAPIClient h1 c component;
          h3 = LimitKubernetesAPIClientPerAPIGroup h2 c qps burst component
      in (c, Wrap h3 c (ClusterValidated namespace)))"

section \<open>Transports\<close>

text \<open>The objects a transport is made of; a limiter is the one at an address.\<close>

datatype wrapper = MeasureTransport string | LimitTransport nat | ValidateTransport string

fun new_wrapper :: "api_heap \<Rightarrow> layer \<Rightarrow> wrapper \<times> api_heap" where
  "new_wrapper h (Instrumented component) = (MeasureTransport component, h)"
| "new_wrapper h (Limited qps burst component) =
     (LimitTransport (length (h_limiters h)), h\<lparr>h_limiters := h_limiters h @ [newPerAPIGroupRateLimiter qps burst component]\<rparr>)"
| "new_wrapper h (ClusterValidated cluster) = (ValidateTransport cluster, h)"

fun Wrappers :: "api_heap \<Rightarrow> layer list \<Rightarrow> wrapper list \<times> api_heap" where
  "Wrappers h [] = ([], h)"
| "Wrappers h (l # ls) = (let (w, h1) = new_wrapper h l; (ws, h2) = Wrappers h1 ls in (w # ws, h2))"

text \<open>\<^verbatim>\<open>rest.HTTPClientFor\<close>: every call applies the wrappers of the configuration anew.\<close>

definition HTTPClientFor :: "api_heap \<Rightarrow> nat \<Rightarrow> wrapper list \<times> api_heap" where
  "HTTPClientFor h cfg = Wrappers h (rst_layers (h_configs h ! cfg))"

definition ClusterValidationRoundTripper :: "(int \<Rightarrow> string option) \<Rightarrow> int reply \<Rightarrow> int reply" where
  "ClusterValidationRoundTripper rejects resp =
     (case resp of
        Error e \<Rightarrow> Error e
      | Reply code \<Rightarrow>
          if code \<noteq> 511 then Reply code
          else (case rejects code of None \<Rightarrow> Reply code | Some m \<Rightarrow> Error (Err (''request rejected by the server: '' @ m))))"

type_synonym transport = "api_heap \<Rightarrow> api_trace \<Rightarrow> api_request \<Rightarrow> int reply \<times> api_heap \<times> api_trace"

text \<open>One wrapper around the next transport. A limiter creates its buckets in the heap.\<close>

fun wrap_layer :: "api_env \<Rightarrow> (int \<Rightarrow> string option) \<Rightarrow> transport \<Rightarrow> wrapper \<Rightarrow> transport" where
  "wrap_layer E rejects nxt (MeasureTransport component) h tr req =
     (let (resp, h1, tr1) = nxt h tr req in
      (resp, h1, tr1 @ [AObserve (urlToResourceDescription (rq_escapedPath req)) (rq_method req) (statusCode resp) (pathToAPIGroup (rq_path req)) component]))"
| "wrap_layer E rejects nxt (LimitTransport a) h tr req =
     (let r = h_limiters h ! a;
          group = pathToAPIGroup (rq_path req);
          (l, r1) = limiterFor (r\<lparr>rl_buckets := h_buckets h\<rparr>) group;
          h1 = h\<lparr>h_limiters := (h_limiters h)[a := r1], h_buckets := rl_buckets r1\<rparr>
      in case limiter_wait E tr l of
           (Some e, tr1) \<Rightarrow>
             (Error (wrapf (''client-side rate limiter for Kubernetes API group '' @ quoted group @ '': '') e), h1,
              tr1 @ [AThrottled group (rl_component r)])
         | (None, tr1) \<Rightarrow> nxt h1 tr1 req)"
| "wrap_layer E rejects nxt (ValidateTransport cluster) h tr req =
     (let (resp, h1, tr1) = nxt h tr req in (ClusterValidationRoundTripper rejects resp, h1, tr1))"

definition transport_of :: "api_env \<Rightarrow> (int \<Rightarrow> string option) \<Rightarrow> wrapper list \<Rightarrow> transport" where
  "transport_of E rejects ws = foldl (wrap_layer E rejects) (\<lambda>h tr req. case send E tr req of (resp, tr1) \<Rightarrow> (resp, h, tr1)) ws"

text \<open>The client for endpoints of pods: another transport, without a limiter; the label is validated only if there is one.\<close>

definition NewPodHTTPClient :: "(int \<Rightarrow> string option) \<Rightarrow> string \<Rightarrow> round_tripper \<Rightarrow> round_tripper" where
  "NewPodHTTPClient rejects clusterValidationLabel base =
     pod_RoundTrip
       (if clusterValidationLabel = '''' then base
        else (\<lambda>tr req. case base tr req of (resp, tr1) \<Rightarrow> (ClusterValidationRoundTripper rejects resp, tr1)))"

section \<open>All clients\<close>

text \<open>
  The clients of the process, with the component each was built for, and what they have done so far, every event with the number of its client.
  \<^verbatim>\<open>main\<close> builds the clients of the core controller, which share one transport, and its scale client, which builds another one from the
  same configuration. After that dedicated clients are built, and requests are made, in any order.
\<close>

record clients_state =
  cs_clients :: "(string \<times> wrapper list) list"
  cs_heap :: api_heap
  cs_trace :: "(nat \<times> api_event) list"

datatype client_event = Connect string | Request nat api_request

definition new_client :: "string \<Rightarrow> nat \<Rightarrow> clients_state \<Rightarrow> clients_state" where
  "new_client component cfg st =
     (let (ws, h) = HTTPClientFor (cs_heap st) cfg
      in st\<lparr>cs_clients := cs_clients st @ [(component, ws)], cs_heap := h\<rparr>)"

definition newDedicatedKubeClient :: "string \<Rightarrow> rat \<Rightarrow> int \<Rightarrow> string \<Rightarrow> clients_state \<Rightarrow> clients_state" where
  "newDedicatedKubeClient namespace qps burst component st =
     (let (c, h) = wireComponentConfig namespace qps burst 0 (cs_heap st) component
      in new_client component c (st\<lparr>cs_heap := h\<rparr>))"

definition base_heap :: api_heap where
  "base_heap = \<lparr>h_configs = [\<lparr>rst_own_limiter = True, rst_layers = []\<rparr>], h_limiters = [], h_buckets = 0, h_limitQPS = Map.empty\<rparr>"

definition core_clients :: "string \<Rightarrow> rat \<Rightarrow> int \<Rightarrow> clients_state" where
  "core_clients namespace qps burst =
     (let (c, h) = wireComponentConfig namespace qps burst 0 base_heap ''core-controller''
      in new_client ''core-controller'' c (new_client ''core-controller'' c \<lparr>cs_clients = [], cs_heap = h, cs_trace = []\<rparr>))"

text \<open>The environment may answer each request as it likes, knowing everything that has happened.\<close>

fun client_step :: "(clients_state \<Rightarrow> api_env) \<Rightarrow> (int \<Rightarrow> string option) \<Rightarrow> string \<Rightarrow> rat \<Rightarrow> int \<Rightarrow> clients_state \<Rightarrow> client_event \<Rightarrow> clients_state" where
  "client_step envs rejects namespace qps burst st (Connect component) = newDedicatedKubeClient namespace qps burst component st"
| "client_step envs rejects namespace qps burst st (Request i req) =
     (if i < length (cs_clients st) then
        (case transport_of (envs st) rejects (snd (cs_clients st ! i)) (cs_heap st) [] req of
           (resp, h, evs) \<Rightarrow> st\<lparr>cs_heap := h, cs_trace := cs_trace st @ map (Pair i) evs\<rparr>)
      else st)"

definition clients_run :: "(clients_state \<Rightarrow> api_env) \<Rightarrow> (int \<Rightarrow> string option) \<Rightarrow> string \<Rightarrow> rat \<Rightarrow> int \<Rightarrow> client_event list \<Rightarrow> clients_state" where
  "clients_run envs rejects namespace qps burst evs = foldl (client_step envs rejects namespace qps burst) (core_clients namespace qps burst) evs"

section \<open>A wired client\<close>

text \<open>The transport of a component: the limiter at address \<open>a\<close> around the instrumentation, inside the middleware.\<close>

definition component_transport :: "string \<Rightarrow> string \<Rightarrow> nat \<Rightarrow> wrapper list" where
  "component_transport namespace component a = [MeasureTransport component, LimitTransport a, ValidateTransport namespace]"

definition component_config :: "string \<Rightarrow> rat \<Rightarrow> int \<Rightarrow> string \<Rightarrow> rest_config" where
  "component_config namespace qps burst component =
     \<lparr>rst_own_limiter = False, rst_layers = [Instrumented component, Limited qps burst component, ClusterValidated namespace]\<rparr>"

lemma wire_component:
  assumes "h_configs h = \<lparr>rst_own_limiter = b, rst_layers = []\<rparr> # cs"
  shows "\<exists>h'. wireComponentConfig namespace qps burst 0 h component = (length (h_configs h), h') \<and>
     h_configs h' = h_configs h @ [component_config namespace qps burst component] \<and>
     h_limiters h' = h_limiters h \<and> h_buckets h' = h_buckets h"
  using assms
  by (simp add: wireComponentConfig_def CopyConfig_def InstrumentKubernetesAPIClient_def LimitKubernetesAPIClientPerAPIGroup_def
      Wrap_def update_config_def component_config_def Let_def nth_append list_update_append)

lemma component_client:
  assumes "h_configs h ! c = component_config namespace qps burst component"
  shows "HTTPClientFor h c =
     (component_transport namespace component (length (h_limiters h)),
      h\<lparr>h_limiters := h_limiters h @ [newPerAPIGroupRateLimiter qps burst component]\<rparr>)"
  using assms by (simp add: HTTPClientFor_def component_config_def component_transport_def)

text \<open>Its round trip is the one of \<^verbatim>\<open>ApiClient\<close> on the limiter at its address, with the buckets numbered by the heap.\<close>

lemma component_round_trip:
  assumes "rl_component (h_limiters h ! a) = component"
    and "component_RoundTrip E ((h_limiters h ! a)\<lparr>rl_buckets := h_buckets h\<rparr>) tr req = (resp, r1, tr')"
  shows "transport_of E rejects (component_transport namespace component a) h tr req =
     (ClusterValidationRoundTripper rejects resp, h\<lparr>h_limiters := (h_limiters h)[a := r1], h_buckets := rl_buckets r1\<rparr>, tr')"
proof -
  obtain l r2 where l: "limiterFor ((h_limiters h ! a)\<lparr>rl_buckets := h_buckets h\<rparr>) (pathToAPIGroup (rq_path req)) = (l, r2)" by fastforce
  show ?thesis
    using assms l
    by (auto simp: transport_of_def component_transport_def component_RoundTrip_def limited_RoundTrip_def instrumented_RoundTrip_def
        send_def Let_def split: option.splits prod.splits)
qed

text \<open>A request to a pod is sent once and waits for no bucket.\<close>

lemma pod_request_is_not_limited:
  "\<exists>resp. NewPodHTTPClient rejects label (send E) tr req = (resp, tr @ [ASend req, APodObserve (rq_path req) (rq_method req) (statusCode resp)]) \<and>
     (label = '''' \<longrightarrow> resp = a_next E tr req) \<and> (label \<noteq> '''' \<longrightarrow> resp = ClusterValidationRoundTripper rejects (a_next E tr req))"
  by (simp add: NewPodHTTPClient_def pod_RoundTrip_def send_def)

section \<open>The buckets of the clients\<close>

text \<open>The bucket an event waits for, and the component it is counted for in a metric.\<close>

fun waited :: "api_event \<Rightarrow> nat option" where
  "waited (AWait n) = Some n"
| "waited _ = None"

fun reported :: "api_event \<Rightarrow> string option" where
  "reported (AThrottled g c) = Some c"
| "reported (AObserve p m s g c) = Some c"
| "reported _ = None"

fun is_request :: "nat \<Rightarrow> client_event \<Rightarrow> bool" where
  "is_request i (Request j req) = (j = i)"
| "is_request i (Connect component) = False"

definition has_bucket :: "perAPIGroupRateLimiter \<Rightarrow> nat \<Rightarrow> bool" where
  "has_bucket r n \<longleftrightarrow> (\<exists>g. (g, TokenBucket n) \<in> set (rl_limiters r))"

lemma limiterFor_buckets:
  assumes "limiterFor r g = (l, r1)"
  shows "rl_component r1 = rl_component r" and "rl_buckets r \<le> rl_buckets r1"
    and "l = TokenBucket n \<Longrightarrow> has_bucket r1 n" and "has_bucket r n \<Longrightarrow> has_bucket r1 n"
    and "has_bucket r1 n \<Longrightarrow> has_bucket r n \<or> n = rl_buckets r \<and> n < rl_buckets r1"
  using assms
  by (auto simp: limiterFor_def limiter_read_def limiter_locked_def has_bucket_def split: option.splits if_splits dest: map_of_SomeD)

lemma component_events:
  assumes "component_RoundTrip E r [] req = (resp, r1, evs)"
  shows "\<exists>l. limiterFor r (pathToAPIGroup (rq_path req)) = (l, r1) \<and> (\<forall>x\<in>set evs. \<forall>n. waited x = Some n \<longrightarrow> l = TokenBucket n)"
    and "length (filter (\<lambda>x. waited x \<noteq> None) evs) \<le> 1"
    and "\<forall>x\<in>set evs. \<forall>c. reported x = Some c \<longrightarrow> c = rl_component r"
proof -
  obtain l r2 where l: "limiterFor r (pathToAPIGroup (rq_path req)) = (l, r2)" by fastforce
  have "r1 = r2 \<and> (evs = [ASend req, AObserve (urlToResourceDescription (rq_escapedPath req)) (rq_method req) (statusCode resp)
            (pathToAPIGroup (rq_path req)) (rl_component r)] \<or>
      (\<exists>n. l = TokenBucket n \<and> (evs = [AWait n, AThrottled (pathToAPIGroup (rq_path req)) (rl_component r)] \<or>
         evs = [AWait n, ASend req, AObserve (urlToResourceDescription (rq_escapedPath req)) (rq_method req) (statusCode resp)
            (pathToAPIGroup (rq_path req)) (rl_component r)])))"
    using assms l
    by (cases l) (auto simp: component_RoundTrip_def limited_RoundTrip_def instrumented_RoundTrip_def send_def Let_def split: option.splits)
  then show "\<exists>l. limiterFor r (pathToAPIGroup (rq_path req)) = (l, r1) \<and> (\<forall>x\<in>set evs. \<forall>n. waited x = Some n \<longrightarrow> l = TokenBucket n)"
    and "length (filter (\<lambda>x. waited x \<noteq> None) evs) \<le> 1"
    and "\<forall>x\<in>set evs. \<forall>c. reported x = Some c \<longrightarrow> c = rl_component r"
    using l by auto
qed

text \<open>
  Client \<open>i\<close> is built around the limiter at address \<open>i\<close>, which belongs to its component; no bucket is in two limiters; and what the
  clients did so far used the buckets of their own limiters and was counted for their own components.
\<close>

definition clients_inv :: "string \<Rightarrow> client_event list \<Rightarrow> clients_state \<Rightarrow> bool" where
  "clients_inv namespace evs st \<longleftrightarrow>
     (let cl = cs_clients st; lims = h_limiters (cs_heap st) in
      (\<exists>cs. h_configs (cs_heap st) = \<lparr>rst_own_limiter = True, rst_layers = []\<rparr> # cs) \<and>
      length lims = length cl \<and>
      (\<forall>i<length cl. snd (cl ! i) = component_transport namespace (fst (cl ! i)) i \<and> rl_component (lims ! i) = fst (cl ! i)) \<and>
      (\<forall>i<length cl. \<forall>n. has_bucket (lims ! i) n \<longrightarrow> n < h_buckets (cs_heap st)) \<and>
      (\<forall>i<length cl. \<forall>j<length cl. \<forall>n. has_bucket (lims ! i) n \<longrightarrow> has_bucket (lims ! j) n \<longrightarrow> i = j) \<and>
      (\<forall>i x. (i, x) \<in> set (cs_trace st) \<longrightarrow>
         i < length cl \<and> (\<forall>c. reported x = Some c \<longrightarrow> c = fst (cl ! i)) \<and> (\<forall>n. waited x = Some n \<longrightarrow> has_bucket (lims ! i) n)) \<and>
      (\<forall>i. length (filter (\<lambda>p. fst p = i \<and> waited (snd p) \<noteq> None) (cs_trace st)) \<le> length (filter (is_request i) evs)))"

lemma clients_inv_new:
  assumes "clients_inv namespace evs st" and "h_configs (cs_heap st) ! c = component_config namespace qps burst component"
  shows "clients_inv namespace evs (new_client component c st)"
proof -
  have empty: "\<not> has_bucket (newPerAPIGroupRateLimiter qps burst component) n" for n
    by (simp add: has_bucket_def newPerAPIGroupRateLimiter_def)
  have comp: "rl_component (newPerAPIGroupRateLimiter qps burst component) = component"
    by (simp add: newPerAPIGroupRateLimiter_def)
  show ?thesis
    using assms empty comp
    by (auto simp: clients_inv_def Let_def new_client_def component_client nth_append less_Suc_eq component_client [OF assms(2)])
qed

lemma clients_inv_wired:
  assumes "clients_inv namespace evs st" and "wireComponentConfig namespace qps burst 0 (cs_heap st) component = (c, h)"
  shows "clients_inv namespace evs (st\<lparr>cs_heap := h\<rparr>)" and "h_configs h ! c = component_config namespace qps burst component"
proof -
  obtain cs where "h_configs (cs_heap st) = \<lparr>rst_own_limiter = True, rst_layers = []\<rparr> # cs"
    using assms(1) by (auto simp: clients_inv_def Let_def)
  from wire_component [OF this, of namespace qps burst component] assms(2)
  have c: "c = length (h_configs (cs_heap st))" and h: "h_configs h = h_configs (cs_heap st) @ [component_config namespace qps burst component]"
    "h_limiters h = h_limiters (cs_heap st)" "h_buckets h = h_buckets (cs_heap st)" by auto
  then show "h_configs h ! c = component_config namespace qps burst component" by simp
  show "clients_inv namespace evs (st\<lparr>cs_heap := h\<rparr>)" using assms(1) h by (auto simp: clients_inv_def Let_def)
qed

lemma clients_inv_request:
  assumes inv: "clients_inv namespace evs st" and i: "i < length (cs_clients st)"
    and t: "transport_of E rejects (snd (cs_clients st ! i)) (cs_heap st) [] req = (resp, h, xs)"
  shows "clients_inv namespace (evs @ [Request i req]) (st\<lparr>cs_heap := h, cs_trace := cs_trace st @ map (Pair i) xs\<rparr>)"
proof -
  let ?h = "cs_heap st" and ?lims = "h_limiters (cs_heap st)" and ?cl = "cs_clients st"
  let ?r = "(?lims ! i)\<lparr>rl_buckets := h_buckets ?h\<rparr>"
  obtain a r1 ys where rt: "component_RoundTrip E ?r [] req = (a, r1, ys)" by (cases "component_RoundTrip E ?r [] req")
  have own: "snd (?cl ! i) = component_transport namespace (fst (?cl ! i)) i" "rl_component (?lims ! i) = fst (?cl ! i)" "length ?lims = length ?cl"
    and below: "\<And>j n. j < length ?cl \<Longrightarrow> has_bucket (?lims ! j) n \<Longrightarrow> n < h_buckets ?h"
    and apart: "\<And>j k n. j < length ?cl \<Longrightarrow> k < length ?cl \<Longrightarrow> has_bucket (?lims ! j) n \<Longrightarrow> has_bucket (?lims ! k) n \<Longrightarrow> j = k"
    using inv i unfolding clients_inv_def Let_def by blast+
  have h: "h = ?h\<lparr>h_limiters := ?lims[i := r1], h_buckets := rl_buckets r1\<rparr>" and xs: "xs = ys"
    using t component_round_trip [OF own(2) rt, of rejects namespace] own(1) by simp_all
  note ev = component_events [OF rt]
  obtain l where l: "limiterFor ?r (pathToAPIGroup (rq_path req)) = (l, r1)" "\<forall>x\<in>set ys. \<forall>n. waited x = Some n \<longrightarrow> l = TokenBucket n"
    using ev(1) by blast
  note lb = limiterFor_buckets [OF l(1)]
  have has: "has_bucket ?r n = has_bucket (?lims ! i) n" for n by (simp add: has_bucket_def)
  have new: "has_bucket (?lims[i := r1] ! j) n \<Longrightarrow> j < length ?cl \<Longrightarrow>
      has_bucket (?lims ! j) n \<or> j = i \<and> n = h_buckets ?h \<and> n < rl_buckets r1" for j n
    using lb(5) [of n] has own(3) by (cases "j = i") auto
  have old: "has_bucket (?lims ! j) n \<Longrightarrow> j < length ?cl \<Longrightarrow> has_bucket (?lims[i := r1] ! j) n" for j n
    using lb(4) [of n] has own(3) by (cases "j = i") auto
  have le: "h_buckets ?h \<le> rl_buckets r1" using lb(2) by simp
  have waits: "length (filter (\<lambda>p. fst p = j \<and> waited (snd p) \<noteq> None) (map (Pair i) ys)) \<le> (if j = i then 1 else 0)" for j
    using ev(2) by (simp add: filter_map comp_def)
  have count: "length (filter (\<lambda>p. fst p = j \<and> waited (snd p) \<noteq> None) (cs_trace st)) \<le> length (filter (is_request j) evs)" for j
    using inv unfolding clients_inv_def Let_def by blast
  have uses: "j < length ?cl \<and> (\<forall>c. reported x = Some c \<longrightarrow> c = fst (?cl ! j)) \<and> (\<forall>n. waited x = Some n \<longrightarrow> has_bucket (?lims[i := r1] ! j) n)"
    if "(j, x) \<in> set (cs_trace st @ map (Pair i) ys)" for j x
  proof (cases "(j, x) \<in> set (cs_trace st)")
    case True
    then have "j < length ?cl" "\<forall>c. reported x = Some c \<longrightarrow> c = fst (?cl ! j)" "\<forall>n. waited x = Some n \<longrightarrow> has_bucket (?lims ! j) n"
      using inv unfolding clients_inv_def Let_def by blast+
    with old show ?thesis by blast
  next
    case False
    with that have "j = i" "x \<in> set ys" by auto
    with i own(2,3) ev(3) l(2) lb(3) show ?thesis by auto
  qed
  define st' where "st' = st\<lparr>cs_heap := h, cs_trace := cs_trace st @ map (Pair i) xs\<rparr>"
  have st': "cs_clients st' = ?cl" "h_limiters (cs_heap st') = ?lims[i := r1]" "h_buckets (cs_heap st') = rl_buckets r1"
    "h_configs (cs_heap st') = h_configs ?h" "cs_trace st' = cs_trace st @ map (Pair i) ys"
    by (simp_all add: st'_def h xs)
  have "clients_inv namespace (evs @ [Request i req]) st'"
    unfolding clients_inv_def Let_def st'
  proof (intro conjI)
    show "\<forall>j<length ?cl. \<forall>n. has_bucket (?lims[i := r1] ! j) n \<longrightarrow> n < rl_buckets r1"
      using new below le by fastforce
    show "\<forall>j<length ?cl. \<forall>k<length ?cl. \<forall>n. has_bucket (?lims[i := r1] ! j) n \<longrightarrow> has_bucket (?lims[i := r1] ! k) n \<longrightarrow> j = k"
      using new apart below by blast
    show "\<forall>j x. (j, x) \<in> set (cs_trace st @ map (Pair i) ys) \<longrightarrow>
        j < length ?cl \<and> (\<forall>c. reported x = Some c \<longrightarrow> c = fst (?cl ! j)) \<and> (\<forall>n. waited x = Some n \<longrightarrow> has_bucket (?lims[i := r1] ! j) n)"
      using uses by blast
    show "\<forall>j. length (filter (\<lambda>p. fst p = j \<and> waited (snd p) \<noteq> None) (cs_trace st @ map (Pair i) ys)) \<le> length (filter (is_request j) (evs @ [Request i req]))"
    proof
      fix j
      show "length (filter (\<lambda>p. fst p = j \<and> waited (snd p) \<noteq> None) (cs_trace st @ map (Pair i) ys)) \<le> length (filter (is_request j) (evs @ [Request i req]))"
        using add_mono [OF count [of j] waits [of j]] by (simp del: filter_map split: if_splits)
    qed
  qed (use inv i own lb(1) in \<open>auto simp: clients_inv_def Let_def nth_list_update\<close>)
  then show ?thesis by (simp add: st'_def)
qed

lemma core_clients_inv: "clients_inv namespace [] (core_clients namespace qps burst)"
proof -
  let ?st = "\<lparr>cs_clients = [], cs_heap = base_heap, cs_trace = []\<rparr>"
  have base: "clients_inv namespace [] ?st" by (simp add: clients_inv_def base_heap_def)
  obtain c h where w: "wireComponentConfig namespace qps burst 0 (cs_heap ?st) ''core-controller'' = (c, h)" by fastforce
  note i = clients_inv_wired [OF base w]
  have one: "clients_inv namespace [] (new_client ''core-controller'' c (?st\<lparr>cs_heap := h\<rparr>))"
    using clients_inv_new [OF i(1)] i(2) by simp
  have "h_configs (cs_heap (new_client ''core-controller'' c (?st\<lparr>cs_heap := h\<rparr>))) ! c = component_config namespace qps burst ''core-controller''"
    using i(2) component_client [OF i(2)] by (simp add: new_client_def)
  from clients_inv_new [OF one this] w show ?thesis by (simp add: core_clients_def)
qed

lemma clients_run_inv: "clients_inv namespace evs (clients_run envs rejects namespace qps burst evs)"
proof (induction evs rule: rev_induct)
  case Nil
  show ?case by (simp add: clients_run_def core_clients_inv)
next
  case (snoc e evs)
  let ?st = "clients_run envs rejects namespace qps burst evs"
  have run: "clients_run envs rejects namespace qps burst (evs @ [e]) = client_step envs rejects namespace qps burst ?st e"
    by (simp add: clients_run_def)
  show ?case
  proof (cases e)
    case (Connect component)
    obtain c h where w: "wireComponentConfig namespace qps burst 0 (cs_heap ?st) component = (c, h)" by fastforce
    note i = clients_inv_wired [OF snoc w]
    have "clients_inv namespace evs (new_client component c (?st\<lparr>cs_heap := h\<rparr>))" using clients_inv_new [OF i(1)] i(2) by simp
    with w show ?thesis unfolding run unfolding Connect by (simp add: newDedicatedKubeClient_def clients_inv_def)
  next
    case (Request i req)
    show ?thesis
    proof (cases "i < length (cs_clients ?st)")
      case True
      obtain resp h xs where t: "transport_of (envs ?st) rejects (snd (cs_clients ?st ! i)) (cs_heap ?st) [] req = (resp, h, xs)"
        by (cases "transport_of (envs ?st) rejects (snd (cs_clients ?st ! i)) (cs_heap ?st) [] req")
      from clients_inv_request [OF snoc True t] True t show ?thesis unfolding run unfolding Request by simp
    next
      case False
      then show ?thesis using snoc unfolding run unfolding Request by (auto simp: clients_inv_def Let_def intro: le_SucI)
    qed
  qed
qed

section \<open>Properties\<close>

text \<open>C38: The API clients share no token bucket. Whatever clients are built and whatever requests they make, in any order and with any answers: no two
  clients ever wait for the same token bucket, so the requests of one use up no token of another; a request waits for at most one bucket; what a client does is counted in
  the metrics for its own component; and the configuration all of them are copied from is never changed.\<close>
theorem components_share_no_bucket:
  "let st = clients_run envs rejects namespace qps burst evs in
     (\<forall>i j n. (i, AWait n) \<in> set (cs_trace st) \<longrightarrow> (j, AWait n) \<in> set (cs_trace st) \<longrightarrow> i = j) \<and>
     (\<forall>i. length (filter (\<lambda>p. fst p = i \<and> waited (snd p) \<noteq> None) (cs_trace st)) \<le> length (filter (is_request i) evs)) \<and>
     (\<forall>i x c. (i, x) \<in> set (cs_trace st) \<longrightarrow> reported x = Some c \<longrightarrow> c = fst (cs_clients st ! i)) \<and>
     h_configs (cs_heap st) ! 0 = \<lparr>rst_own_limiter = True, rst_layers = []\<rparr>"
proof -
  define st where "st = clients_run envs rejects namespace qps burst evs"
  have inv: "clients_inv namespace evs st" unfolding st_def by (rule clients_run_inv)
  have "i = j" if "(i, AWait n) \<in> set (cs_trace st)" "(j, AWait n) \<in> set (cs_trace st)" for i j n
  proof -
    have "i < length (cs_clients st)" "has_bucket (h_limiters (cs_heap st) ! i) n" "j < length (cs_clients st)"
      "has_bucket (h_limiters (cs_heap st) ! j) n"
      using inv that unfolding clients_inv_def Let_def by (metis waited.simps(1))+
    with inv show ?thesis unfolding clients_inv_def Let_def by blast
  qed
  with inv show ?thesis unfolding clients_inv_def Let_def st_def [symmetric] by (metis nth_Cons_0)
qed

definition demo_flood :: "client_event list" where
  "demo_flood = [Connect ''pod-eviction'', Request 2 demo_request, Request 2 demo_request, Request 0 demo_request]"

theorem components_share_no_bucket_witness:
  "map (\<lambda>p. (fst p, waited (snd p))) (filter (\<lambda>p. waited (snd p) \<noteq> None) (cs_trace (clients_run (\<lambda>_. demo_api) (\<lambda>_. None) ''ns'' 5 10 demo_flood)))
     = [(2, Some 0), (2, Some 0), (0, Some 1)] \<and>
   (0, AWait 0) \<notin> set (cs_trace (clients_run (\<lambda>_. demo_api) (\<lambda>_. None) ''ns'' 5 10 demo_flood))"
proof -
  let ?tr = "cs_trace (clients_run (\<lambda>_. demo_api) (\<lambda>_. None) ''ns'' 5 10 demo_flood)"
  have "(2, AWait 0) \<in> set ?tr" by code_simp
  moreover have "(i, AWait 0) \<in> set ?tr \<longrightarrow> (2, AWait 0) \<in> set ?tr \<longrightarrow> i = 2" for i
    using components_share_no_bucket [where envs = "\<lambda>_. demo_api" and rejects = "\<lambda>_. None" and namespace = "''ns''" and qps = 5 and burst = 10
        and evs = demo_flood] unfolding Let_def by blast
  ultimately have "(0, AWait 0) \<notin> set ?tr" by (metis zero_neq_numeral)
  moreover have "map (\<lambda>p. (fst p, waited (snd p))) (filter (\<lambda>p. waited (snd p) \<noteq> None) ?tr) = [(2, Some 0), (2, Some 0), (0, Some 1)]" by code_simp
  ultimately show ?thesis by blast
qed

end
