(* ===== verification/StatusPreview.thy ===== *)
theory StatusPreview
  imports Frontend
begin

text \<open>
  \<^verbatim>\<open>cmd/status-ui-preview\<close>: the status UI over a controller whose caches hold fixed objects. The fake clientset hands back the objects it is given;
  they are the caches of \<^const>\<open>steady_env\<close>.
\<close>

section \<open>The objects\<close>

definition demoNamespace :: string where "demoNamespace = ''mimir-dev-01''"
definition demoIngesterOldRev :: string where "demoIngesterOldRev = ''ingester-3b1e44''"
definition demoIngesterNewRev :: string where "demoIngesterNewRev = ''ingester-7f9c2a''"
definition demoStoreGatewayOldRev :: string where "demoStoreGatewayOldRev = ''store-gateway-aa11bb''"
definition demoStoreGatewayNewRev :: string where "demoStoreGatewayNewRev = ''store-gateway-cc22dd''"
definition demoCompactorRev :: string where "demoCompactorRev = ''compactor-99ee00''"

text \<open>The eviction controller of the preview approves everything.\<close>

definition demoEvictionController :: "unit ZPDBEvictionController" where
  "demoEvictionController =
     \<lparr>zc_MarkPodAsDeleted = (\<lambda>tr z ns n src ov. (Ok (), z, tr)), zc_HasPartitionAwarePdb = (\<lambda>tr z p. Ok False)\<rparr>"

interpretation preview: zpdb_controller demoEvictionController "\<lambda>z. z" "\<lambda>tr z. z" "\<lambda>z tr z' tr' ns n ov. tr' = tr \<and> z' = z"
  by unfold_locales (auto simp: demoEvictionController_def quiet_def)

definition demoStatefulSet :: "string \<Rightarrow> string \<Rightarrow> int \<Rightarrow> int \<Rightarrow> string \<Rightarrow> string \<Rightarrow> (statefulset \<Rightarrow> statefulset) list \<Rightarrow> statefulset" where
  "demoStatefulSet name grp replicas ready currentRev updateRev overrides =
     fold (\<lambda>f. f) overrides
       \<lparr>sts_ptr = 0, sts_name = name, sts_namespace = demoNamespace, sts_uid = '''', sts_generation = 0,
        sts_labels = [RolloutGroupLabelKey \<mapsto> grp], sts_annotations = [RolloutMaxUnavailableAnnotationKey \<mapsto> ''1''],
        sts_replicas = Some replicas, sts_template_labels = [''name'' \<mapsto> name], sts_service_name = name,
        sts_update_strategy = OnDelete, sts_status_replicas = replicas, sts_ready_replicas = ready,
        sts_updated_replicas = 0, sts_current_revision = currentRev, sts_update_revision = updateRev\<rparr>"

definition paused_override :: "statefulset \<Rightarrow> statefulset" where
  "paused_override s = s\<lparr>sts_annotations := (sts_annotations s)(RolloutPausedAnnotationKey \<mapsto> RolloutPausedAnnotationValue)\<rparr>"

text \<open>The name up to the last dash, the whole name if it has none.\<close>

definition before_last_dash :: "string \<Rightarrow> string" where
  "before_last_dash name =
     (if CHR ''-'' \<in> set name then rev (tl (dropWhile (\<lambda>c. c \<noteq> CHR ''-'') (rev name))) else name)"

definition demoPod :: "string \<Rightarrow> string \<Rightarrow> pod" where
  "demoPod name revision =
     \<lparr>pod_name = name, pod_namespace = demoNamespace, pod_uid = '''', pod_generation = 0,
      pod_labels = [ControllerRevisionHashLabelKey \<mapsto> revision, ''name'' \<mapsto> before_last_dash name],
      pod_deletion_timestamp = None, pod_owners = [], pod_phase = PodRunning, pod_conditions = [], pod_init_statuses = [],
      pod_statuses = [\<lparr>cs_ready = True, cs_running = True, cs_waiting = None\<rparr>]\<rparr>"

text \<open>\<^verbatim>\<open>demoObjects\<close>, StatefulSets and pods apart as the clientset keeps them.\<close>

definition demoObjects :: "statefulset list \<times> pod list" where
  "demoObjects =
     ([demoStatefulSet ''ingester-zone-a'' ''ingester'' 3 3 demoIngesterNewRev demoIngesterNewRev [],
       demoStatefulSet ''ingester-zone-b'' ''ingester'' 3 2 demoIngesterOldRev demoIngesterNewRev [],
       demoStatefulSet ''ingester-zone-c'' ''ingester'' 3 3 demoIngesterOldRev demoIngesterNewRev [],
       demoStatefulSet ''store-gateway-zone-a'' ''store-gateway'' 2 2 demoStoreGatewayOldRev demoStoreGatewayNewRev [paused_override],
       demoStatefulSet ''store-gateway-zone-b'' ''store-gateway'' 2 2 demoStoreGatewayOldRev demoStoreGatewayNewRev [],
       demoStatefulSet ''compactor-zone-a'' ''compactor'' 1 1 demoCompactorRev demoCompactorRev []],
      [demoPod ''ingester-zone-a-0'' demoIngesterNewRev, demoPod ''ingester-zone-a-1'' demoIngesterNewRev,
       demoPod ''ingester-zone-a-2'' demoIngesterNewRev, demoPod ''ingester-zone-b-0'' demoIngesterNewRev,
       demoPod ''ingester-zone-b-1'' demoIngesterOldRev, demoPod ''ingester-zone-b-2'' demoIngesterOldRev,
       demoPod ''ingester-zone-c-0'' demoIngesterOldRev, demoPod ''ingester-zone-c-1'' demoIngesterOldRev,
       demoPod ''ingester-zone-c-2'' demoIngesterOldRev,
       demoPod ''store-gateway-zone-a-0'' demoStoreGatewayOldRev, demoPod ''store-gateway-zone-a-1'' demoStoreGatewayOldRev,
       demoPod ''store-gateway-zone-b-0'' demoStoreGatewayOldRev, demoPod ''store-gateway-zone-b-1'' demoStoreGatewayOldRev,
       demoPod ''compactor-zone-a-0'' demoCompactorRev])"

text \<open>The reader of the controller: \<open>now\<close> is the time of the request.\<close>

definition newDemoController :: "instant \<Rightarrow> reader" where
  "newDemoController now = takeSnapshot (\<lambda>_. None) (steady_env now (fst demoObjects) (snd demoObjects)) demoNamespace"

text \<open>The router of \<^verbatim>\<open>main\<close>: the UI, and a redirect of the root to it.\<close>

definition redirect_to_ui :: "http_request \<Rightarrow> http_response" where
  "redirect_to_ui r =
     \<lparr>hr_code = 302, hr_headers = [(''Location'', ''/ui/''), (''Content-Type'', ''text/html; charset=utf-8'')],
      hr_body = (if hq_method r = ''GET'' then Plain (''<a href='' @ [CHR 0x22] @ ''/ui/'' @ [CHR 0x22] @ ''>Found</a>.'' @ [CHR 0x0A, CHR 0x0A]) else NoBody)\<rparr>"

definition preview_serve :: "(string \<Rightarrow> http_request \<Rightarrow> http_response) \<Rightarrow> instant \<Rightarrow> handler" where
  "preview_serve static now r tr =
     (if hq_path r = ''/'' then (Ok (redirect_to_ui r), tr) else serveUI static (newDemoController now) r tr)"

section \<open>What it shows\<close>

definition shown_phases :: "Snapshot res \<times> trace \<Rightarrow> (string \<times> Phase \<times> (string \<times> Phase) list) list" where
  "shown_phases x = (case fst x of Ok sn \<Rightarrow> map (\<lambda>g. (gr_Name g, gr_Phase g, map (\<lambda>m. (mb_Name m, mb_Phase m)) (gr_Members g))) (sn_Groups sn) | _ \<Rightarrow> [])"

text \<open>The states the comments of \<^verbatim>\<open>demoObjects\<close> promise: a zone after, in and before its rollout, a paused zone that does not block the next, a group that is done.\<close>

theorem preview_shows_every_state:
  "shown_phases (newDemoController 0 []) =
     [(''compactor'', PhaseComplete, [(''compactor-zone-a'', PhaseComplete)]),
      (''ingester'', PhaseProgressing,
       [(''ingester-zone-a'', PhaseComplete), (''ingester-zone-b'', PhaseProgressing), (''ingester-zone-c'', PhaseWaiting)]),
      (''store-gateway'', PhaseProgressing, [(''store-gateway-zone-a'', PhasePaused), (''store-gateway-zone-b'', PhaseProgressing)])]"
  by code_simp

text \<open>What the controller would do to the group with the paused zone: one pod of the other.\<close>

lemma preview_paused_zone_does_not_block:
  "(case rolloutGroup demoEvictionController (steady_env 0 (fst demoObjects) (snd demoObjects)) demoNamespace [] ()
      (deep_copies (filter (\<lambda>s. sts_labels s RolloutGroupLabelKey = Some ''store-gateway'') (fst demoObjects))) of
      (r, z, tr) \<Rightarrow> (r, deletions tr)) = (Ok (), [(demoNamespace, ''store-gateway-zone-b-0'')])"
  by code_simp

end
