(* ===== verification/MockService.thy ===== *)
theory MockService
  imports Prelude
begin

text \<open>
  \<^verbatim>\<open>integration/mock-service/main.go\<close>: the service the integration tests run in the pods, two probes that requests switch on and off. The listening server and the log
  are not modelled; paths are clean, and \<^verbatim>\<open>PREFIX\<close> is a clean path.
\<close>

datatype probe = Ready | Alive

record mock_service =
  mk_alive :: int
  mk_ready :: int
  mk_prefix :: string

fun mk_probe :: "probe \<Rightarrow> mock_service \<Rightarrow> int" where
  "mk_probe Ready m = mk_ready m"
| "mk_probe Alive m = mk_alive m"

fun mk_store :: "probe \<Rightarrow> int \<Rightarrow> mock_service \<Rightarrow> mock_service" where
  "mk_store Ready v m = m\<lparr>mk_ready := v\<rparr>"
| "mk_store Alive v m = m\<lparr>mk_alive := v\<rparr>"

text \<open>The start of \<^verbatim>\<open>main\<close> on its environment variables; \<^term>\<open>None\<close> if it exits.\<close>

definition mock_start :: "strmap \<Rightarrow> mock_service option" where
  "mock_start env =
     (if mget env ''CRASH'' = ''true'' then None
      else Some \<lparr>mk_alive = 1, mk_ready = (if mget env ''READY'' = ''true'' then 1 else 0), mk_prefix = mget env ''PREFIX''\<rparr>)"

definition mock_route :: "mock_service \<Rightarrow> string \<Rightarrow> probe option" where
  "mock_route m path =
     (if path = ''/ready'' then Some Ready
      else if path = ''/alive'' then Some Alive
      else if mk_prefix m = '''' then None
      else if path = mk_prefix m @ ''/ready'' then Some Ready
      else if path = mk_prefix m @ ''/alive'' then Some Alive
      else None)"

definition probeHandler :: "probe \<Rightarrow> string \<Rightarrow> mock_service \<Rightarrow> int \<times> mock_service" where
  "probeHandler p mtd m =
     (if mtd = ''POST'' then (200, mk_store p 1 m)
      else if mtd = ''DELETE'' then (200, mk_store p 0 m)
      else if mtd = ''GET'' then (if mk_probe p m = 0 then 503 else 200, m)
      else (405, m))"

definition mock_serve :: "string \<times> string \<Rightarrow> mock_service \<Rightarrow> int \<times> mock_service" where
  "mock_serve r m =
     (case r of (mtd, path) \<Rightarrow> (case mock_route m path of None \<Rightarrow> (404, m) | Some p \<Rightarrow> probeHandler p mtd m))"

definition mock_run :: "(string \<times> string) list \<Rightarrow> mock_service \<Rightarrow> mock_service" where
  "mock_run rs m = foldl (\<lambda>m r. snd (mock_serve r m)) m rs"

section \<open>Properties\<close>

lemma mock_serve_prefix [simp]: "mk_prefix (snd (mock_serve r m)) = mk_prefix m"
proof -
  have "mk_prefix (mk_store p v m) = mk_prefix m" for p v by (cases p) simp_all
  then show ?thesis by (cases r) (simp add: mock_serve_def probeHandler_def split: option.splits)
qed

lemma mock_route_frame: "mk_prefix m' = mk_prefix m \<Longrightarrow> mock_route m' = mock_route m"
  by (simp add: mock_route_def fun_eq_iff)

lemma mk_probe_store [simp]: "mk_probe p (mk_store q v m) = (if p = q then v else mk_probe p m)"
  by (cases p; cases q) simp_all

lemma mock_run_prefix [simp]: "mk_prefix (mock_run rs m) = mk_prefix m"
  by (induction rs rule: rev_induct) (simp_all add: mock_run_def)

text \<open>The writes of a probe among requests, under either of its paths.\<close>

definition writes :: "mock_service \<Rightarrow> probe \<Rightarrow> (string \<times> string) list \<Rightarrow> string list" where
  "writes m p rs = map fst (filter (\<lambda>(mtd, path). mock_route m path = Some p \<and> mtd \<in> {''POST'', ''DELETE''}) rs)"

lemma mock_serve_probe:
  "mk_probe p (snd (mock_serve (mtd, path) m)) =
     (if mock_route m path = Some p \<and> mtd = ''POST'' then 1 else if mock_route m path = Some p \<and> mtd = ''DELETE'' then 0 else mk_probe p m)"
  by (cases "mock_route m path") (simp_all add: mock_serve_def probeHandler_def)

lemma writes_snoc:
  "writes m p (rs @ [(mtd, path)]) = writes m p rs @ (if mock_route m path = Some p \<and> mtd \<in> {''POST'', ''DELETE''} then [mtd] else [])"
  by (simp add: writes_def)

lemma mock_run_probe:
  "mk_probe p (mock_run rs m) = (if writes m p rs = [] then mk_probe p m else if last (writes m p rs) = ''POST'' then 1 else 0)"
proof (induction rs rule: rev_induct)
  case (snoc r rs)
  obtain mtd path where r: "r = (mtd, path)" by (cases r)
  have route: "mock_route (mock_run rs m) path = mock_route m path" using mock_route_frame [of "mock_run rs m" m] by simp
  have run: "mock_run (rs @ [r]) m = snd (mock_serve (mtd, path) (mock_run rs m))" by (simp add: mock_run_def r)
  show ?case unfolding run mock_serve_probe route unfolding r writes_snoc snoc by auto
qed (simp add: mock_run_def writes_def)

text \<open>A probe answers as it was last told. After any requests, a GET of a probe under any of its paths answers 200 if the last POST or DELETE of that probe, under
  any of its paths, was a POST, and 503 if it was a DELETE; without any it answers as at the start: alive, and ready only if told so.\<close>

theorem mock_probe_answers_last_write:
  assumes "mock_start env = Some m" and "mock_route m path = Some p"
  shows "fst (mock_serve (''GET'', path) (mock_run rs m)) =
     (if writes m p rs = [] then (if p = Alive \<or> mget env ''READY'' = ''true'' then 200 else 503)
      else if last (writes m p rs) = ''POST'' then 200 else 503)"
proof -
  have "mock_route (mock_run rs m) path = Some p" using assms(2) mock_route_frame [of "mock_run rs m" m] by simp
  moreover have "mk_probe p m = (if p = Alive \<or> mget env ''READY'' = ''true'' then 1 else 0)"
    using assms(1) by (cases p) (auto simp: mock_start_def split: if_splits)
  ultimately show ?thesis by (simp add: mock_serve_def probeHandler_def mock_run_probe)
qed

end
