(* ===== verification/Spec2Isabelle.thy ===== *)
theory Spec2Isabelle
  imports RolloutLoop RolloutStatus AdmissionServe ZoneTracker TlsCert OperatorRun Observers SelfSigned ChangelogDeps RolloutProgress ApiTransports StatusPreview MockService
begin

text \<open>
  \<^bold>\<open>A model of the rollout-operator.\<close>

  The operator coordinates the rollouts of several StatefulSets that form a \<^emph>\<open>rollout group\<close> (one StatefulSet per
  zone): pods of one zone are updated at a time, followers scale after their leader, and admission
  webhooks protect the group from downscales and evictions made by others. This library translates its Go packages
  into definitions of the same names and proves what they promise, one theory per component.

  \<^bold>\<open>Parts of the program and how they interact.\<close>

  \<^item> The \<^emph>\<open>rollout controller\<close> (\<^verbatim>\<open>pkg/controller\<close>) is woken by informer handlers and a ticker. A reconcile lists the
    StatefulSets of the namespace, groups them by a label, and for every group first adjusts replicas (at most one
    patch per group), then deletes pods that are not at the update revision, within max-unavailable, in one StatefulSet.
    Every deletion asks the eviction controller first.
  \<^item> The \<^emph>\<open>eviction controller\<close> (\<^verbatim>\<open>pkg/zpdb\<close>) answers both the rollout controller and the pod-eviction webhook from a cache of
    ZoneAwarePodDisruptionBudgets and a cache of recent evictions, which informer handlers maintain.
  \<^item> The \<^emph>\<open>admission webhooks\<close> (\<^verbatim>\<open>pkg/admission\<close>): no-downscale, prepare-downscale (with annotations or with the zone
    tracker's ConfigMap) and the validation of budgets, all behind the same HTTP code.
  \<^item> The \<^emph>\<open>status view\<close> (\<^verbatim>\<open>pkg/controller/status.go\<close>, \<^verbatim>\<open>pkg/status\<close>) recomputes from the informer caches what the reconciler would do;
    \<^verbatim>\<open>pkg/frontend\<close> serves it.
  \<^item> The \<^emph>\<open>certificates\<close> (\<^verbatim>\<open>pkg/tlscert\<close>) of the webhook server are generated, kept in a secret, checked at start and injected into the webhook
    configurations; \<^verbatim>\<open>pkg/webhooks\<close> reports their failure policies.
  \<^item> The \<^emph>\<open>process\<close> (\<^verbatim>\<open>cmd/rollout-operator\<close>) validates its flags, builds one API client per component with its own rate limits (\<^verbatim>\<open>pkg/instrumentation\<close>), runs for the
    leader election, starts the parts in order and stops them in reverse.

  \<^bold>\<open>How code becomes definitions.\<close> Pure functions are HOL functions. A Go call that may fail returns \<^typ>\<open>'a res\<close>: a value, an
  error (Kubernetes errors keep the kind that \<^verbatim>\<open>errors.IsNotFound\<close> and its siblings test) or a panic. Code with effects takes the
  environment \<^typ>\<open>env\<close>, a record of reply functions for the API server, the informer caches, the HTTP endpoints of the pods and the
  clock, and the \<^typ>\<open>trace\<close> of the calls made so far; it returns the extended trace. A reply may depend on the whole trace, so a
  theorem for every environment holds for every API server, including one that other clients change between two
  calls. Integers are unbounded \<^typ>\<open>int\<close>s with the conversions and the wrap-around of Go's \<^verbatim>\<open>int32\<close> and \<^verbatim>\<open>int64\<close> written where the code
  converts. Maps whose iteration order matters are association lists in the order of one iteration, and the
  theorems quantify over that order. Concurrency is explicit: an error group runs under a list of choices (start the next
  goroutine, let one test the context, let one return, let the deadline pass), the reconcile loop and the rate limiter are step relations, and the process and
  the budget observer run under lists of events.

  \<^bold>\<open>Theories, in the order of the imports.\<close>

  \<^item> \<^verbatim>\<open>Prelude\<close>, \<^verbatim>\<open>GoStd\<close>, \<^verbatim>\<open>GoTime\<close>: results, map reads, \<^verbatim>\<open>sort.Slice\<close>, \<^verbatim>\<open>strconv\<close>, \<^verbatim>\<open>strings\<close>, \<^verbatim>\<open>math\<close>, durations and RFC 3339 times, with the
    round trips the components need.
  \<^item> \<^verbatim>\<open>Kube\<close>: StatefulSets, pods, label selectors and their validation, the environment and its events.
  \<^item> \<^verbatim>\<open>OperatorConfig\<close>, \<^verbatim>\<open>OpUtil\<close>: \<^verbatim>\<open>pkg/config\<close>, \<^verbatim>\<open>pkg/util\<close> and the natural sort. The order of pods is total, so a sort is determined.
  \<^item> \<^verbatim>\<open>ReplicasPolicy\<close>: \<^verbatim>\<open>labels.go\<close>, \<^verbatim>\<open>replicas.go\<close>. What max-unavailable means and when a follower may scale.
  \<^item> \<^verbatim>\<open>DelayedDownscale\<close>: \<^verbatim>\<open>delay.go\<close>. Requests sent to the pods, and that only pods prepared long enough ago are removed.
  \<^item> \<^verbatim>\<open>ReplicaAdjust\<close>: the adjustment of a group, following a leader or mirroring a reference resource
    (\<^verbatim>\<open>custom_resource_replicas.go\<close>). At most one patch; convergence of followers over rounds in which their gates open and close.
  \<^item> \<^verbatim>\<open>ZpdbConfig\<close>, \<^verbatim>\<open>ZpdbCaches\<close>, \<^verbatim>\<open>ZpdbValidators\<close>, \<^verbatim>\<open>ZpdbEviction\<close>: \<^verbatim>\<open>pkg/zpdb\<close>. The parser of budgets and its invariant; the two caches under any
    sequence of informer events; the zone and the partition validator; the handler and the call of the rollout controller.
  \<^item> \<^verbatim>\<open>RolloutPods\<close>, \<^verbatim>\<open>RolloutController\<close>, \<^verbatim>\<open>RolloutLoop\<close>: \<^verbatim>\<open>controller.go\<close>, \<^verbatim>\<open>replica_template_observer.go\<close>. One StatefulSet, one group, all groups
    with the metrics, and the loop with its flag under every interleaving.
  \<^item> \<^verbatim>\<open>RolloutStatus\<close>: \<^verbatim>\<open>status.go\<close>, \<^verbatim>\<open>model.go\<close>. The displayed zone is the one the reconciler works on.
  \<^item> \<^verbatim>\<open>RolloutProgress\<close>: reconciles of a group in a closed loop with a cluster that recreates what they delete. A rollout that nothing holds back ends.
  \<^item> \<^verbatim>\<open>Frontend\<close>, \<^verbatim>\<open>StatusPreview\<close>: \<^verbatim>\<open>frontend.go\<close> and \<^verbatim>\<open>cmd/status-ui-preview\<close>. The pages only read; the preview shows the states its comments promise.
  \<^item> \<^verbatim>\<open>ErrGroup\<close>: \<^verbatim>\<open>errgroup.Group\<close> with a limit and the deadline of the caller, its schedules and the facts that hold for each of them.
  \<^item> \<^verbatim>\<open>Admission\<close>, \<^verbatim>\<open>AdmissionServe\<close>: \<^verbatim>\<open>no_downscale.go\<close>, \<^verbatim>\<open>zpdb_validating_webhook.go\<close>, \<^verbatim>\<open>serve.go\<close>, \<^verbatim>\<open>convert.go\<close>.
  \<^item> \<^verbatim>\<open>PrepareDownscale\<close>, \<^verbatim>\<open>ZoneTracker\<close>: \<^verbatim>\<open>prep_downscale.go\<close>, \<^verbatim>\<open>zone_tracker.go\<close>. An allowed downscale is prepared and recorded, a failed one is
    undone unless the request has run out of time, a second zone is refused, and the webhook answers.
  \<^item> \<^verbatim>\<open>TlsCert\<close>, \<^verbatim>\<open>SelfSigned\<close>: \<^verbatim>\<open>pkg/tlscert\<close>, \<^verbatim>\<open>webhook_collector.go\<close>. Only a valid certificate is served, with its restart scheduled; each configuration gets its CA bundle
    once; what the generated certificate is and when its CA expires.
  \<^item> \<^verbatim>\<open>ApiClient\<close>, \<^verbatim>\<open>ApiTransports\<close>: \<^verbatim>\<open>pkg/instrumentation\<close> and the wiring in \<^verbatim>\<open>main.go\<close>. One bucket per API group under every interleaving, none shared between
    clients, whose configurations and limiters are objects in a heap; the labels of a request.
  \<^item> \<^verbatim>\<open>OperatorFlags\<close>, \<^verbatim>\<open>OperatorRun\<close>: the flags and their validation, the start-up, the leader election and the shutdown in \<^verbatim>\<open>main.go\<close>, under every schedule of
    its goroutines.
  \<^item> \<^verbatim>\<open>Observers\<close>: how the informers of all parts start, and the readiness of the budget observer.
  \<^item> \<^verbatim>\<open>ChangelogDeps\<close>, \<^verbatim>\<open>MockService\<close>: the changelog tool, whose second run changes nothing, and the service of the integration tests.

  \<^bold>\<open>Interfaces.\<close> Where a component relies on another, the contract is a locale, and the model of the provider interprets it.
  \<^verbatim>\<open>pending_evictions\<close> (interpreted by the eviction cache) gives the lifetime of a recorded eviction; \<^verbatim>\<open>pdb_validator\<close> (by the zone
  and the partition validator) gives the budget theorem of the eviction handler once for both: the disruption a validator accepted is the
  one of a pod listing made during the request, with the evictions recorded before it; \<^verbatim>\<open>zpdb_controller\<close>
  (by the eviction controller, and by the one of the preview) is what the pod rollout relies on: what a deletion that was not refused
  has been approved on, what it leaves recorded, and that a refusal records nothing; \<^verbatim>\<open>errgroup_work\<close> (by the prepare requests and by their undoing) states that every
  item of a drained group was worked on or a failure was recorded.

  \<^bold>\<open>Recursion, bounds and schedules.\<close> Every function is total, except the draining of an error group. The loops over lists are structural; the parsers of durations, the
  splitting of names and the natural sort end by the length of the input. A schedule of an error group may be too short or
  contain choices that are not enabled: disabled choices are skipped, and what is left when the list is used up is drained in a fixed order. The draining is a
  partial function: with a limit of 0 it has no result, as \<^verbatim>\<open>Go\<close> blocks for ever then; with a positive limit it returns under every schedule, by a measure that counts the
  items by the stages before them, and that the webhook answers is proved from this. The runs of the process (\<^verbatim>\<open>op_run\<close>), of
  the budget observer (\<^verbatim>\<open>co_run\<close>) and of the API clients (\<^verbatim>\<open>clients_run\<close>) are folds over an arbitrary finite list of events; an event that is not enabled is skipped, so the theorems cover
  every prefix of every execution. \<^verbatim>\<open>rollout_rounds\<close> iterates a reconcile a given number of times, and its theorem says which number is enough;
  \<^verbatim>\<open>adjust_rounds\<close> is the relation of any number of replica adjustments with changes of the cluster between them.

  \<^bold>\<open>Parameters.\<close> The decoders and encoders of JSON and of the API machinery, the compiler and matcher of regular expressions, the discovery
  client, the parser of \<^verbatim>\<open>go.mod\<close>, key generation and signing, the token bucket, the network and the elector are functions of the environment or events of a run, with what the code
  relies on (decoding what was encoded, parsing what was signed) as hypotheses of the theorems that need it.

  \<^bold>\<open>Not modelled.\<close> Log lines, tracing spans and the text of times printed in messages; the templates and static files of \<^verbatim>\<open>pkg/frontend\<close>; the construction of
  Prometheus collectors and of the API machinery's scheme (\<^verbatim>\<open>metrics.go\<close>, \<^verbatim>\<open>scheme.go\<close>) and of the listening servers (\<^verbatim>\<open>server.go\<close>, \<^verbatim>\<open>tls_server.go\<close>), which only call
  libraries: whether a listener starts is an outcome of the run. The lease protocol of the leader election and the informers are client-go.
\<close>

end
